(* ===== verification/Prelude.thy ===== *)
theory Prelude
  imports Main "HOL-Library.Word" "HOL-Library.State_Monad"
begin

text \<open>
  What every component of the development shares: the machine integers of the target
  (a 32-bit little-endian Android device), their memory images, network byte order, raw
  memory buffers, C's truncation of a character array, and two interfaces,
  \<^verbatim>\<open>byte_order\<close> (a swap that undoes itself) and \<^verbatim>\<open>codec\<close> (a value and its memory image).
\<close>

section \<open>Machine integers and collections of facts\<close>

type_synonym u8 = "8 word"
type_synonym u16 = "16 word"
type_synonym u32 = "32 word"
type_synonym bytes = "u8 list"

named_theorems mem_simps \<open>reading back what was written to a memory image\<close>
named_theorems run_simps \<open>executing one operation of a component's model\<close>

abbreviation ret :: "'a \<Rightarrow> ('s, 'a) state" where
  "ret \<equiv> State_Monad.return"

section \<open>Memory images of 16 and 32 bit values (little endian)\<close>

definition lo8 :: "u16 \<Rightarrow> u8" where
  "lo8 w = ucast w"

definition hi8 :: "u16 \<Rightarrow> u8" where
  "hi8 w = ucast (drop_bit 8 w)"

definition mk16 :: "u8 \<Rightarrow> u8 \<Rightarrow> u16" where
  "mk16 a b = ucast a + 256 * ucast b"

definition byte_of :: "nat \<Rightarrow> u32 \<Rightarrow> u8" where
  "byte_of i w = ucast (drop_bit (8 * i) w)"

definition mk32 :: "u8 \<Rightarrow> u8 \<Rightarrow> u8 \<Rightarrow> u8 \<Rightarrow> u32" where
  "mk32 a b c d = ucast a + 2 ^ 8 * ucast b + 2 ^ 16 * ucast c + 2 ^ 24 * ucast d"

definition bytes16 :: "u16 \<Rightarrow> bytes" where
  "bytes16 w = [lo8 w, hi8 w]"

definition bytes32 :: "u32 \<Rightarrow> bytes" where
  "bytes32 w = [byte_of 0 w, byte_of 1 w, byte_of 2 w, byte_of 3 w]"

lemma unat_u8_less [simp]: "unat (w :: u8) < 256"
  using unsigned_less [of w] by simp

lemma unat_u16_less [simp]: "unat (w :: u16) < 65536"
  using unsigned_less [of w] by simp

lemma unat_u32_less [simp]: "unat (w :: u32) < 4294967296"
  using unsigned_less [of w] by simp

lemma horner_mod: "a < 256 \<Longrightarrow> (a + 256 * n) mod 256 = (a :: nat)"
  by simp

lemma horner_div: "a < 256 \<Longrightarrow> (a + 256 * n) div 256 = (n :: nat)"
  by simp

lemma unat_mk16: "unat (mk16 a b) = unat a + 256 * unat b"
proof -
  have "unat a < 256" "unat b < 256" by simp_all
  then have "unat a + 256 * unat b < 65536" by linarith
  then show ?thesis
    by (simp add: mk16_def unat_word_ariths unsigned_ucast_eq take_bit_eq_mod mod_simps)
qed

lemma unat_lo8: "unat (lo8 w) = unat w mod 256"
  by (simp add: lo8_def unsigned_ucast_eq take_bit_eq_mod)

lemma unat_hi8: "unat (hi8 w) = unat w div 256"
proof -
  have "unat w < 65536" by simp
  then have "unat w div 256 < 256" by (simp add: less_mult_imp_div_less)
  then show ?thesis
    unfolding hi8_def unsigned_ucast_eq unat_drop_bit_eq take_bit_eq_mod
    unfolding drop_bit_eq_div by simp
qed

lemma mk16_lo_hi [simp]: "mk16 (lo8 w) (hi8 w) = w"
  by (simp add: word_unat_eq_iff unat_mk16 unat_lo8 unat_hi8)

lemma lo8_mk16 [simp]: "lo8 (mk16 a b) = a"
  by (simp add: word_unat_eq_iff unat_mk16 unat_lo8)

lemma hi8_mk16 [simp]: "hi8 (mk16 a b) = b"
  by (simp add: word_unat_eq_iff unat_mk16 unat_hi8)

lemma unat_mk32:
  "unat (mk32 a b c d) = unat a + 256 * (unat b + 256 * (unat c + 256 * unat d))"
proof -
  have "unat a < 256" "unat b < 256" "unat c < 256" "unat d < 256" by simp_all
  then have "unat a + 256 * unat b + 65536 * unat c + 16777216 * unat d < 4294967296" by linarith
  then show ?thesis
    by (simp add: mk32_def unat_word_ariths unsigned_ucast_eq take_bit_eq_mod mod_simps
        distrib_left add.assoc)
qed

lemma unat_byte_of: "unat (byte_of i w) = unat w div 256 ^ i mod 256"
proof -
  have "(2 :: nat) ^ (8 * i) = 256 ^ i" by (simp add: power_mult)
  then show ?thesis
    unfolding byte_of_def unsigned_ucast_eq unat_drop_bit_eq take_bit_eq_mod
    unfolding drop_bit_eq_div by simp
qed

lemma byte_of_numeral:
  "unat (byte_of 0 w) = unat w mod 256"
  "unat (byte_of 1 w) = unat w div 256 mod 256"
  "unat (byte_of 2 w) = unat w div 256 div 256 mod 256"
  "unat (byte_of 3 w) = unat w div 256 div 256 div 256 mod 256"
  by (simp_all add: unat_byte_of div_mult2_eq [symmetric])

lemma mk32_byte_of [simp]: "mk32 (byte_of 0 w) (byte_of 1 w) (byte_of 2 w) (byte_of 3 w) = w"
proof -
  have split: "n mod 256 + 256 * (n div 256) = n" for n :: nat by simp
  have "unat w div 256 div 256 div 256 < 256"
    using unat_u32_less [of w] by (simp add: div_mult2_eq [symmetric] less_mult_imp_div_less)
  then show ?thesis
    unfolding word_unat_eq_iff unat_mk32 byte_of_numeral by (simp only: mod_less split)
qed

lemma byte_of_mk32 [simp]:
  "byte_of 0 (mk32 a b c d) = a" "byte_of 1 (mk32 a b c d) = b"
  "byte_of 2 (mk32 a b c d) = c" "byte_of 3 (mk32 a b c d) = d"
  unfolding word_unat_eq_iff byte_of_numeral unat_mk32
  by (simp_all only: horner_mod horner_div unat_u8_less mod_less)

lemmas byte_of_mk32_Suc [simp] = byte_of_mk32(2) [unfolded One_nat_def]
lemmas mk32_byte_of_Suc [simp] = mk32_byte_of [unfolded One_nat_def]

lemma length_bytes16 [simp]: "length (bytes16 w) = 2"
  by (simp add: bytes16_def)

lemma length_bytes32 [simp]: "length (bytes32 w) = 4"
  by (simp add: bytes32_def)

section \<open>Network byte order\<close>

text \<open>\<open>htons\<close>, \<open>htonl\<close> and their inverses on a little-endian host swap the bytes.\<close>

definition htons :: "u16 \<Rightarrow> u16" where
  "htons w = mk16 (hi8 w) (lo8 w)"

definition htonl :: "u32 \<Rightarrow> u32" where
  "htonl w = mk32 (byte_of 3 w) (byte_of 2 w) (byte_of 1 w) (byte_of 0 w)"

abbreviation ntohs :: "u16 \<Rightarrow> u16" where "ntohs \<equiv> htons"
abbreviation ntohl :: "u32 \<Rightarrow> u32" where "ntohl \<equiv> htonl"

locale byte_order =
  fixes swap :: "'w \<Rightarrow> 'w"
  assumes swap_swap: "swap (swap w) = w"
begin

lemma swap_inject: "swap v = swap w \<longleftrightarrow> v = w"
  by (metis swap_swap)

lemma swap_eq_iff: "swap v = w \<longleftrightarrow> v = swap w"
  by (metis swap_swap)

end

interpretation bo16: byte_order htons
  by unfold_locales (simp add: htons_def)

interpretation bo32: byte_order htonl
  by unfold_locales (simp add: htonl_def)

declare bo16.swap_swap [simp] bo32.swap_swap [simp]
  bo16.swap_inject [simp] bo32.swap_inject [simp]

section \<open>Raw memory buffers\<close>

text \<open>
  A buffer is the list of its bytes. Every use states how long the list is; the model never
  reads a position outside it without a bound that makes the read well defined.
\<close>

definition get16 :: "bytes \<Rightarrow> nat \<Rightarrow> u16" where
  "get16 b i = mk16 (b ! i) (b ! (i + 1))"

definition get32 :: "bytes \<Rightarrow> nat \<Rightarrow> u32" where
  "get32 b i = mk32 (b ! i) (b ! (i + 1)) (b ! (i + 2)) (b ! (i + 3))"

definition memcpy_at :: "bytes \<Rightarrow> nat \<Rightarrow> bytes \<Rightarrow> bytes" where
  "memcpy_at dst i src = take i dst @ src @ drop (i + length src) dst"

lemma length_memcpy_at [simp]:
  "i + length src \<le> length dst \<Longrightarrow> length (memcpy_at dst i src) = length dst"
  by (simp add: memcpy_at_def)

lemma memcpy_at_0 [simp]: "length src = length dst \<Longrightarrow> memcpy_at dst 0 src = src"
  by (simp add: memcpy_at_def)

lemma take_memcpy_at [mem_simps]:
  "i \<le> length dst \<Longrightarrow> take i (memcpy_at dst i src) = take i dst"
  by (simp add: memcpy_at_def)

lemma drop_memcpy_at [mem_simps]:
  "i + length src \<le> length dst \<Longrightarrow>
   drop (i + length src) (memcpy_at dst i src) = drop (i + length src) dst"
  by (simp add: memcpy_at_def)

lemma mid_memcpy_at [mem_simps]:
  "i \<le> length dst \<Longrightarrow> take (length src) (drop i (memcpy_at dst i src)) = src"
  by (simp add: memcpy_at_def)

lemma get16_bytes16 [mem_simps]: "get16 (pre @ bytes16 w @ post) (length pre) = w"
  by (simp add: get16_def bytes16_def nth_append)

lemma get32_bytes32 [mem_simps]: "get32 (pre @ bytes32 w @ post) (length pre) = w"
  by (simp add: get32_def bytes32_def nth_append)

section \<open>A value and its memory image\<close>

locale codec =
  fixes enc :: "'a \<Rightarrow> bytes" and dec :: "bytes \<Rightarrow> 'a" and wf :: "'a \<Rightarrow> bool" and sz :: nat
  assumes enc_length: "wf x \<Longrightarrow> length (enc x) = sz"
    and dec_enc: "wf x \<Longrightarrow> dec (enc x) = x"
begin

lemma enc_inject: "wf x \<Longrightarrow> wf y \<Longrightarrow> enc x = enc y \<longleftrightarrow> x = y"
  by (metis dec_enc)

lemma dec_take: "wf x \<Longrightarrow> dec (take sz (enc x @ rest)) = x"
  by (simp add: enc_length dec_enc)

lemma dec_after: "wf x \<Longrightarrow> length pre = n \<Longrightarrow> dec (take sz (drop n (pre @ enc x @ rest))) = x"
  by (simp add: enc_length dec_enc)

lemma dec_memcpy_at:
  "wf x \<Longrightarrow> i + sz \<le> length dst \<Longrightarrow> dec (take sz (drop i (memcpy_at dst i (enc x)))) = x"
  using mid_memcpy_at [of i dst "enc x"] by (simp add: enc_length dec_enc)

end

interpretation c16: codec bytes16 "\<lambda>b. get16 b 0" "\<lambda>_. True" 2
  by unfold_locales (simp_all add: get16_def bytes16_def)

interpretation c32: codec bytes32 "\<lambda>b. get32 b 0" "\<lambda>_. True" 4
  by unfold_locales (simp_all add: get32_def bytes32_def)

section \<open>Character arrays\<close>

text \<open>
  A C string is its characters up to the terminating NUL, which is not part of the list.
  \<open>strncpy (ifr_name, name, n); ifr_name[n - 1] = 0\<close> keeps at most \<open>n - 1\<close> characters.
\<close>

definition bounded_copy :: "nat \<Rightarrow> string \<Rightarrow> string" where
  "bounded_copy n s = take (n - 1) s"

lemma length_bounded_copy: "0 < n \<Longrightarrow> length (bounded_copy n s) < n"
  by (simp add: bounded_copy_def)

lemma bounded_copy_id: "length s < n \<Longrightarrow> bounded_copy n s = s"
  by (simp add: bounded_copy_def)

section \<open>Results that exist\<close>

text \<open>A routine in the option monad has a result when each of its steps has one.\<close>

named_theorems total_intros \<open>a computation in the option monad has a result\<close>

lemma total_Some [total_intros]: "Some x \<noteq> None"
  by simp

lemma total_bind [total_intros]:
  "m \<noteq> None \<Longrightarrow> (\<And>x. m = Some x \<Longrightarrow> f x \<noteq> None) \<Longrightarrow> Option.bind m f \<noteq> None"
  by (cases m) simp_all

lemma total_if [total_intros]:
  "(b \<Longrightarrow> m \<noteq> None) \<Longrightarrow> (\<not> b \<Longrightarrow> n \<noteq> None) \<Longrightarrow> (if b then m else n) \<noteq> None"
  by simp

lemma total_Let [total_intros]: "f x \<noteq> None \<Longrightarrow> Let x f \<noteq> None"
  by simp

lemma total_prod [total_intros]: "(\<And>x y. z = (x, y) \<Longrightarrow> f x y \<noteq> None) \<Longrightarrow> (case z of (x, y) \<Rightarrow> f x y) \<noteq> None"
  by (cases z) simp

section \<open>Checked accesses\<close>

text \<open>
  Reads and writes of an array that have no result outside it: \<open>b[i]\<close>, \<open>b[i] = v\<close>, and \<open>memcpy\<close>
  of \<open>n\<close> bytes from and to the position \<open>i\<close>. What is written with them in the option monad has a
  result exactly when none of its accesses leaves its array.
\<close>

definition rd :: "'a list \<Rightarrow> nat \<Rightarrow> 'a option" where
  "rd b i = (if i < length b then Some (b ! i) else None)"

definition wr :: "'a list \<Rightarrow> nat \<Rightarrow> 'a \<Rightarrow> 'a list option" where
  "wr b i v = (if i < length b then Some (b[i := v]) else None)"

definition rd_n :: "'a list \<Rightarrow> nat \<Rightarrow> nat \<Rightarrow> 'a list option" where
  "rd_n b i n = (if i + n \<le> length b then Some (take n (drop i b)) else None)"

definition wr_n :: "bytes \<Rightarrow> nat \<Rightarrow> bytes \<Rightarrow> bytes option" where
  "wr_n b i src = (if i + length src \<le> length b then Some (memcpy_at b i src) else None)"

lemma rd_inside: "i < length b \<Longrightarrow> rd b i = Some (b ! i)"
  by (simp add: rd_def)

lemma wr_inside: "i < length b \<Longrightarrow> wr b i v = Some (b[i := v])"
  by (simp add: wr_def)

lemma rd_n_inside: "i + n \<le> length b \<Longrightarrow> rd_n b i n = Some (take n (drop i b))"
  by (simp add: rd_n_def)

lemma wr_n_inside: "i + length src \<le> length b \<Longrightarrow> wr_n b i src = Some (memcpy_at b i src)"
  by (simp add: wr_n_def)

lemma set_memcpy_at: "x \<in> set src \<Longrightarrow> x \<in> set (memcpy_at b i src)"
  by (simp add: memcpy_at_def)

end
