(* ===== verification/Dhcpmsg.thy ===== *)
theory Dhcpmsg
  imports Prelude
begin

text \<open>
  \<^verbatim>\<open>test_wifi/libnetutils/dhcpmsg.h\<close> and \<^verbatim>\<open>dhcpmsg.c\<close>: the DHCP message, its memory image
  (which is what goes over the wire), and the two messages the client builds, DISCOVER and
  REQUEST. The option area is written through a cursor, as the code writes through the
  pointer \<open>x\<close>; every store, and the copy of the hardware address, is checked against its array.
\<close>

section \<open>The message (dhcpmsg.h)\<close>

record dhcp_msg =
  m_op :: u8
  m_htype :: u8
  m_hlen :: u8
  m_hops :: u8
  m_xid :: u32
  m_secs :: u16
  m_flags :: u16
  m_ciaddr :: u32
  m_yiaddr :: u32
  m_siaddr :: u32
  m_giaddr :: u32
  m_chaddr :: bytes
  m_sname :: bytes
  m_file :: bytes
  m_options :: bytes

definition OP_BOOTREQUEST :: u8 where "OP_BOOTREQUEST = 1"
definition OP_BOOTREPLY :: u8 where "OP_BOOTREPLY = 2"
definition FLAGS_BROADCAST :: u16 where "FLAGS_BROADCAST = 0x8000"
definition HTYPE_ETHER :: u8 where "HTYPE_ETHER = 1"
definition DHCP_MSG_FIXED_SIZE :: nat where "DHCP_MSG_FIXED_SIZE = 236"
definition PORT_BOOTP_SERVER :: u16 where "PORT_BOOTP_SERVER = 67"
definition PORT_BOOTP_CLIENT :: u16 where "PORT_BOOTP_CLIENT = 68"

definition OPT_COOKIE1 :: u8 where "OPT_COOKIE1 = 0x63"
definition OPT_COOKIE2 :: u8 where "OPT_COOKIE2 = 0x82"
definition OPT_COOKIE3 :: u8 where "OPT_COOKIE3 = 0x53"
definition OPT_COOKIE4 :: u8 where "OPT_COOKIE4 = 0x63"
definition OPT_PAD :: u8 where "OPT_PAD = 0"
definition OPT_SUBNET_MASK :: u8 where "OPT_SUBNET_MASK = 1"
definition OPT_GATEWAY :: u8 where "OPT_GATEWAY = 3"
definition OPT_DNS :: u8 where "OPT_DNS = 6"
definition OPT_DOMAIN_NAME :: u8 where "OPT_DOMAIN_NAME = 15"
definition OPT_BROADCAST_ADDR :: u8 where "OPT_BROADCAST_ADDR = 28"
definition OPT_REQUESTED_IP :: u8 where "OPT_REQUESTED_IP = 50"
definition OPT_LEASE_TIME :: u8 where "OPT_LEASE_TIME = 51"
definition OPT_MESSAGE_TYPE :: u8 where "OPT_MESSAGE_TYPE = 53"
definition OPT_SERVER_ID :: u8 where "OPT_SERVER_ID = 54"
definition OPT_PARAMETER_LIST :: u8 where "OPT_PARAMETER_LIST = 55"
definition OPT_MESSAGE :: u8 where "OPT_MESSAGE = 56"
definition OPT_END :: u8 where "OPT_END = 255"

definition DHCPDISCOVER :: int where "DHCPDISCOVER = 1"
definition DHCPOFFER :: int where "DHCPOFFER = 2"
definition DHCPREQUEST :: int where "DHCPREQUEST = 3"
definition DHCPDECLINE :: int where "DHCPDECLINE = 4"
definition DHCPACK :: int where "DHCPACK = 5"
definition DHCPNAK :: int where "DHCPNAK = 6"
definition DHCPRELEASE :: int where "DHCPRELEASE = 7"
definition DHCPINFORM :: int where "DHCPINFORM = 8"

lemmas op_consts = OP_BOOTREQUEST_def OP_BOOTREPLY_def FLAGS_BROADCAST_def HTYPE_ETHER_def
  DHCP_MSG_FIXED_SIZE_def PORT_BOOTP_SERVER_def PORT_BOOTP_CLIENT_def

lemmas opt_consts = OPT_COOKIE1_def OPT_COOKIE2_def OPT_COOKIE3_def OPT_COOKIE4_def OPT_PAD_def
  OPT_SUBNET_MASK_def OPT_GATEWAY_def OPT_DNS_def OPT_DOMAIN_NAME_def OPT_BROADCAST_ADDR_def
  OPT_REQUESTED_IP_def OPT_LEASE_TIME_def OPT_MESSAGE_TYPE_def OPT_SERVER_ID_def
  OPT_PARAMETER_LIST_def OPT_MESSAGE_def OPT_END_def

lemmas type_consts = DHCPDISCOVER_def DHCPOFFER_def DHCPREQUEST_def DHCPDECLINE_def DHCPACK_def
  DHCPNAK_def DHCPRELEASE_def DHCPINFORM_def

section \<open>Memory image\<close>

definition wf_dhcp :: "dhcp_msg \<Rightarrow> bool" where
  "wf_dhcp m \<longleftrightarrow> length (m_chaddr m) = 16 \<and> length (m_sname m) = 64 \<and>
     length (m_file m) = 128 \<and> length (m_options m) = 1024"

definition dhcp_bytes :: "dhcp_msg \<Rightarrow> bytes" where
  "dhcp_bytes m =
     [m_op m, m_htype m, m_hlen m, m_hops m] @ bytes32 (m_xid m) @
     bytes16 (m_secs m) @ bytes16 (m_flags m) @
     bytes32 (m_ciaddr m) @ bytes32 (m_yiaddr m) @ bytes32 (m_siaddr m) @ bytes32 (m_giaddr m) @
     m_chaddr m @ m_sname m @ m_file m @ m_options m"

definition dhcp_of_bytes :: "bytes \<Rightarrow> dhcp_msg" where
  "dhcp_of_bytes b =
     \<lparr>m_op = b ! 0, m_htype = b ! 1, m_hlen = b ! 2, m_hops = b ! 3,
      m_xid = get32 b 4, m_secs = get16 b 8, m_flags = get16 b 10,
      m_ciaddr = get32 b 12, m_yiaddr = get32 b 16, m_siaddr = get32 b 20, m_giaddr = get32 b 24,
      m_chaddr = take 16 (drop 28 b), m_sname = take 64 (drop 44 b),
      m_file = take 128 (drop 108 b), m_options = take 1024 (drop 236 b)\<rparr>"

lemma length_dhcp_bytes: "wf_dhcp m \<Longrightarrow> length (dhcp_bytes m) = 1260"
  by (simp add: wf_dhcp_def dhcp_bytes_def)

lemma dhcp_of_bytes_dhcp_bytes: "wf_dhcp m \<Longrightarrow> dhcp_of_bytes (dhcp_bytes m) = m"
  by (simp add: wf_dhcp_def dhcp_bytes_def dhcp_of_bytes_def bytes32_def bytes16_def
      get32_def get16_def)

lemma wf_dhcp_of_bytes: "length b = 1260 \<Longrightarrow> wf_dhcp (dhcp_of_bytes b)"
  by (simp add: wf_dhcp_def dhcp_of_bytes_def)

interpretation dm: codec dhcp_bytes dhcp_of_bytes wf_dhcp 1260
  by unfold_locales (simp_all add: length_dhcp_bytes dhcp_of_bytes_dhcp_bytes)

section \<open>Building a message (dhcpmsg.c)\<close>

text \<open>\<open>*x++ = v\<close> and \<open>memcpy(x, src, n); x += n\<close> on the option area and the cursor.\<close>

type_synonym cursor = "bytes \<times> nat"

definition put :: "u8 \<Rightarrow> cursor \<Rightarrow> cursor option" where
  "put v c = (let (b, x) = c in do { b \<leftarrow> wr b x v; Some (b, x + 1) })"

definition put_bytes :: "bytes \<Rightarrow> cursor \<Rightarrow> cursor option" where
  "put_bytes src c = (let (b, x) = c in do { b \<leftarrow> wr_n b x src; Some (b, x + length src) })"

definition zero_dhcp_msg :: dhcp_msg where
  "zero_dhcp_msg =
     \<lparr>m_op = 0, m_htype = 0, m_hlen = 0, m_hops = 0, m_xid = 0, m_secs = 0, m_flags = 0,
      m_ciaddr = 0, m_yiaddr = 0, m_siaddr = 0, m_giaddr = 0,
      m_chaddr = replicate 16 0, m_sname = replicate 64 0, m_file = replicate 128 0,
      m_options = replicate 1024 0\<rparr>"

definition init_dhcp_msg :: "int \<Rightarrow> bytes \<Rightarrow> u32 \<Rightarrow> (dhcp_msg \<times> nat) option" where
  "init_dhcp_msg type hwaddr xid = do {
     let msg = zero_dhcp_msg;
     let msg = msg\<lparr>m_op := OP_BOOTREQUEST, m_htype := HTYPE_ETHER, m_hlen := 6, m_hops := 0\<rparr>;
     let msg = msg\<lparr>m_flags := htons FLAGS_BROADCAST\<rparr>;
     let msg = msg\<lparr>m_xid := xid\<rparr>;
     hw \<leftarrow> rd_n hwaddr 0 6;
     chaddr \<leftarrow> wr_n (m_chaddr msg) 0 hw;
     let msg = msg\<lparr>m_chaddr := chaddr\<rparr>;
     let c = (m_options msg, 0);
     c \<leftarrow> put OPT_COOKIE1 c;
     c \<leftarrow> put OPT_COOKIE2 c;
     c \<leftarrow> put OPT_COOKIE3 c;
     c \<leftarrow> put OPT_COOKIE4 c;
     c \<leftarrow> put OPT_MESSAGE_TYPE c;
     c \<leftarrow> put 1 c;
     c \<leftarrow> put (word_of_int type) c;
     Some (msg\<lparr>m_options := fst c\<rparr>, snd c)
   }"

definition init_dhcp_discover_msg :: "bytes \<Rightarrow> u32 \<Rightarrow> (dhcp_msg \<times> nat) option" where
  "init_dhcp_discover_msg hwaddr xid = do {
     (msg, x) \<leftarrow> init_dhcp_msg DHCPDISCOVER hwaddr xid;
     let c = (m_options msg, x);
     c \<leftarrow> put OPT_PARAMETER_LIST c;
     c \<leftarrow> put 4 c;
     c \<leftarrow> put OPT_SUBNET_MASK c;
     c \<leftarrow> put OPT_GATEWAY c;
     c \<leftarrow> put OPT_DNS c;
     c \<leftarrow> put OPT_BROADCAST_ADDR c;
     c \<leftarrow> put OPT_END c;
     Some (msg\<lparr>m_options := fst c\<rparr>, DHCP_MSG_FIXED_SIZE + snd c)
   }"

definition init_dhcp_request_msg :: "bytes \<Rightarrow> u32 \<Rightarrow> u32 \<Rightarrow> u32 \<Rightarrow> (dhcp_msg \<times> nat) option" where
  "init_dhcp_request_msg hwaddr xid ipaddr serveraddr = do {
     (msg, x) \<leftarrow> init_dhcp_msg DHCPREQUEST hwaddr xid;
     let c = (m_options msg, x);
     c \<leftarrow> put OPT_PARAMETER_LIST c;
     c \<leftarrow> put 4 c;
     c \<leftarrow> put OPT_SUBNET_MASK c;
     c \<leftarrow> put OPT_GATEWAY c;
     c \<leftarrow> put OPT_DNS c;
     c \<leftarrow> put OPT_BROADCAST_ADDR c;
     c \<leftarrow> put OPT_REQUESTED_IP c;
     c \<leftarrow> put 4 c;
     c \<leftarrow> put_bytes (bytes32 ipaddr) c;
     c \<leftarrow> put OPT_SERVER_ID c;
     c \<leftarrow> put 4 c;
     c \<leftarrow> put_bytes (bytes32 serveraddr) c;
     c \<leftarrow> put OPT_END c;
     Some (msg\<lparr>m_options := fst c\<rparr>, DHCP_MSG_FIXED_SIZE + snd c)
   }"

section \<open>What the cursor writes\<close>

text \<open>A cursor that has written \<open>pre\<close> over an array of zeros of \<open>n\<close> bytes.\<close>

definition written :: "bytes \<Rightarrow> nat \<Rightarrow> cursor" where
  "written pre n = (pre @ replicate (n - length pre) 0, length pre)"

lemma written_0: "(replicate n 0, 0) = written [] n"
  by (simp add: written_def)

lemma put_written [run_simps]:
  "length pre < n \<Longrightarrow> put v (written pre n) = Some (written (pre @ [v]) n)"
  by (cases "n - length pre") (simp_all add: put_def wr_def written_def list_update_append)

lemma put_bytes_written [run_simps]:
  "length pre + length src \<le> n \<Longrightarrow> put_bytes src (written pre n) = Some (written (pre @ src) n)"
  by (simp add: put_bytes_def wr_n_def written_def memcpy_at_def)

lemma fst_written: "fst (written pre n) = pre @ replicate (n - length pre) 0"
  by (simp add: written_def)

lemma snd_written: "snd (written pre n) = length pre"
  by (simp add: written_def)

lemma written_fst_snd: "(fst (written pre n), snd (written pre n)) = written pre n"
  by simp

definition dhcp_prefix :: "int \<Rightarrow> bytes" where
  "dhcp_prefix type = [OPT_COOKIE1, OPT_COOKIE2, OPT_COOKIE3, OPT_COOKIE4,
     OPT_MESSAGE_TYPE, 1, word_of_int type]"

definition param_list :: bytes where
  "param_list = [OPT_PARAMETER_LIST, 4, OPT_SUBNET_MASK, OPT_GATEWAY, OPT_DNS, OPT_BROADCAST_ADDR]"

definition base_msg :: "bytes \<Rightarrow> u32 \<Rightarrow> bytes \<Rightarrow> dhcp_msg" where
  "base_msg hwaddr xid opts = zero_dhcp_msg
     \<lparr>m_op := 1, m_htype := 1, m_hlen := 6, m_hops := 0, m_xid := xid, m_flags := htons 0x8000,
      m_chaddr := take 6 hwaddr @ drop (length (take 6 hwaddr)) (replicate 16 0),
      m_options := opts\<rparr>"

lemma init_dhcp_msg_eq:
  "6 \<le> length hwaddr \<Longrightarrow> init_dhcp_msg type hwaddr xid =
     Some (base_msg hwaddr xid (fst (written (dhcp_prefix type) 1024)), 7)"
  by (simp add: init_dhcp_msg_def Let_def rd_n_def wr_n_def written_0 run_simps zero_dhcp_msg_def snd_written
      dhcp_prefix_def base_msg_def op_consts memcpy_at_def)

text \<open>Without six bytes of a hardware address the copy reads past it.\<close>

lemma init_dhcp_msg_short: "length hwaddr < 6 \<Longrightarrow> init_dhcp_msg type hwaddr xid = None"
  by (simp add: init_dhcp_msg_def rd_n_def)

definition discover_options :: bytes where
  "discover_options = dhcp_prefix DHCPDISCOVER @ param_list @ [OPT_END]"

definition request_options :: "u32 \<Rightarrow> u32 \<Rightarrow> bytes" where
  "request_options ip srv = dhcp_prefix DHCPREQUEST @ param_list @
     [OPT_REQUESTED_IP, 4] @ bytes32 ip @ [OPT_SERVER_ID, 4] @ bytes32 srv @ [OPT_END]"

lemma length_dhcp_prefix: "length (dhcp_prefix type) = 7"
  by (simp add: dhcp_prefix_def)

lemma base_msg_update [simp]: "(base_msg hwaddr xid o1)\<lparr>m_options := o2\<rparr> = base_msg hwaddr xid o2"
  by (simp add: base_msg_def)

lemma base_msg_options [simp]: "m_options (base_msg hwaddr xid opts) = opts"
  by (simp add: base_msg_def)

lemma discover_msg_eq:
  assumes "6 \<le> length hwaddr"
  shows "init_dhcp_discover_msg hwaddr xid =
     Some (base_msg hwaddr xid (discover_options @ replicate 1010 0), 250)"
proof -
  have w: "(fst (written (dhcp_prefix DHCPDISCOVER) 1024), 7) = written (dhcp_prefix DHCPDISCOVER) 1024"
    by (simp add: written_def length_dhcp_prefix)
  show ?thesis
    by (simp add: init_dhcp_discover_msg_def init_dhcp_msg_eq [OF assms] Let_def w run_simps length_dhcp_prefix)
      (simp add: fst_written snd_written length_dhcp_prefix discover_options_def param_list_def op_consts)
qed

lemma request_msg_eq:
  assumes "6 \<le> length hwaddr"
  shows "init_dhcp_request_msg hwaddr xid ip srv =
     Some (base_msg hwaddr xid (request_options ip srv @ replicate 998 0), 262)"
proof -
  have w: "(fst (written (dhcp_prefix DHCPREQUEST) 1024), 7) = written (dhcp_prefix DHCPREQUEST) 1024"
    by (simp add: written_def length_dhcp_prefix)
  show ?thesis
    by (simp add: init_dhcp_request_msg_def init_dhcp_msg_eq [OF assms] Let_def w run_simps length_dhcp_prefix)
      (simp add: fst_written snd_written length_dhcp_prefix request_options_def param_list_def op_consts)
qed

lemma length_discover_options: "length discover_options = 14"
  by (simp add: discover_options_def param_list_def length_dhcp_prefix)

lemma length_request_options: "length (request_options ip srv) = 26"
  by (simp add: request_options_def param_list_def length_dhcp_prefix)

lemma wf_base_msg: "length opts = 1024 \<Longrightarrow> wf_dhcp (base_msg hwaddr xid opts)"
  by (simp add: base_msg_def zero_dhcp_msg_def wf_dhcp_def min_def)

section \<open>Properties\<close>

text \<open>The REQUEST as it lies in memory: a BOOTREQUEST for an Ethernet address, broadcast flag set,
  the transaction id as given, and an option area that starts with the cookie and holds the
  message type, the parameter list, the requested address and the server identifier as they
  are passed, the end mark, and zeros; 262 bytes of it are to be sent.\<close>

theorem request_layout:
  assumes "length hwaddr = 6"
  shows "\<exists>msg. init_dhcp_request_msg hwaddr xid ipaddr serveraddr = Some (msg, 262) \<and> wf_dhcp msg \<and>
    take 28 (dhcp_bytes msg) = [1, 1, 6, 0] @ bytes32 xid @ [0, 0, 0x80, 0] @ replicate 16 0 \<and>
    take 16 (drop 28 (dhcp_bytes msg)) = hwaddr @ replicate 10 0 \<and>
    drop 236 (dhcp_bytes msg) =
      [0x63, 0x82, 0x53, 0x63, 53, 1, 3, 55, 4, 1, 3, 6, 28, 50, 4] @ bytes32 ipaddr @
      [54, 4] @ bytes32 serveraddr @ [255] @ replicate 998 0"
proof (intro exI conjI)
  let ?m = "base_msg hwaddr xid (request_options ipaddr serveraddr @ replicate 998 0)"
  have f: "bytes16 (htons 0x8000) = [0x80, 0]"
    by (simp add: bytes16_def htons_def, simp add: word_unat_eq_iff unat_lo8 unat_hi8)
  show "init_dhcp_request_msg hwaddr xid ipaddr serveraddr = Some (?m, 262)"
    using assms by (simp add: request_msg_eq)
  show "wf_dhcp ?m" by (rule wf_base_msg) (simp add: length_request_options)
  show "take 28 (dhcp_bytes ?m) = [1, 1, 6, 0] @ bytes32 xid @ [0, 0, 0x80, 0] @ replicate 16 0"
    using assms by (simp add: dhcp_bytes_def base_msg_def zero_dhcp_msg_def f)
      (simp add: bytes16_def bytes32_def lo8_def hi8_def byte_of_def eval_nat_numeral)
  show "take 16 (drop 28 (dhcp_bytes ?m)) = hwaddr @ replicate 10 0"
    using assms by (simp add: dhcp_bytes_def base_msg_def zero_dhcp_msg_def)
  show "drop 236 (dhcp_bytes ?m) =
      [0x63, 0x82, 0x53, 0x63, 53, 1, 3, 55, 4, 1, 3, 6, 28, 50, 4] @ bytes32 ipaddr @
      [54, 4] @ bytes32 serveraddr @ [255] @ replicate 998 0"
    using assms by (simp add: dhcp_bytes_def base_msg_def zero_dhcp_msg_def request_options_def dhcp_prefix_def
        param_list_def opt_consts type_consts)
qed

theorem request_layout_witness:
  "map_option snd (init_dhcp_request_msg (replicate 6 1) 7 8 9) = Some 262"
  using request_layout [of "replicate 6 1" 7 8 9] by auto

end
