(* ===== verification/Checksum.thy ===== *)
theory Checksum
  imports Prelude
begin

text \<open>
  The Internet checksum of \<^verbatim>\<open>test_wifi/libnetutils/packet.c\<close> (\<open>checksum\<close>, \<open>finish_sum\<close>):
  the two loops as they are written, on 32-bit words, and the arithmetic they compute, ones'
  complement addition. \<open>ones_sum\<close> is the reference: the plain sum of the 16-bit little-endian
  words, folded into 16 bits.
\<close>

unbundle bit_operations_syntax

section \<open>The code\<close>

fun checksum_add :: "bytes \<Rightarrow> u32 \<Rightarrow> u32" where
  "checksum_add (a # b # rest) acc = checksum_add rest (acc + ucast (mk16 a b))"
| "checksum_add [a] acc = acc + ucast a"
| "checksum_add [] acc = acc"

lemma unat_take_bit_16: "unat (take_bit 16 (s :: u32)) = unat s mod 65536"
  unfolding unsigned_take_bit_eq unfolding take_bit_eq_mod by simp

lemma fold_step_less:
  "drop_bit 16 (s :: u32) \<noteq> 0 \<Longrightarrow> unat ((s AND 0xffff) + drop_bit 16 s) = unat s mod 65536 + unat s div 65536"
  "drop_bit 16 (s :: u32) \<noteq> 0 \<Longrightarrow> unat s \<ge> 65536"
proof -
  have d: "unat (drop_bit 16 s) = unat s div 65536"
    unfolding unat_drop_bit_eq unfolding drop_bit_eq_div by simp
  have m: "unat (s AND 0xffff) = unat s mod 65536"
  proof -
    have "s AND 0xffff = take_bit 16 s"
      by (simp add: take_bit_eq_mask mask_eq_exp_minus_1)
    then show ?thesis by (simp only: unat_take_bit_16)
  qed
  have "unat s < 4294967296" by simp
  then have "unat s div 65536 < 65536" by (simp add: less_mult_imp_div_less)
  then show "unat ((s AND 0xffff) + drop_bit 16 s) = unat s mod 65536 + unat s div 65536"
    by (simp only: unat_word_ariths d m) simp
  show "drop_bit 16 s \<noteq> 0 \<Longrightarrow> unat s \<ge> 65536"
    using d by (auto simp: word_unat_eq_iff not_le intro: ccontr)
qed

function fold_carries :: "u32 \<Rightarrow> u32" where
  "fold_carries acc =
     (let upper16 = drop_bit 16 acc
      in if upper16 \<noteq> 0 then fold_carries ((acc AND 0xffff) + upper16) else acc)"
  by pat_completeness auto
termination
proof (relation "measure unat")
  fix s upper16 :: u32
  assume "upper16 = drop_bit 16 s" "upper16 \<noteq> 0"
  then have "unat ((s AND 0xffff) + upper16) = unat s mod 65536 + unat s div 65536" "unat s \<ge> 65536"
    using fold_step_less [of s] by auto
  moreover have "n mod 65536 + n div 65536 < n" if "n \<ge> 65536" for n :: nat
  proof -
    have "1 \<le> n div 65536" using that by (simp add: Suc_le_eq div_greater_zero_iff)
    then show ?thesis using div_mult_mod_eq [of n 65536] by linarith
  qed
  ultimately show "((s AND 0xffff) + upper16, s) \<in> measure unat" by simp
qed simp

declare fold_carries.simps [simp del]

definition checksum :: "bytes \<Rightarrow> nat \<Rightarrow> u32 \<Rightarrow> u32" where
  "checksum buffer count startsum = fold_carries (checksum_add (take count buffer) startsum)"

definition finish_sum :: "u32 \<Rightarrow> u32" where
  "finish_sum acc = (NOT acc) AND 0xffff"

section \<open>The reference: ones' complement sums\<close>

fun nsum :: "bytes \<Rightarrow> nat" where
  "nsum (a # b # rest) = unat a + 256 * unat b + nsum rest"
| "nsum [a] = unat a"
| "nsum [] = 0"

definition fold16 :: "nat \<Rightarrow> nat" where
  "fold16 n = (if n = 0 then 0 else (n - 1) mod 65535 + 1)"

definition ones_sum :: "bytes \<Rightarrow> nat" where
  "ones_sum b = fold16 (nsum b)"

lemma fold16_0 [simp]: "fold16 0 = 0"
  by (simp add: fold16_def)

lemma fold16_small: "n \<le> 65535 \<Longrightarrow> fold16 n = n"
  by (auto simp: fold16_def)

lemma fold16_le: "fold16 n \<le> 65535"
  by (auto simp: fold16_def)

lemma fold16_eq_0: "fold16 n = 0 \<longleftrightarrow> n = 0"
  by (simp add: fold16_def)

lemma fold16_cong: "fold16 n mod 65535 = n mod 65535"
  by (cases n) (simp_all add: fold16_def mod_simps)

lemma Suc_mod_cong: "Suc m mod 65535 = Suc n mod 65535 \<Longrightarrow> m mod 65535 = n mod 65535"
proof -
  assume "Suc m mod 65535 = Suc n mod 65535"
  then have "(Suc m + 65534) mod 65535 = (Suc n + 65534) mod 65535"
    by (rule mod_add_cong) (rule refl)
  moreover have "Suc m + 65534 = m + 65535" "Suc n + 65534 = n + 65535" by linarith+
  ultimately have "(m + 65535) mod 65535 = (n + 65535) mod 65535" by metis
  then show ?thesis by (simp only: mod_add_self2)
qed

lemma fold16_cong_imp:
  assumes "m mod 65535 = n mod 65535" and "m = 0 \<longleftrightarrow> n = 0"
  shows "fold16 m = fold16 n"
proof (cases m)
  case (Suc m')
  then obtain n' where n: "n = Suc n'" using assms(2) by (cases n) auto
  have "m' mod 65535 = n' mod 65535"
    by (rule Suc_mod_cong) (use assms(1) Suc n in metis)
  then show ?thesis by (simp only: fold16_def Suc n nat.simps diff_Suc_1 if_False)
qed (use assms in simp)

lemma fold16_add [simp]: "fold16 (fold16 a + b) = fold16 (a + b)"
proof (rule fold16_cong_imp)
  show "(fold16 a + b) mod 65535 = (a + b) mod 65535"
    using fold16_cong [of a] by (metis mod_add_left_eq)
  show "(fold16 a + b = 0) = (a + b = 0)" by (simp add: fold16_eq_0)
qed

lemma fold16_idem [simp]: "fold16 (fold16 a) = fold16 a"
  using fold16_add [of a 0] by simp

lemma fold16_step: "n \<ge> 65536 \<Longrightarrow> fold16 (n mod 65536 + n div 65536) = fold16 n"
proof (rule fold16_cong_imp)
  assume n: "n \<ge> 65536"
  have "n mod 65535 = (65535 * (n div 65536) + (n mod 65536 + n div 65536)) mod 65535"
    using div_mult_mod_eq [of n 65536] by (simp add: algebra_simps)
  then show "(n mod 65536 + n div 65536) mod 65535 = n mod 65535"
    by (simp only: mod_mult_self4)
  have "0 < n div 65536" using n by (simp add: div_greater_zero_iff)
  then show "(n mod 65536 + n div 65536 = 0) = (n = 0)" using n by simp
qed

lemma fold16_complement: "0 < n \<Longrightarrow> fold16 (n + (65535 - fold16 n)) = 65535"
proof -
  assume n: "0 < n"
  have "(n + (65535 - fold16 n)) mod 65535 = (fold16 n + (65535 - fold16 n)) mod 65535"
    using fold16_cong [of n] by (metis mod_add_left_eq)
  also have "\<dots> = 65535 mod 65535" using fold16_le [of n] by simp
  finally have "fold16 (n + (65535 - fold16 n)) = fold16 65535"
    using n by (intro fold16_cong_imp) auto
  then show ?thesis by (simp add: fold16_small)
qed

lemma nsum_append: "even (length xs) \<Longrightarrow> nsum (xs @ ys) = nsum xs + nsum ys"
  by (induction xs rule: nsum.induct) auto

lemma nsum_zeros [simp]: "nsum (replicate n 0) = 0"
proof (induction n rule: less_induct)
  case (less n)
  show ?case
  proof (cases "n < 2")
    case True
    then have "n = 0 \<or> n = 1" by linarith
    then show ?thesis by auto
  next
    case False
    then obtain m where "n = Suc (Suc m)" by (metis add_2_eq_Suc' le_add_diff_inverse2 not_less)
    then show ?thesis using less [of m] by simp
  qed
qed

lemma nsum_bound: "nsum xs \<le> 65535 * ((length xs + 1) div 2)"
proof (induction xs rule: nsum.induct)
  case (1 a b rest)
  have "unat a \<le> 255" "unat b \<le> 255"
    using unat_u8_less [of a] unat_u8_less [of b] by linarith+
  with 1 show ?case by simp
next
  case (2 a)
  have "unat a \<le> 255" using unat_u8_less [of a] by linarith
  then show ?case by simp
qed simp

lemma nsum_bytes16 [simp]: "nsum (bytes16 w) = unat w"
  using unat_mk16 [of "lo8 w" "hi8 w"] by (simp add: bytes16_def)

lemma nsum_Cons_Cons_append: "nsum (a # b # xs) = unat (mk16 a b) + nsum xs"
  by (simp add: unat_mk16)

section \<open>The code computes the reference\<close>

lemma checksum_add_unat:
  "unat s + nsum xs < 4294967296 \<Longrightarrow> unat (checksum_add xs s) = unat s + nsum xs"
proof (induction xs s rule: checksum_add.induct)
  case (1 a b rest acc)
  have u: "unat (ucast (mk16 a b) :: u32) = unat a + 256 * unat b"
  proof -
    have "unat a + 256 * unat b < 4294967296" using unat_u16_less [of "mk16 a b"] unat_mk16 [of a b] by linarith
    then show ?thesis by (simp add: unsigned_ucast_eq take_bit_eq_mod unat_mk16)
  qed
  have "unat (acc + ucast (mk16 a b)) = unat acc + (unat a + 256 * unat b)"
    using 1(2) by (simp add: unat_word_ariths u)
  then show ?case using 1 by simp
next
  case (2 a acc)
  have "unat a < 4294967296" using unat_u8_less [of a] by linarith
  then have "unat (ucast a :: u32) = unat a"
    by (simp add: unsigned_ucast_eq take_bit_eq_mod)
  then show ?case using 2 by (simp add: unat_word_ariths)
qed simp

lemma fold_carries_unat: "unat (fold_carries s) = fold16 (unat s)"
proof (induction s rule: fold_carries.induct)
  case (1 s)
  show ?case
  proof (cases "drop_bit 16 s = 0")
    case True
    have "unat (drop_bit 16 s) = unat s div 65536"
      unfolding unat_drop_bit_eq unfolding drop_bit_eq_div by simp
    with True have "unat s \<le> 65535" by simp
    with True show ?thesis by (simp add: fold_carries.simps [of s] fold16_small Let_def)
  next
    case False
    then have "unat (fold_carries s) = unat (fold_carries ((s AND 0xffff) + drop_bit 16 s))"
      by (simp add: fold_carries.simps [of s] Let_def)
    also have "\<dots> = fold16 (unat ((s AND 0xffff) + drop_bit 16 s))"
      using 1 False by simp
    also have "\<dots> = fold16 (unat s)"
      using fold_step_less [OF False] by (simp only: fold16_step)
    finally show ?thesis .
  qed
qed

lemma checksum_unat:
  assumes "unat s \<le> 65535" and "length b \<le> 65536"
  shows "unat (checksum b n s) = fold16 (unat s + nsum (take n b))"
proof -
  have "length (take n b) \<le> 65536" using assms(2) by simp
  then have "(length (take n b) + 1) div 2 \<le> 32768" by linarith
  then have "nsum (take n b) \<le> 65535 * 32768"
    using nsum_bound [of "take n b"] by (meson le_trans mult_le_mono2)
  then have "unat s + nsum (take n b) < 4294967296" using assms(1) by simp
  then show ?thesis by (simp add: checksum_def fold_carries_unat checksum_add_unat)
qed

lemma finish_sum_unat: "unat s \<le> 65535 \<Longrightarrow> unat (finish_sum s) = 65535 - unat s"
proof -
  assume s: "unat s \<le> 65535"
  have "finish_sum s = take_bit 16 (NOT s)"
    by (simp add: finish_sum_def take_bit_eq_mask mask_eq_exp_minus_1)
  then have f: "unat (finish_sum s) = unat (NOT s) mod 65536"
    by (simp only: unat_take_bit_16)
  have "unat (NOT s) = 4294967295 - unat s"
  proof -
    have "NOT s = - 1 - s" by (simp add: not_eq_complement)
    moreover have "s \<le> - 1" by (rule word_n1_ge)
    ultimately have "unat (NOT s) = unat (- 1 :: u32) - unat s" by (simp only: unat_sub)
    moreover have "unat (- 1 :: u32) = 4294967295" by (simp add: unsigned_minus_1_eq_mask mask_eq_exp_minus_1)
    ultimately show ?thesis by simp
  qed
  moreover have "(4294967295 - unat s) mod 65536 = 65535 - unat s"
  proof -
    have "4294967295 - unat s = (65535 - unat s) + 65535 * 65536" using s by simp
    then show ?thesis by (simp only: mod_mult_self1) simp
  qed
  ultimately show ?thesis using f by simp
qed

lemma finish_checksum_unat:
  assumes "unat s \<le> 65535" and "length b \<le> 65536"
  shows "unat (finish_sum (checksum b n s)) = 65535 - fold16 (unat s + nsum (take n b))"
  using checksum_unat [OF assms, of n] by (simp add: finish_sum_unat fold16_le)

section \<open>Properties\<close>

text \<open>C17. The two loops of \<open>checksum\<close>, on 32-bit words that could wrap, and \<open>finish_sum\<close> compute the
  Internet checksum: the ones' complement of the folded sum of the start value and all 16-bit
  words of the first \<open>count\<close> bytes, an odd byte at the end included. So it is for start values of at
  most 65535, such as the result of an earlier sum, and buffers of at most 65536 bytes.\<close>

theorem checksum_ones_complement:
  assumes "unat startsum \<le> 65535" and "length buffer \<le> 65536"
  shows "unat (finish_sum (checksum buffer count startsum)) =
    65535 - fold16 (unat startsum + nsum (take count buffer))"
  by (rule finish_checksum_unat [OF assms])

theorem checksum_ones_complement_witness:
  "unat (finish_sum (checksum [0x45, 0, 0xff, 0xff, 1] 5 0xffff)) = 65465"
  using checksum_ones_complement [of "0xffff" "[0x45, 0, 0xff, 0xff, 1]" 5] by (simp add: fold16_def)

end
