(* ===== verification/Packet.thy ===== *)
theory Packet
  imports Dhcpmsg Checksum
begin

text \<open>
  \<^verbatim>\<open>test_wifi/libnetutils/packet.c\<close>: the raw IP/UDP frames around a DHCP message.
  \<open>send_packet\<close> builds the three buffers it hands to \<open>sendmsg\<close>; \<open>receive_packet\<close> filters
  and checks what \<open>read\<close> put on its stack frame and copies the message out. The bytes the socket
  delivers and the old content of the stack frame are arguments; a checksum or a \<open>memcpy\<close> whose
  length runs past its buffers is the outcome \<open>RecvFault\<close>.
\<close>

section \<open>Headers\<close>

record iphdr =
  ip_version :: nat
  ip_ihl :: nat
  ip_tos :: u8
  ip_tot_len :: u16
  ip_id :: u16
  ip_frag_off :: u16
  ip_ttl :: u8
  ip_protocol :: u8
  ip_check :: u16
  ip_saddr :: u32
  ip_daddr :: u32

record udphdr =
  udp_source :: u16
  udp_dest :: u16
  udp_len :: u16
  udp_check :: u16

definition IPVERSION :: nat where "IPVERSION = 4"
definition IPDEFTTL :: u8 where "IPDEFTTL = 64"
definition IPPROTO_UDP :: u8 where "IPPROTO_UDP = 17"
definition ETH_P_IP :: u16 where "ETH_P_IP = 0x0800"
definition ETH_ALEN :: nat where "ETH_ALEN = 6"
definition sizeof_iphdr :: nat where "sizeof_iphdr = 20"
definition sizeof_udphdr :: nat where "sizeof_udphdr = 8"
definition sizeof_dhcp_msg :: nat where "sizeof_dhcp_msg = 1260"
definition sizeof_dhcp_packet :: nat where "sizeof_dhcp_packet = 1288"

lemmas packet_consts = IPVERSION_def IPDEFTTL_def IPPROTO_UDP_def ETH_P_IP_def ETH_ALEN_def
  sizeof_iphdr_def sizeof_udphdr_def sizeof_dhcp_msg_def sizeof_dhcp_packet_def

text \<open>On a little-endian host the bit field \<open>ihl\<close> is the low half of the first byte.\<close>

definition iphdr_bytes :: "iphdr \<Rightarrow> bytes" where
  "iphdr_bytes ip =
     [of_nat (ip_ihl ip + 16 * ip_version ip), ip_tos ip] @ bytes16 (ip_tot_len ip) @
     bytes16 (ip_id ip) @ bytes16 (ip_frag_off ip) @ [ip_ttl ip, ip_protocol ip] @
     bytes16 (ip_check ip) @ bytes32 (ip_saddr ip) @ bytes32 (ip_daddr ip)"

definition udphdr_bytes :: "udphdr \<Rightarrow> bytes" where
  "udphdr_bytes u =
     bytes16 (udp_source u) @ bytes16 (udp_dest u) @ bytes16 (udp_len u) @ bytes16 (udp_check u)"

section \<open>Opening the socket\<close>

record sockaddr_ll =
  sll_family :: int
  sll_protocol :: u16
  sll_ifindex :: int
  sll_halen :: nat
  sll_addr :: bytes

definition PF_PACKET :: int where "PF_PACKET = 17"

definition zero_sockaddr_ll :: sockaddr_ll where
  "zero_sockaddr_ll = \<lparr>sll_family = 0, sll_protocol = 0, sll_ifindex = 0, sll_halen = 0,
     sll_addr = replicate 8 0\<rparr>"

definition bind_address :: "bytes \<Rightarrow> int \<Rightarrow> sockaddr_ll" where
  "bind_address hwaddr if_index = zero_sockaddr_ll
     \<lparr>sll_family := PF_PACKET, sll_protocol := htons ETH_P_IP, sll_halen := ETH_ALEN,
      sll_addr := memcpy_at (sll_addr zero_sockaddr_ll) 0 (take ETH_ALEN hwaddr),
      sll_ifindex := if_index\<rparr>"

text \<open>\<open>fatal\<close> prints and returns -1; \<open>socket\<close> and \<open>bind\<close> are the caller's parameters.\<close>

definition open_raw_socket ::
  "('k \<Rightarrow> int \<times> 'k) \<Rightarrow> (int \<Rightarrow> sockaddr_ll \<Rightarrow> 'k \<Rightarrow> int \<times> 'k) \<Rightarrow> bytes \<Rightarrow> int \<Rightarrow> 'k \<Rightarrow> int \<times> 'k" where
  "open_raw_socket sys_socket sys_bind hwaddr if_index k =
     (let (s, k) = sys_socket k in
      if s < 0 then (-1, k)
      else let (r, k) = sys_bind s (bind_address hwaddr if_index) k in
           if r < 0 then (-1, k) else (s, k))"

section \<open>Sending\<close>

record frame =
  fr_dest :: sockaddr_ll
  fr_ip :: iphdr
  fr_udp :: udphdr
  fr_payload :: bytes

definition frame_bytes :: "frame \<Rightarrow> bytes" where
  "frame_bytes f = iphdr_bytes (fr_ip f) @ udphdr_bytes (fr_udp f) @ fr_payload f"

definition dest_address :: "int \<Rightarrow> sockaddr_ll" where
  "dest_address if_index = zero_sockaddr_ll
     \<lparr>sll_family := PF_PACKET, sll_protocol := htons ETH_P_IP, sll_ifindex := if_index,
      sll_halen := ETH_ALEN,
      sll_addr := memcpy_at (sll_addr zero_sockaddr_ll) 0 (replicate ETH_ALEN 0xff)\<rparr>"

text \<open>The message is the memory image of a \<open>struct dhcp_msg\<close>, of which \<open>sz\<close> bytes go out.\<close>

definition send_packet ::
  "int \<Rightarrow> bytes \<Rightarrow> nat \<Rightarrow> u32 \<Rightarrow> u32 \<Rightarrow> u32 \<Rightarrow> u32 \<Rightarrow> frame" where
  "send_packet if_index msg sz saddr daddr sport dport =
     (let ip = \<lparr>ip_version = IPVERSION, ip_ihl = drop_bit 2 sizeof_iphdr, ip_tos = 0,
                ip_tot_len = htons (of_nat (sizeof_iphdr + sizeof_udphdr + sz)),
                ip_id = 0, ip_frag_off = 0, ip_ttl = IPDEFTTL, ip_protocol = IPPROTO_UDP,
                ip_check = 0, ip_saddr = saddr, ip_daddr = daddr\<rparr>;
          ip = ip\<lparr>ip_check := ucast (finish_sum (checksum (iphdr_bytes ip) sizeof_iphdr 0))\<rparr>;
          udp = \<lparr>udp_source = htons (ucast sport), udp_dest = htons (ucast dport),
                 udp_len = htons (of_nat (sizeof_udphdr + sz)), udp_check = 0\<rparr>;
          udpsum = checksum (bytes32 (ip_saddr ip)) 4 0;
          udpsum = checksum (bytes32 (ip_daddr ip)) 4 udpsum;
          temp = htons (ucast IPPROTO_UDP);
          udpsum = checksum (bytes16 temp) 2 udpsum;
          temp = udp_len udp;
          udpsum = checksum (bytes16 temp) 2 udpsum;
          udpsum = checksum (udphdr_bytes udp) sizeof_udphdr udpsum;
          udpsum = checksum msg sz udpsum;
          udp = udp\<lparr>udp_check := ucast (finish_sum udpsum)\<rparr>
      in \<lparr>fr_dest = dest_address if_index, fr_ip = ip, fr_udp = udp, fr_payload = take sz msg\<rparr>)"

section \<open>Receiving\<close>

datatype recv =
    RecvErr int \<comment> \<open>-1 is returned; the value is \<open>errno\<close>\<close>
  | RecvOk int dhcp_msg \<comment> \<open>the size returned and the caller's message\<close>
  | RecvFault \<comment> \<open>the sum or the \<open>memcpy\<close> past the end of its buffers\<close>

text \<open>\<open>read\<close> on the packet socket: at most \<open>sizeof(packet)\<close> bytes of one datagram.\<close>

definition read_packet :: "bytes \<Rightarrow> bytes \<Rightarrow> nat \<times> bytes" where
  "read_packet packet0 datagram =
     (let d = take sizeof_dhcp_packet datagram in (length d, memcpy_at packet0 0 d))"

definition packet_is_valid :: "nat \<Rightarrow> bytes \<Rightarrow> bool" where
  "packet_is_valid nread packet =
     (if nread < sizeof_iphdr + sizeof_udphdr then False
      else if unat (packet ! 0) div 16 \<noteq> IPVERSION \<or> unat (packet ! 0) mod 16 \<noteq> drop_bit 2 sizeof_iphdr
        then False
      else if nread < unat (ntohs (get16 packet 2)) then False
      else if packet ! 9 \<noteq> IPPROTO_UDP then False
      else if get16 packet 22 \<noteq> htons PORT_BOOTP_CLIENT then False
      else True)"

text \<open>
  The IP header is zeroed and reused as the UDP pseudo header, and \<open>udp.check\<close> is cleared
  while the sum is taken.
\<close>

definition pseudo_packet :: "bytes \<Rightarrow> bytes" where
  "pseudo_packet packet =
     (let saddr = get32 packet 12; daddr = get32 packet 16; udplen = get16 packet 24;
          packet = memcpy_at packet 0 (replicate sizeof_iphdr 0);
          packet = memcpy_at packet 12 (bytes32 saddr);
          packet = memcpy_at packet 16 (bytes32 daddr);
          packet = memcpy_at packet 9 [IPPROTO_UDP];
          packet = memcpy_at packet 2 (bytes16 udplen)
      in memcpy_at packet 26 (bytes16 0))"

definition receive_packet :: "bytes \<Rightarrow> int + bytes \<Rightarrow> dhcp_msg \<Rightarrow> recv" where
  "receive_packet packet0 input msg =
     (case input of
        Inl err \<Rightarrow> RecvErr err
      | Inr datagram \<Rightarrow>
          let (nread, packet) = read_packet packet0 datagram in
          if \<not> packet_is_valid nread packet then RecvErr 0
          else if finish_sum (checksum packet sizeof_iphdr 0) \<noteq> 0 then RecvErr 0
          else
            let dhcp_size = int (unat (ntohs (get16 packet 24))) - int sizeof_udphdr;
                nread = unat (ntohs (get16 packet 2));
                temp = get16 packet 26;
                acc = finish_sum (checksum (pseudo_packet packet) nread 0)
            in if length packet < nread then RecvFault
               else if ucast temp \<noteq> acc then RecvErr 0
               else if dhcp_size < 0 \<or> int sizeof_dhcp_msg < dhcp_size then RecvFault
               else RecvOk dhcp_size
                 (dhcp_of_bytes (memcpy_at (dhcp_bytes msg) 0 (take (nat dhcp_size) (drop 28 packet)))))"

section \<open>Reading a frame back\<close>

lemma length_iphdr_bytes [simp]: "length (iphdr_bytes ip) = 20"
  by (simp add: iphdr_bytes_def)

lemma length_udphdr_bytes [simp]: "length (udphdr_bytes u) = 8"
  by (simp add: udphdr_bytes_def)

lemma packet_fields:
  assumes "p = iphdr_bytes ip @ udphdr_bytes u @ rest"
  shows "p ! 0 = of_nat (ip_ihl ip + 16 * ip_version ip)" "p ! 9 = ip_protocol ip"
    "get16 p 2 = ip_tot_len ip" "get16 p 22 = udp_dest u" "get16 p 24 = udp_len u"
    "get16 p 26 = udp_check u" "drop 28 p = rest" "take 20 p = iphdr_bytes ip"
    "get32 p 12 = ip_saddr ip" "get32 p 16 = ip_daddr ip"
  unfolding assms
  by (simp_all add: iphdr_bytes_def udphdr_bytes_def get16_def get32_def bytes16_def bytes32_def)

lemma replicate_20: "replicate 20 x = [x, x, x, x, x, x, x, x, x, x, x, x, x, x, x, x, x, x, x, x]"
  by (simp add: eval_nat_numeral)

lemma pseudo_packet_eq:
  "pseudo_packet (iphdr_bytes ip @ udphdr_bytes u @ rest) =
     [0, 0] @ bytes16 (udp_len u) @ [0, 0, 0, 0, 0, IPPROTO_UDP, 0, 0] @
     bytes32 (ip_saddr ip) @ bytes32 (ip_daddr ip) @
     udphdr_bytes (u\<lparr>udp_check := 0\<rparr>) @ rest"
  unfolding pseudo_packet_def Let_def packet_fields [OF refl]
  by (simp add: memcpy_at_def iphdr_bytes_def udphdr_bytes_def bytes16_def bytes32_def
      sizeof_iphdr_def replicate_20)

lemma nsum_iphdr_check:
  "nsum (iphdr_bytes ip) = nsum (iphdr_bytes (ip\<lparr>ip_check := 0\<rparr>)) + unat (ip_check ip)"
  by (simp add: iphdr_bytes_def nsum_append)

lemma nsum_iphdr_pos: "ip_version ip = 4 \<Longrightarrow> ip_ihl ip = 5 \<Longrightarrow> 0 < nsum (iphdr_bytes ip)"
  by (simp add: iphdr_bytes_def)

section \<open>A frame that was sent is accepted\<close>

lemma checksum_chain:
  assumes "unat s = fold16 m" and "length b \<le> 65536"
  shows "unat (checksum b n s) = fold16 (m + nsum (take n b))"
  using checksum_unat [of s b n] assms by (simp add: fold16_le)

lemma unat_ucast_16: "unat (s :: u32) \<le> 65535 \<Longrightarrow> unat (ucast s :: u16) = unat s"
  by (simp add: unsigned_ucast_eq take_bit_eq_mod)

lemma unat_ucast_32: "unat (ucast (w :: u16) :: u32) = unat w"
proof -
  have "unat w < 4294967296" using unat_u16_less [of w] by linarith
  then show ?thesis by (simp add: unsigned_ucast_eq take_bit_eq_mod)
qed

definition udp_total :: "u32 \<Rightarrow> u32 \<Rightarrow> udphdr \<Rightarrow> bytes \<Rightarrow> nat" where
  "udp_total saddr daddr u payload =
     nsum (bytes32 saddr) + nsum (bytes32 daddr) + unat (htons 17) + unat (udp_len u) +
     nsum (udphdr_bytes (u\<lparr>udp_check := 0\<rparr>)) + nsum payload"

lemma unat_check_field:
  "unat s = fold16 m \<Longrightarrow> unat (ucast (finish_sum s) :: u16) = 65535 - fold16 m"
  by (simp add: finish_sum_unat fold16_le unat_ucast_16)

lemma udpsum_unat:
  assumes "length msg = 1260"
  shows "unat (checksum msg n (checksum (udphdr_bytes u) 8 (checksum (bytes16 l) 2
           (checksum (bytes16 p) 2 (checksum (bytes32 da) 4 (checksum (bytes32 sa) 4 0)))))) =
         fold16 (nsum (bytes32 sa) + nsum (bytes32 da) + unat p + unat l +
           nsum (udphdr_bytes u) + nsum (take n msg))"
proof -
  have "unat (checksum (bytes32 sa) 4 0) = fold16 (0 + nsum (take 4 (bytes32 sa)))"
    by (rule checksum_chain) simp_all
  from checksum_chain [OF this, of "bytes32 da" 4]
  have "unat (checksum (bytes32 da) 4 (checksum (bytes32 sa) 4 0)) =
      fold16 (nsum (bytes32 sa) + nsum (bytes32 da))" by simp
  from checksum_chain [OF checksum_chain [OF this, of "bytes16 p" 2], of "bytes16 l" 2]
  have "unat (checksum (bytes16 l) 2 (checksum (bytes16 p) 2
      (checksum (bytes32 da) 4 (checksum (bytes32 sa) 4 0)))) =
      fold16 (nsum (bytes32 sa) + nsum (bytes32 da) + unat p + unat l)" by simp
  from checksum_chain [OF checksum_chain [OF this, of "udphdr_bytes u" 8], of msg n]
  show ?thesis by (simp add: assms)
qed

lemma sent_frame:
  assumes f: "f = send_packet if_index msg sz saddr daddr sport dport" and len: "length msg = 1260"
  shows "ip_version (fr_ip f) = 4" "ip_ihl (fr_ip f) = 5" "ip_protocol (fr_ip f) = IPPROTO_UDP"
    "ip_tot_len (fr_ip f) = htons (of_nat (28 + sz))" "udp_dest (fr_udp f) = htons (ucast dport)"
    "udp_len (fr_udp f) = htons (of_nat (8 + sz))" "fr_payload f = take sz msg"
    "ip_saddr (fr_ip f) = saddr" "ip_daddr (fr_ip f) = daddr"
    "unat (ip_check (fr_ip f)) = 65535 - fold16 (nsum (iphdr_bytes ((fr_ip f)\<lparr>ip_check := 0\<rparr>)))"
    "unat (udp_check (fr_udp f)) = 65535 - fold16 (udp_total saddr daddr (fr_udp f) (take sz msg))"
proof -
  note defs = f send_packet_def Let_def packet_consts
  show "ip_version (fr_ip f) = 4" "ip_ihl (fr_ip f) = 5" "ip_protocol (fr_ip f) = IPPROTO_UDP"
    "ip_tot_len (fr_ip f) = htons (of_nat (28 + sz))" "udp_dest (fr_udp f) = htons (ucast dport)"
    "udp_len (fr_udp f) = htons (of_nat (8 + sz))" "fr_payload f = take sz msg"
    "ip_saddr (fr_ip f) = saddr" "ip_daddr (fr_ip f) = daddr"
    by (simp_all add: defs)
  show "unat (ip_check (fr_ip f)) = 65535 - fold16 (nsum (iphdr_bytes ((fr_ip f)\<lparr>ip_check := 0\<rparr>)))"
    by (simp add: defs) (rule unat_check_field, simp add: checksum_unat)
  show "unat (udp_check (fr_udp f)) = 65535 - fold16 (udp_total saddr daddr (fr_udp f) (take sz msg))"
    by (simp add: defs udp_total_def) (rule unat_check_field, rule udpsum_unat [OF len])
qed

lemma receive_frame_gen:
  assumes p: "p = iphdr_bytes ip @ udphdr_bytes u @ rest"
    and ip: "ip_version ip = 4" "ip_ihl ip = 5" "ip_protocol ip = IPPROTO_UDP"
      "unat (ip_check ip) = 65535 - fold16 (nsum (iphdr_bytes (ip\<lparr>ip_check := 0\<rparr>)))"
      "ip_tot_len ip = htons (of_nat (28 + n))"
    and u: "udp_dest u = htons PORT_BOOTP_CLIENT"
      "unat (udp_check u) = 65535 - fold16 (udp_total (ip_saddr ip) (ip_daddr ip) u (take n rest))"
    and n: "n \<le> 1260" "n \<le> length rest" "length rest \<le> 1260"
  shows "packet_is_valid (28 + n) p" "finish_sum (checksum p sizeof_iphdr 0) = 0"
    "get16 p 24 = udp_len u" "unat (ntohs (get16 p 2)) = 28 + n"
    "ucast (get16 p 26) = finish_sum (checksum (pseudo_packet p) (28 + n) 0)"
proof -
  have small: "unat (of_nat (28 + n) :: u16) = 28 + n"
    using n(1) by (simp only: unat_of_nat) simp
  note fields = packet_fields [OF p]
  show "get16 p 24 = udp_len u" by (rule fields)
  show l: "unat (ntohs (get16 p 2)) = 28 + n"
    using small by (simp only: fields ip bo16.swap_swap)
  have b0: "unat (p ! 0) = 69" by (simp add: fields(1) ip)
  show "packet_is_valid (28 + n) p"
    unfolding packet_is_valid_def l by (simp add: packet_consts b0 fields ip u)
  have lp: "length p \<le> 65536" using n(3) by (simp add: p)
  have "unat (finish_sum (checksum p sizeof_iphdr 0)) = 65535 - fold16 (nsum (iphdr_bytes ip))"
    using finish_checksum_unat [OF _ lp, of 0 20] by (simp add: fields sizeof_iphdr_def)
  also have "fold16 (nsum (iphdr_bytes ip)) = 65535"
    unfolding nsum_iphdr_check [of ip] ip(4)
    by (rule fold16_complement) (simp add: nsum_iphdr_pos ip)
  finally show "finish_sum (checksum p sizeof_iphdr 0) = 0"
    by (simp add: word_unat_eq_iff)
  have "length (pseudo_packet p) \<le> 65536" using n(3) by (simp add: p pseudo_packet_eq)
  then have "unat (finish_sum (checksum (pseudo_packet p) (28 + n) 0)) =
      65535 - fold16 (nsum (take (28 + n) (pseudo_packet p)))"
    using finish_checksum_unat [of 0 "pseudo_packet p" "28 + n"] by simp
  also have "nsum (take (28 + n) (pseudo_packet p)) =
      udp_total (ip_saddr ip) (ip_daddr ip) u (take n rest)"
  proof -
    let ?h = "[0, 0] @ bytes16 (udp_len u) @ [0, 0, 0, 0, 0, IPPROTO_UDP, 0, 0] @
      bytes32 (ip_saddr ip) @ bytes32 (ip_daddr ip) @ udphdr_bytes (u\<lparr>udp_check := 0\<rparr>)"
    have "pseudo_packet p = ?h @ rest" by (simp add: p pseudo_packet_eq)
    moreover have "length ?h = 28" by simp
    ultimately have "take (28 + n) (pseudo_packet p) = ?h @ take n rest"
      by (simp only: take_append) simp
    then show ?thesis
      by (simp add: nsum_append udp_total_def IPPROTO_UDP_def htons_def unat_mk16 unat_lo8 unat_hi8)
  qed
  finally show "ucast (get16 p 26) = finish_sum (checksum (pseudo_packet p) (28 + n) 0)"
    by (simp add: word_unat_eq_iff unat_ucast_32 fields u)
qed

text \<open>
  The whole path: a frame built by \<open>send_packet\<close> for the client port, read from the socket
  into any stack frame, is accepted, and exactly the bytes sent are copied into the message.
\<close>

lemma receive_sent:
  assumes "length msg = 1260" and "n \<le> 1260" and "length packet0 = 1288"
    and "ucast dport = PORT_BOOTP_CLIENT"
  shows "receive_packet packet0
     (Inr (frame_bytes (send_packet if_index msg n saddr daddr sport dport))) reply =
     RecvOk (int n) (dhcp_of_bytes (memcpy_at (dhcp_bytes reply) 0 (take n msg)))"
proof -
  define f where "f = send_packet if_index msg n saddr daddr sport dport"
  note sent = sent_frame [OF f_def assms(1)]
  let ?rest = "take n msg @ drop (28 + n) packet0"
  let ?p = "iphdr_bytes (fr_ip f) @ udphdr_bytes (fr_udp f) @ ?rest"
  have fb: "frame_bytes f = iphdr_bytes (fr_ip f) @ udphdr_bytes (fr_udp f) @ take n msg"
    by (simp add: frame_bytes_def sent)
  have lf: "length (frame_bytes f) = 28 + n" using assms(1,2) by (simp add: fb)
  have rd: "read_packet packet0 (frame_bytes f) = (28 + n, ?p)"
    using assms(2) by (simp add: read_packet_def lf sizeof_dhcp_packet_def memcpy_at_def)
      (simp add: fb)
  have rest: "take n ?rest = take n msg" "length ?rest \<le> 1260" "n \<le> length ?rest"
    using assms by simp_all
  have d: "drop 28 ?p = ?rest" by simp
  note r = receive_frame_gen [OF refl sent(1-3) sent(10,4) _ _ assms(2) rest(3,2)]
  have r': "packet_is_valid (28 + n) ?p" "finish_sum (checksum ?p sizeof_iphdr 0) = 0"
    "get16 ?p 24 = udp_len (fr_udp f)" "unat (ntohs (get16 ?p 2)) = 28 + n"
    "ucast (get16 ?p 26) = finish_sum (checksum (pseudo_packet ?p) (28 + n) 0)"
    by (rule r; simp only: sent assms(4) rest(1))+
  have small: "unat (of_nat (8 + n) :: u16) = 8 + n"
    using assms(2) by (simp only: unat_of_nat) simp
  show ?thesis
    unfolding receive_packet_def f_def [symmetric] sum.case Let_def rd prod.case r'(2-5) d sent(6) bo16.swap_swap small
    using assms(2,3) r'(1) by (simp add: sizeof_udphdr_def sizeof_dhcp_msg_def assms(1))
qed

section \<open>What the length field can do\<close>

text \<open>
  \<open>dhcp_size\<close> comes from the UDP length alone, which nothing compares with the length of the
  datagram: a 28-byte datagram with correct checksums can carry any value there.
\<close>

definition crafted_udp :: "u16 \<Rightarrow> udphdr" where
  "crafted_udp l = (let u = \<lparr>udp_source = htons 67, udp_dest = htons 68, udp_len = htons l, udp_check = 0\<rparr>
     in u\<lparr>udp_check := of_nat (65535 - fold16 (udp_total 0 0 u []))\<rparr>)"

definition crafted_datagram :: "u16 \<Rightarrow> bytes" where
  "crafted_datagram l =
     iphdr_bytes (fr_ip (send_packet 0 (replicate 1260 0) 0 0 0 67 68)) @ udphdr_bytes (crafted_udp l)"

lemma crafted_udp_sel:
  "udp_dest (crafted_udp l) = htons 68" "udp_len (crafted_udp l) = htons l"
  "unat (udp_check (crafted_udp l)) = 65535 - fold16 (udp_total 0 0 (crafted_udp l) [])"
  by (simp_all add: crafted_udp_def Let_def unat_of_nat udp_total_def)

lemma receive_crafted:
  assumes "length packet0 = 1288" and "unat l < 8 \<or> 1268 < unat l"
  shows "receive_packet packet0 (Inr (crafted_datagram l)) reply = RecvFault"
proof -
  define f where "f = send_packet 0 (replicate 1260 0) 0 0 0 67 68"
  note sent = sent_frame [OF f_def length_replicate]
  let ?rest = "drop 28 packet0"
  let ?p = "iphdr_bytes (fr_ip f) @ udphdr_bytes (crafted_udp l) @ ?rest"
  have rd: "read_packet packet0 (crafted_datagram l) = (28 + 0, ?p)"
    by (simp add: read_packet_def sizeof_dhcp_packet_def memcpy_at_def crafted_datagram_def f_def)
  note r = receive_frame_gen [OF refl sent(1-3) sent(10,4), of "crafted_udp l" ?rest, simplified]
  have r': "packet_is_valid (28 + 0) ?p" "finish_sum (checksum ?p sizeof_iphdr 0) = 0"
    "get16 ?p 24 = udp_len (crafted_udp l)" "unat (ntohs (get16 ?p 2)) = 28 + 0"
    "ucast (get16 ?p 26) = finish_sum (checksum (pseudo_packet ?p) (28 + 0) 0)"
    using r assms(1) by (simp_all add: crafted_udp_sel sent PORT_BOOTP_CLIENT_def)
  have lu: "uint l < 8 \<or> 1268 < uint l"
    unfolding uint_nat using assms(2) by linarith
  show ?thesis
    unfolding receive_packet_def sum.case Let_def rd prod.case r'(2-5) crafted_udp_sel bo16.swap_swap
    using lu r'(1) assms(1) by (auto simp: sizeof_udphdr_def sizeof_dhcp_msg_def)
qed

lemma receive_bounds:
  assumes "receive_packet packet0 input reply = RecvOk n m" and "length packet0 = 1288" and "wf_dhcp reply"
  shows "0 \<le> n" "n \<le> 1260" "wf_dhcp m"
proof -
  show n: "0 \<le> n" "n \<le> 1260"
    using assms(1) by (auto simp: receive_packet_def Let_def sizeof_dhcp_msg_def
        split: sum.splits prod.splits if_splits)
  from assms(1) obtain d where d: "input = Inr d" by (cases input) (auto simp: receive_packet_def)
  obtain k p where rd: "read_packet packet0 d = (k, p)" by fastforce
  then have lp: "length p = 1288"
    using assms(2) by (auto simp: read_packet_def Let_def sizeof_dhcp_packet_def)
  have "m = dhcp_of_bytes (memcpy_at (dhcp_bytes reply) 0 (take (nat n) (drop 28 p)))"
    using assms(1) rd by (auto simp: receive_packet_def d Let_def split: if_splits)
  then show "wf_dhcp m"
    by (simp only:, intro wf_dhcp_of_bytes) (use n lp assms(3) in \<open>simp add: dm.enc_length\<close>)
qed

text \<open>The outcome \<open>RecvFault\<close> comes from the length field alone: the sum stays in what was read.\<close>

lemma read_packet_prefix:
  assumes "read_packet packet0 d = (k, p)" and "length packet0 = 1288"
  shows "length p = 1288" "k \<le> 1288" "i + 2 \<le> k \<Longrightarrow> get16 p i = get16 d i"
  using assms by (auto simp: read_packet_def Let_def sizeof_dhcp_packet_def memcpy_at_def get16_def nth_append)

lemma receive_fault:
  assumes "receive_packet packet0 (Inr d) reply = RecvFault" and "length packet0 = 1288"
  shows "unat (ntohs (get16 d 24)) < 8 \<or> 1268 < unat (ntohs (get16 d 24))"
proof -
  obtain k p where rd: "read_packet packet0 d = (k, p)" by fastforce
  note pre = read_packet_prefix [OF rd assms(2)]
  let ?l = "unat (ntohs (get16 p 24))"
  have v: "packet_is_valid k p"
    using assms(1) rd by (auto simp: receive_packet_def split: if_splits)
  then have "28 \<le> k" "unat (ntohs (get16 p 2)) \<le> k"
    by (auto simp: packet_is_valid_def packet_consts split: if_splits)
  then have "get16 p 24 = get16 d 24" "\<not> length p < unat (ntohs (get16 p 2))" using pre by auto
  moreover have "int ?l - 8 < 0 \<or> 1260 < int ?l - 8"
    using assms(1) rd calculation(2) unfolding receive_packet_def sum.case Let_def rd prod.case
    by (simp only: sizeof_udphdr_def sizeof_dhcp_msg_def of_nat_numeral split: if_splits) simp_all
  ultimately show ?thesis by (simp only:) linarith
qed

text \<open>A message of full fixed size brings its own \<open>hlen\<close>, whatever the old message held.\<close>

lemma receive_hlen:
  assumes "receive_packet packet0 input old = RecvOk r m" and "receive_packet packet0 input old' = RecvOk r' m'"
    and "length packet0 = 1288" and "wf_dhcp old" "wf_dhcp old'" and "236 \<le> r"
  shows "r' = r \<and> m_hlen m' = m_hlen m"
proof -
  from assms(1) obtain d where d: "input = Inr d" by (cases input) (auto simp: receive_packet_def)
  obtain k p where rd: "read_packet packet0 d = (k, p)" by fastforce
  let ?src = "take (nat r) (drop 28 p)"
  have m: "m = dhcp_of_bytes (memcpy_at (dhcp_bytes old) 0 ?src)"
    using assms(1) rd by (auto simp: receive_packet_def d Let_def split: if_splits)
  moreover have "r' = r \<and> m' = dhcp_of_bytes (memcpy_at (dhcp_bytes old') 0 ?src)"
    using assms(1,2) rd by (auto simp: receive_packet_def d Let_def split: if_splits)
  moreover have "2 < length ?src"
    using read_packet_prefix(1) [OF rd assms(3)] assms(6) by simp
  then have "memcpy_at b 0 ?src ! 2 = ?src ! 2" for b
    unfolding memcpy_at_def by (simp add: nth_append)
  ultimately show ?thesis by (simp add: dhcp_of_bytes_def)
qed

section \<open>Properties\<close>

text \<open>C8. A frame built by \<open>send_packet\<close> for the client's port, read from the socket into any stack
  frame, passes every check of \<open>receive_packet\<close> (version, lengths, protocol, port and both
  checksums), for all addresses, ports of the sender and contents, and exactly the bytes sent are
  copied over the message.\<close>

theorem frame_roundtrip:
  assumes "length msg = 1260" and "n \<le> 1260" and "length packet0 = 1288"
  shows "receive_packet packet0
     (Inr (frame_bytes (send_packet if_index msg n saddr daddr sport (ucast PORT_BOOTP_CLIENT)))) reply =
     RecvOk (int n) (dhcp_of_bytes (memcpy_at (dhcp_bytes reply) 0 (take n msg)))"
  by (rule receive_sent [OF assms]) (simp add: PORT_BOOTP_CLIENT_def)

theorem frame_roundtrip_witness:
  "receive_packet (replicate 1288 3) (Inr (frame_bytes (send_packet 2 (replicate 1260 9) 300 1 2 67
     (ucast PORT_BOOTP_CLIENT)))) zero_dhcp_msg =
   RecvOk 300 (dhcp_of_bytes (memcpy_at (dhcp_bytes zero_dhcp_msg) 0 (take 300 (replicate 1260 9))))"
  using frame_roundtrip [of "replicate 1260 9" 300 "replicate 1288 3"] by simp

text \<open>C38. Nothing compares the UDP length of a datagram with the bytes read: for every length field
  below 8 or above 1268 there is a 28-byte datagram with correct checksums that makes the last
  \<open>memcpy\<close> of \<open>receive_packet\<close> run out of its buffers.\<close>

theorem udp_length_unchecked:
  assumes "length packet0 = 1288" and "unat l < 8 \<or> 1268 < unat l"
  shows "\<exists>d. length d = 28 \<and> get16 d 24 = htons l \<and> packet_is_valid 28 d \<and>
    receive_packet packet0 (Inr d) reply = RecvFault"
proof (intro exI conjI)
  show "length (crafted_datagram l) = 28" by (simp add: crafted_datagram_def)
  show "get16 (crafted_datagram l) 24 = htons l"
    using packet_fields(5) [of "crafted_datagram l" _ "crafted_udp l" "[]"]
    by (simp add: crafted_datagram_def crafted_udp_sel)
  show "receive_packet packet0 (Inr (crafted_datagram l)) reply = RecvFault"
    by (rule receive_crafted [OF assms])
  note sent = sent_frame [OF refl length_replicate, of 0 0 0 0 0 67 68]
  show "packet_is_valid 28 (crafted_datagram l)"
    using receive_frame_gen(1) [OF refl sent(1-3) sent(10,4), of "crafted_udp l" "[]"]
    by (simp add: crafted_datagram_def crafted_udp_sel PORT_BOOTP_CLIENT_def sent(8,9))
qed

theorem udp_length_unchecked_witness:
  "\<exists>d. length d = 28 \<and> packet_is_valid 28 d \<and>
    receive_packet (replicate 1288 0) (Inr d) zero_dhcp_msg = RecvFault"
  using udp_length_unchecked [of "replicate 1288 0" 7 zero_dhcp_msg] by auto

text \<open>When \<open>receive_packet\<close> succeeds, the size it reports lies within the message structure, and
  the message it leaves has arrays of the right lengths.\<close>

theorem receive_size_bounds:
  assumes "receive_packet packet0 input reply = RecvOk n m" and "length packet0 = 1288" and "wf_dhcp reply"
  shows "0 \<le> n \<and> n \<le> int sizeof_dhcp_msg \<and> wf_dhcp m"
  using receive_bounds [OF assms] by (simp add: sizeof_dhcp_msg_def)

theorem receive_size_bounds_witness:
  "\<exists>m. receive_packet (replicate 1288 0)
     (Inr (frame_bytes (send_packet 0 (replicate 1260 0) 5 0 0 67 68))) zero_dhcp_msg = RecvOk 5 m \<and> wf_dhcp m"
proof -
  obtain m where m: "receive_packet (replicate 1288 0)
     (Inr (frame_bytes (send_packet 0 (replicate 1260 0) 5 0 0 67 68))) zero_dhcp_msg = RecvOk 5 m"
    using receive_sent [of "replicate 1260 0" 5 "replicate 1288 0" 68] by (simp add: PORT_BOOTP_CLIENT_def)
  then show ?thesis
    using receive_size_bounds [OF m] by (auto simp: wf_dhcp_def zero_dhcp_msg_def)
qed

end
