(* ===== verification/Netmask.thy ===== *)
theory Netmask
  imports Prelude
begin

text \<open>
  The network masks of \<^verbatim>\<open>test_wifi/libnetutils/ifc_utils.c\<close>: a prefix length as a mask in
  network byte order, and the loop that counts the leading ones of a mask.
\<close>

unbundle bit_operations_syntax

section \<open>Network masks\<close>

definition prefixLengthToIpv4Netmask :: "int \<Rightarrow> u32" where
  "prefixLengthToIpv4Netmask prefix_length =
     (if prefix_length \<le> 0 \<or> prefix_length > 32 then 0
      else let m = push_bit (nat (32 - prefix_length)) (NOT 0)
           in htonl m)"

lemma top_bit_iff: "(m :: u32) AND 0x80000000 \<noteq> 0 \<longleftrightarrow> 2147483648 \<le> unat m"
proof -
  have "m AND 0x80000000 \<noteq> 0 \<longleftrightarrow> bit m 31"
    by (simp add: bit_iff_and_push_bit_not_eq_0)
  also have "\<dots> \<longleftrightarrow> bit (unat m) 31"
    by (simp add: bit_unsigned_iff)
  also have "\<dots> \<longleftrightarrow> odd (unat m div 2 ^ 31)"
    by (simp add: bit_iff_odd)
  also have "\<dots> \<longleftrightarrow> 2147483648 \<le> unat m"
  proof -
    have "unat m div 2147483648 < 2"
      using unat_u32_less [of m] by (simp add: less_mult_imp_div_less)
    then have "unat m div 2147483648 = 0 \<or> unat m div 2147483648 = 1" by linarith
    then have "odd (unat m div 2147483648) \<longleftrightarrow> unat m div 2147483648 \<noteq> 0" by auto
    moreover have "(2 :: nat) ^ 31 = 2147483648" by simp
    ultimately show ?thesis by (simp only: div_eq_0_iff not_less) linarith
  qed
  finally show ?thesis .
qed

lemma unat_shift_left: "unat (push_bit 1 (m :: u32)) = 2 * unat m mod 4294967296"
  by (simp add: unat_word_ariths mult.commute)

lemma shift_top: "2147483648 \<le> unat m \<Longrightarrow> unat (push_bit 1 (m :: u32)) = 2 * unat m - 4294967296"
proof -
  assume "2147483648 \<le> unat m"
  then have "4294967296 \<le> 2 * unat m" by linarith
  moreover have "2 * unat m - 4294967296 < 4294967296" using unat_u32_less [of m] by linarith
  ultimately show ?thesis unfolding unat_shift_left by (simp only: le_mod_geq mod_less)
qed

function leading_ones :: "u32 \<Rightarrow> nat \<Rightarrow> nat" where
  "leading_ones m prefixLength =
     (if m AND 0x80000000 \<noteq> 0 then leading_ones (push_bit 1 m) (prefixLength + 1) else prefixLength)"
  by pat_completeness auto
termination
proof (relation "measure (\<lambda>(m, p). unat m)")
  fix m :: u32 and p :: nat
  assume "m AND 0x80000000 \<noteq> 0"
  then have "2147483648 \<le> unat m" by (simp only: top_bit_iff)
  then have "unat (push_bit 1 m) < unat m"
    using unat_u32_less [of m] shift_top [of m] by linarith
  then show "((push_bit 1 m, p + 1), m, p) \<in> measure (\<lambda>(m, p). unat m)" by simp
qed simp

declare leading_ones.simps [simp del]

definition ipv4NetmaskToPrefixLength :: "u32 \<Rightarrow> nat" where
  "ipv4NetmaskToPrefixLength nm = leading_ones (ntohl nm) 0"

lemma leading_ones_step:
  "2147483648 \<le> unat m \<Longrightarrow> leading_ones m p = leading_ones (push_bit 1 m) (p + 1)"
  "unat m < 2147483648 \<Longrightarrow> leading_ones m p = p"
  using top_bit_iff [of m] by (simp_all add: leading_ones.simps [of m p])

text \<open>The word whose top \<open>p\<close> bits are set.\<close>

lemma unat_neg: "w \<noteq> 0 \<Longrightarrow> unat (- w) = 4294967296 - unat (w :: u32)"
proof -
  assume w: "w \<noteq> 0"
  have "- w = - 1 - (w - 1)" by simp
  moreover have "w - 1 \<le> - 1" by (rule word_n1_ge)
  ultimately have "unat (- w) = unat (- 1 :: u32) - unat (w - 1)" by (simp only: unat_sub)
  moreover have "unat (- 1 :: u32) = 4294967295"
    by (simp add: unsigned_minus_1_eq_mask mask_eq_exp_minus_1)
  moreover have "unat (w - 1) = unat w - 1" "unat w \<noteq> 0" using w by (simp_all add: unat_minus_one unat_eq_0)
  ultimately show ?thesis by linarith
qed

lemma mask_word_eq: "p \<le> 32 \<Longrightarrow> unat (push_bit (32 - p) (NOT 0) :: u32) = 2 ^ 32 - 2 ^ (32 - p)"
proof -
  assume p: "p \<le> 32"
  have "push_bit (32 - p) (NOT 0) = (- (2 ^ (32 - p)) :: u32)"
    by (simp add: push_bit_eq_mult)
  also have "unat \<dots> = 2 ^ 32 - 2 ^ (32 - p)"
  proof (cases "p = 0")
    case True
    have "(2 ^ 32 :: u32) = 0" by simp
    then show ?thesis using True by simp
  next
    case False
    then have "(2 :: nat) ^ (32 - p) < 2 ^ 32" using p by (intro power_strict_increasing) auto
    moreover have "unat ((2 :: u32) ^ (32 - p)) = 2 ^ (32 - p) mod 2 ^ 32"
      using unat_of_nat [of "2 ^ (32 - p)", where ?'a = 32] by simp
    ultimately have "unat ((2 :: u32) ^ (32 - p)) = 2 ^ (32 - p)" by simp
    moreover have "(2 :: nat) ^ (32 - p) \<noteq> 0" by simp
    ultimately show ?thesis using unat_neg [of "2 ^ (32 - p)"] by (auto simp: word_unat_eq_iff)
  qed
  finally show ?thesis .
qed

lemma leading_ones_mask: "k \<le> 32 \<Longrightarrow> unat m = 2 ^ 32 - 2 ^ (32 - k) \<Longrightarrow> leading_ones m p = p + k"
proof (induction k arbitrary: m p)
  case 0
  then show ?case by (simp add: leading_ones_step)
next
  case (Suc k)
  have le: "(2 :: nat) ^ (32 - Suc k) \<le> 2 ^ 31" using Suc.prems(1) by (intro power_increasing) auto
  have dbl: "(2 :: nat) * 2 ^ (32 - Suc k) = 2 ^ (32 - k)"
    using Suc.prems(1) by (simp add: Suc_diff_le flip: power_Suc)
  have ge: "2147483648 \<le> unat m" using le Suc.prems(2) by simp
  have "unat (push_bit 1 m) = 2 * unat m - 4294967296"
    by (rule shift_top [OF ge])
  also have "\<dots> = 2 ^ 32 - 2 ^ (32 - k)" proof -
    define x y :: nat where "x = 2 ^ (32 - Suc k)" and "y = 2 ^ (32 - k)"
    have "unat m = 4294967296 - x" "2 * x = y" "x \<le> 2147483648"
      using Suc.prems(2) dbl le by (simp_all add: x_def y_def)
    then have "2 * unat m - 4294967296 = 4294967296 - y" by linarith
    then show ?thesis by (simp add: y_def)
  qed
  finally have "leading_ones (push_bit 1 m) (p + 1) = p + 1 + k"
    using Suc.IH Suc.prems(1) by simp
  then show ?case using leading_ones_step(1) [OF ge] by simp
qed

lemma netmask_roundtrip: "0 \<le> p \<Longrightarrow> p \<le> 32 \<Longrightarrow>
   int (ipv4NetmaskToPrefixLength (prefixLengthToIpv4Netmask p)) = p"
proof (cases "p = 0")
  case True
  then show ?thesis
    by (simp add: ipv4NetmaskToPrefixLength_def prefixLengthToIpv4Netmask_def leading_ones_step htonl_def
        unat_mk32 unat_byte_of)
next
  case False
  assume p: "0 \<le> p" "p \<le> 32"
  then have "nat (32 - p) = 32 - nat p" by simp
  then have "unat (ntohl (prefixLengthToIpv4Netmask p)) = 2 ^ 32 - 2 ^ (32 - nat p)"
    using p False mask_word_eq [of "nat p"] by (simp add: prefixLengthToIpv4Netmask_def Let_def)
  then show ?thesis
    using leading_ones_mask [of "nat p" _ 0] p by (simp add: ipv4NetmaskToPrefixLength_def)
qed

text \<open>What the loop counts in any mask: how many leading bits are set, up to the first clear one.\<close>

lemma leading_ones_bit:
  "bit m 31 \<Longrightarrow> leading_ones m p = leading_ones (push_bit 1 m) (p + 1)"
  "\<not> bit m 31 \<Longrightarrow> leading_ones m p = p"
  by (simp_all add: leading_ones.simps [of m p] bit_iff_and_push_bit_not_eq_0)

lemma leading_ones_ge: "p \<le> leading_ones m p"
proof (induction m p rule: leading_ones.induct)
  case (1 m p)
  show ?case
  proof (cases "bit m 31")
    case True
    then have "p + 1 \<le> leading_ones (push_bit 1 m) (p + 1)"
      using 1 by (simp add: bit_iff_and_push_bit_not_eq_0)
    then show ?thesis using leading_ones_bit(1) [OF True, of p] by linarith
  qed (simp add: leading_ones_bit)
qed

lemma leading_ones_count:
  "leading_ones m p = p + k \<Longrightarrow>
   k \<le> 32 \<and> (\<forall>i<k. bit m (31 - i)) \<and> (k < 32 \<longrightarrow> \<not> bit m (31 - k))"
proof (induction k arbitrary: m p)
  case 0
  have "\<not> bit m 31"
    using 0 leading_ones_bit(1) [of m p] leading_ones_ge [of "p + 1" "push_bit 1 m"] by auto
  then show ?case by simp
next
  case (Suc k)
  have b: "bit m 31" using Suc.prems leading_ones_bit(2) [of m p] by (auto intro: ccontr)
  then have "leading_ones (push_bit 1 m) (p + 1) = (p + 1) + k"
    using Suc.prems leading_ones_bit(1) [OF b, of p] by simp
  from Suc.IH [OF this] have IH: "k \<le> 32" "\<And>i. i < k \<Longrightarrow> bit (push_bit 1 m) (31 - i)"
    "k < 32 \<Longrightarrow> \<not> bit (push_bit 1 m) (31 - k)" by simp_all
  have shift: "bit (push_bit 1 m) (31 - i) \<longleftrightarrow> i < 31 \<and> bit m (31 - Suc i)" for i
    unfolding bit_push_bit_iff by (cases "i < 31") auto
  have k: "k < 32" using IH(2) [of 31] shift [of 31] by (cases "k < 32") auto
  have "bit m (31 - i)" if "i < Suc k" for i
    using that b IH(2) [of "i - 1"] shift [of "i - 1"] by (cases i) auto
  moreover have "\<not> bit m (31 - Suc k)" if "Suc k < 32"
    using that IH(3) shift [of k] by simp
  ultimately show ?case using k by simp
qed

lemma netmask_prefix_bits:
  assumes "k = ipv4NetmaskToPrefixLength nm"
  shows "k \<le> 32 \<and> (\<forall>i<k. bit (ntohl nm) (31 - i)) \<and> (k < 32 \<longrightarrow> \<not> bit (ntohl nm) (31 - k))"
  using leading_ones_count [of "ntohl nm" 0 k] assms by (simp add: ipv4NetmaskToPrefixLength_def)

section \<open>Properties\<close>

text \<open>Every prefix length is recovered from the mask built for it, and the mask has exactly that
  many leading ones in host order and no other bit set.\<close>

theorem netmask_prefix_roundtrip:
  assumes "0 \<le> p" and "p \<le> 32"
  shows "int (ipv4NetmaskToPrefixLength (prefixLengthToIpv4Netmask p)) = p \<and>
    unat (ntohl (prefixLengthToIpv4Netmask p)) = 2 ^ 32 - 2 ^ nat (32 - p)"
proof -
  have "unat (ntohl (prefixLengthToIpv4Netmask p)) = 2 ^ 32 - 2 ^ nat (32 - p)"
    using assms mask_word_eq [of "nat p"]
    by (cases "p = 0") (simp_all add: prefixLengthToIpv4Netmask_def Let_def nat_diff_distrib bo32.swap_eq_iff
        htonl_def unat_mk32 unat_byte_of)
  then show ?thesis using netmask_roundtrip [OF assms] by simp
qed

theorem netmask_prefix_roundtrip_witness:
  "ipv4NetmaskToPrefixLength (prefixLengthToIpv4Netmask 24) = 24"
  using netmask_prefix_roundtrip [of 24] by simp

end
