(* ===== verification/CString.thy ===== *)
theory CString
  imports Prelude
begin

text \<open>
  What the program uses of C's strings: comparison of a prefix, \<open>snprintf\<close> into an array of
  fixed size, decimal numbers, and the dotted form of an IPv4 address (\<open>inet_ntoa\<close>).
\<close>

text \<open>\<open>strncmp(s, t, n) == 0\<close> on strings without NUL; \<open>strcmp\<close> is equality.\<close>

definition strncmp_eq :: "string \<Rightarrow> string \<Rightarrow> nat \<Rightarrow> bool" where
  "strncmp_eq s t n \<longleftrightarrow> take n s = take n t"

text \<open>\<open>snprintf(buf, n, \<dots>)\<close> keeps \<open>n - 1\<close> characters.\<close>

definition snprintf :: "nat \<Rightarrow> string \<Rightarrow> string" where
  "snprintf n s = bounded_copy n s"

lemma length_snprintf: "0 < n \<Longrightarrow> length (snprintf n s) < n"
  by (simp add: snprintf_def length_bounded_copy)

definition NUL :: char where "NUL = CHR 0x00"

text \<open>\<open>strncpy (dst, src, n)\<close> fills the whole array: it cuts or pads with NUL.\<close>

definition strncpy :: "string \<Rightarrow> nat \<Rightarrow> string" where
  "strncpy src n = take n (src @ replicate n NUL)"

text \<open>The string in an array, if a NUL ends it.\<close>

definition c_string :: "string \<Rightarrow> string option" where
  "c_string arr = (if NUL \<in> set arr then Some (takeWhile (\<lambda>c. c \<noteq> NUL) arr) else None)"

fun show_nat :: "nat \<Rightarrow> string" where
  "show_nat n = (if n < 10 then [char_of (48 + n)] else show_nat (n div 10) @ [char_of (48 + n mod 10)])"

declare show_nat.simps [simp del]

lemma show_nat_nonempty [simp]: "show_nat n \<noteq> []"
  by (subst show_nat.simps) simp

definition inet_ntoa :: "u32 \<Rightarrow> string" where
  "inet_ntoa a = show_nat (unat (byte_of 0 a)) @ ''.'' @ show_nat (unat (byte_of 1 a)) @ ''.'' @
     show_nat (unat (byte_of 2 a)) @ ''.'' @ show_nat (unat (byte_of 3 a))"

lemma inet_ntoa_loopback: "inet_ntoa (htonl 0x7F000001) = ''127.0.0.1''"
proof -
  have b: "byte_of 0 (0x7F000001 :: u32) = 1" "byte_of 1 (0x7F000001 :: u32) = 0"
    "byte_of 2 (0x7F000001 :: u32) = 0" "byte_of 3 (0x7F000001 :: u32) = 127"
    by (simp_all add: word_unat_eq_iff unat_byte_of)
  show ?thesis
    by (simp add: inet_ntoa_def htonl_def b [unfolded One_nat_def] show_nat.simps char_of_def bit_0)
qed

definition PROPERTY_KEY_MAX :: nat where "PROPERTY_KEY_MAX = 32"
definition PROPERTY_VALUE_MAX :: nat where "PROPERTY_VALUE_MAX = 92"

text \<open>\<open>atol\<close>: white space, a sign, digits; the rest is ignored.\<close>

fun atol_digits :: "string \<Rightarrow> int \<Rightarrow> int" where
  "atol_digits [] acc = acc"
| "atol_digits (c # cs) acc =
     (if 48 \<le> (of_char c :: nat) \<and> (of_char c :: nat) \<le> 57
      then atol_digits cs (acc * 10 + (of_char c - 48)) else acc)"

definition is_space :: "char \<Rightarrow> bool" where
  "is_space c \<longleftrightarrow> (of_char c :: nat) = 32 \<or> 9 \<le> (of_char c :: nat) \<and> (of_char c :: nat) \<le> 13"

definition atol :: "string \<Rightarrow> int" where
  "atol s = (case dropWhile is_space s of
       [] \<Rightarrow> 0
     | c # cs \<Rightarrow> if c = CHR ''-'' then - atol_digits cs 0
                 else if c = CHR ''+'' then atol_digits cs 0 else atol_digits (c # cs) 0)"

text \<open>\<open>atoi\<close> is \<open>strtol\<close> cut to an \<open>int\<close>: what does not fit becomes the nearest that does.\<close>

definition atoi :: "string \<Rightarrow> int" where
  "atoi s = max (- 2147483648) (min 2147483647 (atol s))"

lemma atoi_range: "- 2147483648 \<le> atoi s" "atoi s < 2147483648"
  by (simp_all add: atoi_def)

end
