(* ===== verification/Dhcpdecode.thy ===== *)
theory Dhcpdecode
  imports Packet Netmask CString
begin

text \<open>
  \<^verbatim>\<open>test_wifi/libnetutils/dhcpclient.c\<close>, first part: \<open>decode_dhcp_msg\<close>, the validity check of a
  reply, and the logging of a message, which rewrites two of its fields. Every access to an array
  (the option area, the hardware address, the two text fields, the 2048 bytes of \<open>buf\<close>) goes through
  the checked accesses of \<^verbatim>\<open>Prelude\<close>, which are \<open>None\<close> outside the array, so that a theorem that a
  routine returns \<open>Some\<close> says that it stays inside all of them. The decoder is proved equal to a
  fold over the list of options in the bytes received.
\<close>

section \<open>The parameters of a lease\<close>

record dhcp_info =
  i_type :: u32
  i_ipaddr :: u32
  i_gateway :: u32
  i_prefixLength :: u32
  i_dns1 :: u32
  i_dns2 :: u32
  i_serveraddr :: u32
  i_lease :: u32

definition zero_info :: dhcp_info where
  "zero_info = \<lparr>i_type = 0, i_ipaddr = 0, i_gateway = 0, i_prefixLength = 0, i_dns1 = 0,
     i_dns2 = 0, i_serveraddr = 0, i_lease = 0\<rparr>"

definition get_dhcp_info :: "dhcp_info \<Rightarrow> u32 \<times> u32 \<times> u32 \<times> u32 \<times> u32 \<times> u32 \<times> u32" where
  "get_dhcp_info last_good_info =
     (i_ipaddr last_good_info, i_gateway last_good_info, i_prefixLength last_good_info,
      i_dns1 last_good_info, i_dns2 last_good_info, i_serveraddr last_good_info,
      i_lease last_good_info)"

definition dhcp_type_to_name :: "u32 \<Rightarrow> string" where
  "dhcp_type_to_name type =
     (if sint type = DHCPDISCOVER then ''discover''
      else if sint type = DHCPOFFER then ''offer''
      else if sint type = DHCPREQUEST then ''request''
      else if sint type = DHCPDECLINE then ''decline''
      else if sint type = DHCPACK then ''ack''
      else if sint type = DHCPNAK then ''nak''
      else if sint type = DHCPRELEASE then ''release''
      else if sint type = DHCPINFORM then ''inform''
      else ''???'')"

section \<open>Decoding\<close>

definition rd32 :: "bytes \<Rightarrow> nat \<Rightarrow> u32 option" where
  "rd32 b i = (if i + 4 \<le> length b then Some (get32 b i) else None)"

text \<open>The \<open>switch\<close> of \<open>decode_dhcp_msg\<close>; \<open>x\<close> is the position of the option's value.\<close>

definition decode_option :: "bytes \<Rightarrow> nat \<Rightarrow> u8 \<Rightarrow> int \<Rightarrow> dhcp_info \<Rightarrow> dhcp_info option" where
  "decode_option opts x opt optlen info =
     (if opt = OPT_SUBNET_MASK then
        (if optlen \<ge> 4 then do {
           m \<leftarrow> rd32 opts x;
           Some (info\<lparr>i_prefixLength := of_nat (ipv4NetmaskToPrefixLength m)\<rparr>)
         } else Some info)
      else if opt = OPT_GATEWAY then
        (if optlen \<ge> 4 then do { g \<leftarrow> rd32 opts x; Some (info\<lparr>i_gateway := g\<rparr>) } else Some info)
      else if opt = OPT_DNS then do {
        info \<leftarrow> (if optlen \<ge> 4 then do { d \<leftarrow> rd32 opts x; Some (info\<lparr>i_dns1 := d\<rparr>) } else Some info);
        if optlen \<ge> 8 then do { d \<leftarrow> rd32 opts (x + 4); Some (info\<lparr>i_dns2 := d\<rparr>) } else Some info
      }
      else if opt = OPT_LEASE_TIME then
        (if optlen \<ge> 4 then do {
           l \<leftarrow> rd32 opts x;
           Some (info\<lparr>i_lease := ntohl l\<rparr>)
         } else Some info)
      else if opt = OPT_SERVER_ID then
        (if optlen \<ge> 4 then do { a \<leftarrow> rd32 opts x; Some (info\<lparr>i_serveraddr := a\<rparr>) } else Some info)
      else if opt = OPT_MESSAGE_TYPE then do { t \<leftarrow> rd opts x; Some (info\<lparr>i_type := ucast t\<rparr>) }
      else Some info)"

text \<open>The \<open>while (len > 2)\<close> loop.\<close>

lemma uint_gt_neg: "- 2 < uint (n :: u8)"
  by (rule order_less_le_trans [OF _ unsigned_greater_eq]) simp

function decode_loop :: "bytes \<Rightarrow> nat \<Rightarrow> int \<Rightarrow> dhcp_info \<Rightarrow> dhcp_info option" where
  "decode_loop opts x len info =
     (if len > 2 then do {
        opt \<leftarrow> rd opts x;
        let x = x + 1;
        if opt = OPT_PAD then decode_loop opts x (len - 1) info
        else if opt = OPT_END then Some info
        else do {
          n \<leftarrow> rd opts x;
          let x = x + 1;
          let optlen = int (unat n);
          let len = len - 2;
          if optlen > len then Some info
          else do {
            info \<leftarrow> decode_option opts x opt optlen info;
            decode_loop opts (x + nat optlen) (len - optlen) info
          }
        }
      } else Some info)"
  by pat_completeness auto
termination
  by (relation "measure (\<lambda>(opts, x, len, info). nat len)") (auto simp: uint_gt_neg)

declare decode_loop.simps [simp del]

text \<open>The result is \<open>None\<close> when a read leaves \<open>options\<close>, else the return code and \<open>*info\<close>.\<close>

definition decode_dhcp_msg :: "dhcp_msg \<Rightarrow> int \<Rightarrow> (int \<times> dhcp_info) option" where
  "decode_dhcp_msg msg len =
     (let info = zero_info; opts = m_options msg in
      if len < int DHCP_MSG_FIXED_SIZE + 4 then Some (-1, info)
      else do {
        let len = len - (int DHCP_MSG_FIXED_SIZE + 4);
        c1 \<leftarrow> rd opts 0;
        if c1 \<noteq> OPT_COOKIE1 then Some (-1, info) else do {
        c2 \<leftarrow> rd opts 1;
        if c2 \<noteq> OPT_COOKIE2 then Some (-1, info) else do {
        c3 \<leftarrow> rd opts 2;
        if c3 \<noteq> OPT_COOKIE3 then Some (-1, info) else do {
        c4 \<leftarrow> rd opts 3;
        if c4 \<noteq> OPT_COOKIE4 then Some (-1, info) else do {
        info \<leftarrow> decode_loop opts 4 len info;
        Some (0, info\<lparr>i_ipaddr := m_yiaddr msg\<rparr>)
        }}}}
      })"

section \<open>Validity of a reply\<close>

text \<open>\<open>memcmp (msg->chaddr, reply->chaddr, msg->hlen)\<close> reads \<open>hlen\<close> bytes of the two arrays of 16.\<close>

definition is_valid_reply :: "dhcp_msg \<Rightarrow> dhcp_msg \<Rightarrow> int \<Rightarrow> bool option" where
  "is_valid_reply msg reply sz =
     (if sz < int DHCP_MSG_FIXED_SIZE then Some False
      else if m_op reply \<noteq> OP_BOOTREPLY then Some False
      else if m_xid reply \<noteq> m_xid msg then Some False
      else if m_htype reply \<noteq> m_htype msg then Some False
      else if m_hlen reply \<noteq> m_hlen msg then Some False
      else do {
        a \<leftarrow> rd_n (m_chaddr msg) 0 (unat (m_hlen msg));
        b \<leftarrow> rd_n (m_chaddr reply) 0 (unat (m_hlen msg));
        Some (if a \<noteq> b then False else True)
      })"

section \<open>Logging a message\<close>

definition hex_digit :: "nat \<Rightarrow> char" where
  "hex_digit n = char_of (if n < 10 then 48 + n else 87 + n)"

text \<open>One \<open>sprintf (cp, " %02x ", b)\<close>.\<close>

definition hex_byte :: "u8 \<Rightarrow> string" where
  "hex_byte b = '' '' @ [hex_digit (unat b div 16), hex_digit (unat b mod 16)] @ '' ''"

definition ascii :: "string \<Rightarrow> bytes" where
  "ascii s = map (\<lambda>c. of_char c) s"

text \<open>
  \<open>hex2str\<close>: each \<open>sprintf\<close> writes four characters and a NUL at \<open>cp\<close>; with \<open>len\<close> 0 nothing is
  written, and the buffer keeps what it held. The array is read from its position \<open>x\<close> on.
\<close>

fun hex2str_loop :: "bytes \<Rightarrow> nat \<Rightarrow> bytes \<Rightarrow> nat \<Rightarrow> nat \<Rightarrow> bytes option" where
  "hex2str_loop buf cp array i 0 = Some buf"
| "hex2str_loop buf cp array i (Suc n) = do {
     b \<leftarrow> rd array i;
     buf \<leftarrow> wr_n buf cp (ascii (hex_byte b) @ [0]);
     hex2str_loop buf (cp + 4) array (i + 1) n
   }"

definition hex2str :: "bytes \<Rightarrow> bytes \<Rightarrow> nat \<Rightarrow> nat \<Rightarrow> bytes option" where
  "hex2str buf array x len = hex2str_loop buf 0 array x len"

text \<open>The loops \<open>for (n = 0; n < 64; n++)\<close> over \<open>sname\<close> and \<open>file\<close>; the last argument is how
  many characters are left.\<close>

fun sanitise :: "bytes \<Rightarrow> nat \<Rightarrow> nat \<Rightarrow> bytes option" where
  "sanitise b n 0 = Some b"
| "sanitise b n (Suc k) = do {
     c \<leftarrow> rd b n;
     if c < 32 \<or> c > 127 then
       (if c = 0 then Some b else do { b \<leftarrow> wr b n 46; sanitise b (n + 1) k })
     else sanitise b (n + 1) k
   }"

datatype dump_line =
    DumpBadLength int
  | DumpOp string u8 u8 u8 u8
  | DumpXid u32 u16 u16 int
  | DumpAddr string string
  | DumpChaddr bytes
  | DumpText string bytes
  | DumpOption u8 nat bytes string

definition cstr :: "bytes \<Rightarrow> bytes" where
  "cstr b = takeWhile (\<lambda>c. c \<noteq> 0) b"

text \<open>\<open>%s\<close> reads an array up to a NUL, and past its end when there is none.\<close>

definition print_s :: "bytes \<Rightarrow> bytes option" where
  "print_s b = (if 0 \<in> set b then Some (cstr b) else None)"

definition sizeof_buf :: nat where "sizeof_buf = 2048"

function dump_options :: "bytes \<Rightarrow> nat \<Rightarrow> int \<Rightarrow> bytes \<Rightarrow> dump_line list option" where
  "dump_options opts x len buf =
     (if len > 2 then do {
        opt \<leftarrow> rd opts x;
        if opt = 0 then dump_options opts (x + 1) (len - 1) buf
        else if opt = OPT_END then Some []
        else do {
          let len = len - 2;
          n \<leftarrow> rd opts (x + 1);
          let optsz = unat n;
          if int optsz > len then Some []
          else do {
            buf \<leftarrow> (if opt = OPT_DOMAIN_NAME \<or> opt = OPT_MESSAGE then do {
                let n = (if optsz < sizeof_buf - 1 then optsz else sizeof_buf - 1);
                src \<leftarrow> rd_n opts (x + 2) n;
                buf \<leftarrow> wr_n buf 0 src;
                wr buf n 0
              } else hex2str buf opts (x + 2) optsz);
            t \<leftarrow> (if opt = OPT_MESSAGE_TYPE then do { t \<leftarrow> rd opts (x + 2); Some (dhcp_type_to_name (ucast t)) }
                  else Some '''');
            text \<leftarrow> print_s buf;
            ls \<leftarrow> dump_options opts (x + optsz + 2) (len - int optsz) buf;
            Some (DumpOption opt optsz text t # ls)
          }
        }
      } else Some [])"
  by pat_completeness auto
termination
  by (relation "measure (\<lambda>(opts, x, len, buf). nat len)") (auto simp: uint_gt_neg)

declare dump_options.simps [simp del]

text \<open>
  \<open>dump_dhcp_msg\<close>: the lines it logs and the message as it leaves it. The local array \<open>buf\<close> holds
  what the stack held; the call faults when it is printed without a NUL in it.
\<close>

definition dump_dhcp_msg :: "bytes \<Rightarrow> dhcp_msg \<Rightarrow> int \<Rightarrow> (dump_line list \<times> dhcp_msg) option" where
  "dump_dhcp_msg buf msg len =
     (if len < int DHCP_MSG_FIXED_SIZE then Some ([DumpBadLength len], msg)
      else do {
        let len = len - int DHCP_MSG_FIXED_SIZE;
        let name = (if m_op msg = OP_BOOTREQUEST then ''BOOTREQUEST''
                    else if m_op msg = OP_BOOTREPLY then ''BOOTREPLY'' else ''????'');
        let c = (if unat (m_hlen msg) > 16 then 16 else unat (m_hlen msg));
        buf \<leftarrow> hex2str buf (m_chaddr msg) 0 c;
        chaddr \<leftarrow> print_s buf;
        sname \<leftarrow> sanitise (m_sname msg) 0 64;
        sname \<leftarrow> wr sname 63 0;
        file \<leftarrow> sanitise (m_file msg) 0 128;
        file \<leftarrow> wr file 127 0;
        let msg' = msg\<lparr>m_sname := sname, m_file := file\<rparr>;
        sname_text \<leftarrow> print_s sname;
        file_text \<leftarrow> print_s file;
        let ls = [DumpOp name (m_op msg) (m_htype msg) (m_hlen msg) (m_hops msg),
                  DumpXid (ntohl (m_xid msg)) (ntohs (m_secs msg)) (ntohs (m_flags msg)) len,
                  DumpAddr ''ciaddr'' (inet_ntoa (m_ciaddr msg)),
                  DumpAddr ''yiaddr'' (inet_ntoa (m_yiaddr msg)),
                  DumpAddr ''siaddr'' (inet_ntoa (m_siaddr msg)),
                  DumpAddr ''giaddr'' (inet_ntoa (m_giaddr msg)),
                  DumpChaddr chaddr, DumpText ''sname'' sname_text, DumpText ''file'' file_text];
        if len < 4 then Some (ls, msg')
        else do {
          os \<leftarrow> dump_options (m_options msg) 4 (len - 4) buf;
          Some (ls @ os, msg')
        }
      })"

section \<open>The options as a list\<close>

text \<open>
  The reference: the options in the bytes received, each as its code, its length and the bytes
  from its value on. An entry of two bytes or less at the end is not an option, as in the code.
\<close>

function tlvs :: "bytes \<Rightarrow> (u8 \<times> nat \<times> bytes) list" where
  "tlvs bs =
     (case bs of
        c # n # v # rest \<Rightarrow>
          if c = OPT_PAD then tlvs (n # v # rest)
          else if c = OPT_END then []
          else if length (v # rest) < unat n then []
          else (c, unat n, v # rest) # tlvs (drop (unat n) (v # rest))
      | _ \<Rightarrow> [])"
  by pat_completeness auto
termination
  by (relation "measure length") auto

declare tlvs.simps [simp del]

definition apply_option :: "dhcp_info \<Rightarrow> u8 \<times> nat \<times> bytes \<Rightarrow> dhcp_info" where
  "apply_option info item = (case item of (c, n, v) \<Rightarrow>
     if c = OPT_SUBNET_MASK \<and> 4 \<le> n then
       info\<lparr>i_prefixLength := of_nat (ipv4NetmaskToPrefixLength (get32 v 0))\<rparr>
     else if c = OPT_GATEWAY \<and> 4 \<le> n then info\<lparr>i_gateway := get32 v 0\<rparr>
     else if c = OPT_DNS \<and> 8 \<le> n then info\<lparr>i_dns1 := get32 v 0, i_dns2 := get32 v 4\<rparr>
     else if c = OPT_DNS \<and> 4 \<le> n then info\<lparr>i_dns1 := get32 v 0\<rparr>
     else if c = OPT_LEASE_TIME \<and> 4 \<le> n then info\<lparr>i_lease := ntohl (get32 v 0)\<rparr>
     else if c = OPT_SERVER_ID \<and> 4 \<le> n then info\<lparr>i_serveraddr := get32 v 0\<rparr>
     else if c = OPT_MESSAGE_TYPE then info\<lparr>i_type := ucast (v ! 0)\<rparr>
     else info)"

definition cookie :: bytes where
  "cookie = [OPT_COOKIE1, OPT_COOKIE2, OPT_COOKIE3, OPT_COOKIE4]"

definition decode_spec :: "dhcp_msg \<Rightarrow> bytes \<Rightarrow> int \<times> dhcp_info" where
  "decode_spec msg received =
     (if length received < 4 \<or> take 4 received \<noteq> cookie then (-1, zero_info)
      else (0, (foldl apply_option zero_info (tlvs (drop 4 received)))\<lparr>i_ipaddr := m_yiaddr msg\<rparr>))"

lemma decode_option_eq:
  assumes v: "v = take k (drop x opts)" and k: "x + k \<le> length opts" "n \<le> k" "0 < k"
  shows "decode_option opts x c (int n) info = Some (apply_option info (c, n, v))"
proof -
  have len: "length v = k" using k v by simp
  have at: "i < k \<Longrightarrow> opts ! (x + i) = v ! i" for i using v k(1) by simp
  have g: "4 \<le> n \<Longrightarrow> rd32 opts x = Some (get32 v 0)"
    using k at [of 0] at [of 1] at [of 2] at [of 3] by (simp add: rd32_def get32_def eval_nat_numeral)
  have g4: "8 \<le> n \<Longrightarrow> rd32 opts (x + 4) = Some (get32 v 4)"
    using k at [of 4] at [of 5] at [of 6] at [of 7]
    by (simp add: rd32_def get32_def eval_nat_numeral)
  have b: "rd opts x = Some (v ! 0)" using k at [of 0] by (simp add: rd_def)
  show ?thesis
    by (simp add: decode_option_def apply_option_def g g4 b opt_consts)
qed

lemma tlvs_short: "length bs \<le> 2 \<Longrightarrow> tlvs bs = []"
  by (subst tlvs.simps) (auto simp: le_Suc_eq numeral_2_eq_2 length_Suc_conv)

lemma tlvs_step:
  "0 < length v \<Longrightarrow> tlvs (c # n # v) =
     (if c = OPT_PAD then tlvs (n # v)
      else if c = OPT_END then []
      else if length v < unat n then []
      else (c, unat n, v) # tlvs (drop (unat n) v))"
  by (cases v) (simp_all add: tlvs.simps)

lemma decode_loop_step:
  assumes "rd opts x = Some c" and "rd opts (x + 1) = Some n"
  shows "decode_loop opts x (int (3 + j)) info =
        (if c = OPT_PAD then decode_loop opts (x + 1) (int (2 + j)) info
         else if c = OPT_END then Some info
         else if 1 + j < unat n then Some info
         else decode_option opts (x + 2) c (int (unat n)) info \<bind>
                (\<lambda>info. decode_loop opts (x + 2 + unat n) (int (1 + j - unat n)) info))"
proof -
  have "int (1 + j - unat n) = 1 + int j - int (unat n)" if "\<not> 1 + j < unat n"
    using that by (simp only: of_nat_diff not_less of_nat_add of_nat_1)
  then show ?thesis
    using assms by (subst decode_loop.simps) (simp del: of_nat_unat add: Let_def add.assoc)
qed

lemma decode_loop_eq:
  assumes "x + k \<le> length opts"
  shows "decode_loop opts x (int k) info = Some (foldl apply_option info (tlvs (take k (drop x opts))))"
  using assms
proof (induction k arbitrary: x info rule: less_induct)
  case (less k)
  show ?case
  proof (cases "k \<le> 2")
    case True
    then show ?thesis by (simp add: decode_loop.simps tlvs_short)
  next
    case False
    then have "3 \<le> k" by simp
    then obtain j where j: "k = 3 + j" by (metis le_Suc_ex)
    define c n where "c = opts ! x" and "n = opts ! (x + 1)"
    define v where "v = take (1 + j) (drop (x + 2) opts)"
    have bs: "take k (drop x opts) = c # n # v"
      using less.prems j by (simp add: c_def n_def v_def Cons_nth_drop_Suc [symmetric] eval_nat_numeral)
    have lv: "length v = 1 + j" using less.prems j by (simp add: v_def)
    have r: "rd opts x = Some c" "rd opts (x + 1) = Some n"
      using less.prems j by (simp_all add: rd_def c_def n_def)
    have pad: "take (2 + j) (drop (x + 1) opts) = n # v"
      using less.prems j by (simp add: n_def v_def Cons_nth_drop_Suc [symmetric] eval_nat_numeral)
    have nxt: "take (1 + j - unat n) (drop (x + 2 + unat n) opts) = drop (unat n) v"
      by (simp add: v_def drop_take add.commute)
    have opt: "decode_option opts (x + 2) c (int (unat n)) info = Some (apply_option info (c, unat n, v))"
      if "\<not> 1 + j < unat n"
      by (rule decode_option_eq [OF v_def]) (use that less.prems j in simp_all)
    have go: "decode_loop opts (x + 2 + unat n) (int (1 + j - unat n)) i =
        Some (foldl apply_option i (tlvs (drop (unat n) v)))" if "\<not> 1 + j < unat n" for i
      using less.IH [of "1 + j - unat n" "x + 2 + unat n" i] less.prems j that by (simp only: nxt)
    have skip: "decode_loop opts (x + 1) (int (2 + j)) info =
        Some (foldl apply_option info (tlvs (n # v)))"
      using less.IH [of "2 + j" "x + 1" info] less.prems j by (simp only: pad)
    have lv0: "0 < length v" by (simp add: lv)
    have val: "decode_option opts (x + 2) c (int (unat n)) info \<bind>
        decode_loop opts (x + 2 + unat n) (int (1 + j - unat n)) =
        Some (foldl apply_option info ((c, unat n, v) # tlvs (drop (unat n) v)))"
      if "\<not> 1 + j < unat n"
      by (simp only: opt [OF that] go [OF that] Option.bind_lunit foldl_Cons)
    show ?thesis
      unfolding bs unfolding j decode_loop_step [OF r] skip tlvs_step [OF lv0] lv
      by (cases "1 + j < unat n") (simp_all only: val if_distrib [where f = "\<lambda>l. Some (foldl apply_option info l)"]
          foldl_Nil if_True if_False not_False_eq_True)
  qed
qed

text \<open>The decoder reads the bytes received and no others, and computes the reference.\<close>

lemma take_4: "4 \<le> length b \<Longrightarrow> take 4 b = [b ! 0, b ! 1, b ! 2, b ! 3]"
  by (rule nth_equalityI) (auto simp: less_Suc_eq eval_nat_numeral)

lemma decode_dhcp_msg_eq:
  assumes "wf_dhcp msg" and "n \<le> 1260" and "236 \<le> n"
  shows "decode_dhcp_msg msg (int n) = Some (decode_spec msg (take (n - 236) (m_options msg)))"
proof (cases "n < 240")
  case True
  then have "n - 236 < 4" using assms(3) by linarith
  then show ?thesis using assms True
    by (simp add: decode_dhcp_msg_def decode_spec_def DHCP_MSG_FIXED_SIZE_def wf_dhcp_def)
next
  case False
  let ?o = "m_options msg"
  have lo: "length ?o = 1024" using assms(1) by (simp add: wf_dhcp_def)
  have t4: "take 4 (take (n - 236) ?o) = [?o ! 0, ?o ! 1, ?o ! 2, ?o ! 3]"
    using False take_4 [of ?o] lo by simp
  have rd4: "rd ?o 0 = Some (?o ! 0)" "rd ?o 1 = Some (?o ! 1)" "rd ?o 2 = Some (?o ! 2)"
    "rd ?o 3 = Some (?o ! 3)" using lo by (simp_all add: rd_def)
  have e: "int n - (int DHCP_MSG_FIXED_SIZE + 4) = int (n - 240)"
    using False by (simp add: DHCP_MSG_FIXED_SIZE_def)
  have d: "drop 4 (take (n - 236) ?o) = take (n - 240) (drop 4 ?o)"
    by (simp add: drop_take)
  have l: "decode_loop ?o 4 (int (n - 240)) zero_info =
      Some (foldl apply_option zero_info (tlvs (take (n - 240) (drop 4 ?o))))"
    by (rule decode_loop_eq) (use assms(2) lo in simp)
  have "\<not> int n < int DHCP_MSG_FIXED_SIZE + 4" "\<not> length (take (n - 236) ?o) < 4"
    using False lo by (simp_all add: DHCP_MSG_FIXED_SIZE_def)
  then show ?thesis
    by (simp only: decode_dhcp_msg_def decode_spec_def Let_def rd4 e l t4 d cookie_def
        Option.bind_lunit if_False if_True simp_thms list.inject if_cancel) simp
qed

lemma decode_dhcp_msg_short:
  "n < 240 \<Longrightarrow> decode_dhcp_msg msg n = Some (-1, zero_info)"
  by (simp add: decode_dhcp_msg_def DHCP_MSG_FIXED_SIZE_def)

lemma decode_total: "wf_dhcp msg \<Longrightarrow> n \<le> 1260 \<Longrightarrow> \<exists>r. decode_dhcp_msg msg n = Some r"
proof (cases "n < 240")
  case False
  assume "wf_dhcp msg" "n \<le> 1260"
  then show ?thesis using decode_dhcp_msg_eq [of msg "nat n"] False by auto
qed (use decode_dhcp_msg_short in auto)

section \<open>Options that were encoded are decoded\<close>

definition enc_item :: "u8 \<times> bytes \<Rightarrow> bytes" where
  "enc_item item = (case item of (c, v) \<Rightarrow> c # of_nat (length v) # v)"

definition enc_items :: "(u8 \<times> bytes) list \<Rightarrow> bytes" where
  "enc_items items = concat (map enc_item items)"

definition wf_item :: "u8 \<times> bytes \<Rightarrow> bool" where
  "wf_item item \<longleftrightarrow> fst item \<noteq> OPT_PAD \<and> fst item \<noteq> OPT_END \<and> length (snd item) < 256 \<and>
     (fst item = OPT_MESSAGE_TYPE \<longrightarrow> snd item \<noteq> [])"

lemma tlvs_enc_item:
  assumes "wf_item (c, v)" and "rest \<noteq> []"
  shows "tlvs (enc_item (c, v) @ rest) = (c, length v, v @ rest) # tlvs rest"
proof -
  have "unat (of_nat (length v) :: u8) = length v"
    using assms(1) by (simp add: wf_item_def unat_of_nat)
  then show ?thesis using assms tlvs_step [of "v @ rest" c "of_nat (length v)"]
    by (simp add: enc_item_def wf_item_def)
qed

lemma tlvs_end: "tlvs (OPT_END # rest) = []"
  by (subst tlvs.simps) (auto split: list.split simp: opt_consts)

definition apply_item :: "dhcp_info \<Rightarrow> u8 \<times> bytes \<Rightarrow> dhcp_info" where
  "apply_item info item = apply_option info (fst item, length (snd item), snd item)"

lemma get32_append: "i + 4 \<le> length v \<Longrightarrow> get32 (v @ rest) i = get32 v i"
  by (simp add: get32_def nth_append)

lemma apply_option_append:
  "wf_item (c, v) \<Longrightarrow> apply_option info (c, length v, v @ rest) = apply_item info (c, v)"
  by (auto simp: apply_option_def apply_item_def wf_item_def get32_append nth_append)

lemma decode_items:
  assumes "\<forall>i \<in> set items. wf_item i"
  shows "foldl apply_option info (tlvs (enc_items items @ OPT_END # rest)) = foldl apply_item info items"
  using assms
proof (induction items arbitrary: info)
  case Nil
  show ?case by (simp add: enc_items_def tlvs_end)
next
  case (Cons i items)
  obtain c v where i: "i = (c, v)" by fastforce
  have e: "enc_items (i # items) @ OPT_END # rest =
      enc_item (c, v) @ (enc_items items @ OPT_END # rest)"
    by (simp add: enc_items_def i)
  have "wf_item (c, v)" using Cons.prems i by simp
  then show ?case
    unfolding e using Cons by (simp add: tlvs_enc_item apply_option_append i)
qed

text \<open>A message whose option area is the cookie, encoded options, the end mark and padding.\<close>

lemma decode_encoded:
  assumes m: "wf_dhcp msg" "m_options msg = cookie @ enc_items items @ OPT_END # pad"
    and i: "\<forall>i \<in> set items. wf_item i"
    and n: "n = 241 + length (enc_items items) + k" "n \<le> 1260"
  shows "decode_dhcp_msg msg (int n) =
     Some (0, (foldl apply_item zero_info items)\<lparr>i_ipaddr := m_yiaddr msg\<rparr>)"
proof -
  have t: "take (n - 236) (m_options msg) = cookie @ enc_items items @ OPT_END # take k pad"
    unfolding m(2) n(1) by (simp add: cookie_def take_Cons')
  have "decode_dhcp_msg msg (int n) = Some (decode_spec msg (take (n - 236) (m_options msg)))"
    by (rule decode_dhcp_msg_eq [OF m(1) n(2)]) (use n(1) in simp)
  also have "decode_spec msg (take (n - 236) (m_options msg)) =
      (0, (foldl apply_item zero_info items)\<lparr>i_ipaddr := m_yiaddr msg\<rparr>)"
    unfolding t decode_spec_def using decode_items [OF i, of zero_info "take k pad"]
    by (simp add: cookie_def)
  finally show ?thesis .
qed

section \<open>A server's lease\<close>

definition lease_items :: "u8 \<Rightarrow> u32 \<Rightarrow> u32 \<Rightarrow> int \<Rightarrow> u32 \<Rightarrow> u32 \<Rightarrow> u32 \<Rightarrow> (u8 \<times> bytes) list" where
  "lease_items t server lease p gw dns1 dns2 =
     [(OPT_MESSAGE_TYPE, [t]), (OPT_SERVER_ID, bytes32 server), (OPT_LEASE_TIME, bytes32 (htonl lease)),
      (OPT_SUBNET_MASK, bytes32 (prefixLengthToIpv4Netmask p)), (OPT_GATEWAY, bytes32 gw),
      (OPT_DNS, bytes32 dns1 @ bytes32 dns2)]"

lemma lease_items_wf: "\<forall>i \<in> set (lease_items t server lease p gw dns1 dns2). wf_item i"
  by (simp add: lease_items_def wf_item_def opt_consts)

lemma get32_two: "get32 (bytes32 a @ bytes32 b) 0 = a" "get32 (bytes32 a @ bytes32 b) 4 = b"
  using get32_bytes32 [of "bytes32 a" b "[]"] get32_append [of 0 "bytes32 a" "bytes32 b"]
    c32.dec_enc [of a] by simp_all

lemma apply_lease_items:
  assumes "0 \<le> p" and "p \<le> 32"
  shows "foldl apply_item zero_info (lease_items t server lease p gw dns1 dns2) =
     \<lparr>i_type = ucast t, i_ipaddr = 0, i_gateway = gw, i_prefixLength = word_of_int p,
      i_dns1 = dns1, i_dns2 = dns2, i_serveraddr = server, i_lease = lease\<rparr>"
proof -
  have "(of_nat (ipv4NetmaskToPrefixLength (prefixLengthToIpv4Netmask p)) :: u32) = word_of_int p"
    using netmask_roundtrip [OF assms] by (metis of_int_of_nat_eq)
  then show ?thesis
    using c32.dec_enc by (simp add: lease_items_def apply_item_def apply_option_def opt_consts zero_info_def
        get32_two)
qed

section \<open>Logging stays inside the message\<close>

lemma length_hex_byte [simp]: "length (ascii (hex_byte b)) = 4"
  by (simp add: ascii_def hex_byte_def)

lemma hex2str_loop_result:
  assumes "i + n \<le> length array" and "n = 0 \<or> cp + 4 * n + 1 \<le> length buf"
  shows "\<exists>b. hex2str_loop buf cp array i n = Some b \<and> length b = length buf \<and>
    (if n = 0 then b = buf else 0 \<in> set b)"
  using assms
proof (induction n arbitrary: buf cp i)
  case (Suc n)
  let ?b = "memcpy_at buf cp (ascii (hex_byte (array ! i)) @ [0])"
  have w: "wr_n buf cp (ascii (hex_byte (array ! i)) @ [0]) = Some ?b"
    by (rule wr_n_inside) (use Suc.prems in simp)
  have l: "length ?b = length buf" using Suc.prems by simp
  obtain b where "hex2str_loop ?b (cp + 4) array (i + 1) n = Some b" "length b = length ?b"
    "if n = 0 then b = ?b else 0 \<in> set b"
    using Suc.IH [of "i + 1" "cp + 4" ?b] Suc.prems unfolding l by auto
  moreover have "0 \<in> set ?b" by (rule set_memcpy_at) simp
  ultimately show ?case
    using Suc.prems by (simp add: rd_inside w l split: if_splits)
qed simp

text \<open>What the value of an option does to \<open>buf\<close>.\<close>

definition option_text :: "bytes \<Rightarrow> u8 \<Rightarrow> nat \<Rightarrow> nat \<Rightarrow> bytes \<Rightarrow> bytes option" where
  "option_text opts opt x optsz buf =
     (if opt = OPT_DOMAIN_NAME \<or> opt = OPT_MESSAGE then do {
        let n = (if optsz < sizeof_buf - 1 then optsz else sizeof_buf - 1);
        src \<leftarrow> rd_n opts (x + 2) n;
        buf \<leftarrow> wr_n buf 0 src;
        wr buf n 0
      } else hex2str buf opts (x + 2) optsz)"

lemma option_text_result:
  assumes "x + 2 + n \<le> length opts" and "n < 256" and "length buf = sizeof_buf" and "0 \<in> set buf"
  shows "\<exists>b. option_text opts opt x n buf = Some b \<and> length b = sizeof_buf \<and> 0 \<in> set b"
proof (cases "opt = OPT_DOMAIN_NAME \<or> opt = OPT_MESSAGE")
  case True
  let ?b = "memcpy_at buf 0 (take n (drop (x + 2) opts))"
  have l: "length (take n (drop (x + 2) opts)) = n" using assms(1) by simp
  then have lb: "length ?b = 2048" using assms(2,3) by (simp add: sizeof_buf_def)
  have "option_text opts opt x n buf = Some (?b[n := 0])"
    using True assms lb l by (simp add: option_text_def rd_n_inside wr_n_inside wr_inside sizeof_buf_def)
  moreover have "0 \<in> set (?b[n := 0])" by (rule set_update_memI) (use lb assms(2) in simp)
  ultimately show ?thesis using lb by (simp add: sizeof_buf_def)
next
  case False
  then show ?thesis
    using hex2str_loop_result [of "x + 2" n opts 0 buf] assms
    by (auto simp: option_text_def hex2str_def sizeof_buf_def split: if_splits)
qed

lemma dump_options_total:
  "x + k \<le> length opts \<Longrightarrow> length buf = sizeof_buf \<Longrightarrow> 0 \<in> set buf \<Longrightarrow>
   dump_options opts x (int k) buf \<noteq> None"
proof (induction k arbitrary: x buf rule: less_induct)
  case (less k)
  show ?case
  proof (cases "k \<le> 2")
    case True
    then show ?thesis by (simp add: dump_options.simps)
  next
    case False
    define n where "n = unat (opts ! (x + 1))"
    have n: "n < 256" by (simp add: n_def)
    have r: "rd opts x = Some (opts ! x)" "rd opts (x + 1) = Some (opts ! (x + 1))"
      "rd opts (x + 2) = Some (opts ! (x + 2))"
      using less.prems(1) False by (simp_all add: rd_def)
    have "int k - 1 = int (k - 1)" using False by linarith
    then have pad: "dump_options opts (x + 1) (int k - 1) buf \<noteq> None"
      using less.IH [of "k - 1" "x + 1" buf] less.prems False by (simp only:) simp
    have go: "dump_options opts (x + n + 2) (int k - 2 - int n) b \<noteq> None"
      if "\<not> int n > int k - 2" "length b = sizeof_buf" "0 \<in> set b" for b
    proof -
      have "int k - 2 - int n = int (k - 2 - n)" using that False by linarith
      moreover have "k - 2 - n < k" "x + n + 2 + (k - 2 - n) \<le> length opts"
        using that(1) False less.prems(1) by linarith+
      ultimately show ?thesis using less.IH [of "k - 2 - n" "x + n + 2" b] that(2,3) by (simp only:) simp
    qed
    have val: "option_text opts c x n buf \<noteq> None"
      "option_text opts c x n buf = Some b \<Longrightarrow> length b = sizeof_buf \<and> 0 \<in> set b"
      if "\<not> int n > int k - 2" for b c
      using option_text_result [of x n opts buf c] that False n less.prems by (auto simp: le_diff_conv)
    show ?thesis
      unfolding dump_options.simps [of opts x] r Option.bind_lunit Let_def n_def [symmetric]
        option_text_def [unfolded Let_def, symmetric]
      by (intro total_intros pad go) (use val in \<open>auto simp: print_s_def\<close>)
  qed
qed

lemma sanitise_result:
  "n + k \<le> length b \<Longrightarrow> \<exists>b'. sanitise b n k = Some b' \<and> length b' = length b"
proof (induction k arbitrary: b n)
  case (Suc k)
  then show ?case
    using Suc.IH [of "n + 1" b] Suc.IH [of "n + 1" "b[n := 46]"] by (simp add: rd_inside wr_inside)
qed simp

lemma sanitise_zeros: "n + k \<le> m \<Longrightarrow> sanitise (replicate m 0) n k = Some (replicate m 0)"
  by (cases k) (simp_all add: rd_inside)

text \<open>The two text fields after the loops and the NULs at their ends.\<close>

lemma fields_result:
  assumes "wf_dhcp msg"
  obtains s f where "sanitise (m_sname msg) 0 64 = Some s" "wr s 63 0 = Some (s[63 := 0])"
    "sanitise (m_file msg) 0 128 = Some f" "wr f 127 0 = Some (f[127 := 0])"
    "length s = 64" "length f = 128" "0 \<in> set (s[63 := 0])" "0 \<in> set (f[127 := 0])"
proof -
  obtain s where s: "sanitise (m_sname msg) 0 64 = Some s" "length s = 64"
    using sanitise_result [of 0 64 "m_sname msg"] assms by (auto simp: wf_dhcp_def)
  obtain f where f: "sanitise (m_file msg) 0 128 = Some f" "length f = 128"
    using sanitise_result [of 0 128 "m_file msg"] assms by (auto simp: wf_dhcp_def)
  show thesis
    by (rule that [OF s(1) _ f(1) _ s(2) f(2)]) (use s f in \<open>simp_all add: wr_inside set_update_memI\<close>)
qed

text \<open>The hardware address is logged from \<open>buf\<close>, which an address of length 0 leaves as it was.\<close>

lemma dump_chaddr_result:
  assumes "length chaddr = 16" and "length buf = sizeof_buf" and "c \<le> 16"
  shows "\<exists>b. hex2str buf chaddr 0 c = Some b \<and> length b = sizeof_buf \<and> (if c = 0 then b = buf else 0 \<in> set b)"
  using hex2str_loop_result [of 0 c chaddr 0 buf] assms by (auto simp: hex2str_def sizeof_buf_def)

lemma dump_none_iff:
  assumes w: "wf_dhcp msg" and n: "n \<le> 1260" and b: "length buf = sizeof_buf"
  shows "dump_dhcp_msg buf msg n = None \<longleftrightarrow> 236 \<le> n \<and> m_hlen msg = 0 \<and> 0 \<notin> set buf"
proof (cases "n < 236")
  case True
  then show ?thesis by (simp add: dump_dhcp_msg_def DHCP_MSG_FIXED_SIZE_def)
next
  case False
  define c where "c = (if unat (m_hlen msg) > 16 then 16 else unat (m_hlen msg))"
  have c16: "c \<le> 16" by (simp add: c_def)
  obtain buf' where h: "hex2str buf (m_chaddr msg) 0 c = Some buf'" "length buf' = sizeof_buf"
    "if c = 0 then buf' = buf else 0 \<in> set buf'"
    using dump_chaddr_result [OF _ b c16, of "m_chaddr msg"] w by (auto simp: wf_dhcp_def)
  have c0: "c = 0 \<longleftrightarrow> m_hlen msg = 0" by (auto simp: c_def unat_eq_0)
  obtain s f where sf: "sanitise (m_sname msg) 0 64 = Some s" "wr s 63 0 = Some (s[63 := 0])"
    "sanitise (m_file msg) 0 128 = Some f" "wr f 127 0 = Some (f[127 := 0])"
    "0 \<in> set (s[63 := 0])" "0 \<in> set (f[127 := 0])"
    using fields_result [OF w] by metis
  note unfold = dump_dhcp_msg_def Let_def c_def [symmetric] h(1) sf(1-4) Option.bind_lunit print_s_def
  show ?thesis
  proof (cases "0 \<in> set buf'")
    case True
    have "dump_options (m_options msg) 4 (n - int DHCP_MSG_FIXED_SIZE - 4) buf' \<noteq> None"
      if "\<not> n - int DHCP_MSG_FIXED_SIZE < 4"
    proof -
      have "n - int DHCP_MSG_FIXED_SIZE - 4 = int (nat (n - 240))"
        using that by (simp add: DHCP_MSG_FIXED_SIZE_def)
      then show ?thesis
        using dump_options_total [of 4 "nat (n - 240)" "m_options msg" buf'] w n h(2) True by (simp add: wf_dhcp_def)
    qed
    then have "dump_dhcp_msg buf msg n \<noteq> None"
      unfolding unfold using True sf(5,6) by (intro total_intros) auto
    moreover have "\<not> (m_hlen msg = 0 \<and> 0 \<notin> set buf)" using True h(3) c0 by auto
    ultimately show ?thesis by blast
  next
    case out: False
    then have "m_hlen msg = 0" "buf' = buf" using h(3) c0 by (auto split: if_splits)
    moreover have "dump_dhcp_msg buf msg n = None"
      unfolding unfold using out False by (simp add: DHCP_MSG_FIXED_SIZE_def)
    ultimately show ?thesis using out False by auto
  qed
qed

lemma dump_result:
  assumes "dump_dhcp_msg buf msg n = Some (ls, m)" and "wf_dhcp msg"
  shows "m = msg \<or> (\<exists>s f. sanitise (m_sname msg) 0 64 = Some s \<and> sanitise (m_file msg) 0 128 = Some f \<and>
    length s = 64 \<and> length f = 128 \<and> m = msg\<lparr>m_sname := s[63 := 0], m_file := f[127 := 0]\<rparr>)"
proof -
  obtain s f where sf: "sanitise (m_sname msg) 0 64 = Some s" "wr s 63 0 = Some (s[63 := 0])"
    "sanitise (m_file msg) 0 128 = Some f" "wr f 127 0 = Some (f[127 := 0])"
    "length s = 64" "length f = 128"
    using fields_result [OF assms(2)] by metis
  have "m = msg \<or> m = msg\<lparr>m_sname := s[63 := 0], m_file := f[127 := 0]\<rparr>"
    using assms(1) unfolding dump_dhcp_msg_def Let_def
    by (cases "n < int DHCP_MSG_FIXED_SIZE"; cases "n - int DHCP_MSG_FIXED_SIZE < 4")
      (simp_all only: sf if_True if_False option.inject prod.inject bind_eq_Some_conv simp_thms ex_simps, blast+)
  then show ?thesis using sf by blast
qed

lemma dump_message:
  assumes "dump_dhcp_msg buf msg n = Some (ls, m)" and "wf_dhcp msg"
  shows "wf_dhcp m" "m_options m = m_options msg" "m_yiaddr m = m_yiaddr msg"
    "is_valid_reply req m k = is_valid_reply req msg k"
  using dump_result [OF assms] assms(2) by (auto simp: wf_dhcp_def is_valid_reply_def)

section \<open>The properties\<close>

text \<open>C7. Pointer arithmetic against a parser on lists. For every message of the right form and every number of
  bytes that can be received with its fixed part, the loop of \<open>decode_dhcp_msg\<close> reads nothing outside
  the message and returns what reading the received part of the option area as a list of
  type-length-value items returns: -1 without the cookie, else every complete item in order up to
  the end mark, the last of several with one code winning.\<close>

theorem decode_equals_reference:
  assumes "wf_dhcp msg" and "236 \<le> n" and "n \<le> 1260"
  shows "decode_dhcp_msg msg (int n) = Some (decode_spec msg (take (n - 236) (m_options msg)))"
  using decode_dhcp_msg_eq assms by blast

definition decode_sample :: dhcp_msg where
  "decode_sample = zero_dhcp_msg\<lparr>m_yiaddr := 9,
     m_options := (cookie @ enc_items (lease_items 5 4 60 24 1 8 7) @ [OPT_END]) @ replicate 982 0\<rparr>"

lemma wf_decode_sample: "wf_dhcp decode_sample"
  by (simp add: decode_sample_def wf_dhcp_def zero_dhcp_msg_def cookie_def enc_items_def enc_item_def lease_items_def)

theorem decode_equals_reference_witness:
  "decode_dhcp_msg decode_sample (int 300) = Some (decode_spec decode_sample (take 64 (m_options decode_sample)))"
  using decode_equals_reference [OF wf_decode_sample, of 300] by simp

text \<open>C18. The lease a server writes is the lease the client reads: when the option area is the cookie, the
  options of a lease (type, server, time, mask of a prefix length, gateway and two name servers), the
  end mark and any padding, \<open>decode_dhcp_msg\<close> returns success and exactly these values, the mask as
  its prefix length and the time in host order.\<close>

theorem decode_reads_lease:
  assumes "wf_dhcp msg" and "0 \<le> p" and "p \<le> 32"
    and "m_options msg = cookie @ enc_items (lease_items t server lease p gw dns1 dns2) @ OPT_END # pad"
    and "n = 241 + length (enc_items (lease_items t server lease p gw dns1 dns2)) + k" and "n \<le> 1260"
  shows "decode_dhcp_msg msg (int n) = Some (0,
     \<lparr>i_type = ucast t, i_ipaddr = m_yiaddr msg, i_gateway = gw, i_prefixLength = word_of_int p,
      i_dns1 = dns1, i_dns2 = dns2, i_serveraddr = server, i_lease = lease\<rparr>)"
  using decode_encoded [OF assms(1,4) lease_items_wf assms(5,6)] by (simp add: apply_lease_items [OF assms(2,3)])

theorem decode_reads_lease_witness:
  "decode_dhcp_msg decode_sample (int 300) = Some (0,
     \<lparr>i_type = 5, i_ipaddr = 9, i_gateway = 1, i_prefixLength = 24,
      i_dns1 = 8, i_dns2 = 7, i_serveraddr = 4, i_lease = 60\<rparr>)"
proof -
  have "m_options decode_sample = cookie @ enc_items (lease_items 5 4 60 24 1 8 7) @ OPT_END # replicate 982 0"
    by (simp add: decode_sample_def)
  then show ?thesis
    using decode_reads_lease [OF wf_decode_sample, of 24 5 4 60 1 8 7 "replicate 982 0" 300 22]
    by (simp add: decode_sample_def enc_items_def enc_item_def lease_items_def)
qed

end
