(* ===== verification/Sys.thy ===== *)
theory Sys
  imports Prelude
begin

text \<open>
  The world outside the program, as \<^verbatim>\<open>ifc_utils.c\<close>, \<^verbatim>\<open>dhcp_utils.c\<close> and \<^verbatim>\<open>netcfg.c\<close> use it: the
  system calls, the resolver and Android's property service are the fields of one record of
  functions over an arbitrary state \<open>'k\<close>, an argument of every operation that calls out. A call
  that fails returns -1 (\<open>Inl errno\<close>), any other returns a value that is not negative. The
  program's own global state, its two control sockets and \<open>errno\<close>, is the record \<open>net\<close>; the
  operations are written in the library's state monad over it. Messages to the log are left out.
\<close>

section \<open>What is passed to the kernel\<close>

datatype sock_domain = AF_INET | AF_INET6

datatype if_req = SIOCGIFHWADDR | SIOCSIFHWADDR | SIOCGIFINDEX | SIOCGIFFLAGS | SIOCSIFFLAGS
  | SIOCGIFADDR | SIOCSIFADDR | SIOCGIFNETMASK | SIOCSIFNETMASK | SIOCKILLADDR

datatype rt_req = SIOCADDRT | SIOCDELRT

text \<open>\<open>struct ifreq\<close>: a name and a union of 16 bytes (sockaddr, flags, index, hardware address).\<close>

record ifreq =
  ifr_name :: string
  ifr_u :: bytes

record rtentry =
  rt_dst :: bytes
  rt_gateway :: bytes
  rt_genmask :: bytes
  rt_flags :: u16
  rt_dev :: "string option"

record in6_rtmsg =
  rtmsg_dst :: bytes
  rtmsg_gateway :: bytes
  rtmsg_dst_len :: u16
  rtmsg_flags :: u32
  rtmsg_ifindex :: int

datatype ipaddr = In4 u32 | In6 bytes | InOther int

record nl_addr_req =
  nlmsg_len :: nat
  nlmsg_type :: int
  nlmsg_flags :: u16
  nlmsg_pid :: int
  ifa_family :: int
  ifa_prefixlen :: u8
  ifa_index :: int
  rta_offset :: nat
  rta_type :: int
  rta_len :: nat
  rta_data :: bytes

text \<open>One line of \<^verbatim>\<open>/proc/net/route\<close> that \<open>fscanf\<close> converted in full, and the file as a whole.\<close>

record route_row =
  row_name :: string
  row_dest :: u32
  row_gway :: u32
  row_flags :: u32
  row_mask :: u32

datatype route_file = NoFile | NoHeader | Rows "route_row list"

record inet6_row =
  raw_addr :: string
  row_prefixlen :: u32
  row_ifname :: string

record 'k sys =
  sys_socket :: "sock_domain \<Rightarrow> 'k \<Rightarrow> (int + nat) \<times> 'k"
  sys_close :: "int \<Rightarrow> 'k \<Rightarrow> 'k"
  sys_ioctl_if :: "int \<Rightarrow> if_req \<Rightarrow> ifreq \<Rightarrow> 'k \<Rightarrow> (int + nat \<times> ifreq) \<times> 'k"
  sys_ioctl_kill6 :: "int \<Rightarrow> 'k \<Rightarrow> (int + nat) \<times> 'k"
  sys_ioctl_rt :: "int \<Rightarrow> rt_req \<Rightarrow> rtentry \<Rightarrow> 'k \<Rightarrow> (int + nat) \<times> 'k"
  sys_ioctl_rt6 :: "int \<Rightarrow> rt_req \<Rightarrow> in6_rtmsg \<Rightarrow> 'k \<Rightarrow> (int + nat) \<times> 'k"
  sys_nametoindex :: "string \<Rightarrow> 'k \<Rightarrow> (int + nat) \<times> 'k"
  sys_getaddrinfo :: "string \<Rightarrow> 'k \<Rightarrow> (int + ipaddr) \<times> 'k"
  sys_getpid :: "'k \<Rightarrow> int \<times> 'k"
  sys_nl_socket :: "'k \<Rightarrow> (int + nat) \<times> 'k"
  sys_nl_send :: "int \<Rightarrow> nl_addr_req \<Rightarrow> 'k \<Rightarrow> (int + nat) \<times> 'k"
  sys_nl_recv :: "int \<Rightarrow> 'k \<Rightarrow> (int + nat \<times> bytes) \<times> 'k"
  sys_proc_route :: "'k \<Rightarrow> route_file \<times> 'k"
  sys_proc_inet6 :: "'k \<Rightarrow> (int + inet6_row list) \<times> 'k"
  sys_property_set :: "string \<Rightarrow> string \<Rightarrow> 'k \<Rightarrow> 'k"
  sys_property_get :: "string \<Rightarrow> 'k \<Rightarrow> string \<times> 'k"
  sys_usleep :: "nat \<Rightarrow> 'k \<Rightarrow> 'k"

section \<open>The program's state and its calls\<close>

record 'k net =
  ifc_ctl_sock :: int
  ifc_ctl_sock6 :: int
  errno :: int
  kst :: 'k

definition EINVAL :: int where "EINVAL = 22"
definition ENXIO :: int where "ENXIO = 6"
definition EEXIST :: int where "EEXIST = 17"
definition EAFNOSUPPORT :: int where "EAFNOSUPPORT = 97"

definition get_sock :: "('k net, int) state" where
  "get_sock = State (\<lambda>s. (ifc_ctl_sock s, s))"

definition set_sock :: "int \<Rightarrow> ('k net, unit) state" where
  "set_sock fd = State (\<lambda>s. ((), s\<lparr>ifc_ctl_sock := fd\<rparr>))"

definition get_sock6 :: "('k net, int) state" where
  "get_sock6 = State (\<lambda>s. (ifc_ctl_sock6 s, s))"

definition set_sock6 :: "int \<Rightarrow> ('k net, unit) state" where
  "set_sock6 fd = State (\<lambda>s. ((), s\<lparr>ifc_ctl_sock6 := fd\<rparr>))"

definition get_errno :: "('k net, int) state" where
  "get_errno = State (\<lambda>s. (errno s, s))"

text \<open>A call of the world: its value and the world after it; \<open>errno\<close> is set when it fails.\<close>

definition world :: "('k \<Rightarrow> 'a \<times> 'k) \<Rightarrow> ('k net, 'a) state" where
  "world f = State (\<lambda>s. let (x, k) = f (kst s) in (x, s\<lparr>kst := k\<rparr>))"

definition syscall :: "('k \<Rightarrow> (int + 'a) \<times> 'k) \<Rightarrow> ('k net, int + 'a) state" where
  "syscall f = State (\<lambda>s. let (x, k) = f (kst s) in
     (x, s\<lparr>kst := k, errno := (case x of Inl e \<Rightarrow> e | Inr _ \<Rightarrow> errno s)\<rparr>))"

definition rc :: "int + nat \<Rightarrow> int" where
  "rc x = (case x of Inl _ \<Rightarrow> -1 | Inr n \<Rightarrow> int n)"

definition close_fd :: "'k sys \<Rightarrow> int \<Rightarrow> ('k net, unit) state" where
  "close_fd K fd = world (\<lambda>k. ((), sys_close K fd k))"

definition ioctl_if :: "'k sys \<Rightarrow> if_req \<Rightarrow> ifreq \<Rightarrow> ('k net, int \<times> ifreq) state" where
  "ioctl_if K req ifr = do {
     fd \<leftarrow> get_sock;
     x \<leftarrow> syscall (sys_ioctl_if K fd req ifr);
     ret (case x of Inl _ \<Rightarrow> (-1, ifr) | Inr (n, ifr') \<Rightarrow> (int n, ifr'))
   }"

definition ioctl_rt :: "'k sys \<Rightarrow> rt_req \<Rightarrow> rtentry \<Rightarrow> ('k net, int) state" where
  "ioctl_rt K req rt = do {
     fd \<leftarrow> get_sock;
     x \<leftarrow> syscall (sys_ioctl_rt K fd req rt);
     ret (rc x)
   }"

lemma run_get_sock [run_simps]: "run_state get_sock s = (ifc_ctl_sock s, s)"
  by (simp add: get_sock_def)

lemma run_set_sock [run_simps]: "run_state (set_sock fd) s = ((), s\<lparr>ifc_ctl_sock := fd\<rparr>)"
  by (simp add: set_sock_def)

lemma run_get_sock6 [run_simps]: "run_state get_sock6 s = (ifc_ctl_sock6 s, s)"
  by (simp add: get_sock6_def)

lemma run_set_sock6 [run_simps]: "run_state (set_sock6 fd) s = ((), s\<lparr>ifc_ctl_sock6 := fd\<rparr>)"
  by (simp add: set_sock6_def)

lemma run_get_errno [run_simps]: "run_state get_errno s = (errno s, s)"
  by (simp add: get_errno_def)

lemma run_close_fd [run_simps]:
  "run_state (close_fd K fd) s = ((), s\<lparr>kst := sys_close K fd (kst s)\<rparr>)"
  by (simp add: close_fd_def world_def)

lemma run_world [run_simps]:
  "run_state (world f) s = (fst (f (kst s)), s\<lparr>kst := snd (f (kst s))\<rparr>)"
  by (simp add: world_def split: prod.splits)

lemma run_syscall [run_simps]:
  "run_state (syscall f) s = (fst (f (kst s)), s\<lparr>kst := snd (f (kst s)),
     errno := (case fst (f (kst s)) of Inl e \<Rightarrow> e | Inr _ \<Rightarrow> errno s)\<rparr>)"
  by (simp add: syscall_def split: prod.splits)

section \<open>What an operation does to the control sockets\<close>

text \<open>
  \<open>keeps m Q\<close>: from every state that satisfies \<open>Q\<close>, the operation ends in one that does. The
  rules follow the structure of an operation, so that the proof for a component is one call of
  the classical reasoner.
\<close>

definition keeps :: "('s, 'a) state \<Rightarrow> ('s \<Rightarrow> bool) \<Rightarrow> bool" where
  "keeps m Q \<longleftrightarrow> (\<forall>s. Q s \<longrightarrow> Q (snd (run_state m s)))"

named_theorems keeps_intros \<open>an operation keeps a predicate\<close>

lemma keeps_ret [keeps_intros]: "keeps (ret x) Q"
  by (simp add: keeps_def)

lemma keeps_bind [keeps_intros]:
  assumes "keeps m Q" and "\<And>x. keeps (f x) Q"
  shows "keeps (State_Monad.bind m f) Q"
  using assms by (simp add: keeps_def split: prod.splits) (metis snd_conv)

lemma keeps_if [keeps_intros]: "keeps m Q \<Longrightarrow> keeps n Q \<Longrightarrow> keeps (if b then m else n) Q"
  by simp

lemma keeps_sum [keeps_intros]:
  "(\<And>x. keeps (f x) Q) \<Longrightarrow> (\<And>y. keeps (g y) Q) \<Longrightarrow> keeps (case z of Inl x \<Rightarrow> f x | Inr y \<Rightarrow> g y) Q"
  by (cases z) simp_all

lemma keeps_prod [keeps_intros]: "(\<And>x y. keeps (f x y) Q) \<Longrightarrow> keeps (case z of (x, y) \<Rightarrow> f x y) Q"
  by (cases z) simp

lemma keeps_Let [keeps_intros]: "(\<And>x. keeps (f x) Q) \<Longrightarrow> keeps (Let z f) Q"
  by simp

lemma keepsD: "keeps m Q \<Longrightarrow> Q s \<Longrightarrow> Q (snd (run_state m s))"
  by (simp add: keeps_def)

text \<open>The socket descriptors are -1 or valid.\<close>

definition socks_ok :: "'k net \<Rightarrow> bool" where
  "socks_ok s \<longleftrightarrow> -1 \<le> ifc_ctl_sock s \<and> -1 \<le> ifc_ctl_sock6 s"

definition sock_is :: "int \<Rightarrow> 'k net \<Rightarrow> bool" where
  "sock_is fd s \<longleftrightarrow> ifc_ctl_sock s = fd"

lemma keeps_calls [keeps_intros]:
  "keeps get_sock Q" "keeps get_sock6 Q" "keeps get_errno Q"
  by (simp_all add: keeps_def run_simps)

lemma keeps_world [keeps_intros]:
  "keeps (world f) socks_ok" "keeps (world f) (sock_is fd)"
  "keeps (syscall g) socks_ok" "keeps (syscall g) (sock_is fd)"
  "keeps (close_fd K d) socks_ok" "keeps (close_fd K d) (sock_is fd)"
  by (simp_all add: keeps_def socks_ok_def sock_is_def run_simps)

lemma keeps_ioctl [keeps_intros]:
  "keeps (ioctl_if K req ifr) socks_ok" "keeps (ioctl_if K req ifr) (sock_is fd)"
  "keeps (ioctl_rt K rreq rt) socks_ok" "keeps (ioctl_rt K rreq rt) (sock_is fd)"
  unfolding ioctl_if_def ioctl_rt_def by (intro keeps_intros)+

lemma keeps_set_sock [keeps_intros]:
  "-1 \<le> fd \<Longrightarrow> keeps (set_sock fd) socks_ok" "-1 \<le> fd \<Longrightarrow> keeps (set_sock6 fd) socks_ok"
  "keeps (set_sock6 fd) (sock_is c)"
  by (simp_all add: keeps_def socks_ok_def sock_is_def run_simps)

lemma rc_ge: "-1 \<le> rc x"
  by (simp add: rc_def split: sum.split)

section \<open>A world for concrete runs\<close>

text \<open>
  In this world every call succeeds and is written down: sockets are the descriptor 3,
  requests for addresses answer what they were asked with, interfaces have the index 2, names
  of hosts are not known, and the tables under \<^verbatim>\<open>/proc\<close> are arguments.
\<close>

datatype call =
    CallSocket sock_domain | CallClose int | CallIf int if_req string bytes | CallKill6 int
  | CallRt int rt_req rtentry | CallRt6 int rt_req in6_rtmsg | CallNl nl_addr_req
  | CallSet string string | CallSleep nat

definition logging_sys :: "route_file \<Rightarrow> inet6_row list \<Rightarrow> (string \<Rightarrow> string) \<Rightarrow> call list sys" where
  "logging_sys routes rows prop = \<lparr>
     sys_socket = (\<lambda>d k. (Inr 3, k @ [CallSocket d])),
     sys_close = (\<lambda>fd k. k @ [CallClose fd]),
     sys_ioctl_if = (\<lambda>fd req ifr k. if fd < 0 then (Inl 9, k)
        else (Inr (0, ifr), k @ [CallIf fd req (ifr_name ifr) (ifr_u ifr)])),
     sys_ioctl_kill6 = (\<lambda>fd k. (Inr 0, k @ [CallKill6 fd])),
     sys_ioctl_rt = (\<lambda>fd req rt k. if fd < 0 then (Inl 9, k) else (Inr 0, k @ [CallRt fd req rt])),
     sys_ioctl_rt6 = (\<lambda>fd req rt k. (Inr 0, k @ [CallRt6 fd req rt])),
     sys_nametoindex = (\<lambda>n k. (Inr 2, k)),
     sys_getaddrinfo = (\<lambda>n k. (Inr (In6 (replicate 16 1)), k)),
     sys_getpid = (\<lambda>k. (100, k)),
     sys_nl_socket = (\<lambda>k. (Inr 4, k)),
     sys_nl_send = (\<lambda>fd req k. (Inr (nlmsg_len req), k @ [CallNl req])),
     sys_nl_recv = (\<lambda>fd k. (Inr (36, [36, 0, 0, 0, 2, 0] @ replicate 46 0), k)),
     sys_proc_route = (\<lambda>k. (routes, k)),
     sys_proc_inet6 = (\<lambda>k. (Inr rows, k)),
     sys_property_set = (\<lambda>key v k. k @ [CallSet key v]),
     sys_property_get = (\<lambda>key k. (prop key, k)),
     sys_usleep = (\<lambda>n k. k @ [CallSleep n])\<rparr>"

definition closed_net :: "'k \<Rightarrow> 'k net" where
  "closed_net k = \<lparr>ifc_ctl_sock = -1, ifc_ctl_sock6 = -1, errno = 0, kst = k\<rparr>"

lemma logging_sys_sel [simp]:
  "sys_socket (logging_sys routes rows prop) d k = (Inr 3, k @ [CallSocket d])"
  "sys_close (logging_sys routes rows prop) fd k = k @ [CallClose fd]"
  "sys_ioctl_if (logging_sys routes rows prop) fd req ifr k = (if fd < 0 then (Inl 9, k)
     else (Inr (0, ifr), k @ [CallIf fd req (ifr_name ifr) (ifr_u ifr)]))"
  "sys_ioctl_rt (logging_sys routes rows prop) fd rreq rt k =
     (if fd < 0 then (Inl 9, k) else (Inr 0, k @ [CallRt fd rreq rt]))"
  "sys_proc_route (logging_sys routes rows prop) k = (routes, k)"
  "sys_proc_inet6 (logging_sys routes rows prop) k = (Inr rows, k)"
  "sys_property_get (logging_sys routes rows prop) key k = (prop key, k)"
  "sys_property_set (logging_sys routes rows prop) key v k = k @ [CallSet key v]"
  "sys_usleep (logging_sys routes rows prop) n k = k @ [CallSleep n]"
  by (simp_all add: logging_sys_def)

end
