(* ===== verification/Ifc.thy ===== *)
theory Ifc
  imports Sys CString Netmask
begin

text \<open>
  \<^verbatim>\<open>test_wifi/libnetutils/ifc_utils.c\<close>: the control sockets and the operations on one
  interface (flags, addresses, hardware address, connections). The routes and
  \<open>ifc_configure\<close> are in the theory \<^verbatim>\<open>Route\<close>.
\<close>

unbundle bit_operations_syntax

section \<open>Control sockets\<close>

definition ifc_init :: "'k sys \<Rightarrow> ('k net, int) state" where
  "ifc_init K = do {
     c \<leftarrow> get_sock;
     _ \<leftarrow> (if c = -1 then do {
               fd \<leftarrow> syscall (sys_socket K AF_INET);
               set_sock (rc fd)
             } else ret ());
     c \<leftarrow> get_sock;
     ret (if c < 0 then -1 else 0)
   }"

definition ifc_init6 :: "'k sys \<Rightarrow> ('k net, int) state" where
  "ifc_init6 K = do {
     c \<leftarrow> get_sock6;
     _ \<leftarrow> (if c = -1 then do {
               fd \<leftarrow> syscall (sys_socket K AF_INET6);
               set_sock6 (rc fd)
             } else ret ());
     c \<leftarrow> get_sock6;
     ret (if c < 0 then -1 else 0)
   }"

definition ifc_close :: "'k sys \<Rightarrow> ('k net, unit) state" where
  "ifc_close K = do {
     c \<leftarrow> get_sock;
     if c \<noteq> -1 then do { _ \<leftarrow> close_fd K c; set_sock (-1) } else ret ()
   }"

definition ifc_close6 :: "'k sys \<Rightarrow> ('k net, unit) state" where
  "ifc_close6 K = do {
     c \<leftarrow> get_sock6;
     if c \<noteq> -1 then do { _ \<leftarrow> close_fd K c; set_sock6 (-1) } else ret ()
   }"

section \<open>Operations on one interface\<close>

definition IFNAMSIZ :: nat where "IFNAMSIZ = 16"
definition IFF_UP :: u32 where "IFF_UP = 1"
definition INET6_ADDRLEN :: nat where "INET6_ADDRLEN = 16"
definition INET_ADDRLEN :: nat where "INET_ADDRLEN = 4"
definition ARPHRD_ETHER :: u16 where "ARPHRD_ETHER = 1"
definition AF_INET_no :: u16 where "AF_INET_no = 2"

definition ifc_init_ifr :: "string \<Rightarrow> ifreq" where
  "ifc_init_ifr name = \<lparr>ifr_name = bounded_copy IFNAMSIZ name, ifr_u = replicate 16 0\<rparr>"

definition init_sockaddr_in :: "bytes \<Rightarrow> u32 \<Rightarrow> bytes" where
  "init_sockaddr_in sa addr =
     (let sa = memcpy_at sa 0 (bytes16 AF_INET_no);
          sa = memcpy_at sa 2 (bytes16 0)
      in memcpy_at sa 4 (bytes32 addr))"

definition ifr_addr_update :: "u32 \<Rightarrow> ifreq \<Rightarrow> ifreq" where
  "ifr_addr_update addr ifr = ifr\<lparr>ifr_u := init_sockaddr_in (ifr_u ifr) addr\<rparr>"

definition ifr_sin_addr :: "ifreq \<Rightarrow> u32" where
  "ifr_sin_addr ifr = get32 (ifr_u ifr) 4"

definition ifr_flags :: "ifreq \<Rightarrow> u16" where
  "ifr_flags ifr = get16 (ifr_u ifr) 0"

definition ifc_get_hwaddr :: "'k sys \<Rightarrow> string \<Rightarrow> ('k net, bytes option) state" where
  "ifc_get_hwaddr K name = do {
     (r, ifr) \<leftarrow> ioctl_if K SIOCGIFHWADDR (ifc_init_ifr name);
     ret (if r < 0 then None else Some (take 6 (drop 2 (ifr_u ifr))))
   }"

definition ifc_get_ifindex :: "'k sys \<Rightarrow> string \<Rightarrow> ('k net, int option) state" where
  "ifc_get_ifindex K name = do {
     (r, ifr) \<leftarrow> ioctl_if K SIOCGIFINDEX (ifc_init_ifr name);
     ret (if r < 0 then None else Some (sint (get32 (ifr_u ifr) 0)))
   }"

definition ifc_set_flags :: "'k sys \<Rightarrow> string \<Rightarrow> u32 \<Rightarrow> u32 \<Rightarrow> ('k net, int) state" where
  "ifc_set_flags K name s clr = do {
     (r, ifr) \<leftarrow> ioctl_if K SIOCGIFFLAGS (ifc_init_ifr name);
     if r < 0 then ret (-1)
     else do {
       let fl = (ucast ((scast (ifr_flags ifr) AND (NOT clr)) OR s) :: u16);
       (r, _) \<leftarrow> ioctl_if K SIOCSIFFLAGS (ifr\<lparr>ifr_u := memcpy_at (ifr_u ifr) 0 (bytes16 fl)\<rparr>);
       ret r
     }
   }"

definition ifc_up :: "'k sys \<Rightarrow> string \<Rightarrow> ('k net, int) state" where
  "ifc_up K name = ifc_set_flags K name IFF_UP 0"

definition ifc_down :: "'k sys \<Rightarrow> string \<Rightarrow> ('k net, int) state" where
  "ifc_down K name = ifc_set_flags K name 0 IFF_UP"

definition ifc_set_addr :: "'k sys \<Rightarrow> string \<Rightarrow> u32 \<Rightarrow> ('k net, int) state" where
  "ifc_set_addr K name addr = do {
     (r, _) \<leftarrow> ioctl_if K SIOCSIFADDR (ifr_addr_update addr (ifc_init_ifr name));
     ret r
   }"

definition ifc_set_hwaddr :: "'k sys \<Rightarrow> string \<Rightarrow> bytes \<Rightarrow> ('k net, int) state" where
  "ifc_set_hwaddr K name hw = do {
     let ifr = ifc_init_ifr name;
     let u = memcpy_at (memcpy_at (ifr_u ifr) 0 (bytes16 ARPHRD_ETHER)) 2 (take 6 hw);
     (r, _) \<leftarrow> ioctl_if K SIOCSIFHWADDR (ifr\<lparr>ifr_u := u\<rparr>);
     ret r
   }"

definition ifc_set_mask :: "'k sys \<Rightarrow> string \<Rightarrow> u32 \<Rightarrow> ('k net, int) state" where
  "ifc_set_mask K name nm = do {
     (r, _) \<leftarrow> ioctl_if K SIOCSIFNETMASK (ifr_addr_update nm (ifc_init_ifr name));
     ret r
   }"

definition ifc_set_prefixLength :: "'k sys \<Rightarrow> string \<Rightarrow> int \<Rightarrow> ('k net, int) state" where
  "ifc_set_prefixLength K name prefixLength =
     (if prefixLength > 32 \<or> prefixLength < 0 then ret (-1)
      else do {
        let nm = prefixLengthToIpv4Netmask prefixLength;
        (r, _) \<leftarrow> ioctl_if K SIOCSIFNETMASK (ifr_addr_update nm (ifc_init_ifr name));
        ret r
      })"

text \<open>\<open>ifc_get_addr\<close> with a non-null pointer: the return code and what \<open>*addr\<close> holds.\<close>

definition ifc_get_addr :: "'k sys \<Rightarrow> string \<Rightarrow> ('k net, int \<times> u32) state" where
  "ifc_get_addr K name = do {
     (r, ifr) \<leftarrow> ioctl_if K SIOCGIFADDR (ifc_init_ifr name);
     ret (r, if r < 0 then 0 else ifr_sin_addr ifr)
   }"

text \<open>
  \<open>ifc_get_info\<close>; a pointer that is NULL is a flag that is false. The request structure is
  reused, so each call sees what the one before left in it.
\<close>

definition ifc_get_info ::
  "'k sys \<Rightarrow> string \<Rightarrow> bool \<Rightarrow> bool \<Rightarrow> bool \<Rightarrow> ('k net, u32 option \<times> nat option \<times> u32 option) state" where
  "ifc_get_info K name want_addr want_prefix want_flags = do {
     let ifr = ifc_init_ifr name;
     (addr, ifr) \<leftarrow> (if want_addr then do {
         (r, ifr) \<leftarrow> ioctl_if K SIOCGIFADDR ifr;
         ret (Some (if r < 0 then 0 else ifr_sin_addr ifr), ifr)
       } else ret (None, ifr));
     (prefix, ifr) \<leftarrow> (if want_prefix then do {
         (r, ifr) \<leftarrow> ioctl_if K SIOCGIFNETMASK ifr;
         ret (Some (if r < 0 then 0 else ipv4NetmaskToPrefixLength (ifr_sin_addr ifr)), ifr)
       } else ret (None, ifr));
     flags \<leftarrow> (if want_flags then do {
         (r, ifr) \<leftarrow> ioctl_if K SIOCGIFFLAGS ifr;
         ret (Some (if r < 0 then 0 else scast (ifr_flags ifr)))
       } else ret None);
     ret (addr, prefix, flags)
   }"

section \<open>Clearing addresses, enabling and disabling\<close>

text \<open>The loop of \<open>ifc_clear_ipv4_addresses\<close> and \<open>ifc_disable\<close>; \<open>n\<close> is \<open>255 - count\<close>.\<close>

fun clear_ipv4_loop :: "'k sys \<Rightarrow> string \<Rightarrow> nat \<Rightarrow> u32 \<Rightarrow> ('k net, unit) state" where
  "clear_ipv4_loop K name 0 addr = ret ()"
| "clear_ipv4_loop K name (Suc n) addr =
     (if addr = 0 then ret ()
      else do {
        (r, addr) \<leftarrow> ifc_get_addr K name;
        if r < 0 then ret ()
        else do {
          _ \<leftarrow> (if addr \<noteq> 0 then ifc_set_addr K name 0 else ret 0);
          clear_ipv4_loop K name n addr
        }
      })"

definition ifc_clear_ipv4_addresses :: "'k sys \<Rightarrow> string \<Rightarrow> ('k net, unit) state" where
  "ifc_clear_ipv4_addresses K name = do {
     _ \<leftarrow> ifc_init K;
     _ \<leftarrow> clear_ipv4_loop K name 255 1;
     ifc_close K
   }"

definition ifc_enable :: "'k sys \<Rightarrow> string \<Rightarrow> ('k net, int) state" where
  "ifc_enable K ifname = do {
     _ \<leftarrow> ifc_init K;
     result \<leftarrow> ifc_up K ifname;
     _ \<leftarrow> ifc_close K;
     ret result
   }"

definition ifc_disable :: "'k sys \<Rightarrow> string \<Rightarrow> ('k net, int) state" where
  "ifc_disable K ifname = do {
     _ \<leftarrow> ifc_init K;
     result \<leftarrow> ifc_down K ifname;
     _ \<leftarrow> ifc_set_addr K ifname 0;
     _ \<leftarrow> clear_ipv4_loop K ifname 255 1;
     _ \<leftarrow> ifc_close K;
     ret result
   }"

text \<open>
  \<open>ifc_reset_connections\<close> as it is built for Android; the two flags are the bits
  \<open>RESET_IPV4_ADDRESSES\<close> and \<open>RESET_IPV6_ADDRESSES\<close> of \<open>reset_mask\<close>.
\<close>

definition ifc_reset_connections :: "'k sys \<Rightarrow> string \<Rightarrow> bool \<Rightarrow> bool \<Rightarrow> ('k net, int) state" where
  "ifc_reset_connections K ifname reset4 reset6 = do {
     result \<leftarrow> (if reset4 then do {
         _ \<leftarrow> ifc_init K;
         (myaddr, _) \<leftarrow> ifc_get_info K ifname True False False;
         (r, _) \<leftarrow> ioctl_if K SIOCKILLADDR (ifr_addr_update (the myaddr) (ifc_init_ifr ifname));
         _ \<leftarrow> ifc_close K;
         ret r
       } else ret 0);
     if reset6 then do {
       _ \<leftarrow> ifc_init6 K;
       fd \<leftarrow> get_sock6;
       x \<leftarrow> syscall (sys_ioctl_kill6 K fd);
       _ \<leftarrow> ifc_close6 K;
       ret (if result = 0 then rc x else result)
     } else ret result
   }"

section \<open>What the operations do to the control sockets\<close>

text \<open>
  Two contracts. An operation that uses the socket it finds (\<open>uses_ctl\<close>) leaves the descriptor
  as it was; one that opens and closes it itself (\<open>scoped_ctl\<close>) leaves it closed, whatever
  it found. The second is what a caller that holds the socket open has to know.
\<close>

lemma keeps_ifc_init [keeps_intros]: "keeps (ifc_init K) socks_ok"
  unfolding ifc_init_def by (intro keeps_intros rc_ge)

lemma keeps_ifc_init6 [keeps_intros]:
  "keeps (ifc_init6 K) socks_ok" "keeps (ifc_init6 K) (sock_is c)"
  unfolding ifc_init6_def by (intro keeps_intros rc_ge)+

lemma keeps_ifc_close [keeps_intros]: "keeps (ifc_close K) socks_ok"
  unfolding ifc_close_def by (intro keeps_intros) simp

lemma keeps_ifc_close6 [keeps_intros]:
  "keeps (ifc_close6 K) socks_ok" "keeps (ifc_close6 K) (sock_is c)"
  unfolding ifc_close6_def by (intro keeps_intros; simp)+

locale uses_ctl =
  fixes operation :: "('k net, 'a) state"
  assumes uses_ok: "keeps operation socks_ok"
    and uses_same: "keeps operation (sock_is c)"
begin

lemma sock_same: "ifc_ctl_sock (snd (run_state operation s)) = ifc_ctl_sock s"
  using keepsD [OF uses_same, of "ifc_ctl_sock s" s] by (simp add: sock_is_def)

lemma socks_ok_after: "socks_ok s \<Longrightarrow> socks_ok (snd (run_state operation s))"
  by (rule keepsD [OF uses_ok])

end

locale scoped_ctl =
  fixes operation :: "('k net, 'a) state"
  assumes scoped_ok: "keeps operation socks_ok"
    and scoped_closed: "socks_ok s \<Longrightarrow> ifc_ctl_sock (snd (run_state operation s)) = -1"
begin

lemma closed_after: "socks_ok s \<Longrightarrow> run_state operation s = (x, t) \<Longrightarrow> ifc_ctl_sock t = -1 \<and> socks_ok t"
  using scoped_closed [of s] keepsD [OF scoped_ok, of s] by simp

end

text \<open>An operation that ends with \<open>ifc_close\<close>, and then returns a value, is scoped.\<close>

lemma ifc_close_closed: "ifc_ctl_sock (snd (run_state (ifc_close K) s)) = -1"
  by (simp add: ifc_close_def run_simps)

lemma bind_closed:
  "(\<And>x s. ifc_ctl_sock (snd (run_state (f x) s)) = -1) \<Longrightarrow>
   ifc_ctl_sock (snd (run_state (State_Monad.bind m f) s)) = -1"
  by (simp split: prod.splits)

lemma bind_ret_closed:
  "(\<And>s. ifc_ctl_sock (snd (run_state m s)) = -1) \<Longrightarrow>
   ifc_ctl_sock (snd (run_state (State_Monad.bind m (\<lambda>x. ret (f x))) s)) = -1"
  by (simp split: prod.splits) (metis snd_conv)

lemmas closed_intros = bind_ret_closed ifc_close_closed bind_closed

lemma uses_set_flags: "keeps (ifc_set_flags K name st clr) socks_ok"
  "keeps (ifc_set_flags K name st clr) (sock_is c)"
  unfolding ifc_set_flags_def by (intro keeps_intros)+

lemmas op_defs = ifc_up_def ifc_down_def ifc_set_addr_def ifc_set_hwaddr_def ifc_set_mask_def
  ifc_set_prefixLength_def ifc_get_addr_def ifc_get_info_def ifc_get_hwaddr_def ifc_get_ifindex_def

interpretation up: uses_ctl "ifc_up K name" for K name
  by (unfold_locales; unfold ifc_up_def; rule uses_set_flags)

interpretation down: uses_ctl "ifc_down K name" for K name
  by (unfold_locales; unfold ifc_down_def; rule uses_set_flags)

interpretation saddr: uses_ctl "ifc_set_addr K name addr" for K name addr
  by (unfold_locales; unfold op_defs; intro keeps_intros)

interpretation shw: uses_ctl "ifc_set_hwaddr K name hw" for K name hw
  by (unfold_locales; unfold op_defs; intro keeps_intros)

interpretation smask: uses_ctl "ifc_set_mask K name nm" for K name nm
  by (unfold_locales; unfold op_defs; intro keeps_intros)

interpretation splen: uses_ctl "ifc_set_prefixLength K name p" for K name p
  by (unfold_locales; unfold op_defs; intro keeps_intros)

interpretation gaddr: uses_ctl "ifc_get_addr K name" for K name
  by (unfold_locales; unfold op_defs; intro keeps_intros)

interpretation ginfo: uses_ctl "ifc_get_info K name wa wp wf" for K name wa wp wf
  by (unfold_locales; unfold op_defs; intro keeps_intros)

interpretation ghw: uses_ctl "ifc_get_hwaddr K name" for K name
  by (unfold_locales; unfold op_defs; intro keeps_intros)

interpretation gix: uses_ctl "ifc_get_ifindex K name" for K name
  by (unfold_locales; unfold op_defs; intro keeps_intros)

lemmas uses_keeps [keeps_intros] = up.uses_ok down.uses_ok saddr.uses_ok shw.uses_ok smask.uses_ok
  splen.uses_ok gaddr.uses_ok ginfo.uses_ok ghw.uses_ok gix.uses_ok
  up.uses_same down.uses_same saddr.uses_same shw.uses_same smask.uses_same
  splen.uses_same gaddr.uses_same ginfo.uses_same ghw.uses_same gix.uses_same

lemma keeps_clear_loop [keeps_intros]: "keeps (clear_ipv4_loop K name n addr) socks_ok"
  by (induction n arbitrary: addr) (auto intro!: keeps_intros)

interpretation clr4: scoped_ctl "ifc_clear_ipv4_addresses K name" for K name
  by (unfold_locales; unfold ifc_clear_ipv4_addresses_def; intro keeps_intros closed_intros)

interpretation ena: scoped_ctl "ifc_enable K name" for K name
  by (unfold_locales; unfold ifc_enable_def; intro keeps_intros closed_intros)

interpretation dis: scoped_ctl "ifc_disable K name" for K name
  by (unfold_locales; unfold ifc_disable_def; intro keeps_intros closed_intros)

end
