(* ===== verification/Route.thy ===== *)
theory Route
  imports Ifc
begin

text \<open>
  \<^verbatim>\<open>test_wifi/libnetutils/ifc_utils.c\<close>: the routing table and \<open>ifc_configure\<close>. The file
  \<^verbatim>\<open>/proc/net/route\<close> is the list of its lines that \<open>fscanf\<close> converts in full; the loop stops
  at the first that it does not.
\<close>

unbundle bit_operations_syntax

section \<open>IPv4 routes\<close>

definition RTF_UP :: u16 where "RTF_UP = 1"
definition RTF_GATEWAY :: u16 where "RTF_GATEWAY = 2"
definition RTF_HOST :: u16 where "RTF_HOST = 4"

definition zero_rtentry :: rtentry where
  "zero_rtentry = \<lparr>rt_dst = replicate 16 0, rt_gateway = replicate 16 0,
     rt_genmask = replicate 16 0, rt_flags = 0, rt_dev = None\<rparr>"

definition ipv4_rtentry :: "string \<Rightarrow> u32 \<Rightarrow> int \<Rightarrow> u32 \<Rightarrow> rtentry" where
  "ipv4_rtentry ifname dst prefix_length gw =
     (let rt = zero_rtentry;
          rt = rt\<lparr>rt_dst := memcpy_at (rt_dst rt) 0 (bytes16 AF_INET_no)\<rparr>;
          rt = rt\<lparr>rt_dev := Some ifname\<rparr>;
          netmask = prefixLengthToIpv4Netmask prefix_length;
          rt = rt\<lparr>rt_genmask := init_sockaddr_in (rt_genmask rt) netmask\<rparr>;
          rt = rt\<lparr>rt_dst := init_sockaddr_in (rt_dst rt) dst\<rparr>;
          rt = rt\<lparr>rt_flags := RTF_UP\<rparr>;
          rt = (if prefix_length = 32 then rt\<lparr>rt_flags := rt_flags rt OR RTF_HOST\<rparr> else rt)
      in if gw \<noteq> 0
         then rt\<lparr>rt_flags := rt_flags rt OR RTF_GATEWAY,
                 rt_gateway := init_sockaddr_in (rt_gateway rt) gw\<rparr>
         else rt)"

definition ifc_act_on_ipv4_route ::
  "'k sys \<Rightarrow> rt_req \<Rightarrow> string \<Rightarrow> u32 \<Rightarrow> int \<Rightarrow> u32 \<Rightarrow> ('k net, int) state" where
  "ifc_act_on_ipv4_route K action ifname dst prefix_length gw = do {
     let rt = ipv4_rtentry ifname dst prefix_length gw;
     _ \<leftarrow> ifc_init K;
     c \<leftarrow> get_sock;
     e \<leftarrow> get_errno;
     if c < 0 then ret (- e)
     else do {
       result \<leftarrow> ioctl_rt K action rt;
       e \<leftarrow> get_errno;
       let result = (if result < 0 then (if e = EEXIST then 0 else - e) else result);
       _ \<leftarrow> ifc_close K;
       ret result
     }
   }"

definition ifc_create_default_route :: "'k sys \<Rightarrow> string \<Rightarrow> u32 \<Rightarrow> ('k net, int) state" where
  "ifc_create_default_route K name gw = ifc_act_on_ipv4_route K SIOCADDRT name 0 0 gw"

definition ifc_add_host_route :: "'k sys \<Rightarrow> string \<Rightarrow> u32 \<Rightarrow> ('k net, int) state" where
  "ifc_add_host_route K name dst = ifc_act_on_ipv4_route K SIOCADDRT name dst 32 0"

definition ifc_add_ipv4_route :: "'k sys \<Rightarrow> string \<Rightarrow> u32 \<Rightarrow> int \<Rightarrow> u32 \<Rightarrow> ('k net, int) state" where
  "ifc_add_ipv4_route K ifname dst prefix_length gw =
     ifc_act_on_ipv4_route K SIOCADDRT ifname dst prefix_length gw"

definition ifc_set_default_route :: "'k sys \<Rightarrow> string \<Rightarrow> u32 \<Rightarrow> ('k net, int) state" where
  "ifc_set_default_route K ifname gateway = do {
     _ \<leftarrow> ifc_init K;
     result \<leftarrow> ifc_create_default_route K ifname gateway;
     _ \<leftarrow> ifc_close K;
     ret result
   }"

definition ifc_remove_default_route :: "'k sys \<Rightarrow> string \<Rightarrow> ('k net, int) state" where
  "ifc_remove_default_route K ifname = do {
     _ \<leftarrow> ifc_init K;
     let rt = zero_rtentry\<lparr>rt_dev := Some ifname, rt_flags := RTF_UP OR RTF_GATEWAY\<rparr>;
     let rt = rt\<lparr>rt_dst := init_sockaddr_in (rt_dst rt) 0\<rparr>;
     result \<leftarrow> ioctl_rt K SIOCDELRT rt;
     _ \<leftarrow> ifc_close K;
     ret result
   }"

section \<open>Scanning the routing table\<close>

definition is_host_route :: "string \<Rightarrow> route_row \<Rightarrow> bool" where
  "is_host_route name row \<longleftrightarrow>
     \<not> ((row_flags row AND (ucast (RTF_UP OR RTF_HOST)) \<noteq> ucast (RTF_UP OR RTF_HOST))
        \<or> row_name row \<noteq> name)"

definition host_rtentry :: "string \<Rightarrow> route_row \<Rightarrow> rtentry" where
  "host_rtentry name row =
     (let rt = zero_rtentry\<lparr>rt_dev := Some name\<rparr>;
          rt = rt\<lparr>rt_dst := init_sockaddr_in (rt_dst rt) (row_dest row)\<rparr>;
          rt = rt\<lparr>rt_gateway := init_sockaddr_in (rt_gateway rt) (row_gway row)\<rparr>
      in rt\<lparr>rt_genmask := init_sockaddr_in (rt_genmask rt) (row_mask row)\<rparr>)"

fun remove_rows :: "'k sys \<Rightarrow> string \<Rightarrow> route_row list \<Rightarrow> ('k net, unit) state" where
  "remove_rows K name [] = ret ()"
| "remove_rows K name (row # rows) =
     (if \<not> is_host_route name row then remove_rows K name rows
      else do {
        _ \<leftarrow> ioctl_rt K SIOCDELRT (host_rtentry name row);
        remove_rows K name rows
      })"

definition ifc_remove_host_routes :: "'k sys \<Rightarrow> string \<Rightarrow> ('k net, int) state" where
  "ifc_remove_host_routes K name = do {
     f \<leftarrow> world (sys_proc_route K);
     case f of NoFile \<Rightarrow> ret (-1) | NoHeader \<Rightarrow> ret (-1)
     | Rows rows \<Rightarrow> do {
         _ \<leftarrow> ifc_init K;
         _ \<leftarrow> remove_rows K name rows;
         _ \<leftarrow> ifc_close K;
         ret 0
       }
   }"

fun find_default_route :: "string \<Rightarrow> route_row list \<Rightarrow> u32" where
  "find_default_route ifname [] = 0"
| "find_default_route ifname (row # rows) =
     (if row_flags row AND (ucast (RTF_UP OR RTF_GATEWAY)) = ucast (RTF_UP OR RTF_GATEWAY)
         \<and> row_dest row = 0 \<and> ifname = row_name row
      then row_gway row else find_default_route ifname rows)"

definition ifc_get_default_route :: "'k sys \<Rightarrow> string \<Rightarrow> ('k net, int) state" where
  "ifc_get_default_route K ifname = do {
     f \<leftarrow> world (sys_proc_route K);
     case f of NoFile \<Rightarrow> ret 0 | NoHeader \<Rightarrow> ret 0
     | Rows rows \<Rightarrow> do {
         _ \<leftarrow> ifc_init K;
         let result = sint (find_default_route ifname rows);
         _ \<leftarrow> ifc_close K;
         ret result
       }
   }"

section \<open>Configuring an interface\<close>

definition ifc_configure ::
  "'k sys \<Rightarrow> string \<Rightarrow> u32 \<Rightarrow> u32 \<Rightarrow> u32 \<Rightarrow> u32 \<Rightarrow> u32 \<Rightarrow> ('k net, int) state" where
  "ifc_configure K ifname address prefixLength gateway dns1 dns2 = do {
     _ \<leftarrow> ifc_init K;
     r \<leftarrow> ifc_up K ifname;
     if r \<noteq> 0 then do { _ \<leftarrow> ifc_close K; ret (-1) }
     else do {
       r \<leftarrow> ifc_set_addr K ifname address;
       if r \<noteq> 0 then do { _ \<leftarrow> ifc_close K; ret (-1) }
       else do {
         r \<leftarrow> ifc_set_prefixLength K ifname (sint prefixLength);
         if r \<noteq> 0 then do { _ \<leftarrow> ifc_close K; ret (-1) }
         else do {
           r \<leftarrow> ifc_create_default_route K ifname gateway;
           if r \<noteq> 0 then do { _ \<leftarrow> ifc_close K; ret (-1) }
           else do {
             _ \<leftarrow> ifc_close K;
             _ \<leftarrow> world (\<lambda>k. ((), sys_property_set K
                    (snprintf PROPERTY_KEY_MAX (''net.'' @ ifname @ ''.dns1''))
                    (if dns1 \<noteq> 0 then inet_ntoa dns1 else '''') k));
             _ \<leftarrow> world (\<lambda>k. ((), sys_property_set K
                    (snprintf PROPERTY_KEY_MAX (''net.'' @ ifname @ ''.dns2''))
                    (if dns2 \<noteq> 0 then inet_ntoa dns2 else '''') k));
             ret 0
           }
         }
       }
     }
   }"

section \<open>IPv6 routes, and routes of either family\<close>

definition in6addr_any :: bytes where "in6addr_any = replicate 16 0"

definition ipv6_rtmsg :: "int \<Rightarrow> bytes \<Rightarrow> int \<Rightarrow> bytes \<Rightarrow> in6_rtmsg" where
  "ipv6_rtmsg ifindex dst prefix_length gw =
     (let m = \<lparr>rtmsg_dst = replicate 16 0, rtmsg_gateway = replicate 16 0, rtmsg_dst_len = 0,
               rtmsg_flags = 0, rtmsg_ifindex = 0\<rparr>;
          m = m\<lparr>rtmsg_ifindex := ifindex, rtmsg_dst := dst, rtmsg_dst_len := word_of_int prefix_length,
                rtmsg_flags := ucast RTF_UP\<rparr>;
          m = (if prefix_length = 128 then m\<lparr>rtmsg_flags := rtmsg_flags m OR ucast RTF_HOST\<rparr> else m)
      in if gw \<noteq> in6addr_any
         then m\<lparr>rtmsg_flags := rtmsg_flags m OR ucast RTF_GATEWAY, rtmsg_gateway := gw\<rparr> else m)"

definition ifc_act_on_ipv6_route ::
  "'k sys \<Rightarrow> rt_req \<Rightarrow> string \<Rightarrow> bytes \<Rightarrow> int \<Rightarrow> bytes \<Rightarrow> ('k net, int) state" where
  "ifc_act_on_ipv6_route K action ifname dst prefix_length gw = do {
     i \<leftarrow> syscall (sys_nametoindex K ifname);
     case i of Inl _ \<Rightarrow> ret (- ENXIO)
     | Inr n \<Rightarrow> if n = 0 then ret (- ENXIO) else do {
         let rtmsg = ipv6_rtmsg (int n) dst prefix_length gw;
         _ \<leftarrow> ifc_init6 K;
         c \<leftarrow> get_sock6;
         e \<leftarrow> get_errno;
         if c < 0 then ret (- e)
         else do {
           x \<leftarrow> syscall (sys_ioctl_rt6 K c action rtmsg);
           e \<leftarrow> get_errno;
           let result = (if rc x < 0 then (if e = EEXIST then 0 else - e) else rc x);
           _ \<leftarrow> ifc_close6 K;
           ret result
         }
       }
   }"

definition ifc_add_ipv6_route ::
  "'k sys \<Rightarrow> string \<Rightarrow> bytes \<Rightarrow> int \<Rightarrow> bytes \<Rightarrow> ('k net, int) state" where
  "ifc_add_ipv6_route K ifname dst prefix_length gw =
     ifc_act_on_ipv6_route K SIOCADDRT ifname dst prefix_length gw"

definition family :: "ipaddr \<Rightarrow> int" where
  "family a = (case a of In4 _ \<Rightarrow> 2 | In6 _ \<Rightarrow> 10 | InOther n \<Rightarrow> n)"

definition default_gw :: "ipaddr \<Rightarrow> string option \<Rightarrow> string option" where
  "default_gw dst gw =
     (if gw = None \<or> gw = Some ''''
      then (case dst of In6 _ \<Rightarrow> Some ''::'' | In4 _ \<Rightarrow> Some ''0.0.0.0'' | InOther _ \<Rightarrow> gw)
      else gw)"

definition bad_prefix :: "ipaddr \<Rightarrow> int \<Rightarrow> bool" where
  "bad_prefix dst prefix_length \<longleftrightarrow>
     (case dst of In6 _ \<Rightarrow> prefix_length < 0 \<or> prefix_length > 128
      | In4 _ \<Rightarrow> prefix_length < 0 \<or> prefix_length > 32
      | InOther _ \<Rightarrow> False)"

text \<open>\<open>getaddrinfo(NULL, NULL, \<dots>)\<close> is an error of the library's.\<close>

definition ifc_act_on_route ::
  "'k sys \<Rightarrow> rt_req \<Rightarrow> string \<Rightarrow> string \<Rightarrow> int \<Rightarrow> string option \<Rightarrow> ('k net, int) state" where
  "ifc_act_on_route K action ifname dst prefix_length gw = do {
     a \<leftarrow> world (sys_getaddrinfo K dst);
     case a of Inl _ \<Rightarrow> ret (- EINVAL)
     | Inr addr \<Rightarrow>
         if bad_prefix addr prefix_length then ret (- EINVAL)
         else do {
           g \<leftarrow> (case default_gw addr gw of
                   None \<Rightarrow> ret (Inl 0)
                 | Some gs \<Rightarrow> world (sys_getaddrinfo K gs));
           case g of Inl _ \<Rightarrow> ret (- EINVAL)
           | Inr gaddr \<Rightarrow>
               if family addr \<noteq> family gaddr then ret (- EINVAL)
               else (case (addr, gaddr) of
                   (In6 d, In6 g6) \<Rightarrow> ifc_act_on_ipv6_route K action ifname d prefix_length g6
                 | (In4 d, In4 g4) \<Rightarrow> ifc_act_on_ipv4_route K action ifname d prefix_length g4
                 | _ \<Rightarrow> ret (- EAFNOSUPPORT))
         }
   }"

definition ifc_add_route ::
  "'k sys \<Rightarrow> string \<Rightarrow> string \<Rightarrow> int \<Rightarrow> string option \<Rightarrow> ('k net, int) state" where
  "ifc_add_route K ifname dst prefix_length gw =
     ifc_act_on_route K SIOCADDRT ifname dst prefix_length gw"

definition ifc_remove_route ::
  "'k sys \<Rightarrow> string \<Rightarrow> string \<Rightarrow> int \<Rightarrow> string option \<Rightarrow> ('k net, int) state" where
  "ifc_remove_route K ifname dst prefix_length gw =
     ifc_act_on_route K SIOCDELRT ifname dst prefix_length gw"

section \<open>Control sockets\<close>

lemma keeps_route_file [keeps_intros]:
  "keeps a Q \<Longrightarrow> keeps b Q \<Longrightarrow> (\<And>rows. keeps (g rows) Q) \<Longrightarrow>
   keeps (case f of NoFile \<Rightarrow> a | NoHeader \<Rightarrow> b | Rows rows \<Rightarrow> g rows) Q"
  by (cases f) simp_all

lemma keeps_remove_rows [keeps_intros]:
  "keeps (remove_rows K name rows) socks_ok" "keeps (remove_rows K name rows) (sock_is c)"
  by (induction rows) (auto intro!: keeps_intros)

lemma ipv4_route_closed:
  assumes "socks_ok s"
  shows "ifc_ctl_sock (snd (run_state (ifc_act_on_ipv4_route K action ifname dst p gw) s)) = -1"
proof -
  obtain r t where t: "run_state (ifc_init K) s = (r, t)" by fastforce
  have ok: "socks_ok t" using keepsD [OF keeps_ifc_init, of s K] t assms by simp
  show ?thesis
  proof (cases "ifc_ctl_sock t < 0")
    case True
    then show ?thesis using t ok
      by (simp add: ifc_act_on_ipv4_route_def Let_def run_simps socks_ok_def)
  next
    case False
    then show ?thesis using t
      by (simp add: ifc_act_on_ipv4_route_def Let_def run_simps split: prod.splits)
        (metis ifc_close_closed snd_conv)
  qed
qed

interpretation r4: scoped_ctl "ifc_act_on_ipv4_route K action ifname dst p gw" for K action ifname dst p gw
  by unfold_locales
    (unfold ifc_act_on_ipv4_route_def, intro keeps_intros,
     fold ifc_act_on_ipv4_route_def, rule ipv4_route_closed)

interpretation cdr: scoped_ctl "ifc_create_default_route K name gw" for K name gw
  by (unfold ifc_create_default_route_def) unfold_locales

interpretation sdr: scoped_ctl "ifc_set_default_route K name gw" for K name gw
  by (unfold_locales; unfold ifc_set_default_route_def; intro keeps_intros cdr.scoped_ok closed_intros)

interpretation rdr: scoped_ctl "ifc_remove_default_route K name" for K name
  by (unfold_locales; unfold ifc_remove_default_route_def Let_def; intro keeps_intros closed_intros)

section \<open>\<open>ifc_configure\<close> leaves nothing open\<close>

lemma if_closed:
  "(\<And>s. ifc_ctl_sock (snd (run_state m s)) = -1) \<Longrightarrow> (\<And>s. ifc_ctl_sock (snd (run_state n s)) = -1) \<Longrightarrow>
   ifc_ctl_sock (snd (run_state (if b then m else n) s)) = -1"
  by simp

lemma bind_closed_keeps:
  "(\<And>s. ifc_ctl_sock (snd (run_state m s)) = -1) \<Longrightarrow> (\<And>x. keeps (f x) (sock_is (-1))) \<Longrightarrow>
   ifc_ctl_sock (snd (run_state (State_Monad.bind m f) s)) = -1"
  by (simp add: keeps_def sock_is_def split: prod.splits) (metis snd_conv)

lemma configure_closed: "ifc_ctl_sock (snd (run_state (ifc_configure K ifname a p g d1 d2) s)) = -1"
  unfolding ifc_configure_def
  by (rule bind_closed, rule bind_closed, rule if_closed, rule bind_ret_closed, rule ifc_close_closed,
      rule bind_closed, rule if_closed, rule bind_ret_closed, rule ifc_close_closed,
      rule bind_closed, rule if_closed, rule bind_ret_closed, rule ifc_close_closed,
      rule bind_closed, rule if_closed, rule bind_ret_closed, rule ifc_close_closed,
      rule bind_closed_keeps, rule ifc_close_closed, intro keeps_intros)

interpretation cfg: scoped_ctl "ifc_configure K ifname a p g d1 d2" for K ifname a p g d1 d2
  by (unfold_locales, unfold ifc_configure_def, intro keeps_intros cdr.scoped_ok,
      fold ifc_configure_def, rule configure_closed)

lemma sockaddr_fields:
  "length sa = 16 \<Longrightarrow> length (init_sockaddr_in sa a) = 16 \<and> get32 (init_sockaddr_in sa a) 4 = a"
proof -
  assume l: "length sa = 16"
  have e: "init_sockaddr_in sa a = bytes16 AF_INET_no @ bytes16 0 @ bytes32 a @ drop 8 sa"
    using l by (simp add: init_sockaddr_in_def Let_def memcpy_at_def)
  have "get32 ((bytes16 AF_INET_no @ bytes16 0) @ bytes32 a @ drop 8 sa) (length (bytes16 AF_INET_no @ bytes16 0)) = a"
    by (rule get32_bytes32)
  then show ?thesis using e l by simp
qed

lemma rtentry_fields:
  assumes "rt = ipv4_rtentry ifname dst prefix_length gw"
  shows "get32 (rt_dst rt) 4 = dst" "get32 (rt_genmask rt) 4 = prefixLengthToIpv4Netmask prefix_length"
    "get32 (rt_gateway rt) 4 = gw" "rt_dev rt = Some ifname"
    "rt_flags rt = 1 + (if gw = 0 then 0 else 2) + (if prefix_length = 32 then 4 else 0)"
  using sockaddr_fields [of "replicate 16 0"] sockaddr_fields [of "memcpy_at (replicate 16 0) 0 (bytes16 AF_INET_no)"]
  by (simp_all add: assms ipv4_rtentry_def Let_def zero_rtentry_def RTF_UP_def RTF_HOST_def RTF_GATEWAY_def
      get32_def mk32_def)

section \<open>Properties\<close>

text \<open>\<open>ifc_configure\<close> reports 0 or -1 and nothing else, and whatever fails on the way, and
  whatever the control socket was before, no control socket is left open.\<close>

theorem configure_result:
  "fst (run_state (ifc_configure K ifname address prefixLength gateway dns1 dns2) s) \<in> {0, -1} \<and>
   ifc_ctl_sock (snd (run_state (ifc_configure K ifname address prefixLength gateway dns1 dns2) s)) = -1"
  using configure_closed [of K ifname address prefixLength gateway dns1 dns2 s]
  by (auto simp: ifc_configure_def run_simps split: prod.splits if_splits)

text \<open>An IPv4 route: the control socket is opened, one request is made with a table entry that
  holds the destination, its mask and the gateway in network order (flags: up, host for a
  prefix of 32, gateway for a gateway that is not 0), a route that exists already counts as
  success, any other failure is reported as the negative error number, and the socket is closed.\<close>

theorem ipv4_route_effect:
  assumes "ifc_ctl_sock s = -1" and "sys_socket K AF_INET (kst s) = (Inr fd, k1)"
    and "rt = ipv4_rtentry ifname dst prefix_length gw"
    and "sys_ioctl_rt K (int fd) action rt k1 = (x, k2)"
    and "run_state (ifc_act_on_ipv4_route K action ifname dst prefix_length gw) s = (r, t)"
  shows "r = (case x of Inl e \<Rightarrow> if e = EEXIST then 0 else - e | Inr n \<Rightarrow> int n) \<and>
    kst t = sys_close K (int fd) k2 \<and> ifc_ctl_sock t = -1 \<and>
    get32 (rt_dst rt) 4 = dst \<and> get32 (rt_genmask rt) 4 = prefixLengthToIpv4Netmask prefix_length \<and>
    get32 (rt_gateway rt) 4 = gw \<and> rt_dev rt = Some ifname \<and>
    rt_flags rt = 1 + (if gw = 0 then 0 else 2) + (if prefix_length = 32 then 4 else 0)"
proof -
  have "r = (case x of Inl e \<Rightarrow> if e = EEXIST then 0 else - e | Inr n \<Rightarrow> int n) \<and>
    kst t = sys_close K (int fd) k2 \<and> ifc_ctl_sock t = -1"
    using assms(1,2,4,5)
    by (cases x) (auto simp: ifc_act_on_ipv4_route_def ifc_init_def ifc_close_def ioctl_rt_def rc_def run_simps
        assms(3) [symmetric])
  then show ?thesis using rtentry_fields [OF assms(3)] by simp
qed

theorem ipv4_route_effect_witness:
  "fst (run_state (ifc_act_on_ipv4_route (logging_sys NoFile [] (\<lambda>_. [])) SIOCADDRT ''wlan0'' 5 32 9)
     (closed_net [])) = 0 \<and> rt_flags (ipv4_rtentry ''wlan0'' 5 32 9) = 7"
  using ipv4_route_effect [of "closed_net []" "logging_sys NoFile [] (\<lambda>_. [])" 3 "[CallSocket AF_INET]"
      "ipv4_rtentry ''wlan0'' 5 32 9" "''wlan0''" 5 32 9 SIOCADDRT "Inr 0"
      "[CallSocket AF_INET, CallRt 3 SIOCADDRT (ipv4_rtentry ''wlan0'' 5 32 9)]"]
  by (auto simp: logging_sys_def closed_net_def prod_eq_iff)

lemma remove_rows_fold:
  "run_state (remove_rows K name rows) s = ((), t) \<Longrightarrow> 
   kst t = fold (\<lambda>row k. snd (sys_ioctl_rt K (ifc_ctl_sock s) SIOCDELRT (host_rtentry name row) k))
     (filter (is_host_route name) rows) (kst s) \<and> ifc_ctl_sock t = ifc_ctl_sock s"
proof (induction rows arbitrary: s)
  case (Cons row rows)
  show ?case
  proof (cases "is_host_route name row")
    case True
    define s' where "s' = snd (run_state (ioctl_rt K SIOCDELRT (host_rtentry name row)) s)"
    have k: "kst s' = snd (sys_ioctl_rt K (ifc_ctl_sock s) SIOCDELRT (host_rtentry name row) (kst s))"
      "ifc_ctl_sock s' = ifc_ctl_sock s"
      by (simp_all add: s'_def ioctl_rt_def run_simps split: prod.splits)
    have "run_state (remove_rows K name rows) s' = ((), t)"
      using Cons.prems True by (simp add: s'_def split: prod.splits)
    from Cons.IH [OF this] show ?thesis using True by (simp add: k)
  qed (use Cons in simp)
qed simp

lemma bits_0_2: "(w :: u32) AND 5 = 5 \<longleftrightarrow> bit w 0 \<and> bit w 2"
proof -
  have five: "(5 :: u32) = 1 OR push_bit 2 1" by simp
  have b: "bit (5 :: u32) i \<longleftrightarrow> i = 0 \<or> i = 2" for i
    unfolding five by (auto simp: bit_or_iff bit_push_bit_iff bit_1_iff simp del: push_bit_of_1)
  show ?thesis
    unfolding bit_eq_iff [of "w AND 5" 5] bit_and_iff b by (auto dest: spec [of _ 0] spec [of _ 2])
qed

text \<open>C32. \<open>ifc_remove_host_routes\<close> asks the kernel to delete exactly the rows of the routing table that
  are host routes of this interface and up, in the order of the table, each with the
  destination, gateway and mask of its row, on one socket that is closed afterwards.\<close>

theorem host_routes_removed:
  assumes "ifc_ctl_sock s = -1" and "sys_proc_route K (kst s) = (Rows rows, k0)"
    and "sys_socket K AF_INET k0 = (Inr fd, k1)"
    and "run_state (ifc_remove_host_routes K name) s = (r, t)"
  shows "r = 0 \<and> ifc_ctl_sock t = -1 \<and>
    kst t = sys_close K (int fd)
      (fold (\<lambda>row k. snd (sys_ioctl_rt K (int fd) SIOCDELRT (host_rtentry name row) k))
        (filter (\<lambda>row. row_name row = name \<and> bit (row_flags row) 0 \<and> bit (row_flags row) 2) rows) k1)"
proof -
  have h: "is_host_route name = (\<lambda>row. row_name row = name \<and> bit (row_flags row) 0 \<and> bit (row_flags row) 2)"
  proof (rule ext)
    fix row :: route_row
    have "row_flags row AND 5 = 5 \<longleftrightarrow> bit (row_flags row) 0 \<and> bit (row_flags row) 2"
      by (rule bits_0_2)
    then show "is_host_route name row = (row_name row = name \<and> bit (row_flags row) 0 \<and> bit (row_flags row) 2)"
      by (auto simp: is_host_route_def RTF_UP_def RTF_HOST_def)
  qed
  define s1 where "s1 = s\<lparr>kst := k1, ifc_ctl_sock := int fd\<rparr>"
  obtain u where u: "run_state (remove_rows K name rows) s1 = ((), u)"
    by (cases "run_state (remove_rows K name rows) s1") auto
  have "kst u = fold (\<lambda>row k. snd (sys_ioctl_rt K (int fd) SIOCDELRT (host_rtentry name row) k))
     (filter (is_host_route name) rows) k1 \<and> ifc_ctl_sock u = int fd"
    using remove_rows_fold [OF u] by (simp add: s1_def)
  moreover have "r = 0" "t = u\<lparr>kst := sys_close K (int fd) (kst u), ifc_ctl_sock := -1\<rparr>"
    using assms u calculation
    by (auto simp: ifc_remove_host_routes_def ifc_init_def ifc_close_def rc_def run_simps s1_def)
  ultimately show ?thesis by (simp add: h)
qed

theorem host_routes_removed_witness:
  "kst (snd (run_state (ifc_remove_host_routes (logging_sys (Rows
      [\<lparr>row_name = ''wlan0'', row_dest = 7, row_gway = 0, row_flags = 5, row_mask = 9\<rparr>,
       \<lparr>row_name = ''eth0'', row_dest = 8, row_gway = 0, row_flags = 5, row_mask = 9\<rparr>,
       \<lparr>row_name = ''wlan0'', row_dest = 9, row_gway = 0, row_flags = 3, row_mask = 9\<rparr>]) [] (\<lambda>_. []))
      ''wlan0'') (closed_net []))) =
   [CallSocket AF_INET, CallRt 3 SIOCDELRT (host_rtentry ''wlan0''
      \<lparr>row_name = ''wlan0'', row_dest = 7, row_gway = 0, row_flags = 5, row_mask = 9\<rparr>), CallClose 3]"
proof -
  let ?rows = "[\<lparr>row_name = ''wlan0'', row_dest = 7, row_gway = 0, row_flags = 5, row_mask = 9\<rparr>,
       \<lparr>row_name = ''eth0'', row_dest = 8, row_gway = 0, row_flags = 5, row_mask = 9\<rparr>,
       \<lparr>row_name = ''wlan0'', row_dest = 9, row_gway = 0, row_flags = 3, row_mask = 9\<rparr>]"
  let ?K = "logging_sys (Rows ?rows) [] (\<lambda>_. [])"
  have b: "bit (5 :: u32) 0" "bit (5 :: u32) 2" "\<not> bit (3 :: u32) 2"
    by (simp_all add: bit_iff_odd_drop_bit drop_bit_eq_div)
  obtain r t where rt: "run_state (ifc_remove_host_routes ?K ''wlan0'') (closed_net []) = (r, t)"
    by fastforce
  show ?thesis
    using host_routes_removed [OF _ _ _ rt, of ?rows "[]" 3 "[CallSocket AF_INET]"] b
    by (simp add: rt) (simp add: logging_sys_def closed_net_def)
qed

end
