(* ===== verification/Dhcpclient.thy ===== *)
theory Dhcpclient
  imports Dhcpdecode Route
begin

text \<open>
  \<^verbatim>\<open>test_wifi/libnetutils/dhcpclient.c\<close>, second part: the client's state machine
  (\<open>dhcp_init_ifc\<close>) and its caller \<open>do_dhcp\<close>. One iteration of the loop is the function
  \<open>dhcp_step\<close> on the event that \<open>poll\<close> and \<open>read\<close> report; \<open>dhcp_run\<close> folds it over the events of a
  run, and \<open>dhcp_poll_loop\<close> is the loop over the world, with fuel for its iterations. An iteration that
  reads or writes outside an array has no result (\<open>None\<close>).
\<close>

section \<open>State\<close>

definition STATE_SELECTING :: nat where "STATE_SELECTING = 1"
definition STATE_REQUESTING :: nat where "STATE_REQUESTING = 2"
definition TIMEOUT_INITIAL :: u32 where "TIMEOUT_INITIAL = 4000"
definition TIMEOUT_MAX :: u32 where "TIMEOUT_MAX = 32000"
definition INADDR_ANY :: u32 where "INADDR_ANY = 0"
definition INADDR_BROADCAST :: u32 where "INADDR_BROADCAST = 0xffffffff"
definition EINTR :: int where "EINTR = 4"
definition EAGAIN :: int where "EAGAIN = 11"
definition ENETDOWN :: int where "ENETDOWN = 100"
definition ETIME :: int where "ETIME = 62"

lemmas client_consts = STATE_SELECTING_def STATE_REQUESTING_def TIMEOUT_INITIAL_def TIMEOUT_MAX_def
  EINTR_def EAGAIN_def ENETDOWN_def ENXIO_def

text \<open>
  The local variables of \<open>dhcp_init_ifc\<close> that live from one iteration to the next, and what the
  stack holds where the array \<open>buf\<close> of \<open>dump_dhcp_msg\<close> lies: \<open>cl_stack c n i\<close> is its byte \<open>i\<close> at the
  start of the \<open>n\<close>-th call from now.
\<close>

record dhcp_client =
  cl_state :: nat
  cl_timeout :: u32
  cl_info :: dhcp_info
  cl_xid :: u32
  cl_discover :: dhcp_msg
  cl_request :: dhcp_msg
  cl_reply :: dhcp_msg
  cl_stack :: "nat \<Rightarrow> nat \<Rightarrow> u8"

definition stack_buf :: "dhcp_client \<Rightarrow> bytes" where
  "stack_buf c = map (cl_stack c 0) [0..<sizeof_buf]"

definition next_stack :: "dhcp_client \<Rightarrow> dhcp_client" where
  "next_stack c = c\<lparr>cl_stack := (\<lambda>n. cl_stack c (Suc n))\<rparr>"

lemma length_stack_buf [simp]: "length (stack_buf c) = sizeof_buf"
  by (simp add: stack_buf_def)

lemma next_stack_fields [simp]:
  "cl_state (next_stack c) = cl_state c" "cl_timeout (next_stack c) = cl_timeout c"
  "cl_info (next_stack c) = cl_info c" "cl_xid (next_stack c) = cl_xid c"
  "cl_discover (next_stack c) = cl_discover c" "cl_request (next_stack c) = cl_request c"
  "cl_reply (next_stack c) = cl_reply c"
  by (simp_all add: next_stack_def)

text \<open>\<open>get_msecs\<close>: the monotonic clock, seconds and nanoseconds, or a failed call.\<close>

definition get_msecs :: "(nat \<times> nat) option \<Rightarrow> 64 word" where
  "get_msecs ts = (case ts of None \<Rightarrow> 0
     | Some (tv_sec, tv_nsec) \<Rightarrow> of_nat tv_sec * 1000 + of_nat tv_nsec div 1000000)"

text \<open>What \<open>poll\<close>, and then \<open>read\<close> on the socket, report; the stack frame of \<open>receive_packet\<close>
  holds arbitrary bytes.\<close>

datatype dhcp_event = PollTimeout | PollError int | Received bytes "int + bytes"

datatype dhcp_end =
    Offered \<comment> \<open>\<open>dhcp_configure\<close> with an offer nobody acknowledged\<close>
  | Acked \<comment> \<open>\<open>close\<close>, then \<open>dhcp_configure\<close>\<close>
  | Denied \<comment> \<open>\<open>close\<close>, -1\<close>
  | TimedOut \<comment> \<open>\<open>errno = ETIME\<close>, \<open>close\<close>, -1\<close>
  | Broken \<comment> \<open>-1 with the socket left open\<close>

section \<open>One iteration\<close>

text \<open>The log is left out: of \<open>dump_dhcp_msg\<close> only what it does to the message remains.\<close>

definition dumped :: "bytes \<Rightarrow> dhcp_msg \<Rightarrow> int \<Rightarrow> dhcp_msg option" where
  "dumped buf msg len = map_option snd (dump_dhcp_msg buf msg len)"

text \<open>\<open>send_packet\<close> sums and sends the first \<open>size\<close> bytes of the message, which have to be there.\<close>

definition send_message :: "bytes \<Rightarrow> int \<Rightarrow> dhcp_msg \<Rightarrow> nat \<Rightarrow> (frame \<times> dhcp_msg) option" where
  "send_message buf if_index msg sz = do {
     msg \<leftarrow> dumped buf msg (int sz);
     if length (dhcp_bytes msg) < sz then None
     else Some (send_packet if_index (dhcp_bytes msg) sz INADDR_ANY INADDR_BROADCAST
                  (ucast PORT_BOOTP_CLIENT) (ucast PORT_BOOTP_SERVER), msg)
   }"

text \<open>The code after the label \<open>transmit\<close>: the frames sent and the new state.\<close>

definition transmit :: "bytes \<Rightarrow> int \<Rightarrow> dhcp_client \<Rightarrow> (frame list \<times> dhcp_client) option" where
  "transmit hwaddr if_index c =
     (if cl_state c = STATE_SELECTING then do {
        (msg, sz) \<leftarrow> init_dhcp_discover_msg hwaddr (cl_xid c);
        if sz \<noteq> 0 then do {
          (f, msg) \<leftarrow> send_message (stack_buf c) if_index msg sz;
          Some ([f], (next_stack c)\<lparr>cl_discover := msg\<rparr>)
        } else Some ([], c\<lparr>cl_discover := msg\<rparr>)
      } else if cl_state c = STATE_REQUESTING then do {
        (msg, sz) \<leftarrow> init_dhcp_request_msg hwaddr (cl_xid c) (i_ipaddr (cl_info c))
                       (i_serveraddr (cl_info c));
        if sz \<noteq> 0 then do {
          (f, msg) \<leftarrow> send_message (stack_buf c) if_index msg sz;
          Some ([f], (next_stack c)\<lparr>cl_request := msg\<rparr>)
        } else Some ([], c\<lparr>cl_request := msg\<rparr>)
      } else Some ([], c))"

type_synonym step_result = "(frame list \<times> dhcp_client \<times> dhcp_end option) option"

definition transmit_on :: "bytes \<Rightarrow> int \<Rightarrow> dhcp_client \<Rightarrow> step_result" where
  "transmit_on hwaddr if_index c = do {
     (fs, c) \<leftarrow> transmit hwaddr if_index c;
     Some (fs, c, None)
   }"

text \<open>The last \<open>switch\<close>: a reply that is valid for the message sent.\<close>

definition accept_reply :: "bytes \<Rightarrow> int \<Rightarrow> dhcp_client \<Rightarrow> step_result" where
  "accept_reply hwaddr if_index c =
     (if cl_state c = STATE_SELECTING then
        (if i_type (cl_info c) = word_of_int DHCPOFFER then
           transmit_on hwaddr if_index
             (c\<lparr>cl_state := STATE_REQUESTING, cl_timeout := TIMEOUT_INITIAL, cl_xid := cl_xid c + 1\<rparr>)
         else Some ([], c, None))
      else if cl_state c = STATE_REQUESTING then
        (if i_type (cl_info c) = word_of_int DHCPACK then Some ([], c, Some Acked)
         else if i_type (cl_info c) = word_of_int DHCPNAK then Some ([], c, Some Denied)
         else Some ([], c, None))
      else Some ([], c, None))"

definition dhcp_step :: "bytes \<Rightarrow> int \<Rightarrow> dhcp_client \<Rightarrow> dhcp_event \<Rightarrow> step_result" where
  "dhcp_step hwaddr if_index c ev = (case ev of
     PollTimeout \<Rightarrow>
       if cl_timeout c \<ge> TIMEOUT_MAX then
         Some ([], c, Some (if i_type (cl_info c) = word_of_int DHCPOFFER then Offered else TimedOut))
       else transmit_on hwaddr if_index (c\<lparr>cl_timeout := cl_timeout c * 2\<rparr>)
   | PollError e \<Rightarrow>
       if e = EAGAIN \<or> e = EINTR then Some ([], c, None) else Some ([], c, Some Broken)
   | Received packet0 input \<Rightarrow>
       (case receive_packet packet0 input (cl_reply c) of
          RecvFault \<Rightarrow> None
        | RecvErr e \<Rightarrow>
            if e \<noteq> 0 \<and> (e = ENETDOWN \<or> e = ENXIO) then Some ([], c, Some Broken)
            else Some ([], c, None)
        | RecvOk r reply \<Rightarrow> do {
            reply \<leftarrow> dumped (stack_buf c) reply r;
            (_, info) \<leftarrow> decode_dhcp_msg reply r;
            let c = (next_stack c)\<lparr>cl_reply := reply, cl_info := info\<rparr>;
            valid_reply \<leftarrow> (if cl_state c = STATE_SELECTING
                            then is_valid_reply (cl_discover c) reply r
                            else is_valid_reply (cl_request c) reply r);
            if \<not> valid_reply then Some ([], c, None)
            else accept_reply hwaddr if_index c
          }))"

text \<open>A run over the events that occur, up to the one that ends it.\<close>

fun dhcp_run :: "bytes \<Rightarrow> int \<Rightarrow> dhcp_client \<Rightarrow> dhcp_event list \<Rightarrow> step_result" where
  "dhcp_run hwaddr if_index c [] = Some ([], c, None)"
| "dhcp_run hwaddr if_index c (ev # evs) = do {
     (fs, c, e) \<leftarrow> dhcp_step hwaddr if_index c ev;
     case e of Some _ \<Rightarrow> Some (fs, c, e)
     | None \<Rightarrow> do {
         (gs, c, e) \<leftarrow> dhcp_run hwaddr if_index c evs;
         Some (fs @ gs, c, e)
       }
   }"

text \<open>
  The variables at the first jump to \<open>transmit\<close>: \<open>info.type\<close> is the only field of \<open>info\<close> the
  code sets; the rest and the three messages are what the stack holds.
\<close>

definition start_client :: "u32 \<Rightarrow> dhcp_client \<Rightarrow> dhcp_client" where
  "start_client xid junk = junk\<lparr>cl_state := STATE_SELECTING, cl_timeout := TIMEOUT_INITIAL,
     cl_info := (cl_info junk)\<lparr>i_type := 0\<rparr>, cl_xid := xid\<rparr>"

definition dhcp_start :: "bytes \<Rightarrow> int \<Rightarrow> u32 \<Rightarrow> dhcp_client \<Rightarrow> (frame list \<times> dhcp_client) option" where
  "dhcp_start hwaddr if_index xid junk = transmit hwaddr if_index (start_client xid junk)"

section \<open>The loop over the world\<close>

record 'k pkt_sys =
  pk_clock :: "'k \<Rightarrow> (nat \<times> nat) option \<times> 'k"
  pk_socket :: "'k \<Rightarrow> int \<times> 'k"
  pk_bind :: "int \<Rightarrow> sockaddr_ll \<Rightarrow> 'k \<Rightarrow> int \<times> 'k"
  pk_poll :: "int \<Rightarrow> u32 \<Rightarrow> 'k \<Rightarrow> (int + nat) \<times> 'k"
  pk_read :: "int \<Rightarrow> 'k \<Rightarrow> (int + bytes) \<times> 'k"
  pk_send :: "int \<Rightarrow> frame \<Rightarrow> 'k \<Rightarrow> (int + nat) \<times> 'k"
  pk_packet :: "'k \<Rightarrow> bytes"
  pk_locals :: "'k \<Rightarrow> dhcp_client"

text \<open>A value returned, no result within the fuel, or a memory access out of bounds.\<close>

datatype 'a exec = Returns 'a | OutOfFuel | Fault

definition set_errno :: "int \<Rightarrow> ('k net, unit) state" where
  "set_errno e = State (\<lambda>s. ((), s\<lparr>errno := e\<rparr>))"

lemma run_set_errno [run_simps]: "run_state (set_errno e) s = ((), s\<lparr>errno := e\<rparr>)"
  by (simp add: set_errno_def)

text \<open>\<open>last_good_info\<close> is a global of this file; it is returned with the result.\<close>

definition dhcp_configure :: "'k sys \<Rightarrow> string \<Rightarrow> dhcp_info \<Rightarrow> ('k net, int \<times> dhcp_info) state" where
  "dhcp_configure K ifname info = do {
     let last_good_info = info;
     r \<leftarrow> ifc_configure K ifname (i_ipaddr info) (i_prefixLength info) (i_gateway info)
            (i_dns1 info) (i_dns2 info);
     ret (r, last_good_info)
   }"

fun send_frames :: "'k pkt_sys \<Rightarrow> int \<Rightarrow> frame list \<Rightarrow> ('k net, unit) state" where
  "send_frames P s [] = ret ()"
| "send_frames P s (f # fs) = do { _ \<leftarrow> syscall (pk_send P s f); send_frames P s fs }"

definition next_event :: "'k pkt_sys \<Rightarrow> int \<Rightarrow> u32 \<Rightarrow> ('k net, dhcp_event) state" where
  "next_event P s timeout = do {
     r \<leftarrow> syscall (pk_poll P s timeout);
     case r of Inl e \<Rightarrow> ret (PollError e)
     | Inr n \<Rightarrow> if n = 0 then ret PollTimeout
         else do {
           _ \<leftarrow> set_errno 0;
           packet0 \<leftarrow> world (\<lambda>k. (pk_packet P k, k));
           x \<leftarrow> syscall (pk_read P s);
           ret (Received packet0 x)
         }
   }"

definition dhcp_finish ::
  "'k sys \<Rightarrow> string \<Rightarrow> int \<Rightarrow> dhcp_info \<Rightarrow> dhcp_info \<Rightarrow> dhcp_end \<Rightarrow> ('k net, int \<times> dhcp_info) state" where
  "dhcp_finish K ifname s lgi info e = (case e of
     Offered \<Rightarrow> dhcp_configure K ifname info
   | Acked \<Rightarrow> do { _ \<leftarrow> close_fd K s; dhcp_configure K ifname info }
   | Denied \<Rightarrow> do { _ \<leftarrow> close_fd K s; ret (-1, lgi) }
   | TimedOut \<Rightarrow> do { _ \<leftarrow> set_errno ETIME; _ \<leftarrow> close_fd K s; ret (-1, lgi) }
   | Broken \<Rightarrow> ret (-1, lgi))"

fun dhcp_poll_loop :: "'k sys \<Rightarrow> 'k pkt_sys \<Rightarrow> string \<Rightarrow> bytes \<Rightarrow> int \<Rightarrow> int \<Rightarrow> dhcp_info \<Rightarrow> nat \<Rightarrow>
    dhcp_client \<Rightarrow> ('k net, (int \<times> dhcp_info) exec) state" where
  "dhcp_poll_loop K P ifname hwaddr if_index s lgi 0 c = ret OutOfFuel"
| "dhcp_poll_loop K P ifname hwaddr if_index s lgi (Suc fuel) c = do {
     ev \<leftarrow> next_event P s (cl_timeout c);
     case dhcp_step hwaddr if_index c ev of None \<Rightarrow> ret Fault
     | Some (fs, c, e) \<Rightarrow> do {
         _ \<leftarrow> send_frames P s fs;
         case e of None \<Rightarrow> dhcp_poll_loop K P ifname hwaddr if_index s lgi fuel c
         | Some e \<Rightarrow> do { r \<leftarrow> dhcp_finish K ifname s lgi (cl_info c) e; ret (Returns r) }
       }
   }"

definition dhcp_init_ifc ::
  "'k sys \<Rightarrow> 'k pkt_sys \<Rightarrow> dhcp_info \<Rightarrow> nat \<Rightarrow> string \<Rightarrow> ('k net, (int \<times> dhcp_info) exec) state" where
  "dhcp_init_ifc K P lgi fuel ifname = do {
     ts \<leftarrow> world (pk_clock P);
     let xid = (ucast (get_msecs ts) :: u32);
     h \<leftarrow> ifc_get_hwaddr K ifname;
     case h of None \<Rightarrow> ret (Returns (-1, lgi))
     | Some hwaddr \<Rightarrow> do {
         i \<leftarrow> ifc_get_ifindex K ifname;
         case i of None \<Rightarrow> ret (Returns (-1, lgi))
         | Some if_index \<Rightarrow> do {
             s \<leftarrow> world (open_raw_socket (pk_socket P) (pk_bind P) hwaddr if_index);
             junk \<leftarrow> world (\<lambda>k. (pk_locals P k, k));
             case dhcp_start hwaddr if_index xid junk of None \<Rightarrow> ret Fault
             | Some (fs, c) \<Rightarrow> do {
                 _ \<leftarrow> send_frames P s fs;
                 dhcp_poll_loop K P ifname hwaddr if_index s lgi fuel c
               }
           }
       }
   }"

definition do_dhcp ::
  "'k sys \<Rightarrow> 'k pkt_sys \<Rightarrow> dhcp_info \<Rightarrow> nat \<Rightarrow> string \<Rightarrow> ('k net, (int \<times> dhcp_info) exec) state" where
  "do_dhcp K P lgi fuel iname = do {
     r \<leftarrow> ifc_set_addr K iname 0;
     if r \<noteq> 0 then ret (Returns (-1, lgi))
     else do {
       r \<leftarrow> ifc_up K iname;
       if r \<noteq> 0 then ret (Returns (-1, lgi))
       else dhcp_init_ifc K P lgi fuel iname
     }
   }"

section \<open>What is sent\<close>

lemma replicate_update_same [simp]: "(replicate n x)[i := x] = replicate n x"
  by (cases "i < n") (simp_all add: list_update_beyond list_update_same_conv)

lemma dumped_total:
  "wf_dhcp msg \<Longrightarrow> n \<le> 1260 \<Longrightarrow> n < 236 \<or> m_hlen msg \<noteq> 0 \<or> 0 \<in> set (stack_buf c) \<Longrightarrow>
   \<exists>m. dumped (stack_buf c) msg n = Some m"
  using dump_none_iff [of msg n "stack_buf c"] by (auto simp: dumped_def)

lemma dumped_message:
  assumes "dumped buf msg n = Some m" and "wf_dhcp msg"
  shows "wf_dhcp m" "m_options m = m_options msg" "m_yiaddr m = m_yiaddr msg"
    "is_valid_reply req m k = is_valid_reply req msg k"
  using assms dump_message by (auto simp: dumped_def)

lemma dumped_base_msg:
  assumes "length opts = 1024" and "n \<le> 1260"
  shows "dumped (stack_buf c) (base_msg hwaddr xid opts) n = Some (base_msg hwaddr xid opts)"
proof -
  let ?m = "base_msg hwaddr xid opts"
  have w: "wf_dhcp ?m" by (rule wf_base_msg [OF assms(1)])
  have z: "m_sname ?m = replicate 64 0" "m_file ?m = replicate 128 0" "m_hlen ?m \<noteq> 0"
    by (simp_all add: base_msg_def zero_dhcp_msg_def)
  have same: "m = ?m" if "dump_dhcp_msg (stack_buf c) ?m n = Some (ls, m)" for ls m
  proof -
    have "?m\<lparr>m_sname := (replicate 64 0)[63 := 0], m_file := (replicate 128 0)[127 := 0]\<rparr> = ?m"
      by (simp add: base_msg_def zero_dhcp_msg_def)
    then show ?thesis
      using dump_result [OF that w] by (auto simp: z sanitise_zeros)
  qed
  then show ?thesis
    using dumped_total [OF w assms(2), of c] z(3) by (auto simp: dumped_def)
qed

definition discover_msg :: "bytes \<Rightarrow> u32 \<Rightarrow> dhcp_msg" where
  "discover_msg hwaddr xid = base_msg hwaddr xid (discover_options @ replicate 1010 0)"

definition request_msg :: "bytes \<Rightarrow> u32 \<Rightarrow> u32 \<Rightarrow> u32 \<Rightarrow> dhcp_msg" where
  "request_msg hwaddr xid ip srv = base_msg hwaddr xid (request_options ip srv @ replicate 998 0)"

definition client_frame :: "int \<Rightarrow> dhcp_msg \<Rightarrow> nat \<Rightarrow> frame" where
  "client_frame if_index msg sz = send_packet if_index (dhcp_bytes msg) sz 0 0xffffffff 68 67"

lemma wf_own_msgs: "wf_dhcp (discover_msg hwaddr xid)" "wf_dhcp (request_msg hwaddr xid ip srv)"
  by (simp_all add: discover_msg_def request_msg_def wf_base_msg length_discover_options length_request_options)

lemma own_msg_fields:
  "m_xid (discover_msg hwaddr xid) = xid" "m_xid (request_msg hwaddr xid ip srv) = xid"
  "m_htype (discover_msg hwaddr xid) = 1" "m_htype (request_msg hwaddr xid ip srv) = 1"
  "m_hlen (discover_msg hwaddr xid) = 6" "m_hlen (request_msg hwaddr xid ip srv) = 6"
  "m_chaddr (request_msg hwaddr xid ip srv) = m_chaddr (discover_msg hwaddr xid)"
  by (simp_all add: discover_msg_def request_msg_def base_msg_def zero_dhcp_msg_def)

lemma send_own:
  assumes "length opts = 1024" and "sz \<le> 1260"
  shows "send_message (stack_buf c) if_index (base_msg hwaddr xid opts) sz =
    Some (client_frame if_index (base_msg hwaddr xid opts) sz, base_msg hwaddr xid opts)"
  using dumped_base_msg [OF assms(1), of "int sz" c hwaddr xid] assms(2) length_dhcp_bytes [OF wf_base_msg [OF assms(1)]]
  by (simp add: send_message_def client_frame_def INADDR_ANY_def INADDR_BROADCAST_def op_consts)

lemma transmit_selecting:
  "cl_state c = STATE_SELECTING \<Longrightarrow> 6 \<le> length hwaddr \<Longrightarrow> transmit hwaddr if_index c =
     Some ([client_frame if_index (discover_msg hwaddr (cl_xid c)) 250],
           (next_stack c)\<lparr>cl_discover := discover_msg hwaddr (cl_xid c)\<rparr>)"
  by (simp add: transmit_def discover_msg_eq send_own discover_msg_def length_discover_options)

lemma transmit_requesting:
  "cl_state c = STATE_REQUESTING \<Longrightarrow> 6 \<le> length hwaddr \<Longrightarrow> transmit hwaddr if_index c =
     Some ([client_frame if_index (request_msg hwaddr (cl_xid c) (i_ipaddr (cl_info c)) (i_serveraddr (cl_info c))) 262],
           (next_stack c)\<lparr>cl_request := request_msg hwaddr (cl_xid c) (i_ipaddr (cl_info c)) (i_serveraddr (cl_info c))\<rparr>)"
  by (simp add: transmit_def request_msg_eq send_own request_msg_def length_request_options client_consts)

text \<open>An interface whose hardware address has less than six bytes: the first message faults.\<close>

lemma transmit_short:
  "cl_state c = STATE_SELECTING \<Longrightarrow> length hwaddr < 6 \<Longrightarrow> transmit hwaddr if_index c = None"
  by (simp add: transmit_def init_dhcp_discover_msg_def init_dhcp_msg_short)

lemma transmit_on_states:
  "cl_state c = STATE_SELECTING \<Longrightarrow> 6 \<le> length hwaddr \<Longrightarrow> transmit_on hwaddr if_index c =
     Some ([client_frame if_index (discover_msg hwaddr (cl_xid c)) 250],
           (next_stack c)\<lparr>cl_discover := discover_msg hwaddr (cl_xid c)\<rparr>, None)"
  "cl_state c = STATE_REQUESTING \<Longrightarrow> 6 \<le> length hwaddr \<Longrightarrow> transmit_on hwaddr if_index c =
     Some ([client_frame if_index (request_msg hwaddr (cl_xid c) (i_ipaddr (cl_info c)) (i_serveraddr (cl_info c))) 262],
           (next_stack c)\<lparr>cl_request := request_msg hwaddr (cl_xid c) (i_ipaddr (cl_info c)) (i_serveraddr (cl_info c))\<rparr>, None)"
  by (simp_all add: transmit_on_def transmit_selecting transmit_requesting)

section \<open>The invariant of the state machine\<close>

definition timeouts :: "u32 list" where
  "timeouts = [4000, 8000, 16000, 32000]"

definition client_inv :: "bytes \<Rightarrow> dhcp_client \<Rightarrow> bool" where
  "client_inv hwaddr c \<longleftrightarrow> 6 \<le> length hwaddr \<and> cl_timeout c \<in> set timeouts \<and> wf_dhcp (cl_reply c) \<and>
     (cl_state c = STATE_SELECTING \<and> cl_discover c = discover_msg hwaddr (cl_xid c) \<or>
      cl_state c = STATE_REQUESTING \<and>
        (\<exists>ip srv. cl_request c = request_msg hwaddr (cl_xid c) ip srv))"

definition event_ok :: "dhcp_event \<Rightarrow> bool" where
  "event_ok ev = (case ev of Received packet0 _ \<Rightarrow> length packet0 = 1288 | _ \<Rightarrow> True)"

inductive dhcp_reach :: "bytes \<Rightarrow> int \<Rightarrow> dhcp_client \<Rightarrow> bool" for hwaddr if_index where
  reach_start: "dhcp_start hwaddr if_index xid junk = Some (fs, c) \<Longrightarrow> wf_dhcp (cl_reply junk) \<Longrightarrow>
    dhcp_reach hwaddr if_index c"
| reach_step: "dhcp_reach hwaddr if_index c \<Longrightarrow> event_ok ev \<Longrightarrow>
    dhcp_step hwaddr if_index c ev = Some (fs, c', None) \<Longrightarrow> dhcp_reach hwaddr if_index c'"

lemma start_inv:
  assumes "dhcp_start hwaddr if_index xid junk = Some (fs, c)" and "wf_dhcp (cl_reply junk)"
  shows "client_inv hwaddr c" "cl_state c = STATE_SELECTING" "cl_timeout c = TIMEOUT_INITIAL"
    "cl_xid c = xid" "i_type (cl_info c) = 0"
    "fs = [client_frame if_index (discover_msg hwaddr xid) 250]"
proof -
  have "6 \<le> length hwaddr"
    using assms(1) transmit_short [of "start_client xid junk" hwaddr if_index]
    by (cases "length hwaddr < 6") (auto simp: dhcp_start_def start_client_def)
  then show "client_inv hwaddr c" "cl_state c = STATE_SELECTING" "cl_timeout c = TIMEOUT_INITIAL"
    "cl_xid c = xid" "i_type (cl_info c) = 0"
    "fs = [client_frame if_index (discover_msg hwaddr xid) 250]"
    using assms by (auto simp: dhcp_start_def start_client_def transmit_selecting client_inv_def timeouts_def
        client_consts)
qed

lemma inv_hwaddr: "client_inv hwaddr c \<Longrightarrow> 6 \<le> length hwaddr"
  by (simp add: client_inv_def)

text \<open>The message sent last, which replies are compared with.\<close>

definition outstanding :: "dhcp_client \<Rightarrow> dhcp_msg" where
  "outstanding c = (if cl_state c = STATE_SELECTING then cl_discover c else cl_request c)"

lemma outstanding_inv:
  "client_inv hwaddr c \<Longrightarrow> wf_dhcp (outstanding c) \<and> m_xid (outstanding c) = cl_xid c \<and> m_hlen (outstanding c) = 6"
  by (auto simp: client_inv_def client_consts outstanding_def wf_own_msgs own_msg_fields)

lemma outstanding_update [simp]:
  "outstanding ((next_stack c)\<lparr>cl_reply := m, cl_info := i\<rparr>) = outstanding c"
  by (simp add: outstanding_def)

lemma valid_reply_some:
  assumes "client_inv hwaddr c" and "wf_dhcp m"
  obtains v where "is_valid_reply (outstanding c) m r = Some v"
proof -
  have "is_valid_reply (outstanding c) m r \<noteq> None"
    unfolding is_valid_reply_def
    by (intro total_intros) (use outstanding_inv [OF assms(1)] assms(2) in \<open>auto simp: rd_n_def wf_dhcp_def\<close>)
  then show thesis using that by blast
qed

text \<open>Every way one iteration can go.\<close>

lemma dhcp_step_cases:
  assumes inv: "client_inv hwaddr c" and ev: "event_ok ev"
    and st: "dhcp_step hwaddr if_index c ev = Some (fs, c', e)"
  obtains (timeout) "ev = PollTimeout" "cl_timeout c < TIMEOUT_MAX" "e = None"
      "transmit_on hwaddr if_index (c\<lparr>cl_timeout := cl_timeout c * 2\<rparr>) = Some (fs, c', None)"
  | (expired) "ev = PollTimeout" "\<not> cl_timeout c < TIMEOUT_MAX" "fs = []" "c' = c"
      "e = Some (if i_type (cl_info c) = word_of_int DHCPOFFER then Offered else TimedOut)"
  | (idle) "fs = []" "c' = c" "ev \<noteq> PollTimeout" "e = None \<or> e = Some Broken"
  | (reply) packet0 input r m info m' where "ev = Received packet0 input"
      "receive_packet packet0 input (cl_reply c) = RecvOk r m"
      "wf_dhcp m" "0 \<le> r" "r \<le> 1260" "wf_dhcp m'"
      "map_option snd (decode_dhcp_msg m r) = Some info"
      "if is_valid_reply (outstanding c) m r = Some True
       then accept_reply hwaddr if_index ((next_stack c)\<lparr>cl_reply := m', cl_info := info\<rparr>) = Some (fs, c', e)
       else fs = [] \<and> e = None \<and> c' = (next_stack c)\<lparr>cl_reply := m', cl_info := info\<rparr>"
proof (cases ev)
  case PollTimeout
  show thesis
  proof (cases "cl_timeout c < TIMEOUT_MAX")
    case True
    then have "\<not> TIMEOUT_MAX \<le> cl_timeout c" by simp
    then have t: "transmit_on hwaddr if_index (c\<lparr>cl_timeout := cl_timeout c * 2\<rparr>) = Some (fs, c', e)"
      using st PollTimeout by (simp add: dhcp_step_def)
    then have "e = None" by (auto simp: transmit_on_def split: bind_splits prod.splits)
    then show thesis using timeout [OF PollTimeout True] t by simp
  next
    case False
    then have "TIMEOUT_MAX \<le> cl_timeout c" by simp
    then have "fs = []" "c' = c"
      "e = Some (if i_type (cl_info c) = word_of_int DHCPOFFER then Offered else TimedOut)"
      using st PollTimeout by (auto simp: dhcp_step_def)
    then show thesis by (rule expired [OF PollTimeout False])
  qed
next
  case (PollError x)
  then show thesis using st idle by (auto simp: dhcp_step_def split: if_splits)
next
  case (Received packet0 input)
  show thesis
  proof (cases "receive_packet packet0 input (cl_reply c)")
    case (RecvErr x)
    then show thesis using st idle Received by (auto simp: dhcp_step_def split: if_splits)
  next
    case (RecvOk r m)
    have b: "0 \<le> r" "r \<le> 1260" "wf_dhcp m"
      using receive_bounds [OF RecvOk] inv ev Received by (auto simp: client_inv_def event_ok_def)
    obtain m' where m': "dumped (stack_buf c) m r = Some m'"
      using st Received RecvOk by (auto simp: dhcp_step_def bind_eq_Some_conv)
    note dm = dumped_message [OF m' b(3)]
    obtain q where q: "decode_dhcp_msg m' r = Some q" using decode_total [OF dm(1) b(2)] by auto
    have q': "decode_dhcp_msg m r = Some q"
      using q unfolding decode_dhcp_msg_def dm(2,3) .
    obtain v where v: "is_valid_reply (outstanding c) m r = Some v" by (rule valid_reply_some [OF inv b(3)])
    have "if is_valid_reply (outstanding c) m r = Some True
       then accept_reply hwaddr if_index ((next_stack c)\<lparr>cl_reply := m', cl_info := snd q\<rparr>) = Some (fs, c', e)
       else fs = [] \<and> e = None \<and> c' = (next_stack c)\<lparr>cl_reply := m', cl_info := snd q\<rparr>"
      using st m' q dm(1,4) Received RecvOk v
      by (cases q) (auto simp: dhcp_step_def Let_def outstanding_def split: if_splits)
    then show thesis using reply [OF Received RecvOk b(3,1,2) dm(1), of "snd q"] q' by simp
  next
    case RecvFault
    then show thesis using st Received by (simp add: dhcp_step_def)
  qed
qed

lemma accept_reply_cases:
  assumes "accept_reply hwaddr if_index c = Some (fs, c', e)" and "6 \<le> length hwaddr"
  obtains (offer) "cl_state c = STATE_SELECTING" "i_type (cl_info c) = word_of_int DHCPOFFER" "e = None"
      "fs = [client_frame if_index (request_msg hwaddr (cl_xid c + 1) (i_ipaddr (cl_info c)) (i_serveraddr (cl_info c))) 262]"
      "c' = (next_stack (c\<lparr>cl_state := STATE_REQUESTING, cl_timeout := TIMEOUT_INITIAL, cl_xid := cl_xid c + 1\<rparr>))
        \<lparr>cl_request := request_msg hwaddr (cl_xid c + 1) (i_ipaddr (cl_info c)) (i_serveraddr (cl_info c))\<rparr>"
  | (ack) "cl_state c = STATE_REQUESTING" "i_type (cl_info c) = word_of_int DHCPACK"
      "fs = []" "c' = c" "e = Some Acked"
  | (nak) "cl_state c = STATE_REQUESTING" "i_type (cl_info c) = word_of_int DHCPNAK"
      "fs = []" "c' = c" "e = Some Denied"
  | (ignored) "fs = []" "c' = c" "e = None"
proof -
  let ?sel = "cl_state c = STATE_SELECTING" and ?t = "i_type (cl_info c)"
  have dist: "STATE_SELECTING \<noteq> STATE_REQUESTING" by (simp add: client_consts)
  note st = assms(1) [unfolded accept_reply_def]
  consider "?sel" "?t = word_of_int DHCPOFFER" | "?sel" "?t \<noteq> word_of_int DHCPOFFER"
    | "\<not> ?sel" "cl_state c = STATE_REQUESTING" "?t = word_of_int DHCPACK"
    | "\<not> ?sel" "cl_state c = STATE_REQUESTING" "?t \<noteq> word_of_int DHCPACK" "?t = word_of_int DHCPNAK"
    | "\<not> ?sel" "cl_state c = STATE_REQUESTING" "?t \<noteq> word_of_int DHCPACK" "?t \<noteq> word_of_int DHCPNAK"
    | "\<not> ?sel" "cl_state c \<noteq> STATE_REQUESTING" by blast
  then show thesis
  proof cases
    case 1
    show thesis by (rule offer [OF 1]) (use st 1 assms(2) in \<open>simp_all add: transmit_on_states\<close>)
  next
    case 3
    show thesis by (rule ack [OF 3(2,3)]) (use st 3 in auto)
  next
    case 4
    show thesis by (rule nak [OF 4(2,4)]) (use st 4 in auto)
  qed (rule ignored; use st in auto)+
qed

lemma timeout_double:
  assumes "t \<in> set timeouts" and "t < TIMEOUT_MAX"
  shows "t * 2 \<in> set timeouts"
  using assms by (auto simp: timeouts_def TIMEOUT_MAX_def)

lemma step_inv:
  assumes inv: "client_inv hwaddr c" and "event_ok ev"
    and "dhcp_step hwaddr if_index c ev = Some (fs, c', e)"
  shows "client_inv hwaddr c'"
  using assms
proof (cases rule: dhcp_step_cases)
  case timeout
  then have "cl_timeout c * 2 \<in> set timeouts" using inv by (auto simp: client_inv_def timeout_double)
  then show ?thesis using inv timeout(4)
    by (auto simp: client_inv_def transmit_on_states) blast+
next
  case (reply packet0 input r m info m')
  show ?thesis
  proof (cases "is_valid_reply (outstanding c) m r = Some True")
    case True
    then have "accept_reply hwaddr if_index ((next_stack c)\<lparr>cl_reply := m', cl_info := info\<rparr>) = Some (fs, c', e)"
      using reply(8) by simp
    then show ?thesis
      using inv_hwaddr [OF inv] inv reply(6) by (cases rule: accept_reply_cases) (auto simp: client_inv_def timeouts_def client_consts)
  next
    case False
    then show ?thesis using reply(6,8) inv by (auto simp: client_inv_def)
  qed
qed (use inv in auto)

lemma reach_inv: "dhcp_reach hwaddr if_index c \<Longrightarrow> client_inv hwaddr c"
  by (induction rule: dhcp_reach.induct) (auto intro: start_inv step_inv)

section \<open>Termination of the exchange\<close>

text \<open>
  How many timeouts the client can still take: the doublings left in this state, and the four
  timeouts of the state \<open>REQUESTING\<close> when it is still selecting.
\<close>

definition patience :: "dhcp_client \<Rightarrow> nat" where
  "patience c =
     (if cl_state c = STATE_SELECTING then 3 else 0) +
     (if cl_timeout c = 4000 then 3 else if cl_timeout c = 8000 then 2 else if cl_timeout c = 16000 then 1 else 0)"

lemma patience_step:
  assumes inv: "client_inv hwaddr c" and "event_ok ev"
    and "dhcp_step hwaddr if_index c ev = Some (fs, c', None)"
  shows "if ev = PollTimeout then Suc (patience c') = patience c else patience c' \<le> patience c"
  using assms
proof (cases rule: dhcp_step_cases)
  case timeout
  then show ?thesis using inv
    by (auto simp: client_inv_def transmit_on_states patience_def timeouts_def client_consts)
next
  case (reply packet0 input r m info m')
  show ?thesis
  proof (cases "is_valid_reply (outstanding c) m r = Some True")
    case True
    then have "accept_reply hwaddr if_index ((next_stack c)\<lparr>cl_reply := m', cl_info := info\<rparr>) = Some (fs, c', None)"
      using reply(8) by simp
    then show ?thesis
      using inv_hwaddr [OF inv] inv reply(1) by (cases rule: accept_reply_cases) (auto simp: patience_def client_consts)
  next
    case False
    then show ?thesis using reply(1,8) by (simp add: patience_def)
  qed
qed (use inv in auto)

lemma run_patience:
  assumes "client_inv hwaddr c" and "\<forall>ev \<in> set evs. event_ok ev"
    and "dhcp_run hwaddr if_index c evs = Some (fs, c', None)"
  shows "count_list evs PollTimeout \<le> patience c"
  using assms
proof (induction evs arbitrary: c fs c')
  case (Cons ev evs)
  obtain gs d e where s: "dhcp_step hwaddr if_index c ev = Some (gs, d, e)"
    using Cons.prems(3) by (auto split: bind_splits)
  then have e: "e = None" using Cons.prems(3) by (cases e) auto
  then obtain hs where r: "dhcp_run hwaddr if_index d evs = Some (hs, c', None)"
    using Cons.prems(3) s by (auto split: bind_splits)
  have "client_inv hwaddr d" using step_inv [OF Cons.prems(1) _ s] Cons.prems(2) by simp
  then have "count_list evs PollTimeout \<le> patience d"
    using Cons.IH [OF _ _ r] Cons.prems(2) by simp
  then show ?case
    using patience_step [OF Cons.prems(1) _ s [unfolded e]] Cons.prems(2) by (auto split: if_splits)
qed simp

section \<open>A reply of a server\<close>

lemma overlay:
  assumes m: "wf_dhcp m" and old: "wf_dhcp old" and n: "236 \<le> n" "n \<le> 1260"
  shows "dhcp_of_bytes (memcpy_at (dhcp_bytes old) 0 (take n (dhcp_bytes m))) =
     m\<lparr>m_options := take (n - 236) (m_options m) @ drop (n - 236) (m_options old)\<rparr>" (is "_ = ?m")
proof -
  have split: "\<exists>h. length h = 236 \<and> (\<forall>opts. dhcp_bytes (x\<lparr>m_options := opts\<rparr>) = h @ opts)"
    if "wf_dhcp x" for x
    using that by (intro exI [of _ "take 236 (dhcp_bytes x)"]) (simp add: dhcp_bytes_def wf_dhcp_def)
  obtain h where h: "length h = 236" "\<And>opts. dhcp_bytes (m\<lparr>m_options := opts\<rparr>) = h @ opts"
    using split [OF m] by auto
  obtain g where g: "length g = 236" "\<And>opts. dhcp_bytes (old\<lparr>m_options := opts\<rparr>) = g @ opts"
    using split [OF old] by auto
  have "dhcp_bytes m = h @ m_options m" "dhcp_bytes old = g @ m_options old"
    using h(2) [of "m_options m"] g(2) [of "m_options old"] by simp_all
  then have "memcpy_at (dhcp_bytes old) 0 (take n (dhcp_bytes m)) = dhcp_bytes ?m"
    using m n h g by (simp add: memcpy_at_def wf_dhcp_def)
  moreover have "wf_dhcp ?m" using m old n by (simp add: wf_dhcp_def)
  ultimately show ?thesis by (simp add: dm.dec_enc)
qed

definition server_datagram :: "int \<Rightarrow> u32 \<Rightarrow> u32 \<Rightarrow> dhcp_msg \<Rightarrow> nat \<Rightarrow> bytes" where
  "server_datagram if_index saddr daddr m n =
     frame_bytes (send_packet if_index (dhcp_bytes m) n saddr daddr 67 68)"

definition lease_msg :: "dhcp_msg \<Rightarrow> u32 \<Rightarrow> (u8 \<times> bytes) list \<Rightarrow> dhcp_msg" where
  "lease_msg req yiaddr items = req\<lparr>m_op := OP_BOOTREPLY, m_yiaddr := yiaddr,
     m_options := cookie @ enc_items items @ OPT_END # replicate (1019 - length (enc_items items)) 0\<rparr>"

text \<open>What ties a reply to a message of the client, apart from its length and its \<open>op\<close>.\<close>

definition same_exchange :: "dhcp_msg \<Rightarrow> dhcp_msg \<Rightarrow> bool" where
  "same_exchange msg reply \<longleftrightarrow> m_xid reply = m_xid msg \<and> m_htype reply = m_htype msg \<and>
     m_hlen reply = m_hlen msg \<and>
     take (unat (m_hlen msg)) (m_chaddr reply) = take (unat (m_hlen msg)) (m_chaddr msg)"

lemma step_lease:
  assumes inv: "client_inv hwaddr c" and wreq: "wf_dhcp req"
    and items: "\<forall>i \<in> set items. wf_item i"
    and n: "241 + length (enc_items items) \<le> n" "n \<le> 1260"
    and p: "length packet0 = 1288"
    and hl: "m_hlen req \<noteq> 0"
  shows "\<exists>m'. wf_dhcp m' \<and> dhcp_step hwaddr if_index c
       (Received packet0 (Inr (server_datagram if_index sa da (lease_msg req yiaddr items) n))) =
     (let d = (next_stack c)\<lparr>cl_reply := m', cl_info := (foldl apply_item zero_info items)\<lparr>i_ipaddr := yiaddr\<rparr>\<rparr>
      in if same_exchange (outstanding c) req then accept_reply hwaddr if_index d else Some ([], d, None))"
proof -
  let ?l = "lease_msg req yiaddr items" and ?info = "(foldl apply_item zero_info items)\<lparr>i_ipaddr := yiaddr\<rparr>"
  define k where "k = n - (241 + length (enc_items items))"
  have nk: "n = 241 + length (enc_items items) + k" using n(1) by (simp add: k_def)
  have wl: "wf_dhcp ?l" using n wreq by (simp add: lease_msg_def wf_dhcp_def cookie_def)
  have wr: "wf_dhcp (cl_reply c)" using inv by (simp add: client_inv_def)
  define m where "m = ?l\<lparr>m_options := take (n - 236) (m_options ?l) @ drop (n - 236) (m_options (cl_reply c))\<rparr>"
  have wm: "wf_dhcp m" using wl wr n by (simp add: m_def wf_dhcp_def)
  have opts: "m_options m = cookie @ enc_items items @ OPT_END #
      (take k (replicate (1019 - length (enc_items items)) 0) @ drop (n - 236) (m_options (cl_reply c)))"
    unfolding m_def lease_msg_def nk by (simp add: cookie_def take_Cons')
  have rec: "receive_packet packet0 (Inr (server_datagram if_index sa da ?l n)) (cl_reply c) =
      RecvOk (int n) m"
    unfolding server_datagram_def m_def
    using overlay [OF wl wr _ n(2)] n receive_sent [of "dhcp_bytes ?l" n packet0 68 if_index sa da 67 "cl_reply c"] p wl
    by (simp add: dm.enc_length PORT_BOOTP_CLIENT_def)
  have "m_hlen m = m_hlen req" by (simp add: m_def lease_msg_def)
  then obtain m' where m': "dumped (stack_buf c) m (int n) = Some m'"
    using dumped_total [OF wm, of "int n" c] n hl by auto
  note dm = dumped_message [OF m' wm]
  have dec: "decode_dhcp_msg m' (int n) = Some (0, ?info)"
    using decode_encoded [OF dm(1) trans [OF dm(2) opts] items nk n(2)] dm(3)
    by (simp add: m_def lease_msg_def)
  have val: "is_valid_reply x m' (int n) = Some (same_exchange x req)" if "m_hlen x = 6" "wf_dhcp x" for x
    unfolding dm(4) using n that wreq
    by (auto simp: is_valid_reply_def rd_n_def wf_dhcp_def m_def lease_msg_def DHCP_MSG_FIXED_SIZE_def same_exchange_def)
  have valid:
    "cl_state c = STATE_SELECTING \<Longrightarrow> is_valid_reply (cl_discover c) m' (int n) = Some (same_exchange (outstanding c) req)"
    "cl_state c \<noteq> STATE_SELECTING \<Longrightarrow> is_valid_reply (cl_request c) m' (int n) = Some (same_exchange (outstanding c) req)"
    using val outstanding_inv [OF inv] by (simp_all add: outstanding_def)
  have "dhcp_step hwaddr if_index c
      (Received packet0 (Inr (server_datagram if_index sa da ?l n))) =
     (let d = (next_stack c)\<lparr>cl_reply := m', cl_info := ?info\<rparr>
      in if same_exchange (outstanding c) req then accept_reply hwaddr if_index d else Some ([], d, None))"
    by (simp add: dhcp_step_def rec m' dec valid Let_def)
  then show ?thesis using dm(1) by blast
qed

text \<open>A frame with no DHCP message in it: the reply of the packet before is kept.\<close>

lemma step_empty:
  assumes inv: "client_inv hwaddr c" and "length msg = 1260" and "length packet0 = 1288"
  shows "\<exists>m'. wf_dhcp m' \<and> dhcp_step hwaddr if_index c
      (Received packet0 (Inr (frame_bytes (send_packet if_index msg 0 sa da 67 68)))) =
    Some ([], (next_stack c)\<lparr>cl_reply := m', cl_info := zero_info\<rparr>, None)"
proof -
  have wr: "wf_dhcp (cl_reply c)" using inv by (simp add: client_inv_def)
  have rec: "receive_packet packet0 (Inr (frame_bytes (send_packet if_index msg 0 sa da 67 68))) (cl_reply c) =
      RecvOk 0 (cl_reply c)"
    using receive_sent [of msg 0 packet0 68] assms(2,3) wr
    by (simp add: PORT_BOOTP_CLIENT_def memcpy_at_def dm.dec_enc)
  obtain m' where m': "dumped (stack_buf c) (cl_reply c) 0 = Some m'" using dumped_total [OF wr, of 0] by auto
  have "is_valid_reply x m' 0 = Some False" for x by (simp add: is_valid_reply_def DHCP_MSG_FIXED_SIZE_def)
  then show ?thesis
    using dumped_message(1) [OF m' wr]
    by (intro exI [of _ m']) (simp add: dhcp_step_def rec m' decode_dhcp_msg_short Let_def)
qed

section \<open>Memory safety\<close>

text \<open>
  A datagram that cannot run an array over: \<open>receive_packet\<close> takes it, and when it is long enough
  to be logged it has a hardware address, so that \<open>buf\<close> is written before it is printed.
\<close>

definition event_safe :: "dhcp_event \<Rightarrow> bool" where
  "event_safe ev = (case ev of
     Received packet0 input \<Rightarrow> length packet0 = 1288 \<and>
       (case receive_packet packet0 input zero_dhcp_msg of
          RecvFault \<Rightarrow> False | RecvErr _ \<Rightarrow> True | RecvOk r m \<Rightarrow> 236 \<le> r \<longrightarrow> m_hlen m \<noteq> 0)
   | _ \<Rightarrow> True)"

text \<open>Whether \<open>receive_packet\<close> faults does not depend on the message it writes to.\<close>

lemma fault_any_reply:
  "receive_packet packet0 input m = RecvFault \<longleftrightarrow> receive_packet packet0 input m' = RecvFault"
  by (simp add: receive_packet_def Let_def split: sum.split prod.split)

lemma wf_zero_dhcp_msg: "wf_dhcp zero_dhcp_msg"
  by (simp add: wf_dhcp_def zero_dhcp_msg_def)

lemma safe_hlen:
  assumes "event_safe (Received packet0 input)" and "receive_packet packet0 input old = RecvOk r m"
    and "wf_dhcp old" and "236 \<le> r"
  shows "m_hlen m \<noteq> 0"
proof (cases "receive_packet packet0 input zero_dhcp_msg")
  case (RecvOk r' m')
  then show ?thesis
    using receive_hlen [OF assms(2) RecvOk _ assms(3) wf_zero_dhcp_msg assms(4)] assms(1,4)
    by (auto simp: event_safe_def)
next
  case (RecvErr e)
  then show ?thesis using assms(2) by (auto simp: receive_packet_def Let_def split: sum.splits prod.splits if_splits)
qed (use assms(1) in \<open>simp add: event_safe_def\<close>)

lemma transmit_total:
  "cl_state c = STATE_SELECTING \<or> cl_state c = STATE_REQUESTING \<Longrightarrow> 6 \<le> length hwaddr \<Longrightarrow>
   transmit hwaddr if_index c \<noteq> None"
  by (auto simp: transmit_selecting transmit_requesting)

lemma accept_reply_total: "6 \<le> length hwaddr \<Longrightarrow> accept_reply hwaddr if_index c \<noteq> None"
  unfolding accept_reply_def transmit_on_def by (intro total_intros transmit_total) simp_all

lemma step_received:
  assumes inv: "client_inv hwaddr c" and rec: "receive_packet packet0 input (cl_reply c) = RecvOk r m"
    and p: "length packet0 = 1288"
  shows "dhcp_step hwaddr if_index c (Received packet0 input) = None \<longleftrightarrow>
    236 \<le> r \<and> m_hlen m = 0 \<and> 0 \<notin> set (stack_buf c)"
proof -
  have wr: "wf_dhcp (cl_reply c)" using inv by (simp add: client_inv_def)
  note b = receive_bounds [OF rec p wr]
  note none = dump_none_iff [OF b(3,2) length_stack_buf, of c]
  show ?thesis
  proof (cases "dumped (stack_buf c) m r")
    case None
    then show ?thesis using none rec by (simp add: dumped_def dhcp_step_def)
  next
    case (Some m')
    note dm = dumped_message [OF Some b(3)]
    obtain q where q: "decode_dhcp_msg m' r = Some q" using decode_total [OF dm(1) b(2)] by auto
    obtain v where v: "is_valid_reply (outstanding c) m' r = Some v" by (rule valid_reply_some [OF inv dm(1)])
    have "dhcp_step hwaddr if_index c (Received packet0 input) \<noteq> None"
      using Some q v accept_reply_total [OF inv_hwaddr [OF inv]] rec
      by (cases q) (auto simp: dhcp_step_def Let_def outstanding_def split: if_splits)
    moreover have "dump_dhcp_msg (stack_buf c) m r \<noteq> None" using Some by (auto simp: dumped_def)
    ultimately show ?thesis using none by auto
  qed
qed

lemma step_total:
  assumes inv: "client_inv hwaddr c" and "\<And>packet0 input. ev \<noteq> Received packet0 input"
  shows "dhcp_step hwaddr if_index c ev \<noteq> None"
proof (cases ev)
  case PollTimeout
  have "transmit hwaddr if_index (c\<lparr>cl_timeout := cl_timeout c * 2\<rparr>) \<noteq> None"
    by (rule transmit_total) (use inv in \<open>auto simp: client_inv_def\<close>)
  then show ?thesis using PollTimeout by (auto simp: dhcp_step_def transmit_on_def)
next
  case (PollError e)
  then show ?thesis by (simp add: dhcp_step_def)
qed (use assms(2) in blast)

lemma step_safe:
  assumes inv: "client_inv hwaddr c" and ev: "event_safe ev"
  shows "dhcp_step hwaddr if_index c ev \<noteq> None"
proof (cases ev)
  case (Received packet0 input)
  have p: "length packet0 = 1288" and f: "receive_packet packet0 input (cl_reply c) \<noteq> RecvFault"
    using ev Received fault_any_reply [of packet0 input "cl_reply c" zero_dhcp_msg] by (auto simp: event_safe_def)
  show ?thesis
  proof (cases "receive_packet packet0 input (cl_reply c)")
    case (RecvOk r m)
    then show ?thesis
      using step_received [OF inv RecvOk p] safe_hlen [of packet0 input "cl_reply c" r m] ev Received inv
      by (auto simp: client_inv_def)
  qed (use Received f in \<open>simp_all add: dhcp_step_def\<close>)
qed (use step_total [OF inv] in blast)+

lemma event_safe_ok: "event_safe ev \<Longrightarrow> event_ok ev"
  by (auto simp: event_safe_def event_ok_def split: dhcp_event.splits)

lemma run_total:
  assumes "client_inv hwaddr c" and "\<forall>ev \<in> set evs. event_safe ev"
  shows "\<exists>fs c' e. dhcp_run hwaddr if_index c evs = Some (fs, c', e)"
  using assms
proof (induction evs arbitrary: c)
  case (Cons ev evs)
  have ev: "event_safe ev" "event_ok ev" using Cons.prems(2) event_safe_ok by auto
  then obtain gs d e where s: "dhcp_step hwaddr if_index c ev = Some (gs, d, e)"
    using step_safe [OF Cons.prems(1) ev(1), of if_index] by auto
  have "client_inv hwaddr d" by (rule step_inv [OF Cons.prems(1) ev(2) s])
  then obtain hs c' e' where "dhcp_run hwaddr if_index d evs = Some (hs, c', e')"
    using Cons.IH Cons.prems(2) by fastforce
  then show ?case using s by (cases e) auto
qed simp

section \<open>Properties\<close>

lemma length_lease_items: "length (enc_items (lease_items t server lease p gw dns1 dns2)) = 37"
  by (simp add: lease_items_def enc_items_def enc_item_def)

lemma same_exchange_refl [simp]: "same_exchange m m"
  by (simp add: same_exchange_def)

text \<open>C1. The whole exchange: after the DISCOVER, a server's OFFER makes the client send exactly
  one REQUEST, for the address offered and to the server that offered it, under the next
  transaction id; the server's ACK then ends the exchange, and what the client configures is
  the lease as the server encoded it, field by field.\<close>

theorem dhcp_exchange:
  assumes start: "dhcp_start hwaddr if_index xid junk = Some (fs, c)" "wf_dhcp (cl_reply junk)"
    and p: "length packet1 = 1288" "length packet2 = 1288"
    and n: "278 \<le> n1" "n1 \<le> 1260" "278 \<le> n2" "n2 \<le> 1260"
    and prefix: "0 \<le> prefix" "prefix \<le> 32"
    and offer: "offer = lease_msg (discover_msg hwaddr xid) yiaddr (lease_items 2 server lease prefix gw dns1 dns2)"
    and ack: "ack = lease_msg (request_msg hwaddr (xid + 1) yiaddr server) yiaddr
                (lease_items 5 server lease prefix gw dns1 dns2)"
  shows "\<exists>c'. dhcp_run hwaddr if_index c
      [Received packet1 (Inr (server_datagram if_index sa da offer n1)),
       Received packet2 (Inr (server_datagram if_index sa da ack n2))] =
      Some ([client_frame if_index (request_msg hwaddr (xid + 1) yiaddr server) 262], c', Some Acked) \<and>
    cl_info c' = \<lparr>i_type = 5, i_ipaddr = yiaddr, i_gateway = gw, i_prefixLength = word_of_int prefix,
      i_dns1 = dns1, i_dns2 = dns2, i_serveraddr = server, i_lease = lease\<rparr>"
proof -
  note c = start_inv [OF start]
  note wf = lease_items_wf [of _ server lease prefix gw dns1 dns2]
  note app = apply_lease_items [OF prefix, of _ server lease gw dns1 dns2]
  have disc: "cl_discover c = discover_msg hwaddr xid"
    using c(1,2,4) by (auto simp: client_inv_def client_consts)
  obtain m1 where m1: "wf_dhcp m1" and s1: "dhcp_step hwaddr if_index c
      (Received packet1 (Inr (server_datagram if_index sa da offer n1))) =
     accept_reply hwaddr if_index ((next_stack c)\<lparr>cl_reply := m1,
       cl_info := (foldl apply_item zero_info (lease_items 2 server lease prefix gw dns1 dns2))\<lparr>i_ipaddr := yiaddr\<rparr>\<rparr>)"
    using step_lease [OF c(1) wf_own_msgs(1) [of hwaddr xid] wf [of 2] _ n(2) p(1),
        where if_index = if_index and sa = sa and da = da and yiaddr = yiaddr] n(1)
    by (auto simp: length_lease_items offer Let_def outstanding_def c(2) disc own_msg_fields)
  define d where "d = (next_stack ((next_stack c)\<lparr>cl_reply := m1,
       cl_info := (foldl apply_item zero_info (lease_items 2 server lease prefix gw dns1 dns2))\<lparr>i_ipaddr := yiaddr\<rparr>,
       cl_state := STATE_REQUESTING, cl_timeout := TIMEOUT_INITIAL, cl_xid := xid + 1\<rparr>))
       \<lparr>cl_request := request_msg hwaddr (xid + 1) yiaddr server\<rparr>"
  have s1': "dhcp_step hwaddr if_index c (Received packet1 (Inr (server_datagram if_index sa da offer n1))) =
      Some ([client_frame if_index (request_msg hwaddr (xid + 1) yiaddr server) 262], d, None)"
    unfolding s1 d_def
    by (simp add: accept_reply_def c(2,4) app type_consts transmit_on_states inv_hwaddr [OF c(1)])
  have inv: "client_inv hwaddr d"
    by (rule step_inv [OF c(1) _ s1']) (simp add: event_ok_def p)
  have out: "outstanding d = request_msg hwaddr (xid + 1) yiaddr server"
    by (simp add: outstanding_def d_def client_consts)
  obtain m2 where "dhcp_step hwaddr if_index d
      (Received packet2 (Inr (server_datagram if_index sa da ack n2))) =
     accept_reply hwaddr if_index ((next_stack d)\<lparr>cl_reply := m2,
       cl_info := (foldl apply_item zero_info (lease_items 5 server lease prefix gw dns1 dns2))\<lparr>i_ipaddr := yiaddr\<rparr>\<rparr>)"
    using step_lease [OF inv wf_own_msgs(2) [of hwaddr "xid + 1" yiaddr server] wf [of 5] _ n(4) p(2),
        where if_index = if_index and sa = sa and da = da and yiaddr = yiaddr] n(3)
    by (auto simp: length_lease_items ack Let_def out own_msg_fields)
  then show ?thesis
    by (simp add: s1' accept_reply_def app type_consts d_def client_consts)
qed

definition witness_client :: dhcp_client where
  "witness_client = \<lparr>cl_state = 0, cl_timeout = 0, cl_info = zero_info, cl_xid = 0,
     cl_discover = zero_dhcp_msg, cl_request = zero_dhcp_msg, cl_reply = zero_dhcp_msg,
     cl_stack = (\<lambda>_ _. 0)\<rparr>"

lemma witness_start:
  "\<exists>fs c. dhcp_start (replicate 6 1) 2 7 witness_client = Some (fs, c)"
  by (simp add: dhcp_start_def start_client_def transmit_selecting)

theorem dhcp_exchange_witness:
  "\<exists>c c'. dhcp_run (replicate 6 1) 2 c
      [Received (replicate 1288 0) (Inr (server_datagram 2 0 0 (lease_msg (discover_msg (replicate 6 1) 7) 9
         (lease_items 2 5 60 24 1 8 8)) 300)),
       Received (replicate 1288 0) (Inr (server_datagram 2 0 0 (lease_msg (request_msg (replicate 6 1) 8 9 5) 9
         (lease_items 5 5 60 24 1 8 8)) 300))] =
      Some ([client_frame 2 (request_msg (replicate 6 1) 8 9 5) 262], c', Some Acked) \<and>
    i_prefixLength (cl_info c') = 24 \<and> i_ipaddr (cl_info c') = 9"
proof -
  obtain fs c where c: "dhcp_start (replicate 6 1) 2 7 witness_client = Some (fs, c)"
    using witness_start by auto
  then show ?thesis
    using dhcp_exchange [OF c, of "replicate 1288 0" "replicate 1288 0" 300 300 24 _ 9 5 60 1 8 8 _ 0 0]
    by (auto simp: witness_client_def wf_zero_dhcp_msg simp del: dhcp_run.simps)
      (metis dhcp_info.select_convs(2,4))
qed

text \<open>C28. An exchange ends: with four timeouts in the first state and four in the second, no more
  than six can pass without the end, whatever datagrams and errors of \<open>poll\<close> come in between. A run
  with seven timeouts that has not ended has stopped at a datagram that ran an array over, and
  without such a datagram it has a result, with the way it ended.\<close>

theorem dhcp_run_ends:
  assumes "dhcp_reach hwaddr if_index c" and "\<forall>ev \<in> set evs. event_ok ev"
    and "7 \<le> count_list evs PollTimeout"
  shows "(\<forall>fs c'. dhcp_run hwaddr if_index c evs \<noteq> Some (fs, c', None)) \<and>
    ((\<forall>ev \<in> set evs. event_safe ev) \<longrightarrow> (\<exists>fs c' e. dhcp_run hwaddr if_index c evs = Some (fs, c', Some e)))"
proof -
  have inv: "client_inv hwaddr c" by (rule reach_inv [OF assms(1)])
  have pat: "patience c \<le> 6" by (simp add: patience_def)
  have open': "dhcp_run hwaddr if_index c evs \<noteq> Some (fs, c', None)" for fs c'
    using run_patience [OF inv assms(2)] pat assms(3) by fastforce
  have "\<exists>fs c' e. dhcp_run hwaddr if_index c evs = Some (fs, c', Some e)" if "\<forall>ev \<in> set evs. event_safe ev"
    using run_total [OF inv that, of if_index] open' by (metis option.exhaust)
  then show ?thesis using open' by blast
qed

theorem dhcp_run_ends_witness:
  "\<exists>c fs c' e. dhcp_run (replicate 6 1) 2 c (PollError 4 # replicate 7 PollTimeout) = Some (fs, c', Some e)"
proof -
  obtain fs c where c: "dhcp_start (replicate 6 1) 2 7 witness_client = Some (fs, c)"
    using witness_start by auto
  have "dhcp_reach (replicate 6 1) 2 c"
    by (rule reach_start [OF c]) (simp add: witness_client_def wf_zero_dhcp_msg)
  then show ?thesis
    using dhcp_run_ends [of "replicate 6 1" 2 c "PollError 4 # replicate 7 PollTimeout"]
    by (auto simp: event_safe_def event_ok_def eval_nat_numeral)
qed

lemma witness_reach:
  obtains c where "dhcp_reach (replicate 6 1) 2 c" "cl_state c = STATE_SELECTING" "cl_timeout c = 4000" "cl_xid c = 7"
proof -
  obtain fs c where c: "dhcp_start (replicate 6 1) 2 7 witness_client = Some (fs, c)"
    using witness_start by auto
  have w: "wf_dhcp (cl_reply witness_client)" by (simp add: witness_client_def wf_zero_dhcp_msg)
  show thesis using that [OF reach_start [OF c w]] start_inv [OF c w] by (simp add: client_consts)
qed

text \<open>C9. Where an iteration of the client can leave an array, in every state it can reach and whatever
  arrives. The sum and the copy of \<open>receive_packet\<close> do so exactly when the UDP length of a datagram
  that passes the checks is below 8 or above 1268; the logger prints \<open>buf\<close> past its end exactly when
  a message that is long enough to be logged has \<open>hlen\<close> 0 and the stack under \<open>buf\<close> holds no NUL.
  Nothing else does: the decoder, the rest of the logger (the hardware address, the two text
  fields, the options), the comparison with the request and the builders of messages.\<close>

theorem dhcp_step_memory_safe:
  assumes "dhcp_reach hwaddr if_index c" and "event_ok ev"
  shows "dhcp_step hwaddr if_index c ev = None \<longleftrightarrow>
    (\<exists>packet0 datagram. ev = Received packet0 (Inr datagram) \<and>
      (receive_packet packet0 (Inr datagram) (cl_reply c) = RecvFault \<and>
         (unat (ntohs (get16 datagram 24)) < 8 \<or> 1268 < unat (ntohs (get16 datagram 24))) \<or>
       (\<exists>r m. receive_packet packet0 (Inr datagram) (cl_reply c) = RecvOk r m \<and> 236 \<le> r \<and>
         m_hlen m = 0 \<and> 0 \<notin> set (stack_buf c))))"
proof (cases ev)
  case (Received packet0 input)
  then have p: "length packet0 = 1288" using assms(2) by (simp add: event_ok_def)
  note inv = reach_inv [OF assms(1)]
  show ?thesis
  proof (cases input)
    case (Inl e)
    then show ?thesis using Received by (auto simp: dhcp_step_def receive_packet_def)
  next
    case (Inr d)
    show ?thesis
    proof (cases "receive_packet packet0 input (cl_reply c)")
      case (RecvOk r m)
      then show ?thesis using step_received [OF inv RecvOk p] Received Inr by auto
    next
      case RecvFault
      then show ?thesis using receive_fault [OF _ p, of d "cl_reply c"] Received Inr by (auto simp: dhcp_step_def)
    qed (use Received Inr in \<open>auto simp: dhcp_step_def\<close>)
  qed
qed (use step_total [OF reach_inv [OF assms(1)], of ev] in simp_all)

theorem dhcp_step_memory_safe_witness:
  "\<exists>c. dhcp_step (replicate 6 1) 2 c (Received (replicate 1288 0) (Inr (crafted_datagram 3))) = None \<and>
       dhcp_step (replicate 6 1) 2 c (Received (replicate 1288 0) (Inr [])) \<noteq> None"
proof -
  obtain c where c: "dhcp_reach (replicate 6 1) 2 c" by (rule witness_reach)
  have f: "receive_packet (replicate 1288 0) (Inr (crafted_datagram 3)) (cl_reply c) = RecvFault"
    by (rule receive_crafted) simp_all
  have s: "receive_packet (replicate 1288 0) (Inr []) (cl_reply c) = RecvErr 0"
    by (simp add: receive_packet_def read_packet_def packet_is_valid_def packet_consts Let_def)
  show ?thesis
    using dhcp_step_memory_safe [OF c, of "Received (replicate 1288 0) (Inr (crafted_datagram 3))"]
      dhcp_step_memory_safe [OF c, of "Received (replicate 1288 0) (Inr [])"] f s
      receive_fault [OF f length_replicate]
    by (auto simp: event_ok_def)
qed

text \<open>C15. The logger's fault can be reached from the network: for every DHCP message with \<open>hlen\<close> 0 and of
  at least the fixed size, the datagram with correct checksums that carries it makes an iteration of the
  client print \<open>buf\<close>, which nothing has written, past its end, when the stack holds no NUL there.\<close>

theorem dump_prints_uninitialised:
  assumes "dhcp_reach hwaddr if_index c" and "wf_dhcp m" and "m_hlen m = 0" and "236 \<le> n" "n \<le> 1260"
    and "length packet0 = 1288" and "0 \<notin> set (stack_buf c)"
  shows "dhcp_step hwaddr if_index c (Received packet0 (Inr (server_datagram if_index sa da m n))) = None"
proof -
  note inv = reach_inv [OF assms(1)]
  have wr: "wf_dhcp (cl_reply c)" using inv by (simp add: client_inv_def)
  have "receive_packet packet0 (Inr (server_datagram if_index sa da m n)) (cl_reply c) =
      RecvOk (int n) (m\<lparr>m_options := take (n - 236) (m_options m) @ drop (n - 236) (m_options (cl_reply c))\<rparr>)"
    unfolding server_datagram_def
    using overlay [OF assms(2) wr assms(4,5)] assms(5,6)
      receive_sent [of "dhcp_bytes m" n packet0 68 if_index sa da 67 "cl_reply c"]
    by (simp add: dm.enc_length assms(2) PORT_BOOTP_CLIENT_def)
  from step_received [OF inv this assms(6)] show ?thesis using assms(3,4,7) by simp
qed

theorem dump_prints_uninitialised_witness:
  "\<exists>c. cl_timeout c = 4000 \<and> dhcp_step (replicate 6 1) 2 c
      (Received (replicate 1288 0) (Inr (server_datagram 2 0 0 zero_dhcp_msg 300))) = None"
proof -
  let ?junk = "witness_client\<lparr>cl_stack := (\<lambda>_ _. 1)\<rparr>"
  obtain fs c where c: "dhcp_start (replicate 6 1) 2 7 ?junk = Some (fs, c)"
    by (simp add: dhcp_start_def start_client_def transmit_selecting)
  have w: "wf_dhcp (cl_reply ?junk)" by (simp add: witness_client_def wf_zero_dhcp_msg)
  have "cl_stack c = (\<lambda>_ _. 1)"
    using c by (auto simp: dhcp_start_def start_client_def transmit_selecting next_stack_def)
  then have "0 \<notin> set (stack_buf c)" by (auto simp: stack_buf_def)
  moreover have "m_hlen zero_dhcp_msg = 0" by (simp add: zero_dhcp_msg_def)
  ultimately show ?thesis
    using dump_prints_uninitialised [OF reach_start [OF c w] wf_zero_dhcp_msg, of 300 "replicate 1288 0" 0 0]
      start_inv(3) [OF c w] by (auto simp: client_consts)
qed

text \<open>C2. The client takes a lease as acknowledged only in the state \<open>REQUESTING\<close>, for a datagram
  that passed the checks of \<open>receive_packet\<close> and \<open>is_valid_reply\<close> against the REQUEST it sent
  (a BOOTREPLY with the transaction id, the hardware type and the hardware address of the
  request) and whose message type is ACK; and the lease is the one that datagram decodes to.\<close>

theorem dhcp_ack_sound:
  assumes "dhcp_reach hwaddr if_index c" and "event_ok ev"
    and "dhcp_step hwaddr if_index c ev = Some (fs, c', Some Acked)"
  shows "\<exists>packet0 input r m code. ev = Received packet0 input \<and>
    receive_packet packet0 input (cl_reply c) = RecvOk r m \<and> cl_state c = STATE_REQUESTING \<and>
    is_valid_reply (cl_request c) m r = Some True \<and> m_xid m = cl_xid c \<and> m_op m = OP_BOOTREPLY \<and>
    decode_dhcp_msg m r = Some (code, cl_info c') \<and> i_type (cl_info c') = 5 \<and> fs = []"
  using reach_inv [OF assms(1)] assms(2,3)
proof (cases rule: dhcp_step_cases)
  case (reply packet0 input r m info m')
  have v: "is_valid_reply (outstanding c) m r = Some True"
    and a: "accept_reply hwaddr if_index ((next_stack c)\<lparr>cl_reply := m', cl_info := info\<rparr>) = Some (fs, c', Some Acked)"
    using reply(8) by (auto split: if_splits)
  from a inv_hwaddr [OF reach_inv [OF assms(1)]]
  have st: "cl_state c = STATE_REQUESTING" "i_type info = word_of_int DHCPACK" "fs = []"
    "c' = (next_stack c)\<lparr>cl_reply := m', cl_info := info\<rparr>"
    by (cases rule: accept_reply_cases, simp_all)+
  have v': "is_valid_reply (cl_request c) m r = Some True" using v st(1) by (simp add: client_consts outstanding_def)
  then have "m_xid m = m_xid (cl_request c)" "m_op m = OP_BOOTREPLY"
    by (auto simp: is_valid_reply_def split: if_splits)
  moreover have "m_xid (cl_request c) = cl_xid c"
    using outstanding_inv [OF reach_inv [OF assms(1)]] st(1) by (simp add: outstanding_def client_consts)
  moreover obtain code where "decode_dhcp_msg m r = Some (code, info)" using reply(7) by auto
  ultimately show ?thesis
    using reply(1,2) v' st by (auto simp: type_consts)
qed (auto split: if_splits)

theorem dhcp_ack_sound_witness:
  "\<exists>c ev r m. cl_state c = STATE_REQUESTING \<and>
     dhcp_step (replicate 6 1) 2 c ev \<noteq> None \<and> is_valid_reply (cl_request c) m r = Some True \<and> m_op m = OP_BOOTREPLY"
proof -
  obtain c where c: "dhcp_reach (replicate 6 1) 2 c" "cl_state c = STATE_SELECTING" "cl_xid c = 7"
    by (rule witness_reach) 
  note inv = reach_inv [OF c(1)]
  have disc: "outstanding c = discover_msg (replicate 6 1) 7"
    using inv c(2,3) by (auto simp: client_inv_def client_consts outstanding_def)
  let ?it = "\<lambda>t. lease_items t 5 60 24 1 8 8"
  let ?ev = "\<lambda>m t. Received (replicate 1288 0) (Inr (server_datagram 2 0 0 (lease_msg m 9 (?it t)) 300))"
  obtain d fs where d: "dhcp_step (replicate 6 1) 2 c (?ev (outstanding c) 2) = Some (fs, d, None)"
    "cl_state d = STATE_REQUESTING"
    using step_lease [OF inv wf_own_msgs(1) [of "replicate 6 1" 7] lease_items_wf [of 2 5 60 24 1 8 8],
        where n = 300 and ?packet0.0 = "replicate 1288 0" and sa = 0 and da = 0 and if_index = 2 and yiaddr = 9]
    by (auto simp: own_msg_fields length_lease_items Let_def disc accept_reply_def c(2) apply_lease_items type_consts
        transmit_on_states client_consts)
  have d': "dhcp_reach (replicate 6 1) 2 d"
    by (rule reach_step [OF c(1) _ d(1)]) (simp add: event_ok_def)
  note inv' = reach_inv [OF d']
  have w: "wf_dhcp (outstanding d)" "m_hlen (outstanding d) = 6" using outstanding_inv [OF inv'] by simp_all
  obtain e gs where e: "dhcp_step (replicate 6 1) 2 d (?ev (outstanding d) 5) = Some (gs, e, Some Acked)"
    using step_lease [OF inv' w(1) lease_items_wf [of 5 5 60 24 1 8 8],
        where n = 300 and ?packet0.0 = "replicate 1288 0" and sa = 0 and da = 0 and if_index = 2 and yiaddr = 9] d(2) w(2)
    by (auto simp: length_lease_items Let_def accept_reply_def apply_lease_items type_consts client_consts)
  show ?thesis
    using dhcp_ack_sound [OF d' _ e] e by (fastforce simp: event_ok_def)
qed

text \<open>C16. Every state the loop can be in: the timeout is 4000 doubled at most three times, and the
  message that replies are compared with is the one built for the current transaction id (a
  DISCOVER while selecting, a REQUEST while requesting).\<close>

theorem dhcp_client_invariant:
  assumes "dhcp_reach hwaddr if_index c"
  shows "cl_timeout c \<in> {4000, 8000, 16000, 32000} \<and> wf_dhcp (cl_reply c) \<and>
    (if cl_state c = STATE_SELECTING then init_dhcp_discover_msg hwaddr (cl_xid c) = Some (cl_discover c, 250)
     else cl_state c = STATE_REQUESTING \<and>
       (\<exists>ip srv. init_dhcp_request_msg hwaddr (cl_xid c) ip srv = Some (cl_request c, 262)))"
  using reach_inv [OF assms]
  by (auto simp: client_inv_def timeouts_def discover_msg_eq request_msg_eq discover_msg_def request_msg_def
      client_consts) blast+

theorem dhcp_client_invariant_witness:
  "\<exists>c. dhcp_reach (replicate 6 1) 2 c \<and> cl_timeout c \<in> {4000, 8000, 16000, 32000}"
proof -
  obtain c where c: "dhcp_reach (replicate 6 1) 2 c" by (rule witness_reach)
  show ?thesis using dhcp_client_invariant [OF c] c by blast
qed

text \<open>C39. A datagram that is no reply changes what the client asks for: \<open>decode_dhcp_msg\<close> clears
  \<open>info\<close> before \<open>is_valid_reply\<close> is asked, so after an empty UDP datagram to the client's port
  the next timeout sends a REQUEST for the address 0.0.0.0 to the server 0.0.0.0 instead of
  for the lease that was offered.\<close>

theorem dhcp_request_forgotten:
  assumes "dhcp_reach hwaddr if_index c" and "cl_state c = STATE_REQUESTING" and "cl_timeout c < TIMEOUT_MAX"
    and "length packet0 = 1288" and "length msg = 1260"
  shows "\<exists>c'. dhcp_run hwaddr if_index c
      [Received packet0 (Inr (frame_bytes (send_packet if_index msg 0 sa da 67 68))), PollTimeout] =
    Some ([client_frame if_index (request_msg hwaddr (cl_xid c) 0 0) 262], c', None)"
proof -
  obtain m' where "dhcp_step hwaddr if_index c
      (Received packet0 (Inr (frame_bytes (send_packet if_index msg 0 sa da 67 68)))) =
    Some ([], (next_stack c)\<lparr>cl_reply := m', cl_info := zero_info\<rparr>, None)"
    using step_empty [OF reach_inv [OF assms(1)] assms(5,4)] by blast
  moreover have "\<not> TIMEOUT_MAX \<le> cl_timeout c" using assms(3) by simp
  ultimately show ?thesis
    using assms(2) inv_hwaddr [OF reach_inv [OF assms(1)]]
    by (simp add: dhcp_step_def transmit_on_states zero_info_def)
qed

lemma witness_requesting:
  obtains c where "dhcp_reach (replicate 6 1) 2 c" "cl_state c = STATE_REQUESTING" "cl_timeout c = 4000"
    "i_ipaddr (cl_info c) = 9" "cl_xid c = 8"
proof -
  obtain c where c: "dhcp_reach (replicate 6 1) 2 c" "cl_state c = STATE_SELECTING" "cl_xid c = 7"
    by (rule witness_reach)
  note inv = reach_inv [OF c(1)]
  have disc: "outstanding c = discover_msg (replicate 6 1) 7"
    using inv c(2,3) by (auto simp: client_inv_def client_consts outstanding_def)
  let ?ev = "Received (replicate 1288 0) (Inr (server_datagram 2 0 0
    (lease_msg (outstanding c) 9 (lease_items 2 5 60 24 1 8 8)) 300))"
  obtain d fs where d: "dhcp_step (replicate 6 1) 2 c ?ev = Some (fs, d, None)"
    "cl_state d = STATE_REQUESTING" "cl_timeout d = 4000" "i_ipaddr (cl_info d) = 9" "cl_xid d = 8"
    using step_lease [OF inv wf_own_msgs(1) [of "replicate 6 1" 7] lease_items_wf [of 2 5 60 24 1 8 8],
        where n = 300 and ?packet0.0 = "replicate 1288 0" and sa = 0 and da = 0 and if_index = 2 and yiaddr = 9]
    by (auto simp: own_msg_fields length_lease_items Let_def disc accept_reply_def c(2,3) apply_lease_items type_consts
        transmit_on_states client_consts)
  show thesis
    by (rule that [OF reach_step [OF c(1) _ d(1)] d(2-5)]) (simp add: event_ok_def)
qed

theorem dhcp_request_forgotten_witness:
  "\<exists>c c'. i_ipaddr (cl_info c) = 9 \<and> dhcp_run (replicate 6 1) 2 c
      [Received (replicate 1288 0) (Inr (frame_bytes (send_packet 2 (replicate 1260 0) 0 1 1 67 68))), PollTimeout] =
    Some ([client_frame 2 (request_msg (replicate 6 1) 8 0 0) 262], c', None)"
proof -
  obtain c where c: "dhcp_reach (replicate 6 1) 2 c" "cl_state c = STATE_REQUESTING" "cl_timeout c = 4000"
    "i_ipaddr (cl_info c) = 9" "cl_xid c = 8" by (rule witness_requesting)
  then show ?thesis
    using dhcp_request_forgotten [OF c(1,2), of "replicate 1288 0" "replicate 1260 0" 1 1]
    by (auto simp: client_consts simp del: dhcp_run.simps)
qed

lemma run_timeouts_selecting:
  assumes "client_inv hwaddr c" and "cl_state c = STATE_SELECTING" and "cl_timeout c = TIMEOUT_INITIAL"
    and "i_type (cl_info c) = 2"
  shows "\<exists>fs c'. dhcp_run hwaddr if_index c (replicate 4 PollTimeout) = Some (fs, c', Some Offered) \<and>
    length fs = 3 \<and> cl_info c' = cl_info c"
proof -
  have four: "replicate 4 PollTimeout = [PollTimeout, PollTimeout, PollTimeout, PollTimeout]"
    by (simp add: eval_nat_numeral)
  show ?thesis unfolding four
    using assms(2-4) inv_hwaddr [OF assms(1)]
    by (simp add: dhcp_step_def client_consts transmit_on_states [unfolded client_consts] type_consts)
qed

text \<open>An offer made to somebody else can be configured: a datagram whose transaction id or
  hardware address is another client's is refused, but its lease stays in \<open>info\<close>, and when
  no reply follows, the timeout takes it for an offer received and configures it.\<close>

theorem dhcp_foreign_offer:
  assumes "dhcp_reach hwaddr if_index c" and "cl_state c = STATE_SELECTING" and "cl_timeout c = TIMEOUT_INITIAL"
    and "wf_dhcp other" and "m_hlen other \<noteq> 0" and "\<not> same_exchange (cl_discover c) other"
    and "length packet0 = 1288" and "278 \<le> n" "n \<le> 1260" and "0 \<le> prefix" "prefix \<le> 32"
  shows "\<exists>fs c'. dhcp_run hwaddr if_index c
      (Received packet0 (Inr (server_datagram if_index sa da
         (lease_msg other yiaddr (lease_items 2 server lease prefix gw dns1 dns2)) n)) # replicate 4 PollTimeout) =
      Some (fs, c', Some Offered) \<and> i_ipaddr (cl_info c') = yiaddr \<and> i_gateway (cl_info c') = gw"
proof -
  note inv = reach_inv [OF assms(1)]
  let ?info = "(foldl apply_item zero_info (lease_items 2 server lease prefix gw dns1 dns2))\<lparr>i_ipaddr := yiaddr\<rparr>"
  let ?ev = "Received packet0 (Inr (server_datagram if_index sa da
         (lease_msg other yiaddr (lease_items 2 server lease prefix gw dns1 dns2)) n))"
  note app = apply_lease_items [OF assms(10,11), of 2 server lease gw dns1 dns2]
  obtain m' where s: "dhcp_step hwaddr if_index c ?ev = Some ([], (next_stack c)\<lparr>cl_reply := m', cl_info := ?info\<rparr>, None)"
    using step_lease [OF inv assms(4) lease_items_wf [of 2 server lease prefix gw dns1 dns2] _ assms(9,7,5),
        where sa = sa and da = da and if_index = if_index and yiaddr = yiaddr] assms(2,6,8)
    by (auto simp: length_lease_items Let_def outstanding_def)
  have "client_inv hwaddr ((next_stack c)\<lparr>cl_reply := m', cl_info := ?info\<rparr>)"
    by (rule step_inv [OF inv _ s]) (simp add: event_ok_def assms(7))
  from run_timeouts_selecting [OF this, of if_index] show ?thesis
    using s assms(2,3) by (auto simp: app)
qed

theorem dhcp_foreign_offer_witness:
  "\<exists>c fs c'. dhcp_run (replicate 6 1) 2 c
      (Received (replicate 1288 0) (Inr (server_datagram 2 0 0
         (lease_msg (zero_dhcp_msg\<lparr>m_hlen := 6\<rparr>) 77 (lease_items 2 5 60 24 1 8 8)) 300)) # replicate 4 PollTimeout) =
      Some (fs, c', Some Offered) \<and> i_ipaddr (cl_info c') = 77"
proof -
  obtain c where c: "dhcp_reach (replicate 6 1) 2 c" "cl_state c = STATE_SELECTING" "cl_timeout c = 4000" "cl_xid c = 7"
    by (rule witness_reach)
  have w: "wf_dhcp (zero_dhcp_msg\<lparr>m_hlen := 6\<rparr>)" by (simp add: wf_dhcp_def zero_dhcp_msg_def)
  have "m_xid (cl_discover c) = 7"
    using outstanding_inv [OF reach_inv [OF c(1)]] c(2,4) by (simp add: outstanding_def)
  then have "\<not> same_exchange (cl_discover c) (zero_dhcp_msg\<lparr>m_hlen := 6\<rparr>)"
    by (simp add: same_exchange_def zero_dhcp_msg_def)
  then show ?thesis
    using dhcp_foreign_offer [OF c(1,2) _ w, of "replicate 1288 0" 300 24 0 0 77 5 60 1 8 8] c(3)
    by (auto simp: client_consts simp del: dhcp_run.simps)
qed

end
