(* ===== verification/Addr6.thy ===== *)
theory Addr6
  imports Route
begin

text \<open>
  \<^verbatim>\<open>test_wifi/libnetutils/ifc_utils.c\<close>: adding and deleting addresses over netlink and clearing the
  IPv6 addresses of an interface. The request structure is the record \<open>nl_addr_req\<close>; the
  acknowledgement is the 52 bytes of the buffer that \<open>recv\<close> filled, read as the code reads them.
\<close>

section \<open>Adding and deleting an address\<close>

definition RTM_NEWADDR :: int where "RTM_NEWADDR = 20"
definition RTM_DELADDR :: int where "RTM_DELADDR = 21"
definition NLM_F_REQUEST :: u16 where "NLM_F_REQUEST = 1"
definition NLM_F_ACK :: u16 where "NLM_F_ACK = 4"
definition NLMSG_ERROR :: u16 where "NLMSG_ERROR = 2"
definition IFA_LOCAL :: int where "IFA_LOCAL = 2"
definition EFAULT :: int where "EFAULT = 14"
definition sizeof_nlmsghdr :: nat where "sizeof_nlmsghdr = 16"
definition sizeof_ifaddrmsg :: nat where "sizeof_ifaddrmsg = 8"
definition sizeof_rtattr :: nat where "sizeof_rtattr = 4"
definition sizeof_nlmsgerr :: nat where "sizeof_nlmsgerr = 20"

lemmas nl_consts = sizeof_nlmsghdr_def sizeof_ifaddrmsg_def sizeof_rtattr_def sizeof_nlmsgerr_def
  INET6_ADDRLEN_def INET_ADDRLEN_def

definition NLMSG_ALIGN :: "nat \<Rightarrow> nat" where
  "NLMSG_ALIGN len = (len + 3) div 4 * 4"

definition NLMSG_LENGTH :: "nat \<Rightarrow> nat" where
  "NLMSG_LENGTH len = NLMSG_ALIGN sizeof_nlmsghdr + len"

definition RTA_LENGTH :: "nat \<Rightarrow> nat" where
  "RTA_LENGTH len = NLMSG_ALIGN sizeof_rtattr + len"

text \<open>The sizes of the request structure and of the buffer of the acknowledgement.\<close>

definition sizeof_req :: nat where
  "sizeof_req = sizeof_nlmsghdr + sizeof_ifaddrmsg +
     (NLMSG_ALIGN sizeof_nlmsghdr + NLMSG_ALIGN sizeof_rtattr + NLMSG_ALIGN INET6_ADDRLEN)"

definition sizeof_ack :: nat where
  "sizeof_ack = NLMSG_ALIGN sizeof_nlmsghdr + NLMSG_ALIGN sizeof_nlmsgerr + NLMSG_ALIGN sizeof_nlmsghdr"

text \<open>\<open>string_to_ip\<close>; a null \<open>ss\<close> is \<open>False\<close>.\<close>

definition string_to_ip :: "'k sys \<Rightarrow> string \<Rightarrow> bool \<Rightarrow> ('k net, int + ipaddr) state" where
  "string_to_ip K str ss = (if \<not> ss then ret (Inl (- EFAULT)) else world (sys_getaddrinfo K str))"

definition address_bytes :: "ipaddr \<Rightarrow> bytes option" where
  "address_bytes a = (case a of In4 w \<Rightarrow> Some (bytes32 w) | In6 b \<Rightarrow> Some b | InOther _ \<Rightarrow> None)"

definition address_request :: "int \<Rightarrow> int \<Rightarrow> int \<Rightarrow> int \<Rightarrow> int \<Rightarrow> bytes \<Rightarrow> nl_addr_req" where
  "address_request action pid fam prefixlen ifindex addr =
     (let len = NLMSG_LENGTH sizeof_ifaddrmsg
      in \<lparr>nlmsg_len = NLMSG_ALIGN len + RTA_LENGTH (length addr), nlmsg_type = action,
          nlmsg_flags = NLM_F_REQUEST OR NLM_F_ACK, nlmsg_pid = pid,
          ifa_family = fam, ifa_prefixlen = word_of_int prefixlen, ifa_index = ifindex,
          rta_offset = NLMSG_ALIGN len, rta_type = IFA_LOCAL,
          rta_len = RTA_LENGTH (length addr), rta_data = addr\<rparr>)"

definition NLMSG_OK :: "bytes \<Rightarrow> nat \<Rightarrow> bool" where
  "NLMSG_OK buf len \<longleftrightarrow> len \<ge> sizeof_nlmsghdr \<and> unat (get32 buf 0) \<ge> sizeof_nlmsghdr \<and>
     unat (get32 buf 0) \<le> len"

definition parse_ack :: "nat \<Rightarrow> bytes \<Rightarrow> int" where
  "parse_ack len buf =
     (if \<not> NLMSG_OK buf len \<or> get16 buf 4 \<noteq> NLMSG_ERROR then - EINVAL
      else sint (get32 buf sizeof_nlmsghdr))"

definition ifc_act_on_address ::
  "'k sys \<Rightarrow> int \<Rightarrow> string \<Rightarrow> string \<Rightarrow> int \<Rightarrow> ('k net, int) state" where
  "ifc_act_on_address K action name address prefixlen = do {
     i \<leftarrow> syscall (sys_nametoindex K name);
     e \<leftarrow> get_errno;
     case i of Inl _ \<Rightarrow> ret (- e)
     | Inr ifindex \<Rightarrow> if ifindex = 0 then ret (- e) else do {
         a \<leftarrow> string_to_ip K address True;
         case a of Inl err \<Rightarrow> ret err
         | Inr ss \<Rightarrow>
             if address_bytes ss = None then ret (- EAFNOSUPPORT)
             else do {
               pid \<leftarrow> world (sys_getpid K);
               let req = address_request action pid (family ss) prefixlen (int ifindex)
                           (the (address_bytes ss));
               s \<leftarrow> syscall (sys_nl_socket K);
               x \<leftarrow> syscall (sys_nl_send K (rc s) req);
               case x of Inl _ \<Rightarrow> do {
                   _ \<leftarrow> close_fd K (rc s);
                   e \<leftarrow> get_errno;
                   ret (- e)
                 }
               | Inr _ \<Rightarrow> do {
                   y \<leftarrow> syscall (sys_nl_recv K (rc s));
                   _ \<leftarrow> close_fd K (rc s);
                   e \<leftarrow> get_errno;
                   case y of Inl _ \<Rightarrow> ret (- e)
                   | Inr z \<Rightarrow> (case z of (len, buf) \<Rightarrow> ret (parse_ack len buf))
                 }
             }
       }
   }"

definition ifc_add_address :: "'k sys \<Rightarrow> string \<Rightarrow> string \<Rightarrow> int \<Rightarrow> ('k net, int) state" where
  "ifc_add_address K name address prefixlen = ifc_act_on_address K RTM_NEWADDR name address prefixlen"

definition ifc_del_address :: "'k sys \<Rightarrow> string \<Rightarrow> string \<Rightarrow> int \<Rightarrow> ('k net, int) state" where
  "ifc_del_address K name address prefixlen = ifc_act_on_address K RTM_DELADDR name address prefixlen"

section \<open>Clearing addresses\<close>

text \<open>The loop that puts the colons back, from position \<open>i\<close>, and the cut of the last one.\<close>

fun colon_loop :: "nat \<Rightarrow> string \<Rightarrow> string" where
  "colon_loop i [] = []"
| "colon_loop i (c # cs) =
     (if i mod 4 = 3 then c # CHR '':'' # colon_loop (i + 1) cs else c # colon_loop (i + 1) cs)"

definition ipv6_text :: "string \<Rightarrow> string" where
  "ipv6_text rawaddrstr = butlast (colon_loop 0 (take 32 rawaddrstr))"

fun clear6_loop :: "'k sys \<Rightarrow> string \<Rightarrow> inet6_row list \<Rightarrow> int \<Rightarrow> ('k net, int) state" where
  "clear6_loop K name [] lasterror = ret lasterror"
| "clear6_loop K name (row # rows) lasterror =
     (if name \<noteq> row_ifname row then clear6_loop K name rows lasterror
      else
        let addrstr = ipv6_text (raw_addr row)
        in if strncmp_eq addrstr ''fe80:'' 5 then clear6_loop K name rows lasterror
           else do {
             r \<leftarrow> ifc_del_address K (row_ifname row) addrstr (sint (row_prefixlen row));
             clear6_loop K name rows (if r \<noteq> 0 then r else lasterror)
           })"

definition ifc_clear_ipv6_addresses :: "'k sys \<Rightarrow> string \<Rightarrow> ('k net, int) state" where
  "ifc_clear_ipv6_addresses K name = do {
     f \<leftarrow> syscall (sys_proc_inet6 K);
     e \<leftarrow> get_errno;
     case f of Inl _ \<Rightarrow> ret (- e)
     | Inr rows \<Rightarrow> clear6_loop K name rows 0
   }"

definition ifc_clear_addresses :: "'k sys \<Rightarrow> string \<Rightarrow> ('k net, int) state" where
  "ifc_clear_addresses K name = do {
     _ \<leftarrow> ifc_clear_ipv4_addresses K name;
     ifc_clear_ipv6_addresses K name
   }"

section \<open>What they do\<close>

text \<open>The request lies inside its structure, and its attribute behind its headers.\<close>

lemma address_request_fits:
  assumes "length addr \<le> INET6_ADDRLEN" and "r = address_request action pid fam p i addr"
  shows "rta_offset r = 24" "rta_offset r + rta_len r = nlmsg_len r" "nlmsg_len r \<le> sizeof_req"
    "rta_len r = 4 + length (rta_data r)"
  using assms by (simp_all add: address_request_def Let_def nl_consts NLMSG_ALIGN_def NLMSG_LENGTH_def
      RTA_LENGTH_def sizeof_req_def)

lemma colon_loop_digits:
  "CHR '':'' \<notin> set raw \<Longrightarrow> filter (\<lambda>c. c \<noteq> CHR '':'') (colon_loop i raw) = raw"
  by (induction i raw rule: colon_loop.induct) auto

lemma colon_loop_append: "colon_loop i (xs @ ys) = colon_loop i xs @ colon_loop (i + length xs) ys"
  by (induction i xs rule: colon_loop.induct) auto

lemma colon_loop_four:
  assumes "length g = 4" and "i mod 4 = 0"
  shows "colon_loop i g = g @ '':''"
proof -
  obtain a b c d where g: "g = [a, b, c, d]"
    using assms(1) by (auto simp: numeral_eq_Suc length_Suc_conv)
  have "Suc i mod 4 = 1" "Suc (Suc i) mod 4 = 2" "Suc (Suc (Suc i)) mod 4 = 3"
    using assms(2) by presburger+
  then show ?thesis using assms(2) by (simp add: g)
qed

lemma colon_loop_groups:
  "\<forall>g \<in> set gs. length g = 4 \<Longrightarrow> i mod 4 = 0 \<Longrightarrow> colon_loop i (concat gs) = concat (map (\<lambda>g. g @ '':'') gs)"
proof (induction gs arbitrary: i)
  case (Cons g gs)
  have "(i + 4) mod 4 = 0" using Cons.prems(2) by simp
  then show ?case using Cons by (simp add: colon_loop_append colon_loop_four)
qed simp

text \<open>The text form of an address: its groups with colons between them.\<close>

fun join_colon :: "string list \<Rightarrow> string" where
  "join_colon [] = []"
| "join_colon [g] = g"
| "join_colon (g # gs) = g @ '':'' @ join_colon gs"

lemma butlast_groups: "butlast (concat (map (\<lambda>g. g @ '':'') gs)) = join_colon gs"
  by (induction gs rule: join_colon.induct) (simp_all add: butlast_append)

lemma length_concat_groups: "\<forall>g \<in> set gs. length g = 4 \<Longrightarrow> length (concat gs) = 4 * length gs"
  by (induction gs) auto

lemma ipv6_text_eq:
  assumes "length gs = 8" and "\<forall>g \<in> set gs. length g = 4"
  shows "ipv6_text (concat gs) = join_colon gs"
  using assms length_concat_groups [OF assms(2)]
  by (simp add: ipv6_text_def colon_loop_groups butlast_groups)

lemma link_local_eq:
  assumes "length gs = 8" and "\<forall>g \<in> set gs. length g = 4"
  shows "strncmp_eq (join_colon gs) ''fe80:'' 5 \<longleftrightarrow> hd gs = ''fe80''"
proof -
  obtain g h hs where gs: "gs = g # h # hs" using assms(1) by (auto simp: numeral_eq_Suc length_Suc_conv)
  have "length g = 4" using assms(2) gs by simp
  then show ?thesis by (simp add: gs strncmp_eq_def)
qed

definition deletes_row :: "string \<Rightarrow> inet6_row \<Rightarrow> bool" where
  "deletes_row name row \<longleftrightarrow> row_ifname row = name \<and> \<not> strncmp_eq (ipv6_text (raw_addr row)) ''fe80:'' 5"

text \<open>The deletions in order, each with its result; the last that is not zero is returned.\<close>

fun delete_all :: "'k sys \<Rightarrow> inet6_row list \<Rightarrow> ('k net, int list) state" where
  "delete_all K [] = ret []"
| "delete_all K (row # rows) = do {
     r \<leftarrow> ifc_del_address K (row_ifname row) (ipv6_text (raw_addr row)) (sint (row_prefixlen row));
     rs \<leftarrow> delete_all K rows;
     ret (r # rs)
   }"

lemma clear6_loop_eq:
  "run_state (clear6_loop K name rows e) s =
     (let (rs, t) = run_state (delete_all K (filter (deletes_row name) rows)) s
      in (foldl (\<lambda>e r. if r \<noteq> 0 then r else e) e rs, t))"
proof (induction rows arbitrary: e s)
  case (Cons row rows)
  then show ?case by (auto simp: Let_def deletes_row_def split: prod.splits) 
qed simp

lemma keeps_address [keeps_intros]:
  "keeps (ifc_act_on_address K action name address p) socks_ok"
  "keeps (ifc_act_on_address K action name address p) (sock_is c)"
  unfolding ifc_act_on_address_def string_to_ip_def Let_def by (intro keeps_intros)+

lemma keeps_clear6 [keeps_intros]:
  "keeps (clear6_loop K name rows e) socks_ok" "keeps (clear6_loop K name rows e) (sock_is c)"
  by (induction rows arbitrary: e) (auto simp: Let_def ifc_del_address_def intro!: keeps_intros)

interpretation clr6: uses_ctl "ifc_clear_ipv6_addresses K name" for K name
  by (unfold_locales; unfold ifc_clear_ipv6_addresses_def; intro keeps_intros)

interpretation addaddr: uses_ctl "ifc_add_address K name address p" for K name address p
  by (unfold_locales; unfold ifc_add_address_def; intro keeps_intros)

interpretation deladdr: uses_ctl "ifc_del_address K name address p" for K name address p
  by (unfold_locales; unfold ifc_del_address_def; intro keeps_intros)

section \<open>Properties\<close>

text \<open>\<open>ifc_clear_ipv6_addresses\<close> deletes, in the order of \<^verbatim>\<open>/proc/net/if_inet6\<close>, the addresses of
  this interface that do not start with fe80, each under the text form of its eight groups of
  four digits, and returns the last error of a deletion, or 0.\<close>

theorem clear_ipv6_effect:
  assumes "sys_proc_inet6 K (kst s) = (Inr rows, k1)"
    and "\<forall>row \<in> set rows. length (groups row) = 8 \<and> (\<forall>g \<in> set (groups row). length g = 4) \<and>
      raw_addr row = concat (groups row)"
    and "run_state (delete_all K (filter (\<lambda>row. row_ifname row = name \<and> hd (groups row) \<noteq> ''fe80'') rows))
      (s\<lparr>kst := k1\<rparr>) = (rs, t)"
  shows "run_state (ifc_clear_ipv6_addresses K name) s = (foldl (\<lambda>e r. if r \<noteq> 0 then r else e) 0 rs, t) \<and>
    (\<forall>row \<in> set rows. ipv6_text (raw_addr row) = join_colon (groups row))"
proof -
  have t: "ipv6_text (raw_addr row) = join_colon (groups row)" if "row \<in> set rows" for row
    using assms(2) that ipv6_text_eq by simp
  then have "filter (deletes_row name) rows = filter (\<lambda>row. row_ifname row = name \<and> hd (groups row) \<noteq> ''fe80'') rows"
    using assms(2) link_local_eq by (intro filter_cong) (auto simp: deletes_row_def)
  then show ?thesis
    using t assms(1,3) clear6_loop_eq [of K name rows 0 "s\<lparr>kst := k1\<rparr>"]
    by (simp add: ifc_clear_ipv6_addresses_def run_simps)
qed

theorem clear_ipv6_effect_witness:
  "run_state (ifc_clear_ipv6_addresses (logging_sys NoFile
      [\<lparr>raw_addr = ''20010db8000a0001fc446aa4b5b347ed'', row_prefixlen = 64, row_ifname = ''wlan0''\<rparr>,
       \<lparr>raw_addr = ''fe80000000000001fc446aa4b5b347ed'', row_prefixlen = 64, row_ifname = ''wlan0''\<rparr>] (\<lambda>_. []))
      ''wlan0'') (closed_net []) = (0, (closed_net [])\<lparr>kst :=
        [CallNl (address_request RTM_DELADDR 100 10 64 2 (replicate 16 1)), CallClose 4]\<rparr>)"
proof -
  let ?rows = "[\<lparr>raw_addr = ''20010db8000a0001fc446aa4b5b347ed'', row_prefixlen = 64, row_ifname = ''wlan0''\<rparr>,
       \<lparr>raw_addr = ''fe80000000000001fc446aa4b5b347ed'', row_prefixlen = 64, row_ifname = ''wlan0''\<rparr>]"
  let ?K = "logging_sys NoFile ?rows (\<lambda>_. [])"
  let ?g = "\<lambda>row. if row = hd ?rows
     then [''2001'', ''0db8'', ''000a'', ''0001'', ''fc44'', ''6aa4'', ''b5b3'', ''47ed'']
     else [''fe80'', ''0000'', ''0000'', ''0001'', ''fc44'', ''6aa4'', ''b5b3'', ''47ed'']"
  have ack: "parse_ack 36 ([36, 0, 0, 0, 2, 0] @ replicate 46 0) = 0"
  proof -
    let ?b = "[36, 0, 0, 0, 2, 0] @ replicate 46 0 :: bytes"
    have "get32 ?b 0 = mk32 36 0 0 0" "get16 ?b 4 = mk16 2 0" "get32 ?b 16 = mk32 0 0 0 0"
      by (simp_all add: get32_def get16_def nth_append nth_Cons')
    moreover have "mk16 2 0 = 2" "sint (mk32 0 0 0 0) = 0" by (simp_all add: mk16_def mk32_def)
    ultimately show ?thesis by (simp add: parse_ack_def NLMSG_OK_def nl_consts NLMSG_ERROR_def unat_mk32)
  qed
  have "run_state (delete_all ?K (filter (\<lambda>row. row_ifname row = ''wlan0'' \<and> hd (?g row) \<noteq> ''fe80'') ?rows))
      (closed_net []) = ([0], (closed_net [])\<lparr>kst :=
        [CallNl (address_request RTM_DELADDR 100 10 64 2 (replicate 16 1)), CallClose 4]\<rparr>)"
    using ack by (simp add: Let_def ifc_del_address_def ifc_act_on_address_def string_to_ip_def logging_sys_def closed_net_def
        run_simps address_bytes_def family_def rc_def)
  then show ?thesis
    using clear_ipv6_effect [of ?K "closed_net []" ?rows "[]" ?g "''wlan0''" "[0]"]
    by (simp add: logging_sys_def closed_net_def)
qed

text \<open>What goes to the kernel for an address of either family fits into the request structure:
  the attribute starts right behind the two headers and ends where the message length says.\<close>

theorem address_request_in_bounds:
  assumes "length addr \<le> INET6_ADDRLEN" and "r = address_request action pid fam p i addr"
  shows "rta_offset r = NLMSG_LENGTH sizeof_ifaddrmsg \<and> rta_offset r + rta_len r = nlmsg_len r \<and>
    nlmsg_len r \<le> sizeof_req \<and> rta_len r = sizeof_rtattr + length (rta_data r) \<and> sizeof_nlmsghdr + 4 \<le> sizeof_ack"
  using address_request_fits [OF assms]
  by (simp add: NLMSG_LENGTH_def NLMSG_ALIGN_def nl_consts sizeof_ack_def)

theorem address_request_in_bounds_witness:
  "nlmsg_len (address_request RTM_NEWADDR 1 10 64 2 (replicate 16 7)) = 44 \<and> sizeof_req = 60"
  using address_request_in_bounds [of "replicate 16 7" _ RTM_NEWADDR 1 10 64 2]
  by (simp add: address_request_def Let_def NLMSG_LENGTH_def NLMSG_ALIGN_def RTA_LENGTH_def nl_consts sizeof_req_def)

end
