(* ===== verification/Netcfg.thy ===== *)
theory Netcfg
  imports Dhcpclient Addr6
begin

text \<open>
  \<^verbatim>\<open>test_wifi/netcfg.c\<close>: the command line tool. \<open>main\<close> is \<open>netcfg_main\<close> on the arguments after the
  name of the program; it returns the value returned or the status of \<open>exit\<close> and the text
  printed on the standard output (the lines that only print the line number are left out).
  The entries of \<^verbatim>\<open>/sys/class/net\<close> and the parser of hardware addresses are parameters, and the
  fuel is the number of iterations the loop of \<open>do_dhcp\<close> may take.
\<close>

section \<open>Showing the interfaces\<close>

definition ETH_ALEN_n :: nat where "ETH_ALEN_n = 6"

definition pad_right :: "nat \<Rightarrow> string \<Rightarrow> string" where
  "pad_right n s = s @ replicate (n - length s) (CHR '' '')"

definition pad_left :: "nat \<Rightarrow> string \<Rightarrow> string" where
  "pad_left n s = replicate (n - length s) (CHR '' '') @ s"

definition hex2 :: "u8 \<Rightarrow> string" where
  "hex2 b = [hex_digit (unat b div 16), hex_digit (unat b mod 16)]"

definition hex8 :: "u32 \<Rightarrow> string" where
  "hex8 w = concat (map (\<lambda>i. hex2 (byte_of i w)) [3, 2, 1, 0])"

definition newline :: string where "newline = [CHR 0x0A]"

definition dump_interface :: "'k sys \<Rightarrow> string \<Rightarrow> ('k net, string) state" where
  "dump_interface K name = do {
     (addr, prefixLength, flags) \<leftarrow> ifc_get_info K name True True True;
     let addr = the addr;
     let prefixLength = the prefixLength;
     let flags = the flags;
     let out = pad_right 8 name @ '' '' @ (if flags AND 1 \<noteq> 0 then ''UP  '' else ''DOWN'') @ ''  '' @
               pad_left 40 (inet_ntoa addr) @ ''/'' @ pad_right 4 (show_nat prefixLength) @
               ''0x'' @ hex8 flags @ '' '';
     h \<leftarrow> ifc_get_hwaddr K name;
     ret (case h of
         None \<Rightarrow> out @ newline
       | Some hwbuf \<Rightarrow> out @ concat (map (\<lambda>b. hex2 b @ '':'') (take (ETH_ALEN_n - 1) hwbuf)) @
           hex2 (hwbuf ! (ETH_ALEN_n - 1)) @ newline)
   }"

fun dump_entries :: "'k sys \<Rightarrow> string list \<Rightarrow> ('k net, string) state" where
  "dump_entries K [] = ret ''''"
| "dump_entries K (d # ds) =
     (if take 1 d = ''.'' then dump_entries K ds
      else do {
        out \<leftarrow> dump_interface K d;
        rest \<leftarrow> dump_entries K ds;
        ret (out @ rest)
      })"

definition dump_interfaces :: "'k sys \<Rightarrow> string list option \<Rightarrow> ('k net, int \<times> string) state" where
  "dump_interfaces K entries = (case entries of
       None \<Rightarrow> ret (-1, '''')
     | Some ds \<Rightarrow> do { out \<leftarrow> dump_entries K ds; ret (0, out) })"

section \<open>Commands\<close>

datatype cmd = Do_dhcp | Ifc_up | Ifc_down | Flhosts | Deldefault | Set_hwaddr

definition CMDS :: "(string \<times> nat \<times> cmd) list" where
  "CMDS = [(''dhcp'', 1, Do_dhcp), (''up'', 1, Ifc_up), (''down'', 1, Ifc_down), (''flhosts'', 1, Flhosts),
           (''deldefault'', 1, Deldefault), (''hwaddr'', 2, Set_hwaddr)]"

definition set_hwaddr :: "'k sys \<Rightarrow> (string \<Rightarrow> bytes option) \<Rightarrow> string \<Rightarrow> string \<Rightarrow> ('k net, int \<times> string) state" where
  "set_hwaddr K ether_aton name asc = (case ether_aton asc of
       None \<Rightarrow> ret (-1, ''Failed to parse '' @ [CHR 0x27] @ asc @ [CHR 0x27] @ newline)
     | Some addr \<Rightarrow> do { r \<leftarrow> ifc_set_hwaddr K name addr; ret (r, '''') })"

text \<open>The value of a command, the text it prints, and \<open>last_good_info\<close> after it.\<close>

type_synonym cmd_result = "(int \<times> string \<times> dhcp_info) exec"

definition lift_cmd :: "dhcp_info \<Rightarrow> ('k net, int) state \<Rightarrow> ('k net, cmd_result) state" where
  "lift_cmd lgi m = do { r \<leftarrow> m; ret (Returns (r, '''', lgi)) }"

definition call_func :: "'k sys \<Rightarrow> 'k pkt_sys \<Rightarrow> (string \<Rightarrow> bytes option) \<Rightarrow> nat \<Rightarrow> dhcp_info \<Rightarrow>
    cmd \<Rightarrow> nat \<Rightarrow> string list \<Rightarrow> ('k net, cmd_result) state" where
  "call_func K P ether_aton fuel lgi func nargs args =
     (if nargs = 1 then
        (case func of
           Do_dhcp \<Rightarrow> do {
             x \<leftarrow> do_dhcp K P lgi fuel (args ! 0);
             ret (case x of Returns (r, lgi) \<Rightarrow> Returns (r, '''', lgi) | OutOfFuel \<Rightarrow> OutOfFuel | Fault \<Rightarrow> Fault)
           }
         | Ifc_up \<Rightarrow> lift_cmd lgi (ifc_up K (args ! 0))
         | Ifc_down \<Rightarrow> lift_cmd lgi (ifc_down K (args ! 0))
         | Flhosts \<Rightarrow> lift_cmd lgi (ifc_remove_host_routes K (args ! 0))
         | Deldefault \<Rightarrow> lift_cmd lgi (ifc_remove_default_route K (args ! 0))
         | Set_hwaddr \<Rightarrow> ret Fault)
      else if nargs = 2 then
        (case func of
           Set_hwaddr \<Rightarrow> do {
             (r, out) \<leftarrow> set_hwaddr K ether_aton (args ! 0) (args ! 1);
             ret (Returns (r, out, lgi))
           }
         | _ \<Rightarrow> ret Fault)
      else ret (Returns (-1, '''', lgi)))"

definition find_cmd :: "string \<Rightarrow> (string \<times> nat \<times> cmd) option" where
  "find_cmd name = find (\<lambda>c. name = fst c) CMDS"

lemma find_cmd_nargs: "find_cmd name = Some (cname, nargs, func) \<Longrightarrow> nargs = (if func = Set_hwaddr then 2 else 1)"
  by (auto simp: find_cmd_def CMDS_def split: if_splits)

text \<open>The \<open>while\<close> loop; \<open>exit (1)\<close> is the value 1, with the socket closed or, in \<open>usage\<close>, not.\<close>

function cmd_loop :: "'k sys \<Rightarrow> 'k pkt_sys \<Rightarrow> (string \<Rightarrow> bytes option) \<Rightarrow> nat \<Rightarrow> dhcp_info \<Rightarrow>
    string \<Rightarrow> string list \<Rightarrow> ('k net, (int \<times> string) exec) state" where
  "cmd_loop K P ether_aton fuel lgi iname [] = do { _ \<leftarrow> ifc_close K; ret (Returns (0, '''')) }"
| "cmd_loop K P ether_aton fuel lgi iname (arg # args) =
     (case find_cmd arg of
        None \<Rightarrow> ret (Returns (1, ''''))
      | Some (cmdname, nargs, func) \<Rightarrow>
          if length (arg # args) < nargs then do { _ \<leftarrow> ifc_close K; ret (Returns (1, '''')) }
          else do {
            x \<leftarrow> call_func K P ether_aton fuel lgi func nargs (iname # args);
            case x of OutOfFuel \<Rightarrow> ret OutOfFuel | Fault \<Rightarrow> ret Fault
            | Returns (r, out, lgi) \<Rightarrow>
                if r \<noteq> 0 then do { _ \<leftarrow> ifc_close K; ret (Returns (1, out)) }
                else do {
                  y \<leftarrow> cmd_loop K P ether_aton fuel lgi iname (drop nargs (arg # args));
                  ret (case y of Returns (r, rest) \<Rightarrow> Returns (r, out @ rest) | z \<Rightarrow> z)
                }
          })"
  by pat_completeness auto
termination
  by (relation "measure (\<lambda>(K, P, e, f, l, i, args). length args)")
    (auto dest: find_cmd_nargs)

definition netcfg_main :: "'k sys \<Rightarrow> 'k pkt_sys \<Rightarrow> (string \<Rightarrow> bytes option) \<Rightarrow> string list option \<Rightarrow> nat \<Rightarrow>
    dhcp_info \<Rightarrow> string list \<Rightarrow> ('k net, (int \<times> string) exec) state" where
  "netcfg_main K P ether_aton entries fuel lgi args = do {
     r \<leftarrow> ifc_init K;
     if r \<noteq> 0 then ret (Returns (1, ''''))
     else if args = [] then do {
       (result, out) \<leftarrow> dump_interfaces K entries;
       _ \<leftarrow> ifc_close K;
       ret (Returns (result, out))
     }
     else if length args < 2 then ret (Returns (1, ''''))
     else if length (hd args) > 16 then ret (Returns (1, ''''))
     else cmd_loop K P ether_aton fuel lgi (hd args) (tl args)
   }"

section \<open>Control socket\<close>

lemma find_cmd_simps:
  "find_cmd ''dhcp'' = Some (''dhcp'', 1, Do_dhcp)" "find_cmd ''up'' = Some (''up'', 1, Ifc_up)"
  "find_cmd ''down'' = Some (''down'', 1, Ifc_down)" "find_cmd ''flhosts'' = Some (''flhosts'', 1, Flhosts)"
  "find_cmd ''deldefault'' = Some (''deldefault'', 1, Deldefault)"
  "find_cmd ''hwaddr'' = Some (''hwaddr'', 2, Set_hwaddr)"
  by (simp_all add: find_cmd_def CMDS_def)

text \<open>Whatever the commands do, when they all succeed the socket is closed at the end.\<close>

lemma cmd_loop_closed:
  "run_state (cmd_loop K P ether_aton fuel lgi iname args) s = (Returns (0, out), t) \<Longrightarrow> ifc_ctl_sock t = -1"
proof (induction K P ether_aton fuel lgi iname args arbitrary: s t out rule: cmd_loop.induct)
  case (1 K P ether_aton fuel lgi iname)
  then show ?case using ifc_close_closed [of K s] by (auto split: prod.splits)
next
  case (2 K P ether_aton fuel lgi iname arg args)
  show ?case
  proof (cases "find_cmd arg")
    case None
    then show ?thesis using "2.prems" by simp
  next
    case (Some c)
    obtain cname nargs func where c: "c = (cname, nargs, func)" by (cases c) auto
    show ?thesis
    proof (cases "length (arg # args) < nargs")
      case True
      then show ?thesis using "2.prems" Some c by (simp split: prod.splits)
    next
      case False
      obtain x u where x: "run_state (call_func K P ether_aton fuel lgi func nargs (iname # args)) s = (x, u)"
        by fastforce
      show ?thesis
      proof (cases x)
        case (Returns z)
        obtain r o1 l where z: "z = (r, o1, l)" by (cases z) auto
        show ?thesis
        proof (cases "r = 0")
          case True
          obtain y v where y: "run_state (cmd_loop K P ether_aton fuel l iname (drop nargs (arg # args))) u = (y, v)"
            by fastforce
          have "run_state (cmd_loop K P ether_aton fuel lgi iname (arg # args)) s =
              ((case y of Returns (r, rest) \<Rightarrow> Returns (r, o1 @ rest) | z \<Rightarrow> z), v)"
            using False Some c x Returns z True y by (simp only: cmd_loop.simps) simp
          then obtain rest where "y = Returns (0, rest)" "v = t"
            using "2.prems" by (cases y) auto
          then show ?thesis
            using "2.IH" [OF Some c [symmetric] refl False _ _] True y by (metis (no_types))
        next
          case False
          then show ?thesis using "2.prems" \<open>\<not> length (arg # args) < nargs\<close> Some c x Returns z
            by (simp split: prod.splits)
        qed
      qed (use "2.prems" False Some c x in simp_all)
    qed
  qed
qed

section \<open>Properties\<close>

definition no_packets :: "'k pkt_sys" where
  "no_packets = \<lparr>pk_clock = (\<lambda>k. (None, k)), pk_socket = (\<lambda>k. (-1, k)), pk_bind = (\<lambda>fd a k. (0, k)),
     pk_poll = (\<lambda>fd t k. (Inr 0, k)), pk_read = (\<lambda>fd k. (Inl 9, k)), pk_send = (\<lambda>fd f k. (Inl 9, k)),
     pk_packet = (\<lambda>k. replicate 1288 0), pk_locals = (\<lambda>k. witness_client)\<rparr>"

lemma cmd_fails:
  assumes "find_cmd arg = Some (cname, nargs, func)" and "nargs \<le> length (arg # args)"
    and "run_state (call_func K P ether_aton fuel lgi func nargs (iname # args)) s = (Returns (r, out, l), u)"
    and "r \<noteq> 0"
  shows "fst (run_state (cmd_loop K P ether_aton fuel lgi iname (arg # args)) s) = Returns (1, out)"
  using assms by (simp split: prod.split)

lemma cmd_succeeds:
  assumes "find_cmd arg = Some (cname, nargs, func)" and "nargs \<le> length (arg # args)"
    and "run_state (call_func K P ether_aton fuel lgi func nargs (iname # args)) s = (Returns (0, out, l), u)"
    and "fst (run_state (cmd_loop K P ether_aton fuel l iname (drop nargs (arg # args))) u) = Returns (r, rest)"
  shows "fst (run_state (cmd_loop K P ether_aton fuel lgi iname (arg # args)) s) = Returns (r, out @ rest)"
proof -
  obtain v where "run_state (cmd_loop K P ether_aton fuel l iname (drop nargs (arg # args))) u = (Returns (r, rest), v)"
    using assms(4) by (cases "run_state (cmd_loop K P ether_aton fuel l iname (drop nargs (arg # args))) u") auto
  then show ?thesis using assms(1-3) by simp
qed

text \<open>\<^verbatim>\<open>netcfg IFACE deldefault up\<close> cannot succeed: the first command closes the control socket
  that \<open>main\<close> opened for all of them, the second makes its request on the descriptor -1, and the
  tool exits with 1, even if every system call on a valid socket succeeds.\<close>

theorem netcfg_deldefault_up_fails:
  assumes ebadf: "\<And>req ifr k. \<exists>e k'. sys_ioctl_if K (-1) req ifr k = (Inl e, k')"
    and "socks_ok s"
  shows "fst (run_state (netcfg_main K P ether_aton entries fuel lgi [iname, ''deldefault'', ''up'']) s) =
    Returns (1, '''')"
proof -
  have up: "fst (run_state (cmd_loop K P ether_aton fuel lgi iname [''up'']) u) = Returns (1, '''')"
    if "ifc_ctl_sock u = -1" for u
  proof -
    obtain e k' where "sys_ioctl_if K (-1) SIOCGIFFLAGS (ifc_init_ifr iname) (kst u) = (Inl e, k')"
      using ebadf by blast
    then have "fst (run_state (ifc_up K iname) u) = -1"
      using that by (simp add: ifc_up_def ifc_set_flags_def ioctl_if_def run_simps)
    then have "\<exists>v. run_state (ifc_up K iname) u = (-1, v)" by (cases "run_state (ifc_up K iname) u") simp
    then obtain v where "run_state (call_func K P ether_aton fuel lgi Ifc_up 1 [iname]) u = (Returns (-1, '''', lgi), v)"
      by (auto simp: call_func_def lift_cmd_def)
    then show ?thesis
      using cmd_fails [OF find_cmd_simps(2), of "[]" K P ether_aton fuel lgi iname u "-1" "''''" lgi v] by simp
  qed
  have both: "fst (run_state (cmd_loop K P ether_aton fuel lgi iname [''deldefault'', ''up'']) u) = Returns (1, '''')"
    if ok: "socks_ok u" for u
  proof -
    obtain r v where r: "run_state (ifc_remove_default_route K iname) u = (r, v)" by fastforce
    have v: "ifc_ctl_sock v = -1" using rdr.closed_after [OF ok r] by simp
    have c: "run_state (call_func K P ether_aton fuel lgi Deldefault 1 [iname, ''up'']) u = (Returns (r, '''', lgi), v)"
      using r by (simp add: call_func_def lift_cmd_def)
    show ?thesis
    proof (cases "r = 0")
      case True
      then show ?thesis
        using cmd_succeeds [OF find_cmd_simps(5), of "[''up'']" K P ether_aton fuel lgi iname u "''''" lgi v 1 "''''"]
          c up [OF v] by simp
    next
      case False
      then show ?thesis
        using cmd_fails [OF find_cmd_simps(5), of "[''up'']" K P ether_aton fuel lgi iname u r "''''" lgi v] c by simp
    qed
  qed
  obtain r u where u: "run_state (ifc_init K) s = (r, u)" by fastforce
  have "socks_ok u" using keepsD [OF keeps_ifc_init assms(2), of K] u by simp
  then show ?thesis
    using both [of u] u by (simp add: netcfg_main_def del: cmd_loop.simps)
qed

theorem netcfg_deldefault_up_fails_witness:
  "fst (run_state (netcfg_main (logging_sys NoFile [] (\<lambda>_. '''')) no_packets (\<lambda>_. None) None 0 zero_info
      [''wlan0'', ''deldefault'', ''up'']) (closed_net [])) = Returns (1, '''')"
  by (rule netcfg_deldefault_up_fails) (simp_all add: socks_ok_def closed_net_def)

text \<open>A command line that is empty, lacks a command, names a longer interface than 16
  characters or starts with an unknown command does nothing to the network: no request is made,
  and all but the first exit with 1.\<close>

theorem netcfg_bad_usage:
  assumes "args \<noteq> []" and "length args = 1 \<or> 16 < length (hd args) \<or> find_cmd (args ! 1) = None"
    and "run_state (netcfg_main K P ether_aton entries fuel lgi args) s = (x, t)"
    and "run_state (ifc_init K) s = (r, u)"
  shows "x = Returns (1, '''') \<and> t = u"
proof (cases "length args = 1 \<or> 16 < length (hd args)")
  case True
  then show ?thesis using assms by (cases args) (auto simp: netcfg_main_def split: if_splits)
next
  case False
  then obtain a b rest where "args = a # b # rest" using assms(1) by (cases args; cases "tl args") auto
  then show ?thesis using assms False by (auto simp: netcfg_main_def split: if_splits)
qed

theorem netcfg_bad_usage_witness:
  "fst (run_state (netcfg_main (logging_sys NoFile [] (\<lambda>_. '''')) no_packets (\<lambda>_. None) None 0 zero_info
      [''wlan0'', ''fly'']) (closed_net [])) = Returns (1, '''')"
proof -
  let ?m = "netcfg_main (logging_sys NoFile [] (\<lambda>_. '''')) no_packets (\<lambda>_. None) None 0 zero_info [''wlan0'', ''fly'']"
  obtain x t where x: "run_state ?m (closed_net []) = (x, t)" by fastforce
  obtain r u where u: "run_state (ifc_init (logging_sys NoFile [] (\<lambda>_. ''''))) (closed_net []) = (r, u)" by fastforce
  show ?thesis
    using netcfg_bad_usage [OF _ _ x u] x by (simp add: find_cmd_def CMDS_def)
qed

end
