(* ===== verification/Netctl.thy ===== *)
theory Netctl
  imports Netcfg
begin

text \<open>
  The descriptors of the control sockets, through a whole run of \<^verbatim>\<open>netcfg\<close>. The kernel is a parameter, so
  what the program relies on is stated of it: the sets of open control sockets of the two families
  are a function of the kernel's state, \<open>socket\<close> adds a new descriptor to one of them, \<open>close\<close> takes
  the descriptor out, and the other calls leave them alone. Every operation the tool calls is shown
  to keep the invariant that the open control sockets are those there were at the start and the
  one \<open>ifc_ctl_sock\<close> holds.
\<close>

section \<open>What the program relies on\<close>

definition leaves :: "('k \<Rightarrow> sock_domain \<Rightarrow> int set) \<Rightarrow> ('k \<Rightarrow> 'a \<times> 'k) \<Rightarrow> bool" where
  "leaves ctl f \<longleftrightarrow> (\<forall>k. ctl (snd (f k)) = ctl k)"

definition ctl_sys :: "'k sys \<Rightarrow> ('k \<Rightarrow> sock_domain \<Rightarrow> int set) \<Rightarrow> bool" where
  "ctl_sys K ctl \<longleftrightarrow>
     (\<forall>k d fd. fd \<in> ctl k d \<longrightarrow> 0 \<le> fd) \<and>
     (\<forall>d k. case sys_socket K d k of
        (Inl e, k') \<Rightarrow> ctl k' = ctl k
      | (Inr n, k') \<Rightarrow> (\<forall>d'. int n \<notin> ctl k d') \<and> ctl k' = (ctl k)(d := insert (int n) (ctl k d))) \<and>
     (\<forall>fd k d. ctl (sys_close K fd k) d = ctl k d - {fd}) \<and>
     (\<forall>fd req ifr. leaves ctl (sys_ioctl_if K fd req ifr)) \<and>
     (\<forall>fd req rt. leaves ctl (sys_ioctl_rt K fd req rt)) \<and>
     leaves ctl (sys_proc_route K) \<and>
     (\<forall>key v k. ctl (sys_property_set K key v k) = ctl k)"

text \<open>The packet socket is another kind of socket: its descriptor is none of the control sockets'.\<close>

definition ctl_pkt :: "'k pkt_sys \<Rightarrow> ('k \<Rightarrow> sock_domain \<Rightarrow> int set) \<Rightarrow> bool" where
  "ctl_pkt P ctl \<longleftrightarrow> leaves ctl (pk_clock P) \<and> leaves ctl (pk_socket P) \<and>
     (\<forall>k d. fst (pk_socket P k) \<notin> ctl (snd (pk_socket P k)) d) \<and>
     (\<forall>fd a. leaves ctl (pk_bind P fd a)) \<and> (\<forall>fd tm. leaves ctl (pk_poll P fd tm)) \<and>
     (\<forall>fd. leaves ctl (pk_read P fd)) \<and> (\<forall>fd f. leaves ctl (pk_send P fd f))"

section \<open>The invariant\<close>

definition ctl_inv :: "('k \<Rightarrow> sock_domain \<Rightarrow> int set) \<Rightarrow> (sock_domain \<Rightarrow> int set) \<Rightarrow> int \<Rightarrow> 'k net \<Rightarrow> bool" where
  "ctl_inv ctl base c6 s \<longleftrightarrow> (\<forall>d. ifc_ctl_sock s \<notin> base d) \<and> ifc_ctl_sock6 s = c6 \<and>
     ctl (kst s) = base(AF_INET := base AF_INET \<union> ({ifc_ctl_sock s} - {-1}))"

lemma ctl_inv_start:
  "ctl_sys K ctl \<Longrightarrow> ifc_ctl_sock s = -1 \<Longrightarrow> ctl_inv ctl (ctl (kst s)) (ifc_ctl_sock6 s) s"
  by (fastforce simp: ctl_inv_def ctl_sys_def)

lemma ctl_inv_end: "ctl_inv ctl base c6 t \<Longrightarrow> ifc_ctl_sock t = -1 \<Longrightarrow> ctl (kst t) = base \<and> ifc_ctl_sock6 t = c6"
  by (simp add: ctl_inv_def)

lemma keeps_leaves:
  "leaves ctl f \<Longrightarrow> keeps (world f) (ctl_inv ctl base c6)"
  "leaves ctl g \<Longrightarrow> keeps (syscall g) (ctl_inv ctl base c6)"
  by (simp_all add: keeps_def ctl_inv_def leaves_def run_simps)

lemma ctl_sys_socket:
  assumes "ctl_sys K ctl"
  shows "case sys_socket K d k of
      (Inl e, k') \<Rightarrow> ctl k' = ctl k
    | (Inr n, k') \<Rightarrow> (\<forall>d'. int n \<notin> ctl k d') \<and> ctl k' = (ctl k)(d := insert (int n) (ctl k d))"
  by (rule assms [unfolded ctl_sys_def, THEN conjunct2, THEN conjunct1, THEN spec [of _ d], THEN spec [of _ k]])

lemma ctl_init:
  assumes "ctl_sys K ctl"
  shows "keeps (ifc_init K) (ctl_inv ctl base c6)"
  unfolding keeps_def
proof (intro allI impI)
  fix s
  assume inv: "ctl_inv ctl base c6 s"
  obtain x k' where x: "sys_socket K AF_INET (kst s) = (x, k')" by fastforce
  have law: "case (x, k') of
      (Inl e, k') \<Rightarrow> ctl k' = ctl (kst s)
    | (Inr n, k') \<Rightarrow> (\<forall>d'. int n \<notin> ctl (kst s) d') \<and>
        ctl k' = (ctl (kst s))(AF_INET := insert (int n) (ctl (kst s) AF_INET))"
    using ctl_sys_socket [OF assms, where d = AF_INET and k = "kst s"] unfolding x .
  show "ctl_inv ctl base c6 (snd (run_state (ifc_init K) s))"
  proof (cases "ifc_ctl_sock s = -1")
    case True
    then have c: "ctl (kst s) = base" using inv by (simp add: ctl_inv_def)
    show ?thesis
    proof (cases x)
      case (Inl e)
      then have "ctl k' = ctl (kst s)" using law by simp
      then show ?thesis using True x Inl inv by (simp add: ifc_init_def run_simps rc_def ctl_inv_def)
    next
      case (Inr n)
      then have "(\<forall>d. int n \<notin> base d) \<and> ctl k' = base(AF_INET := insert (int n) (base AF_INET))"
        using law c by simp
      then show ?thesis using True x Inr inv by (simp add: ifc_init_def run_simps rc_def ctl_inv_def)
    qed
  next
    case False
    then show ?thesis using inv by (simp add: ifc_init_def run_simps)
  qed
qed

lemma ctl_close:
  assumes "ctl_sys K ctl"
  shows "keeps (ifc_close K) (ctl_inv ctl base c6)"
  unfolding keeps_def
proof (intro allI impI)
  fix s
  assume inv: "ctl_inv ctl base c6 s"
  have "ctl (sys_close K fd (kst s)) d = ctl (kst s) d - {fd}" for fd d
    using assms by (simp add: ctl_sys_def)
  moreover have "-1 \<notin> base d" for d
  proof -
    have "base d \<subseteq> ctl (kst s) d" using inv by (auto simp: ctl_inv_def)
    then show ?thesis using assms by (fastforce simp: ctl_sys_def)
  qed
  ultimately show "ctl_inv ctl base c6 (snd (run_state (ifc_close K) s))"
    using inv by (auto simp: ifc_close_def run_simps ctl_inv_def fun_eq_iff)
qed

lemma ctl_ioctl:
  assumes "ctl_sys K ctl"
  shows "keeps (ioctl_if K req ifr) (ctl_inv ctl base c6)" "keeps (ioctl_rt K rreq rt) (ctl_inv ctl base c6)"
  using assms unfolding ioctl_if_def ioctl_rt_def ctl_sys_def by (intro keeps_intros keeps_leaves; blast)+

lemma ctl_files:
  assumes "ctl_sys K ctl"
  shows "keeps (world (sys_proc_route K)) (ctl_inv ctl base c6)"
    "keeps (world (\<lambda>k. ((), sys_property_set K key v k))) (ctl_inv ctl base c6)"
  using assms unfolding ctl_sys_def by (simp_all add: keeps_leaves leaves_def)

lemmas ctl_calls = ctl_init ctl_close ctl_ioctl ctl_files

section \<open>The operations of \<^verbatim>\<open>ifc_utils.c\<close>\<close>

lemma ctl_ops:
  assumes "ctl_sys K ctl"
  shows "keeps (ifc_set_flags K name st clr) (ctl_inv ctl base c6)"
    "keeps (ifc_set_addr K name a) (ctl_inv ctl base c6)" "keeps (ifc_set_hwaddr K name hw) (ctl_inv ctl base c6)"
    "keeps (ifc_set_prefixLength K name p) (ctl_inv ctl base c6)"
    "keeps (ifc_get_info K name w1 w2 w3) (ctl_inv ctl base c6)"
    "keeps (ifc_get_hwaddr K name) (ctl_inv ctl base c6)" "keeps (ifc_get_ifindex K name) (ctl_inv ctl base c6)"
  unfolding op_defs ifc_set_flags_def by (intro keeps_intros ctl_calls [OF assms])+

lemma ctl_up_down:
  assumes "ctl_sys K ctl"
  shows "keeps (ifc_up K name) (ctl_inv ctl base c6)" "keeps (ifc_down K name) (ctl_inv ctl base c6)"
  unfolding ifc_up_def ifc_down_def by (rule ctl_ops [OF assms])+

lemma ctl_remove_rows:
  assumes "ctl_sys K ctl"
  shows "keeps (remove_rows K name rows) (ctl_inv ctl base c6)"
  by (induction rows) (auto intro!: keeps_intros ctl_calls [OF assms])

lemma ctl_routes:
  assumes "ctl_sys K ctl"
  shows "keeps (ifc_create_default_route K name gw) (ctl_inv ctl base c6)"
    "keeps (ifc_remove_default_route K name) (ctl_inv ctl base c6)"
    "keeps (ifc_remove_host_routes K name) (ctl_inv ctl base c6)"
  unfolding ifc_create_default_route_def ifc_act_on_ipv4_route_def ifc_remove_default_route_def
    ifc_remove_host_routes_def
  by (intro keeps_intros ctl_calls [OF assms] ctl_remove_rows [OF assms])+

lemma ctl_configure:
  assumes "ctl_sys K ctl"
  shows "keeps (ifc_configure K name a p g d1 d2) (ctl_inv ctl base c6)"
  unfolding ifc_configure_def
  by (intro keeps_intros ctl_calls [OF assms] ctl_ops [OF assms] ctl_up_down [OF assms] ctl_routes [OF assms])

section \<open>The client\<close>

text \<open>While the client runs its socket \<open>fd\<close> is none of the control sockets.\<close>

definition raw_inv :: "('k \<Rightarrow> sock_domain \<Rightarrow> int set) \<Rightarrow> (sock_domain \<Rightarrow> int set) \<Rightarrow> int \<Rightarrow> int \<Rightarrow> 'k net \<Rightarrow> bool" where
  "raw_inv ctl base c6 fd s \<longleftrightarrow> ctl_inv ctl base c6 s \<and> (\<forall>d. fd \<notin> ctl (kst s) d)"

lemma raw_same:
  assumes "raw_inv ctl base c6 fd s" and "ctl (kst t) = ctl (kst s)"
    and "ifc_ctl_sock t = ifc_ctl_sock s" and "ifc_ctl_sock6 t = ifc_ctl_sock6 s"
  shows "raw_inv ctl base c6 fd t"
  using assms(1) unfolding raw_inv_def ctl_inv_def assms(2-4) .

lemma raw_leaves:
  "leaves ctl f \<Longrightarrow> keeps (world f) (raw_inv ctl base c6 fd)"
  "leaves ctl g \<Longrightarrow> keeps (syscall g) (raw_inv ctl base c6 fd)"
  "keeps (set_errno e) (raw_inv ctl base c6 fd)"
  unfolding keeps_def by (intro allI impI; erule raw_same; simp add: leaves_def run_simps)+

lemma raw_next_event:
  assumes "ctl_pkt P ctl"
  shows "keeps (next_event P s timeout) (raw_inv ctl base c6 fd)"
  unfolding next_event_def
  by (intro keeps_intros raw_leaves) (use assms in \<open>auto simp: ctl_pkt_def leaves_def\<close>)

lemma raw_send_frames:
  assumes "ctl_pkt P ctl"
  shows "keeps (send_frames P s fs) (raw_inv ctl base c6 fd)"
proof (induction fs)
  case (Cons f fs)
  then show ?case unfolding send_frames.simps
    by (intro keeps_intros raw_leaves) (use assms in \<open>auto simp: ctl_pkt_def\<close>)
qed (simp add: keeps_intros)

lemma raw_finish:
  assumes "ctl_sys K ctl" and "raw_inv ctl base c6 s t"
  shows "ctl_inv ctl base c6 (snd (run_state (dhcp_finish K iname s lgi info e) t))"
proof -
  have cl: "ctl_inv ctl base c6 (u\<lparr>kst := sys_close K s (kst u)\<rparr>)" if "raw_inv ctl base c6 s u" for u
  proof -
    have "ctl (sys_close K s (kst u)) = ctl (kst u)"
      using that assms(1) by (simp add: raw_inv_def ctl_sys_def fun_eq_iff)
    then have "raw_inv ctl base c6 s (u\<lparr>kst := sys_close K s (kst u)\<rparr>)" by (intro raw_same [OF that]) simp_all
    then show ?thesis by (simp add: raw_inv_def)
  qed
  have conf: "ctl_inv ctl base c6 (snd (run_state (dhcp_configure K iname info) u))" if "ctl_inv ctl base c6 u" for u
    by (rule keepsD [where Q = "ctl_inv ctl base c6", OF _ that], unfold dhcp_configure_def, intro keeps_intros ctl_configure [OF assms(1)])
  have inv: "ctl_inv ctl base c6 t" using assms(2) by (simp add: raw_inv_def)
  show ?thesis
  proof (cases e)
    case TimedOut
    have "raw_inv ctl base c6 s (t\<lparr>errno := ETIME\<rparr>)" by (rule raw_same [OF assms(2)]) simp_all
    then show ?thesis using cl [of "t\<lparr>errno := ETIME\<rparr>"] TimedOut by (simp add: dhcp_finish_def run_simps)
  qed (use cl [OF assms(2)] conf inv in \<open>simp_all add: dhcp_finish_def run_simps\<close>)
qed

lemma raw_poll_loop:
  assumes "ctl_sys K ctl" and "ctl_pkt P ctl"
  shows "raw_inv ctl base c6 s t \<Longrightarrow>
    ctl_inv ctl base c6 (snd (run_state (dhcp_poll_loop K P iname hwaddr if_index s lgi fuel c) t))"
proof (induction fuel arbitrary: c t)
  case 0
  then show ?case by (simp add: raw_inv_def)
next
  case (Suc fuel)
  obtain ev t1 where ev: "run_state (next_event P s (cl_timeout c)) t = (ev, t1)" by fastforce
  have t1: "raw_inv ctl base c6 s t1"
    using keepsD [OF raw_next_event [OF assms(2)] Suc.prems] ev by (metis snd_conv)
  show ?case
  proof (cases "dhcp_step hwaddr if_index c ev")
    case None
    then show ?thesis using ev t1 by (simp add: raw_inv_def)
  next
    case (Some y)
    obtain fs c1 e where y: "y = (fs, c1, e)" by (cases y)
    obtain t2 where t2: "run_state (send_frames P s fs) t1 = ((), t2)"
      by (cases "run_state (send_frames P s fs) t1") auto
    have r2: "raw_inv ctl base c6 s t2"
      using keepsD [OF raw_send_frames [OF assms(2)] t1] t2 by (metis snd_conv)
    show ?thesis
    proof (cases e)
      case None
      then show ?thesis using ev Some y t2 Suc.IH [OF r2] by simp
    next
      case fin: (Some e1)
      then show ?thesis using ev Some y t2 raw_finish [OF assms(1) r2, of iname lgi "cl_info c1" e1]
        by (cases "run_state (dhcp_finish K iname s lgi (cl_info c1) e1) t2") (simp split: prod.split)
    qed
  qed
qed

lemma raw_socket:
  assumes "ctl_sys K ctl" and "ctl_pkt P ctl" and "ctl_inv ctl base c6 t"
    and "run_state (world (open_raw_socket (pk_socket P) (pk_bind P) hwaddr if_index)) t = (s, u)"
  shows "raw_inv ctl base c6 s u"
proof -
  obtain fd k1 where s: "pk_socket P (kst t) = (fd, k1)" by fastforce
  obtain r k2 where b: "pk_bind P fd (bind_address hwaddr if_index) k1 = (r, k2)" by fastforce
  have k1: "ctl k1 = ctl (kst t)" "fd \<notin> ctl k1 d" for d
    using assms(2) s by (auto simp: ctl_pkt_def leaves_def dest!: spec [of _ "kst t"])
  have k2: "ctl k2 = ctl k1" using assms(2) b by (auto simp: ctl_pkt_def leaves_def) (metis snd_conv)
  have neg: "-1 \<notin> ctl k d" for k d using assms(1) by (fastforce simp: ctl_sys_def)
  show ?thesis
    using assms(3,4) s b k1 k2 neg
    by (auto simp: open_raw_socket_def run_world raw_inv_def ctl_inv_def Let_def split: if_splits)
qed

lemma keeps_option:
  "keeps a Q \<Longrightarrow> (\<And>x. keeps (g x) Q) \<Longrightarrow> keeps (case h of None \<Rightarrow> a | Some x \<Rightarrow> g x) Q"
  by (cases h) simp_all

lemma ctl_do_dhcp:
  assumes "ctl_sys K ctl" and "ctl_pkt P ctl"
  shows "keeps (do_dhcp K P lgi fuel iname) (ctl_inv ctl base c6)"
proof -
  let ?Q = "ctl_inv ctl base c6"
  have clock: "keeps (world (pk_clock P)) ?Q" by (rule keeps_leaves) (use assms(2) in \<open>simp add: ctl_pkt_def\<close>)
  have client: "keeps (do {
       s \<leftarrow> world (open_raw_socket (pk_socket P) (pk_bind P) hwaddr if_index);
       junk \<leftarrow> world (\<lambda>k. (pk_locals P k, k));
       case dhcp_start hwaddr if_index xid junk of None \<Rightarrow> ret Fault
       | Some (fs, c) \<Rightarrow> do {
           _ \<leftarrow> send_frames P s fs;
           dhcp_poll_loop K P iname hwaddr if_index s lgi fuel c
         }
     }) ?Q" for hwaddr if_index xid
    unfolding keeps_def
  proof (intro allI impI)
    fix t
    assume that: "?Q t"
    obtain s u where u: "run_state (world (open_raw_socket (pk_socket P) (pk_bind P) hwaddr if_index)) t = (s, u)"
      by fastforce
    have ru: "raw_inv ctl base c6 s u" by (rule raw_socket [OF assms that u])
    show "?Q (snd (run_state (do {
       s \<leftarrow> world (open_raw_socket (pk_socket P) (pk_bind P) hwaddr if_index);
       junk \<leftarrow> world (\<lambda>k. (pk_locals P k, k));
       case dhcp_start hwaddr if_index xid junk of None \<Rightarrow> ret Fault
       | Some (fs, c) \<Rightarrow> do {
           _ \<leftarrow> send_frames P s fs;
           dhcp_poll_loop K P iname hwaddr if_index s lgi fuel c
         }
     }) t))"
    proof (cases "dhcp_start hwaddr if_index xid (pk_locals P (kst u))")
      case None
      then show ?thesis using u ru by (simp add: run_world [where f = "\<lambda>k. (pk_locals P k, k)"] raw_inv_def)
    next
      case (Some z)
      obtain fs c where z: "z = (fs, c)" by (cases z)
      obtain v where v: "run_state (send_frames P s fs) u = ((), v)"
        by (cases "run_state (send_frames P s fs) u") auto
      have "raw_inv ctl base c6 s v"
        using keepsD [OF raw_send_frames [OF assms(2)] ru] v by (metis snd_conv)
      from raw_poll_loop [OF assms this] show ?thesis
        using u v Some z by (simp add: run_world [where f = "\<lambda>k. (pk_locals P k, k)"])
    qed
  qed
  have init: "keeps (dhcp_init_ifc K P lgi fuel iname) ?Q"
    unfolding dhcp_init_ifc_def
    by (rule keeps_bind, rule clock, rule keeps_Let, rule keeps_bind, rule ctl_ops [OF assms(1)],
        rule keeps_option, rule keeps_ret, rule keeps_bind, rule ctl_ops [OF assms(1)],
        rule keeps_option, rule keeps_ret, rule client)
  show ?thesis
    unfolding do_dhcp_def
    by (intro keeps_intros ctl_ops [OF assms(1)] ctl_up_down [OF assms(1)] init)
qed

section \<open>The tool\<close>

lemma keeps_exec:
  "(\<And>r. keeps (f r) Q) \<Longrightarrow> keeps a Q \<Longrightarrow> keeps b Q \<Longrightarrow>
   keeps (case x of Returns r \<Rightarrow> f r | OutOfFuel \<Rightarrow> a | Fault \<Rightarrow> b) Q"
  by (cases x) simp_all

lemma ctl_call_func:
  assumes "ctl_sys K ctl" and "ctl_pkt P ctl"
  shows "keeps (call_func K P ether_aton fuel lgi func nargs args) (ctl_inv ctl base c6)"
  unfolding call_func_def lift_cmd_def set_hwaddr_def
  by (cases func)
    (simp_all only: cmd.case,
     (intro keeps_intros keeps_option ctl_do_dhcp [OF assms] ctl_ops [OF assms(1)] ctl_up_down [OF assms(1)]
       ctl_routes [OF assms(1)])+)

lemma ctl_dump:
  assumes "ctl_sys K ctl"
  shows "keeps (dump_interfaces K entries) (ctl_inv ctl base c6)"
proof -
  have one: "keeps (dump_interface K name) (ctl_inv ctl base c6)" for name
    unfolding dump_interface_def by (intro keeps_intros ctl_ops [OF assms])
  have "keeps (dump_entries K ds) (ctl_inv ctl base c6)" for ds
    by (induction ds) (auto intro!: keeps_intros one)
  then show ?thesis
    unfolding dump_interfaces_def by (intro keeps_intros keeps_option)
qed

lemma ctl_cmd_loop:
  assumes "ctl_sys K ctl" and "ctl_pkt P ctl"
  shows "keeps (cmd_loop K P ether_aton fuel lgi iname args) (ctl_inv ctl base c6)"
proof (induction args arbitrary: lgi rule: length_induct)
  case (1 args)
  show ?case
  proof (cases args)
    case Nil
    then show ?thesis by (simp only: cmd_loop.simps) (intro keeps_intros ctl_close [OF assms(1)])
  next
    case (Cons arg rest)
    have IH: "keeps (cmd_loop K P ether_aton fuel l iname (drop nargs (arg # rest))) (ctl_inv ctl base c6)"
      if "find_cmd arg = Some (cname, nargs, func)" for l cname nargs func
      using 1 find_cmd_nargs [OF that] by (simp add: Cons)
    show ?thesis
      unfolding Cons cmd_loop.simps(2)
    proof (cases "find_cmd arg")
      case (Some c)
      obtain cname nargs func where c: "c = (cname, nargs, func)" by (cases c)
      show "keeps (case find_cmd arg of None \<Rightarrow> ret (Returns (1, ''''))
        | Some (cmdname, nargs, func) \<Rightarrow>
          if length (arg # rest) < nargs then do { _ \<leftarrow> ifc_close K; ret (Returns (1, '''')) }
          else do {
            x \<leftarrow> call_func K P ether_aton fuel lgi func nargs (iname # rest);
            case x of OutOfFuel \<Rightarrow> ret OutOfFuel | Fault \<Rightarrow> ret Fault
            | Returns (r, out, lgi) \<Rightarrow>
                if r \<noteq> 0 then do { _ \<leftarrow> ifc_close K; ret (Returns (1, out)) }
                else do {
                  y \<leftarrow> cmd_loop K P ether_aton fuel lgi iname (drop nargs (arg # rest));
                  ret (case y of Returns (r, rest) \<Rightarrow> Returns (r, out @ rest) | z \<Rightarrow> z)
                }
          }) (ctl_inv ctl base c6)"
        unfolding Some c option.case prod.case
        by (intro keeps_intros keeps_exec ctl_close [OF assms(1)] ctl_call_func [OF assms] IH [OF Some [unfolded c]])
    qed (simp add: keeps_ret)
  qed
qed

lemma ctl_main:
  assumes "ctl_sys K ctl" and "ctl_pkt P ctl"
  shows "keeps (netcfg_main K P ether_aton entries fuel lgi args) (ctl_inv ctl base c6)"
  unfolding netcfg_main_def
  by (intro keeps_intros ctl_init [OF assms(1)] ctl_close [OF assms(1)] ctl_dump [OF assms(1)] ctl_cmd_loop [OF assms])

lemma main_closed:
  assumes "run_state (netcfg_main K P ether_aton entries fuel lgi args) s = (Returns (0, out), t)"
  shows "ifc_ctl_sock t = -1"
proof (cases "args = []")
  case True
  then show ?thesis
    using assms ifc_close_closed [of K] by (auto simp: netcfg_main_def split: prod.splits if_splits) (metis snd_conv)
next
  case False
  then show ?thesis
    using assms by (auto simp: netcfg_main_def intro: cmd_loop_closed split: prod.splits if_splits)
qed

section \<open>The property\<close>

text \<open>C36. When the tool reports success no control socket is left open, whatever the commands on the line
  were and however often they opened and closed it in between: the variable \<open>ifc_ctl_sock\<close> says so,
  and it is so in the kernel. With any kernel in which \<open>socket\<close> and \<open>close\<close> do what they say, the sets
  of open control sockets of both families are after the run what they were before it, so that no
  descriptor leaks and none of somebody else's is closed; the IPv6 socket is not touched.\<close>

theorem netcfg_closes_socket:
  assumes "ctl_sys K ctl" and "ctl_pkt P ctl" and "ifc_ctl_sock s = -1"
    and "run_state (netcfg_main K P ether_aton entries fuel lgi args) s = (Returns (0, out), t)"
  shows "ifc_ctl_sock t = -1 \<and> ifc_ctl_sock6 t = ifc_ctl_sock6 s \<and>
    ctl (kst t) AF_INET = ctl (kst s) AF_INET \<and> ctl (kst t) AF_INET6 = ctl (kst s) AF_INET6"
proof -
  have "ctl_inv ctl (ctl (kst s)) (ifc_ctl_sock6 s) t"
    using keepsD [OF ctl_main [OF assms(1,2)] ctl_inv_start [OF assms(1,3)]] assms(4) by (metis snd_conv)
  then show ?thesis using ctl_inv_end main_closed [OF assms(4)] by (metis (no_types))
qed

text \<open>A kernel whose state is the table of open descriptors: \<open>socket\<close> takes the number after the
  highest one, requests succeed on open descriptors only.\<close>

definition fd_sys :: "(sock_domain \<times> nat) list sys" where
  "fd_sys = \<lparr>
     sys_socket = (\<lambda>d k. let n = Suc (foldr max (map snd k) 2) in (Inr n, (d, n) # k)),
     sys_close = (\<lambda>fd k. filter (\<lambda>e. int (snd e) \<noteq> fd) k),
     sys_ioctl_if = (\<lambda>fd req ifr k. if fd \<in> int ` snd ` set k then (Inr (0, ifr), k) else (Inl 9, k)),
     sys_ioctl_kill6 = (\<lambda>fd k. (Inr 0, k)),
     sys_ioctl_rt = (\<lambda>fd req rt k. if fd \<in> int ` snd ` set k then (Inr 0, k) else (Inl 9, k)),
     sys_ioctl_rt6 = (\<lambda>fd req rt k. (Inr 0, k)),
     sys_nametoindex = (\<lambda>n k. (Inr 2, k)),
     sys_getaddrinfo = (\<lambda>n k. (Inl 0, k)),
     sys_getpid = (\<lambda>k. (100, k)),
     sys_nl_socket = (\<lambda>k. (Inl 1, k)),
     sys_nl_send = (\<lambda>fd req k. (Inl 1, k)),
     sys_nl_recv = (\<lambda>fd k. (Inl 1, k)),
     sys_proc_route = (\<lambda>k. (Rows [], k)),
     sys_proc_inet6 = (\<lambda>k. (Inr [], k)),
     sys_property_set = (\<lambda>key v k. k),
     sys_property_get = (\<lambda>key k. ('''', k)),
     sys_usleep = (\<lambda>n k. k)\<rparr>"

definition fd_ctl :: "(sock_domain \<times> nat) list \<Rightarrow> sock_domain \<Rightarrow> int set" where
  "fd_ctl k d = int ` snd ` set (filter (\<lambda>e. fst e = d) k)"

lemma le_foldr_max: "n \<in> set ns \<Longrightarrow> n \<le> foldr max ns (m :: nat)"
  by (induction ns) auto

lemma fd_ctl_cons: "fd_ctl ((d, n) # k) = (fd_ctl k)(d := insert (int n) (fd_ctl k d))"
  by (rule ext) (auto simp: fd_ctl_def)

lemma fd_kernel: "ctl_sys fd_sys fd_ctl" "ctl_pkt no_packets fd_ctl"
proof -
  have fresh: "int (Suc (foldr max (map snd k) 2)) \<notin> fd_ctl k d" for k d
    using le_foldr_max [of _ "map snd k" 2] by (fastforce simp: fd_ctl_def)
  show "ctl_sys fd_sys fd_ctl"
    unfolding ctl_sys_def leaves_def
  proof (intro conjI allI impI)
    fix d k
    show "case sys_socket fd_sys d k of (Inl e, k') \<Rightarrow> fd_ctl k' = fd_ctl k
      | (Inr n, k') \<Rightarrow> (\<forall>d'. int n \<notin> fd_ctl k d') \<and> fd_ctl k' = (fd_ctl k)(d := insert (int n) (fd_ctl k d))"
      using fresh [of k] by (simp add: fd_sys_def Let_def fd_ctl_cons del: of_nat_Suc)
  qed (auto simp: fd_sys_def fd_ctl_def)
  show "ctl_pkt no_packets fd_ctl"
    by (auto simp: ctl_pkt_def no_packets_def leaves_def fd_ctl_def)
qed

theorem netcfg_closes_socket_witness:
  "\<exists>t. run_state (netcfg_main fd_sys no_packets (\<lambda>_. None) None 0 zero_info [''wlan0'', ''up'', ''flhosts''])
      (closed_net [(AF_INET, 3), (AF_INET6, 4)]) = (Returns (0, ''''), t) \<and> ifc_ctl_sock t = -1 \<and>
     fd_ctl (kst t) AF_INET = {3} \<and> fd_ctl (kst t) AF_INET6 = {4}"
proof -
  let ?s = "closed_net [(AF_INET, 3), (AF_INET6, 4)] :: (sock_domain \<times> nat) list net"
  let ?m = "netcfg_main fd_sys no_packets (\<lambda>_. None) None 0 zero_info [''wlan0'', ''up'', ''flhosts'']"
  obtain t where t: "run_state ?m ?s = (Returns (0, ''''), t)"
    by (simp add: netcfg_main_def ifc_init_def closed_net_def run_simps rc_def find_cmd_simps call_func_def lift_cmd_def
        ifc_up_def ifc_set_flags_def ioctl_if_def Let_def ifc_close_def fd_sys_def ifc_remove_host_routes_def)
  have "ifc_ctl_sock ?s = -1" "fd_ctl (kst ?s) AF_INET = {3}" "fd_ctl (kst ?s) AF_INET6 = {4}"
    by (simp_all add: closed_net_def fd_ctl_def)
  then show ?thesis
    using netcfg_closes_socket [OF fd_kernel _ t] t by simp
qed

end
