(* ===== verification/DhcpUtils.thy ===== *)
theory DhcpUtils
  imports Route
begin

text \<open>
  \<^verbatim>\<open>test_wifi/libnetutils/dhcp_utils.c\<close>: the client daemon driven through system properties. The
  property service and \<open>usleep\<close> are fields of the world; \<open>inet_addr\<close> is a parameter. The output
  arguments and \<open>errmsg\<close> are the record \<open>lease_out\<close>. \<open>None\<close> is the read past the end of the
  interface array that happens when \<open>strncpy\<close> leaves it without a NUL.
\<close>

section \<open>Names and strings\<close>

definition DAEMON_NAME :: string where "DAEMON_NAME = ''dhcpcd''"
definition DAEMON_PROP_NAME :: string where "DAEMON_PROP_NAME = ''init.svc.dhcpcd''"
definition HOSTNAME_PROP_NAME :: string where "HOSTNAME_PROP_NAME = ''net.hostname''"
definition DHCP_PROP_NAME_PREFIX :: string where "DHCP_PROP_NAME_PREFIX = ''dhcp''"
definition DHCP_CONFIG_PATH :: string where "DHCP_CONFIG_PATH = ''/system/etc/dhcpcd/dhcpcd.conf''"
definition NAP_TIME :: nat where "NAP_TIME = 200"
definition DAEMON_NAME_RENEW :: string where "DAEMON_NAME_RENEW = ''iprenew''"
definition MAX_INTERFACE_LENGTH :: nat where "MAX_INTERFACE_LENGTH = 25"
definition ERRMSG_SIZE :: nat where "ERRMSG_SIZE = 100"

definition get_p2p_interface_replacement :: "string \<Rightarrow> string" where
  "get_p2p_interface_replacement interface =
     (if strncmp_eq interface ''p2p'' 3 then strncpy ''p2p'' MAX_INTERFACE_LENGTH
      else strncpy interface MAX_INTERFACE_LENGTH)"

section \<open>Properties of the system\<close>

definition property_get :: "'k sys \<Rightarrow> string \<Rightarrow> ('k net, string) state" where
  "property_get K key = world (sys_property_get K key)"

definition property_set :: "'k sys \<Rightarrow> string \<Rightarrow> string \<Rightarrow> ('k net, unit) state" where
  "property_set K key v = world (\<lambda>k. ((), sys_property_set K key v k))"

fun nap_loop :: "'k sys \<Rightarrow> string \<Rightarrow> string option \<Rightarrow> nat \<Rightarrow> ('k net, int) state" where
  "nap_loop K name desired_value 0 = ret (-1)"
| "nap_loop K name desired_value (Suc maxnaps) = do {
     _ \<leftarrow> world (\<lambda>k. ((), sys_usleep K (NAP_TIME * 1000) k));
     val \<leftarrow> property_get K name;
     if val \<noteq> '''' \<and> (desired_value = None \<or> desired_value = Some val) then ret 0
     else nap_loop K name desired_value maxnaps
   }"

definition wait_for_property :: "'k sys \<Rightarrow> string \<Rightarrow> string option \<Rightarrow> nat \<Rightarrow> ('k net, int) state" where
  "wait_for_property K name desired_value maxwait =
     (let maxnaps = (maxwait * 1000) div NAP_TIME;
          maxnaps = (if maxnaps < 1 then 1 else maxnaps)
      in nap_loop K name desired_value maxnaps)"

section \<open>The result of the daemon\<close>

record lease_out =
  o_ipaddr :: string
  o_gateway :: string
  o_prefixLength :: u32
  o_dns :: "string list"
  o_server :: string
  o_lease :: u32
  o_vendorInfo :: string
  o_domain :: string
  o_errmsg :: string

definition prop_key :: "string \<Rightarrow> string \<Rightarrow> string" where
  "prop_key p2p_interface what =
     snprintf PROPERTY_KEY_MAX (DHCP_PROP_NAME_PREFIX @ ''.'' @ p2p_interface @ ''.'' @ what)"

text \<open>The loop over the 32 positions of the mask: the prefix length, or \<open>None\<close> for -1.\<close>

fun mask_loop :: "nat \<Rightarrow> u32 \<Rightarrow> nat \<Rightarrow> nat option" where
  "mask_loop 0 m p = Some p"
| "mask_loop (Suc n) m p =
     (if m = 0 then Some p
      else if m AND 0x80000000 = 0 then None
      else mask_loop n (push_bit 1 m) (p + 1))"

definition INADDR_NONE :: u32 where "INADDR_NONE = 0xffffffff"

definition mask_prefix :: "(string \<Rightarrow> u32) \<Rightarrow> string \<Rightarrow> nat option" where
  "mask_prefix inet_addr prop_value =
     (let m = ntohl (inet_addr prop_value)
      in if m = INADDR_NONE \<and> prop_value \<noteq> ''255.255.255.255'' then None else mask_loop 32 m 0)"

fun dns_loop :: "'k sys \<Rightarrow> string \<Rightarrow> nat \<Rightarrow> string list \<Rightarrow> ('k net, string list) state" where
  "dns_loop K p2p x [] = ret []"
| "dns_loop K p2p x (_ # dns) = do {
     v \<leftarrow> property_get K (prop_key p2p (''dns'' @ show_nat (x + 1)));
     vs \<leftarrow> dns_loop K p2p (x + 1) dns;
     ret (v # vs)
   }"

definition bad_mask :: "string \<Rightarrow> string" where
  "bad_mask prop_value = snprintf ERRMSG_SIZE (''DHCP gave invalid net mask '' @ prop_value)"

text \<open>\<open>fill_ip_info\<close> after the interface name has been read from its array.\<close>

definition fill_ip_info ::
  "'k sys \<Rightarrow> (string \<Rightarrow> u32) \<Rightarrow> string \<Rightarrow> lease_out \<Rightarrow> ('k net, int \<times> lease_out) state" where
  "fill_ip_info K inet_addr p2p out = do {
     ip \<leftarrow> property_get K (prop_key p2p ''ipaddress'');
     gw \<leftarrow> property_get K (prop_key p2p ''gateway'');
     srv \<leftarrow> property_get K (prop_key p2p ''server'');
     let gw = (if gw = '''' \<or> strncmp_eq gw ''0.0.0.0'' 7 then srv else gw);
     let out = out\<lparr>o_ipaddr := ip, o_gateway := gw, o_server := srv\<rparr>;
     m \<leftarrow> property_get K (prop_key p2p ''mask'');
     if m \<noteq> '''' \<and> mask_prefix inet_addr m = None then ret (-1, out\<lparr>o_errmsg := bad_mask m\<rparr>)
     else do {
       let out = (if m \<noteq> '''' then out\<lparr>o_prefixLength := of_nat (the (mask_prefix inet_addr m))\<rparr> else out);
       dns \<leftarrow> dns_loop K p2p 0 (o_dns out);
       let out = out\<lparr>o_dns := dns\<rparr>;
       l \<leftarrow> property_get K (prop_key p2p ''leasetime'');
       let out = (if l \<noteq> '''' then out\<lparr>o_lease := word_of_int (atol l)\<rparr> else out);
       v \<leftarrow> property_get K (prop_key p2p ''vendorInfo'');
       d \<leftarrow> property_get K (prop_key p2p ''domain'');
       ret (0, out\<lparr>o_vendorInfo := v, o_domain := d\<rparr>)
     }
   }"

section \<open>Requests to the daemon\<close>

definition say :: "lease_out \<Rightarrow> string \<Rightarrow> int \<times> lease_out" where
  "say out msg = (-1, out\<lparr>o_errmsg := snprintf ERRMSG_SIZE msg\<rparr>)"

definition daemon_prop :: "string \<Rightarrow> string" where
  "daemon_prop p2p = snprintf PROPERTY_KEY_MAX (DAEMON_PROP_NAME @ ''_'' @ p2p)"

definition request_daemon ::
  "'k sys \<Rightarrow> (string \<Rightarrow> u32) \<Rightarrow> string \<Rightarrow> string \<Rightarrow> lease_out \<Rightarrow> ('k net, int \<times> lease_out) state" where
  "request_daemon K inet_addr interface p2p out = do {
     let result_prop_name = prop_key p2p ''result'';
     _ \<leftarrow> property_set K result_prop_name '''';
     host \<leftarrow> property_get K HOSTNAME_PROP_NAME;
     let sz = PROPERTY_VALUE_MAX * 2 + (length DHCP_CONFIG_PATH + 1);
     let daemon_cmd = (if host \<noteq> ''''
         then snprintf sz (DAEMON_NAME @ ''_'' @ p2p @ '':-f '' @ DHCP_CONFIG_PATH @ '' -h '' @ host @ '' '' @ interface)
         else snprintf sz (DAEMON_NAME @ ''_'' @ p2p @ '':-f '' @ DHCP_CONFIG_PATH @ '' '' @ interface));
     _ \<leftarrow> property_set K ''ctl.start'' daemon_cmd;
     r \<leftarrow> wait_for_property K (daemon_prop p2p) (Some ''running'') 10;
     if r < 0 then ret (say out ''Timed out waiting for dhcpcd to start'')
     else do {
       r \<leftarrow> wait_for_property K result_prop_name None 30;
       if r < 0 then ret (say out ''Timed out waiting for DHCP to finish'')
       else do {
         val \<leftarrow> property_get K result_prop_name;
         if val = '''' then ret (say out ''DHCP result property was not set'')
         else if val = ''ok'' then do {
           (r, out) \<leftarrow> fill_ip_info K inet_addr p2p out;
           ret (if r = -1 then -1 else 0, out)
         }
         else ret (say out (''DHCP result was '' @ val))
       }
     }
   }"

definition dhcp_do_request ::
  "'k sys \<Rightarrow> (string \<Rightarrow> u32) \<Rightarrow> string \<Rightarrow> lease_out \<Rightarrow> ('k net, (int \<times> lease_out) option) state" where
  "dhcp_do_request K inet_addr interface out =
     (case c_string (get_p2p_interface_replacement interface) of
        None \<Rightarrow> ret None
      | Some p2p \<Rightarrow> do { r \<leftarrow> request_daemon K inet_addr interface p2p out; ret (Some r) })"

definition stop_daemon :: "'k sys \<Rightarrow> string \<Rightarrow> ('k net, int) state" where
  "stop_daemon K p2p = do {
     let daemon_cmd = snprintf (PROPERTY_VALUE_MAX * 2) (DAEMON_NAME @ ''_'' @ p2p);
     _ \<leftarrow> property_set K ''ctl.stop'' daemon_cmd;
     wait_for_property K (daemon_prop p2p) (Some ''stopped'') 5
   }"

definition dhcp_stop :: "'k sys \<Rightarrow> string \<Rightarrow> ('k net, int option) state" where
  "dhcp_stop K interface =
     (case c_string (get_p2p_interface_replacement interface) of
        None \<Rightarrow> ret None
      | Some p2p \<Rightarrow> do {
          r \<leftarrow> stop_daemon K p2p;
          if r < 0 then ret (Some (-1))
          else do {
            _ \<leftarrow> property_set K (prop_key p2p ''result'') ''failed'';
            ret (Some 0)
          }
        })"

definition dhcp_release_lease :: "'k sys \<Rightarrow> string \<Rightarrow> ('k net, int option) state" where
  "dhcp_release_lease K interface =
     (case c_string (get_p2p_interface_replacement interface) of
        None \<Rightarrow> ret None
      | Some p2p \<Rightarrow> do {
          r \<leftarrow> stop_daemon K p2p;
          ret (Some (if r < 0 then -1 else 0))
        })"

definition renew_daemon ::
  "'k sys \<Rightarrow> (string \<Rightarrow> u32) \<Rightarrow> string \<Rightarrow> string \<Rightarrow> lease_out \<Rightarrow> ('k net, int \<times> lease_out) state" where
  "renew_daemon K inet_addr interface p2p out = do {
     let result_prop_name = prop_key p2p ''result'';
     _ \<leftarrow> property_set K result_prop_name '''';
     let daemon_cmd = snprintf (PROPERTY_VALUE_MAX * 2) (DAEMON_NAME_RENEW @ ''_'' @ p2p @ '':'' @ interface);
     _ \<leftarrow> property_set K ''ctl.start'' daemon_cmd;
     r \<leftarrow> wait_for_property K result_prop_name None 30;
     if r < 0 then ret (say out ''Timed out waiting for DHCP Renew to finish'')
     else do {
       val \<leftarrow> property_get K result_prop_name;
       if val = '''' then ret (say out ''DHCP Renew result property was not set'')
       else if val = ''ok'' then do {
         (_, out) \<leftarrow> fill_ip_info K inet_addr p2p out;
         ret (0, out)
       }
       else ret (say out (''DHCP Renew result was '' @ val))
     }
   }"

definition dhcp_do_request_renew ::
  "'k sys \<Rightarrow> (string \<Rightarrow> u32) \<Rightarrow> string \<Rightarrow> lease_out \<Rightarrow> ('k net, (int \<times> lease_out) option) state" where
  "dhcp_do_request_renew K inet_addr interface out =
     (case c_string (get_p2p_interface_replacement interface) of
        None \<Rightarrow> ret None
      | Some p2p \<Rightarrow> do { r \<leftarrow> renew_daemon K inet_addr interface p2p out; ret (Some r) })"

section \<open>The mask loop\<close>

lemma mask_loop_ge: "mask_loop n m p = Some q \<Longrightarrow> p \<le> q"
  by (induction n m p rule: mask_loop.induct) (auto split: if_splits)

lemma prefix_value_less: "0 < j \<Longrightarrow> (2147483648 :: nat) \<le> 2 ^ 32 - 2 ^ (32 - j)"
proof -
  assume "0 < j"
  then have "(2 :: nat) ^ (32 - j) \<le> 2 ^ 31" by (intro power_increasing) auto
  then show ?thesis by simp
qed

lemma prefix_value_double:
  assumes "Suc i \<le> 32"
  shows "u = (2 :: nat) ^ 32 - 2 ^ (32 - Suc i) \<longleftrightarrow> 2147483648 \<le> u \<and> u < 4294967296 \<and> 2 * u - 4294967296 = 2 ^ 32 - 2 ^ (32 - i)"
proof -
  define x :: nat where "x = 2 ^ (32 - Suc i)"
  have "2 ^ (32 - i) = 2 * x"
    using assms by (simp add: x_def Suc_diff_le flip: power_Suc)
  moreover have "0 < x" "x \<le> 2147483648"
    using power_increasing [of "32 - Suc i" 31 "2 :: nat"] by (simp_all add: x_def)
  moreover have "(2 :: nat) ^ 32 = 4294967296" by simp
  ultimately show ?thesis unfolding x_def [symmetric] by (simp only:) linarith
qed

lemma mask_loop_exact:
  "n \<le> 32 \<Longrightarrow> 2 ^ (32 - n) dvd unat m \<Longrightarrow>
   mask_loop n m p = Some (p + j) \<longleftrightarrow> j \<le> n \<and> unat m = 2 ^ 32 - 2 ^ (32 - j)"
proof (induction n arbitrary: m p j)
  case 0
  have "unat m = 0"
  proof (rule ccontr)
    assume "unat m \<noteq> 0"
    then have "2 ^ (32 - 0) \<le> unat m" using 0(2) by (intro dvd_imp_le) simp_all
    then show False using unat_u32_less [of m] by simp
  qed
  then show ?case by auto
next
  case (Suc n)
  have top: "m AND 0x80000000 = 0 \<longleftrightarrow> unat m < 2147483648" using top_bit_iff [of m] by (auto simp: not_le)
  show ?case
  proof (cases "unat m < 2147483648")
    case True
    then have "unat m = 2 ^ 32 - 2 ^ (32 - j) \<longleftrightarrow> j = 0 \<and> m = 0"
      using prefix_value_less [of j] by (cases "j = 0") (auto simp: unat_eq_0)
    then show ?thesis using True top by auto
  next
    case False
    then have big: "2147483648 \<le> unat m" by simp
    then have u: "unat (push_bit 1 m) = 2 * unat m - 4294967296" by (rule shift_top)
    have d: "2 ^ (32 - n) dvd unat (push_bit 1 m)"
    proof -
      have "(2 :: nat) ^ (32 - n) = 2 * 2 ^ (32 - Suc n)"
        using Suc.prems(1) by (simp add: Suc_diff_le flip: power_Suc)
      then have "2 ^ (32 - n) dvd 2 * unat m" using Suc.prems(2) by simp
      moreover have "(2 :: nat) ^ (32 - n) dvd 2 ^ 32" by (intro le_imp_power_dvd) simp
      ultimately show ?thesis unfolding u by (intro dvd_diff_nat) simp_all
    qed
    have step: "mask_loop (Suc n) m p = mask_loop n (push_bit 1 m) (p + 1)"
      using False top by auto
    show ?thesis
    proof (cases j)
      case 0
      then show ?thesis using mask_loop_ge [of n "push_bit 1 m" "p + 1"] False step by auto
    next
      case j: (Suc i)
      have "mask_loop (Suc n) m p = Some (p + j) \<longleftrightarrow> i \<le> n \<and> unat (push_bit 1 m) = 2 ^ 32 - 2 ^ (32 - i)"
        using Suc.IH [OF _ d, of "p + 1" i] Suc.prems(1) step by (simp add: j)
      also have "\<dots> \<longleftrightarrow> j \<le> Suc n \<and> unat m = 2 ^ 32 - 2 ^ (32 - j)"
      proof (cases "i \<le> n")
        case True
        then have "Suc i \<le> 32" using Suc.prems(1) by linarith
        then have "unat m = 2 ^ 32 - 2 ^ (32 - Suc i) \<longleftrightarrow> unat (push_bit 1 m) = 2 ^ 32 - 2 ^ (32 - i)"
          unfolding u using prefix_value_double [of i "unat m"] big unat_u32_less [of m] by blast
        then show ?thesis using True by (simp only: j Suc_le_mono)
      qed (simp add: j)
      finally show ?thesis .
    qed
  qed
qed

section \<open>Waiting\<close>

text \<open>What the property and the world are at the \<open>i\<close>-th look.\<close>

definition look :: "'k sys \<Rightarrow> string \<Rightarrow> 'k \<Rightarrow> string \<times> 'k" where
  "look K name k = sys_property_get K name (sys_usleep K (NAP_TIME * 1000) k)"

definition wanted :: "string option \<Rightarrow> string \<Rightarrow> bool" where
  "wanted desired_value v \<longleftrightarrow> v \<noteq> '''' \<and> (desired_value = None \<or> desired_value = Some v)"

lemma nap_loop_result:
  "fst (run_state (nap_loop K name d n) s) \<in> {0, -1} \<and>
   (fst (run_state (nap_loop K name d n) s) = 0 \<longleftrightarrow>
     (\<exists>i<n. wanted d (fst (look K name (((\<lambda>k. snd (look K name k)) ^^ i) (kst s))))))"
proof (induction n arbitrary: s)
  case (Suc n)
  let ?s = "s\<lparr>kst := snd (look K name (kst s))\<rparr>"
  have step: "run_state (nap_loop K name d (Suc n)) s =
      (if wanted d (fst (look K name (kst s))) then (0, ?s) else run_state (nap_loop K name d n) ?s)"
    by (simp add: run_simps property_get_def look_def wanted_def)
  have ex: "(\<exists>i<Suc n. P i) \<longleftrightarrow> P 0 \<or> (\<exists>i<n. P (Suc i))" for P :: "nat \<Rightarrow> bool"
    by (simp add: Ex_less_Suc2)
  show ?case
    unfolding step ex funpow_Suc_right o_apply using Suc.IH [of ?s] by (auto simp del: nap_loop.simps)
qed simp

section \<open>Properties\<close>

lemma nat_int_sub: "nat (32 - int p) = 32 - p"
  by simp

text \<open>The loop over the mask accepts exactly the contiguous masks, the one of every prefix length
  from 0 to 32, and counts the length from which \<open>prefixLengthToIpv4Netmask\<close> builds that mask.\<close>

theorem mask_loop_contiguous:
  "mask_loop 32 m 0 = Some p \<longleftrightarrow> p \<le> 32 \<and> m = ntohl (prefixLengthToIpv4Netmask (int p))"
proof -
  have "unat (ntohl (prefixLengthToIpv4Netmask (int p))) = 2 ^ 32 - 2 ^ (32 - p)" if "p \<le> 32"
    using that mask_word_eq [of p]
    by (cases "p = 0") (simp_all add: prefixLengthToIpv4Netmask_def Let_def nat_int_sub htonl_def unat_mk32 unat_byte_of)
  then show ?thesis
    using mask_loop_exact [of 32 m 0 p] by (auto simp: word_unat_eq_iff)
qed

text \<open>\<open>wait_for_property\<close> returns 0 exactly when one of its looks, 200 ms apart and
  five for every second of \<open>maxwait\<close> (at least one), finds the property set, and to the desired value if
  one is given; it returns -1 otherwise and never waits longer.\<close>

theorem wait_for_property_result:
  "fst (run_state (wait_for_property K name d maxwait) s) =
     (if \<exists>i < max 1 (5 * maxwait).
           wanted d (fst (look K name (((\<lambda>k. snd (look K name k)) ^^ i) (kst s))))
      then 0 else -1)"
proof -
  have "(if maxwait * 1000 div NAP_TIME < 1 then 1 else maxwait * 1000 div NAP_TIME) = max 1 (5 * maxwait)"
    by (simp add: NAP_TIME_def max_def)
  then show ?thesis
    using nap_loop_result [of K name d "max 1 (5 * maxwait)" s]
    unfolding wait_for_property_def Let_def by (auto split: if_splits)
qed

lemma takeWhile_replicate_NUL: "takeWhile (\<lambda>c. c \<noteq> NUL) (xs @ replicate n NUL) = takeWhile (\<lambda>c. c \<noteq> NUL) xs"
  by (induction xs) auto

text \<open>The interface name that is used in the names of properties is \<^verbatim>\<open>p2p\<close> for every interface
  whose name starts so, the name itself when it has fewer than 25 characters; any longer name
  leaves the array without its NUL, and reading it runs past its end.\<close>

theorem p2p_interface_name:
  assumes "NUL \<notin> set interface"
  shows "c_string (get_p2p_interface_replacement interface) =
    (if take 3 interface = ''p2p'' then Some ''p2p''
     else if length interface < 25 then Some interface else None)"
proof -
  have "c_string (strncpy xs 25) = (if length xs < 25 then Some xs else None)" if "NUL \<notin> set xs" for xs
  proof (cases "length xs < 25")
    case True
    have "takeWhile (\<lambda>c. c \<noteq> NUL) xs = xs" using that by auto
    then show ?thesis using True by (simp add: c_string_def strncpy_def takeWhile_replicate_NUL)
  next
    case False
    then show ?thesis using that by (auto simp: c_string_def strncpy_def dest: in_set_takeD)
  qed
  moreover have "NUL \<notin> set ''p2p''" by (simp add: NUL_def)
  ultimately show ?thesis
    using assms by (auto simp: get_p2p_interface_replacement_def strncmp_eq_def MAX_INTERFACE_LENGTH_def)
qed

theorem p2p_interface_name_witness:
  "c_string (get_p2p_interface_replacement ''p2p-p2p0-7'') = Some ''p2p'' \<and>
   c_string (get_p2p_interface_replacement (replicate 25 (CHR ''w''))) = None"
  using p2p_interface_name [of "''p2p-p2p0-7''"] p2p_interface_name [of "replicate 25 (CHR ''w'')"]
  by (simp add: NUL_def) (simp add: eval_nat_numeral)

lemma prop_wait:
  "prop name = v \<Longrightarrow> v \<noteq> '''' \<Longrightarrow> d = None \<or> d = Some v \<Longrightarrow> 1 \<le> n \<Longrightarrow>
   fst (run_state (nap_loop (logging_sys r6 rows prop) name d n) s) = 0"
  by (cases n) (auto simp: run_simps property_get_def)

text \<open>The two requests disagree about a lease whose mask is not contiguous: the daemon reports
  success, \<open>fill_ip_info\<close> stops at the mask, before the name servers and the lease time;
  \<open>dhcp_do_request\<close> passes the failure on, \<open>dhcp_do_request_renew\<close> returns 0.\<close>

theorem renew_ignores_bad_mask:
  assumes "c_string (get_p2p_interface_replacement interface) = Some p2p"
    and "prop (prop_key p2p ''result'') = ''ok''" and "prop (daemon_prop p2p) = ''running''"
    and "prop (prop_key p2p ''mask'') = m" and "m \<noteq> ''''" and "mask_prefix inet_addr m = None"
    and "K = logging_sys r6 rows prop"
  shows "\<exists>o1 o2. fst (run_state (dhcp_do_request K inet_addr interface out) s) = Some (-1, o1) \<and>
    fst (run_state (dhcp_do_request_renew K inet_addr interface out) s) = Some (0, o2) \<and>
    o_errmsg o2 = bad_mask m \<and> o_dns o2 = o_dns out \<and> o_lease o2 = o_lease out"
proof -
  define gw where "gw = (if prop (prop_key p2p ''gateway'') = '''' \<or>
      strncmp_eq (prop (prop_key p2p ''gateway'')) ''0.0.0.0'' 7
    then prop (prop_key p2p ''server'') else prop (prop_key p2p ''gateway''))"
  define o2 where "o2 = out\<lparr>o_ipaddr := prop (prop_key p2p ''ipaddress''), o_gateway := gw,
    o_server := prop (prop_key p2p ''server''), o_errmsg := bad_mask m\<rparr>"
  have get: "run_state (property_get K name) t = (prop name, t)" for name t
    by (simp add: property_get_def run_simps assms(7))
  have fill: "run_state (fill_ip_info K inet_addr p2p out) t = ((-1, o2), t)" for t
    using assms(4-6) by (simp add: fill_ip_info_def get Let_def o2_def gw_def)
  define W where "W name d w t = snd (run_state (wait_for_property K name d w) t)" for name d w t
  have wait: "run_state (wait_for_property K name d w) t = (0, W name d w t)"
    if "prop name = v" "v \<noteq> ''''" "d = None \<or> d = Some v" for name v d w t
    using prop_wait [of "prop" name v d, OF that] 
    by (simp add: wait_for_property_def Let_def assms(7) W_def prod_eq_iff)
  have w1: "run_state (wait_for_property K (daemon_prop p2p) (Some ''running'') w) t =
      (0, W (daemon_prop p2p) (Some ''running'') w t)" for w t
    by (rule wait [OF assms(3)]) simp_all
  have w2: "run_state (wait_for_property K (prop_key p2p ''result'') None w) t =
      (0, W (prop_key p2p ''result'') None w t)" for w t
    by (rule wait [OF assms(2)]) simp_all
  have "fst (run_state (request_daemon K inet_addr interface p2p out) s) = (-1, o2)"
    by (simp add: request_daemon_def Let_def property_set_def run_simps get w1 w2 fill assms(2))
  moreover have "fst (run_state (renew_daemon K inet_addr interface p2p out) s) = (0, o2)"
    by (simp add: renew_daemon_def Let_def property_set_def run_simps get w2 fill assms(2))
  ultimately show ?thesis
    using assms(1) by (auto simp: dhcp_do_request_def dhcp_do_request_renew_def o2_def split: prod.splits)
qed

theorem renew_ignores_bad_mask_witness:
  "\<forall>out. \<exists>o1 o2. fst (run_state (dhcp_do_request
      (logging_sys NoFile [] (\<lambda>key. if key = ''dhcp.wlan0.result'' then ''ok''
         else if key = ''dhcp.wlan0.mask'' then ''0.0.0.1'' else ''running''))
      (\<lambda>_. htonl 1) ''wlan0'' out) (closed_net [])) = Some (-1, o1) \<and>
    fst (run_state (dhcp_do_request_renew
      (logging_sys NoFile [] (\<lambda>key. if key = ''dhcp.wlan0.result'' then ''ok''
         else if key = ''dhcp.wlan0.mask'' then ''0.0.0.1'' else ''running''))
      (\<lambda>_. htonl 1) ''wlan0'' out) (closed_net [])) = Some (0, o2)"
proof -
  have c: "c_string (get_p2p_interface_replacement ''wlan0'') = Some ''wlan0''"
    by (simp add: c_string_def get_p2p_interface_replacement_def strncmp_eq_def strncpy_def NUL_def
        MAX_INTERFACE_LENGTH_def)
  have k: "prop_key ''wlan0'' ''result'' = ''dhcp.wlan0.result''" "prop_key ''wlan0'' ''mask'' = ''dhcp.wlan0.mask''"
    "daemon_prop ''wlan0'' = ''init.svc.dhcpcd_wlan0''"
    by (simp_all add: prop_key_def daemon_prop_def snprintf_def bounded_copy_def DHCP_PROP_NAME_PREFIX_def
        DAEMON_PROP_NAME_def PROPERTY_KEY_MAX_def)
  have "mask_loop 32 1 0 = None" using mask_loop.simps(2) [of 31 1 0] by simp
  then have m: "mask_prefix (\<lambda>_. htonl 1) ''0.0.0.1'' = None"
    by (simp add: mask_prefix_def INADDR_NONE_def Let_def)
  show ?thesis
    using renew_ignores_bad_mask [OF c _ _ _ _ m refl, of "\<lambda>key. if key = ''dhcp.wlan0.result'' then ''ok''
         else if key = ''dhcp.wlan0.mask'' then ''0.0.0.1'' else ''running''" NoFile "[]" _ "closed_net []"]
    by (auto simp: k)
qed

end
