(* ===== verification/Dhcploop.thy ===== *)
theory Dhcploop
  imports Dhcpclient
begin

text \<open>
  \<^verbatim>\<open>test_wifi/libnetutils/dhcpclient.c\<close>, the loop of \<open>dhcp_init_ifc\<close> over the system against the state machine:
  the machine alone, given the events, says with which timeout it waits and what it sends
  (\<open>dhcp_trace\<close>); the system alone, asked and sent to like this, makes those events (\<open>talk\<close>). Whatever the
  system does, \<open>do_dhcp\<close> is the two together, and the state of the system after it is the one that the
  conversation, and then exactly what the end of the run calls for, leaves. So the properties of the
  runs hold of the program, for any system.
\<close>

section \<open>The conversation\<close>

text \<open>One entry for each turn of the loop: the timeout given to \<open>poll\<close>, the event, the frames sent.\<close>

fun dhcp_trace :: "bytes \<Rightarrow> int \<Rightarrow> dhcp_client \<Rightarrow> dhcp_event list \<Rightarrow> (u32 \<times> dhcp_event \<times> frame list) list" where
  "dhcp_trace hwaddr if_index c [] = []"
| "dhcp_trace hwaddr if_index c (ev # evs) =
     (case dhcp_step hwaddr if_index c ev of
        None \<Rightarrow> [(cl_timeout c, ev, [])]
      | Some (fs, d, e) \<Rightarrow>
          (cl_timeout c, ev, fs) # (if e = None then dhcp_trace hwaddr if_index d evs else []))"

text \<open>The state of the system after a conversation, or \<open>None\<close> when it answers otherwise.\<close>

fun talk :: "'k pkt_sys \<Rightarrow> int \<Rightarrow> (u32 \<times> dhcp_event \<times> frame list) list \<Rightarrow> 'k net \<Rightarrow> 'k net option" where
  "talk P s [] t = Some t"
| "talk P s ((timeout, ev, fs) # rest) t =
     (let (ev', t1) = run_state (next_event P s timeout) t
      in if ev' = ev then talk P s rest (snd (run_state (send_frames P s fs) t1)) else None)"

text \<open>
  What \<open>do_dhcp\<close> asks for before the client starts: the address 0.0.0.0, the interface up, then the
  clock, the hardware address, the index and the raw socket; \<open>None\<close> when one of the first two or the
  two queries fails. The last value is what the stack holds.
\<close>

definition dhcp_setup ::
  "'k sys \<Rightarrow> 'k pkt_sys \<Rightarrow> string \<Rightarrow> ('k net, (bytes \<times> int \<times> int \<times> u32 \<times> dhcp_client) option) state" where
  "dhcp_setup K P iname = do {
     r \<leftarrow> ifc_set_addr K iname 0;
     if r \<noteq> 0 then ret None else do {
     r \<leftarrow> ifc_up K iname;
     if r \<noteq> 0 then ret None else do {
     ts \<leftarrow> world (pk_clock P);
     h \<leftarrow> ifc_get_hwaddr K iname;
     case h of None \<Rightarrow> ret None | Some hwaddr \<Rightarrow> do {
     i \<leftarrow> ifc_get_ifindex K iname;
     case i of None \<Rightarrow> ret None | Some if_index \<Rightarrow> do {
     s \<leftarrow> world (open_raw_socket (pk_socket P) (pk_bind P) hwaddr if_index);
     junk \<leftarrow> world (\<lambda>k. (pk_locals P k, k));
     ret (Some (hwaddr, if_index, s, ucast (get_msecs ts), junk))
     }}}}}"

text \<open>What each end of a run leads to, as the value returned and the state of the system.\<close>

definition end_result :: "'k sys \<Rightarrow> string \<Rightarrow> int \<Rightarrow> dhcp_info \<Rightarrow> dhcp_end \<Rightarrow> dhcp_info \<Rightarrow> 'k net \<Rightarrow>
    (int \<times> dhcp_info) exec \<times> 'k net" where
  "end_result K iname s lgi e info t =
     (let closed = t\<lparr>kst := sys_close K s (kst t)\<rparr>;
          configured = (\<lambda>u. let (r, v) = run_state (ifc_configure K iname (i_ipaddr info) (i_prefixLength info)
                                  (i_gateway info) (i_dns1 info) (i_dns2 info)) u
                            in (Returns (r, info), v))
      in case e of
           Offered \<Rightarrow> configured t
         | Acked \<Rightarrow> configured closed
         | Denied \<Rightarrow> (Returns (-1, lgi), closed)
         | TimedOut \<Rightarrow> (Returns (-1, lgi), closed\<lparr>errno := ETIME\<rparr>)
         | Broken \<Rightarrow> (Returns (-1, lgi), t))"

definition run_result :: "'k sys \<Rightarrow> string \<Rightarrow> int \<Rightarrow> dhcp_info \<Rightarrow> nat \<Rightarrow> dhcp_event list \<Rightarrow> step_result \<Rightarrow>
    'k net \<Rightarrow> (int \<times> dhcp_info) exec \<times> 'k net \<Rightarrow> bool" where
  "run_result K iname s lgi fuel evs r t x =
     (case r of
        None \<Rightarrow> x = (Fault, t)
      | Some (gs, d, None) \<Rightarrow> length evs = fuel \<and> x = (OutOfFuel, t)
      | Some (gs, d, Some e) \<Rightarrow> x = end_result K iname s lgi e (cl_info d) t)"

section \<open>The loop\<close>

lemma finish_end_result:
  "run_state (do { r \<leftarrow> dhcp_finish K iname s lgi info e; ret (Returns r) }) t = end_result K iname s lgi e info t"
  by (cases e) (simp_all add: dhcp_finish_def dhcp_configure_def end_result_def run_simps Let_def split: prod.split)

lemma talk_cons:
  "run_state (next_event P s timeout) t = (ev, t1) \<Longrightarrow>
   talk P s ((timeout, ev, fs) # rest) t = talk P s rest (snd (run_state (send_frames P s fs) t1))"
  by simp

lemma poll_loop_talk:
  "\<exists>evs t2. length evs \<le> fuel \<and> talk P s (dhcp_trace hwaddr if_index c evs) t = Some t2 \<and>
     run_result K iname s lgi fuel evs (dhcp_run hwaddr if_index c evs) t2
       (run_state (dhcp_poll_loop K P iname hwaddr if_index s lgi fuel c) t)"
proof (induction fuel arbitrary: c t)
  case 0
  then show ?case by (intro exI [of _ "[]"] exI [of _ t]) (simp add: run_result_def)
next
  case (Suc fuel)
  let ?loop = "dhcp_poll_loop K P iname hwaddr if_index s lgi"
  obtain ev t1 where ev: "run_state (next_event P s (cl_timeout c)) t = (ev, t1)" by fastforce
  note tc = talk_cons [OF ev]
  show ?case
  proof (cases "dhcp_step hwaddr if_index c ev")
    case None
    then have "run_state (?loop (Suc fuel) c) t = (Fault, t1)" using ev by simp
    then show ?thesis using None
      by (intro exI [of _ "[ev]"] exI [of _ t1]) (simp add: run_result_def tc del: talk.simps, simp)
  next
    case (Some y)
    obtain fs c1 e where y: "y = (fs, c1, e)" by (cases y)
    obtain t2 where t2: "run_state (send_frames P s fs) t1 = ((), t2)"
      by (cases "run_state (send_frames P s fs) t1") auto
    show ?thesis
    proof (cases e)
      case None
      have loop: "run_state (?loop (Suc fuel) c) t = run_state (?loop fuel c1) t2"
        using ev Some y t2 None by simp
      obtain evs t3 where evs: "length evs \<le> fuel" "talk P s (dhcp_trace hwaddr if_index c1 evs) t2 = Some t3"
        "run_result K iname s lgi fuel evs (dhcp_run hwaddr if_index c1 evs) t3 (run_state (?loop fuel c1) t2)"
        using Suc.IH by blast
      have run: "dhcp_run hwaddr if_index c (ev # evs) =
          map_option (\<lambda>(gs, c, e). (fs @ gs, c, e)) (dhcp_run hwaddr if_index c1 evs)"
        using Some y None by (cases "dhcp_run hwaddr if_index c1 evs") auto
      have "talk P s (dhcp_trace hwaddr if_index c (ev # evs)) t = Some t3"
        using Some y None evs(2) t2 by (simp add: tc del: talk.simps)
      moreover have "run_result K iname s lgi (Suc fuel) (ev # evs) (dhcp_run hwaddr if_index c (ev # evs)) t3
          (run_state (?loop (Suc fuel) c) t)"
        using evs(3) unfolding run loop run_result_def by (auto split: option.splits)
      ultimately show ?thesis using evs(1) by (intro exI [of _ "ev # evs"] exI [of _ t3]) simp
    next
      case fin: (Some e1)
      have loop: "run_state (?loop (Suc fuel) c) t = end_result K iname s lgi e1 (cl_info c1) t2"
        unfolding finish_end_result [symmetric] using ev Some y t2 fin by simp
      have "talk P s (dhcp_trace hwaddr if_index c [ev]) t = Some t2"
        using Some y fin t2 by (simp add: tc del: talk.simps) simp
      moreover have "dhcp_run hwaddr if_index c [ev] = Some (fs, c1, Some e1)" using Some y fin by simp
      ultimately show ?thesis
        by (intro exI [of _ "[ev]"] exI [of _ t2]) (simp add: run_result_def loop del: dhcp_poll_loop.simps)
    qed
  qed
qed

lemma do_dhcp_setup:
  "run_state (do_dhcp K P lgi fuel iname) t =
     (case run_state (dhcp_setup K P iname) t of
        (None, t1) \<Rightarrow> (Returns (-1, lgi), t1)
      | (Some (hwaddr, if_index, s, xid, junk), t1) \<Rightarrow>
          (case dhcp_start hwaddr if_index xid junk of
             None \<Rightarrow> (Fault, t1)
           | Some (fs, c) \<Rightarrow> run_state (dhcp_poll_loop K P iname hwaddr if_index s lgi fuel c)
               (snd (run_state (send_frames P s fs) t1))))"
proof -
  obtain r t1 where 1: "run_state (ifc_set_addr K iname 0) t = (r, t1)" by fastforce
  obtain r2 t2 where 2: "run_state (ifc_up K iname) t1 = (r2, t2)" by fastforce
  obtain ts t3 where 3: "run_state (world (pk_clock P)) t2 = (ts, t3)" by fastforce
  obtain h t4 where 4: "run_state (ifc_get_hwaddr K iname) t3 = (h, t4)" by fastforce
  obtain i t5 where 5: "run_state (ifc_get_ifindex K iname) t4 = (i, t5)" by fastforce
  note ops = do_dhcp_def dhcp_init_ifc_def dhcp_setup_def Let_def 1 2 3 4 5 run_state_bind run_state_return
  show ?thesis
  proof (cases "r = 0 \<and> r2 = 0 \<and> h \<noteq> None \<and> i \<noteq> None")
    case True
    then obtain hwaddr if_index where hi: "r = 0" "r2 = 0" "h = Some hwaddr" "i = Some if_index" by auto
    obtain s t6 where 6: "run_state (world (open_raw_socket (pk_socket P) (pk_bind P) hwaddr if_index)) t5 = (s, t6)"
      by fastforce
    obtain junk t7 where 7: "run_state (world (\<lambda>k. (pk_locals P k, k))) t6 = (junk, t7)" by fastforce
    show ?thesis
      by (cases "dhcp_start hwaddr if_index (ucast (get_msecs ts)) junk")
        (auto simp: ops hi 6 7 split: prod.split simp del: run_world)
  next
    case False
    then consider "r \<noteq> 0" | "r = 0" "r2 \<noteq> 0" | "r = 0" "r2 = 0" "h = None"
      | hw where "r = 0" "r2 = 0" "h = Some hw" "i = None" by blast
    then show ?thesis by cases (simp_all add: ops)
  qed
qed

section \<open>The property\<close>

text \<open>C3. \<open>do_dhcp\<close> refines the state machine of the client, values and system state, whatever the system
  answers. When the setup fails nothing more is done. Else there are at most as many events as the
  loop has turns such that the system, after the first DISCOVER, made exactly these events when it was
  asked with the machine's timeouts and sent the machine's frames, and \<open>do_dhcp\<close> ends as the run of the
  machine over them: when the run has ended with an acknowledgement or an unacknowledged offer, the
  interface is configured with the lease of the run, the lease is stored in \<open>last_good_info\<close> and the
  value is that of the configuration; with any other end the value is -1, \<open>last_good_info\<close> is the old
  one, and nothing is done to the system but closing the socket (after an error of \<open>poll\<close> or of a
  socket that is down, not even that).\<close>

theorem do_dhcp_refines:
  "case run_state (dhcp_setup K P iname) t of
     (None, t1) \<Rightarrow> run_state (do_dhcp K P lgi fuel iname) t = (Returns (-1, lgi), t1)
   | (Some (hwaddr, if_index, s, xid, junk), t1) \<Rightarrow>
       (case dhcp_start hwaddr if_index xid junk of
          None \<Rightarrow> run_state (do_dhcp K P lgi fuel iname) t = (Fault, t1)
        | Some (fs, c) \<Rightarrow> \<exists>evs t2. length evs \<le> fuel \<and>
            talk P s (dhcp_trace hwaddr if_index c evs) (snd (run_state (send_frames P s fs) t1)) = Some t2 \<and>
            (case dhcp_run hwaddr if_index c evs of
               None \<Rightarrow> run_state (do_dhcp K P lgi fuel iname) t = (Fault, t2)
             | Some (gs, d, None) \<Rightarrow> length evs = fuel \<and> run_state (do_dhcp K P lgi fuel iname) t = (OutOfFuel, t2)
             | Some (gs, d, Some e) \<Rightarrow>
                 (let info = cl_info d; closed = t2\<lparr>kst := sys_close K s (kst t2)\<rparr>;
                      configured = (\<lambda>u. let (r, v) = run_state (ifc_configure K iname (i_ipaddr info)
                          (i_prefixLength info) (i_gateway info) (i_dns1 info) (i_dns2 info)) u
                        in (Returns (r, info), v))
                  in run_state (do_dhcp K P lgi fuel iname) t =
                      (case e of
                         Offered \<Rightarrow> configured t2
                       | Acked \<Rightarrow> configured closed
                       | Denied \<Rightarrow> (Returns (-1, lgi), closed)
                       | TimedOut \<Rightarrow> (Returns (-1, lgi), closed\<lparr>errno := ETIME\<rparr>)
                       | Broken \<Rightarrow> (Returns (-1, lgi), t2)))))"
proof -
  obtain x t1 where x: "run_state (dhcp_setup K P iname) t = (x, t1)" by fastforce
  show ?thesis
  proof (cases x)
    case None
    then show ?thesis unfolding do_dhcp_setup x by simp
  next
    case (Some y)
    obtain hwaddr if_index s xid junk where y: "y = (hwaddr, if_index, s, xid, junk)" by (cases y)
    show ?thesis
    proof (cases "dhcp_start hwaddr if_index xid junk")
      case None
      then show ?thesis unfolding do_dhcp_setup x Some y by simp
    next
      case fc: (Some z)
      obtain fs c where z: "z = (fs, c)" by (cases z)
      show ?thesis
        unfolding do_dhcp_setup x Some y prod.case option.case fc z Let_def
        by (rule poll_loop_talk [unfolded run_result_def end_result_def Let_def])
    qed
  qed
qed

end
