(* ===== verification/NodeList.thy ===== *)
theory NodeList
  imports Prelude
begin

text \<open>
  \<^verbatim>\<open>test_keyboard/list.c\<close>: singly linked lists of widgets, on a heap of nodes. A null pointer is
  \<open>None\<close>, and so is the result of a routine that follows one (or that would walk a cyclic list
  for ever); what \<open>malloc\<close> returns is an argument. The predicate \<open>chain\<close> relates a pointer to the
  list of nodes it leads to, and the routines are refinements of operations on that list.
\<close>

section \<open>Nodes\<close>

type_synonym addr = nat

record 'w node =
  widget :: 'w
  pNext :: "addr option"

type_synonym 'w heap = "addr \<Rightarrow> 'w node option"

definition deref :: "'w heap \<Rightarrow> addr option \<Rightarrow> 'w node option" where
  "deref h p = (case p of None \<Rightarrow> None | Some a \<Rightarrow> h a)"

section \<open>The routines\<close>

definition initialize_list :: "addr option" where
  "initialize_list = None"

definition is_empty :: "'w heap \<Rightarrow> addr option \<Rightarrow> int option" where
  "is_empty h pHead = Option.bind (deref h pHead) (\<lambda>n. Some (if pNext n = None then 1 else 0))"

partial_function (option) length_loop :: "'w heap \<Rightarrow> addr option \<Rightarrow> int \<Rightarrow> int option" where
  "length_loop h p len =
     (if p = None then Some len
      else Option.bind (deref h p) (\<lambda>n. length_loop h (pNext n) (len + 1)))"

definition length_list :: "'w heap \<Rightarrow> addr option \<Rightarrow> int option" where
  "length_list h pHead = Option.bind (deref h pHead) (\<lambda>n. length_loop h (pNext n) 0)"

text \<open>\<open>while (p != NULL && i < pos - 1)\<close>: the pointer and the counter it stops with.\<close>

partial_function (option) seek :: "'w heap \<Rightarrow> addr option \<Rightarrow> int \<Rightarrow> int \<Rightarrow> (addr option \<times> int) option" where
  "seek h p i pos =
     (if p \<noteq> None \<and> i < pos - 1
      then Option.bind (deref h p) (\<lambda>n. seek h (pNext n) (i + 1) pos)
      else Some (p, i))"

text \<open>\<open>miss\<close> is what the two routines return when the position does not exist: 0 and -1.\<close>

definition insert_node ::
  "int \<Rightarrow> 'w heap \<Rightarrow> addr option \<Rightarrow> addr option \<Rightarrow> int \<Rightarrow> 'w \<Rightarrow> (int \<times> 'w heap) option" where
  "insert_node miss h malloc pHead pos w =
     Option.bind (seek h pHead 0 pos) (\<lambda>(p, i).
       if i > pos - 1 \<or> p = None then Some (miss, h)
       else case malloc of None \<Rightarrow> Some (-1, h)
         | Some new \<Rightarrow>
             Option.bind (deref h p) (\<lambda>n.
               let h = h(new \<mapsto> \<lparr>widget = w, pNext = pNext n\<rparr>)
               in Some (0, h(the p \<mapsto> n\<lparr>pNext := Some new\<rparr>))))"

definition insert_button ::
  "'w heap \<Rightarrow> addr option \<Rightarrow> addr option \<Rightarrow> int \<Rightarrow> 'w \<Rightarrow> (int \<times> 'w heap) option" where
  "insert_button h malloc pHead pos button = insert_node 0 h malloc pHead pos button"

definition insert_keyboard ::
  "'w heap \<Rightarrow> addr option \<Rightarrow> addr option \<Rightarrow> int \<Rightarrow> 'w \<Rightarrow> (int \<times> 'w heap) option" where
  "insert_keyboard h malloc pHead pos keyboard = insert_node (-1) h malloc pHead pos keyboard"

text \<open>\<open>while (scan->pNext != NULL)\<close>.\<close>

partial_function (option) last_node :: "'w heap \<Rightarrow> addr \<Rightarrow> addr option" where
  "last_node h p =
     Option.bind (h p) (\<lambda>n. case pNext n of None \<Rightarrow> Some p | Some q \<Rightarrow> last_node h q)"

text \<open>The return value, the heap and \<open>*pHead\<close> afterwards.\<close>

definition add_node ::
  "'w heap \<Rightarrow> addr option \<Rightarrow> addr option \<Rightarrow> 'w \<Rightarrow> (int \<times> 'w heap \<times> addr option) option" where
  "add_node h malloc pHead w = (case malloc of
       None \<Rightarrow> Some (-1, h, pHead)
     | Some new \<Rightarrow>
         let h = h(new \<mapsto> \<lparr>widget = w, pNext = None\<rparr>)
         in (case pHead of None \<Rightarrow> Some (0, h, Some new)
            | Some scan \<Rightarrow>
                Option.bind (last_node h scan) (\<lambda>p.
                Option.bind (h p) (\<lambda>n.
                  Some (0, h(p \<mapsto> n\<lparr>pNext := Some new\<rparr>), pHead)))))"

definition add_button ::
  "'w heap \<Rightarrow> addr option \<Rightarrow> addr option \<Rightarrow> 'w \<Rightarrow> (int \<times> 'w heap \<times> addr option) option" where
  "add_button h malloc pHead button = add_node h malloc pHead button"

definition add_keyboard ::
  "'w heap \<Rightarrow> addr option \<Rightarrow> addr option \<Rightarrow> 'w \<Rightarrow> (int \<times> 'w heap \<times> addr option) option" where
  "add_keyboard h malloc pHead keyboard = add_node h malloc pHead keyboard"

partial_function (option) seek_before :: "'w heap \<Rightarrow> addr \<Rightarrow> int \<Rightarrow> int \<Rightarrow> (addr \<times> int) option" where
  "seek_before h p i pos =
     Option.bind (h p) (\<lambda>n.
       case pNext n of None \<Rightarrow> Some (p, i)
       | Some q \<Rightarrow> if i < pos - 1 then seek_before h q (i + 1) pos else Some (p, i))"

definition delete_list :: "'w heap \<Rightarrow> addr option \<Rightarrow> int \<Rightarrow> (int \<times> 'w heap) option" where
  "delete_list h pHead pos =
     Option.bind pHead (\<lambda>p0.
     Option.bind (seek_before h p0 0 pos) (\<lambda>(p, i).
     Option.bind (h p) (\<lambda>n.
       if i > pos - 1 \<or> pNext n = None then Some (-1, h)
       else Option.bind (deref h (pNext n)) (\<lambda>q.
         Some (0, (h(p \<mapsto> n\<lparr>pNext := pNext q\<rparr>))(the (pNext n) := None))))))"

section \<open>The list a pointer leads to\<close>

fun chain :: "'w heap \<Rightarrow> addr option \<Rightarrow> (addr \<times> 'w) list \<Rightarrow> addr option \<Rightarrow> bool" where
  "chain h p [] q \<longleftrightarrow> p = q"
| "chain h p ((a, w) # xs) q \<longleftrightarrow>
     p = Some a \<and> (\<exists>n. h a = Some \<lparr>widget = w, pNext = n\<rparr> \<and> chain h n xs q)"

definition is_list :: "'w heap \<Rightarrow> addr option \<Rightarrow> (addr \<times> 'w) list \<Rightarrow> bool" where
  "is_list h p xs \<longleftrightarrow> chain h p xs None \<and> distinct (map fst xs)"

lemma chain_append: "chain h p (xs @ ys) q \<longleftrightarrow> (\<exists>r. chain h p xs r \<and> chain h r ys q)"
  by (induction xs arbitrary: p) (auto, blast+)

lemma chain_frame [simp]:
  "a \<notin> fst ` set xs \<Longrightarrow> chain (h(a := x)) p xs q = chain h p xs q"
  by (induction xs arbitrary: p) auto

lemma is_list_split:
  assumes "is_list h p (xs @ (a, w) # ys)"
  obtains n where "chain h p xs (Some a)" "h a = Some \<lparr>widget = w, pNext = n\<rparr>" "chain h n ys None"
    "a \<notin> fst ` set xs" "a \<notin> fst ` set ys" "fst ` set xs \<inter> fst ` set ys = {}"
    "distinct (map fst xs)" "distinct (map fst ys)"
  using assms by (auto simp: is_list_def chain_append)

lemma is_list_join:
  assumes "chain h p xs (Some a)" "h a = Some \<lparr>widget = w, pNext = n\<rparr>" "chain h n ys None"
    "a \<notin> fst ` set xs" "a \<notin> fst ` set ys" "fst ` set xs \<inter> fst ` set ys = {}"
    "distinct (map fst xs)" "distinct (map fst ys)"
  shows "is_list h p (xs @ (a, w) # ys)"
  using assms by (auto simp: is_list_def chain_append)

section \<open>The loops\<close>

lemma length_loop_eq: "chain h p xs None \<Longrightarrow> length_loop h p len = Some (len + int (length xs))"
proof (induction xs arbitrary: p len)
  case Nil
  then show ?case by (subst length_loop.simps) simp
next
  case (Cons x xs)
  then show ?case by (cases x) (subst length_loop.simps, auto simp: deref_def)
qed

lemma last_node_eq: "chain h (Some p) (xs @ [(a, w)]) None \<Longrightarrow> last_node h p = Some a"
proof (induction xs arbitrary: p)
  case Nil
  then show ?case by (subst last_node.simps) auto
next
  case (Cons x xs)
  obtain b v where x: "x = (b, v)" by fastforce
  with Cons.prems obtain n where n: "p = b" "h b = Some \<lparr>widget = v, pNext = n\<rparr>" "chain h n (xs @ [(a, w)]) None"
    by auto
  then obtain q where q: "n = Some q" by (cases xs) auto
  have "last_node h q = Some a" using Cons.IH n(3) q by simp
  then show ?case using n q by (subst last_node.simps) simp
qed

lemma seek_eq:
  "chain h p xs None \<Longrightarrow> seek h p i pos =
     (let k = nat (pos - 1 - i)
      in if k < length xs then Some (Some (fst (xs ! k)), i + int k) else Some (None, i + int (length xs)))"
proof (induction xs arbitrary: p i)
  case Nil
  then show ?case by (subst seek.simps) simp
next
  case (Cons x xs)
  obtain a w where x: "x = (a, w)" by fastforce
  with Cons.prems obtain n where n: "p = Some a" "h a = Some \<lparr>widget = w, pNext = n\<rparr>" "chain h n xs None"
    by auto
  show ?case
  proof (cases "i < pos - 1")
    case True
    then have k: "nat (pos - 1 - i) = Suc (nat (pos - 1 - (i + 1)))" by linarith
    show ?thesis
      using Cons.IH [OF n(3), of "i + 1"] True n
      by (subst seek.simps) (auto simp: deref_def k Let_def)
  next
    case False
    then show ?thesis using n x by (subst seek.simps) simp
  qed
qed

lemma seek_before_eq:
  "chain h (Some p) (x # xs) None \<Longrightarrow> seek_before h p i pos =
     (let k = min (nat (pos - 1 - i)) (length xs) in Some (fst ((x # xs) ! k), i + int k))"
proof (induction xs arbitrary: x p i)
  case Nil
  then show ?case by (cases x) (subst seek_before.simps, auto)
next
  case (Cons y ys)
  obtain a w where x: "x = (a, w)" by fastforce
  with Cons.prems obtain q where q: "p = a" "h a = Some \<lparr>widget = w, pNext = Some q\<rparr>" "chain h (Some q) (y # ys) None"
    by (cases y) auto
  show ?case
  proof (cases "i < pos - 1")
    case True
    then have k: "nat (pos - 1 - i) = Suc (nat (pos - 1 - (i + 1)))" by linarith
    show ?thesis
      using Cons.IH [OF q(3), of "i + 1"] True q
      by (subst seek_before.simps) (auto simp: k Let_def)
  next
    case False
    then show ?thesis using q x by (subst seek_before.simps) simp
  qed
qed

section \<open>The routines refine operations on lists\<close>

lemma add_node_refines:
  assumes l: "is_list h p xs" and a: "h new = None"
  shows "\<exists>h' p'. add_node h (Some new) p w = Some (0, h', p') \<and> is_list h' p' (xs @ [(new, w)]) \<and>
    (\<forall>b. b \<noteq> new \<longrightarrow> b \<notin> fst ` set xs \<longrightarrow> h' b = h b)"
proof -
  have notin: "new \<notin> fst ` set xs"
  proof
    assume "new \<in> fst ` set xs"
    then obtain v where "(new, v) \<in> set xs" by auto
    then obtain ys zs where "xs = ys @ (new, v) # zs" by (auto dest: split_list)
    then show False using l a by (auto elim: is_list_split)
  qed
  let ?h = "h(new \<mapsto> \<lparr>widget = w, pNext = None\<rparr>)"
  show ?thesis
  proof (cases xs rule: rev_cases)
    case Nil
    then show ?thesis using l by (auto simp: is_list_def add_node_def)
  next
    case (snoc ys z)
    obtain b v where z: "z = (b, v)" by fastforce
    have l': "is_list h p (ys @ (b, v) # [])" using l snoc z by simp
    obtain n where n: "chain h p ys (Some b)" "h b = Some \<lparr>widget = v, pNext = n\<rparr>" "chain h n [] None"
      "b \<notin> fst ` set ys" "distinct (map fst ys)"
      by (rule is_list_split [OF l']) blast
    then obtain s where p: "p = Some s" by (cases ys) auto
    have nb: "new \<noteq> b" "new \<notin> fst ` set ys" using notin snoc z by auto
    have "chain ?h p (ys @ [(b, v)]) None" using n nb by (auto simp: chain_append)
    then have last: "last_node ?h s = Some b" unfolding p by (rule last_node_eq)
    let ?h' = "?h(b \<mapsto> \<lparr>widget = v, pNext = Some new\<rparr>)"
    have "add_node h (Some new) p w = Some (0, ?h', p)"
      using last n(2) nb by (simp add: add_node_def p Let_def)
    moreover have "is_list ?h' p ((ys @ [(b, v)]) @ [(new, w)])"
      using n nb by (auto simp: is_list_def chain_append)
    ultimately show ?thesis using snoc z by auto
  qed
qed

lemma is_list_at:
  assumes "is_list h p xs" and "k < length xs" and "xs ! k = (a, w)"
  obtains n where "chain h p (take k xs) (Some a)" "h a = Some \<lparr>widget = w, pNext = n\<rparr>"
    "chain h n (drop (Suc k) xs) None" "a \<notin> fst ` set (take k xs)" "a \<notin> fst ` set (drop (Suc k) xs)"
    "fst ` set (take k xs) \<inter> fst ` set (drop (Suc k) xs) = {}"
    "distinct (map fst (take k xs))" "distinct (map fst (drop (Suc k) xs))"
proof -
  have "xs = take k xs @ (a, w) # drop (Suc k) xs" using assms(2,3) id_take_nth_drop by metis
  then show thesis using is_list_split [of h p "take k xs" a w "drop (Suc k) xs"] assms(1) that by metis
qed

lemma fresh_notin: "is_list h p xs \<Longrightarrow> h new = None \<Longrightarrow> new \<notin> fst ` set xs"
proof
  assume l: "is_list h p xs" "h new = None" and "new \<in> fst ` set xs"
  then obtain v where "(new, v) \<in> set xs" by auto
  then obtain ys zs where "xs = ys @ (new, v) # zs" by (auto dest: split_list)
  then show False using l by (auto elim: is_list_split)
qed

lemma insert_node_refines:
  assumes l: "is_list h p xs" and new: "h new = None" and pos: "1 \<le> pos" "pos \<le> int (length xs)"
  shows "\<exists>h'. insert_node miss h (Some new) p pos w = Some (0, h') \<and>
    is_list h' p (take (nat pos) xs @ (new, w) # drop (nat pos) xs)"
proof -
  define k where "k = nat (pos - 1)"
  have k: "k < length xs" "nat pos = Suc k" "int k = pos - 1" using pos by (auto simp: k_def)
  obtain a v where x: "xs ! k = (a, v)" by fastforce
  obtain n where n: "chain h p (take k xs) (Some a)" "h a = Some \<lparr>widget = v, pNext = n\<rparr>"
    "chain h n (drop (Suc k) xs) None" "a \<notin> fst ` set (take k xs)" "a \<notin> fst ` set (drop (Suc k) xs)"
    "fst ` set (take k xs) \<inter> fst ` set (drop (Suc k) xs) = {}"
    "distinct (map fst (take k xs))" "distinct (map fst (drop (Suc k) xs))"
    by (rule is_list_at [OF l k(1) x])
  have notin: "new \<notin> fst ` set xs" by (rule fresh_notin [OF l new])
  then have nn: "new \<notin> fst ` set (take k xs)" "new \<notin> fst ` set (drop (Suc k) xs)" "new \<noteq> a"
    using x k(1) n(2) new by (auto dest: in_set_takeD in_set_dropD)
  have s: "seek h p 0 pos = Some (Some a, int k)"
    using seek_eq [of h p xs 0 pos] l k x by (simp add: is_list_def k_def)
  let ?h' = "h(new \<mapsto> \<lparr>widget = w, pNext = n\<rparr>, a \<mapsto> \<lparr>widget = v, pNext = Some new\<rparr>)"
  have "insert_node miss h (Some new) p pos w = Some (0, ?h')"
    using s k n(2) by (simp add: insert_node_def deref_def Let_def)
  moreover have "is_list ?h' p (take k xs @ (a, v) # (new, w) # drop (Suc k) xs)"
    using n nn by (intro is_list_join [where n = "Some new"]) auto
  moreover have "take (nat pos) xs = take k xs @ [(a, v)]"
    using k x by (simp add: take_Suc_conv_app_nth)
  ultimately show ?thesis using k(2) by auto
qed

lemma insert_node_miss:
  assumes l: "is_list h p xs" and pos: "pos < 1 \<or> int (length xs) < pos"
  shows "insert_node miss h malloc p pos w = Some (miss, h)"
proof -
  have s: "seek h p 0 pos = (let k = nat (pos - 1)
      in if k < length xs then Some (Some (fst (xs ! k)), int k) else Some (None, int (length xs)))"
    using seek_eq [of h p xs 0 pos] l by (simp add: is_list_def Let_def)
  show ?thesis
    using pos unfolding insert_node_def s by (auto simp: Let_def)
qed

lemma delete_list_refines:
  assumes l: "is_list h p xs" and pos: "1 \<le> pos" "pos < int (length xs)"
  shows "\<exists>h'. delete_list h p pos = Some (0, h') \<and> h' (fst (xs ! nat pos)) = None \<and>
    is_list h' p (take (nat pos) xs @ drop (Suc (nat pos)) xs)"
proof -
  define k where "k = nat (pos - 1)"
  have k: "k < length xs" "Suc k < length xs" "nat pos = Suc k" "int k = pos - 1" using pos by (auto simp: k_def)
  obtain a v where x: "xs ! k = (a, v)" by fastforce
  obtain b u where y: "xs ! Suc k = (b, u)" by fastforce
  obtain n where n: "chain h p (take k xs) (Some a)" "h a = Some \<lparr>widget = v, pNext = n\<rparr>"
    "chain h n (drop (Suc k) xs) None" "a \<notin> fst ` set (take k xs)" "a \<notin> fst ` set (drop (Suc k) xs)"
    "fst ` set (take k xs) \<inter> fst ` set (drop (Suc k) xs) = {}"
    "distinct (map fst (take k xs))" "distinct (map fst (drop (Suc k) xs))"
    by (rule is_list_at [OF l k(1) x])
  have d: "drop (Suc k) xs = (b, u) # drop (Suc (Suc k)) xs"
    using k(2) y by (metis Cons_nth_drop_Suc)
  obtain m where m: "n = Some b" "h b = Some \<lparr>widget = u, pNext = m\<rparr>" "chain h m (drop (Suc (Suc k)) xs) None"
    using n(3) unfolding d by auto
  obtain s z zs where p: "p = Some s" "xs = z # zs" using l k(1) by (cases xs) (auto simp: is_list_def)
  have "min (nat (pos - 1)) (length zs) = k" using k p by (simp add: k_def)
  then have sb: "seek_before h s 0 pos = Some (a, int k)"
    using seek_before_eq [of h s z zs 0 pos] l x p by (simp add: is_list_def Let_def)
  let ?h' = "(h(a \<mapsto> \<lparr>widget = v, pNext = m\<rparr>))(b := None)"
  have "delete_list h p pos = Some (0, ?h')"
    using sb k n(2) m by (simp add: delete_list_def p deref_def)
  moreover have "is_list ?h' p (take k xs @ (a, v) # drop (Suc (Suc k)) xs)"
    using n m(3) unfolding d by (intro is_list_join [where n = m]) auto
  moreover have "take (nat pos) xs = take k xs @ [(a, v)]"
    using k x by (simp add: take_Suc_conv_app_nth)
  ultimately show ?thesis using k(3) y by auto
qed

lemma delete_list_miss:
  assumes l: "is_list h p xs" and pos: "pos < 1 \<or> int (length xs) \<le> pos" and ne: "xs \<noteq> []"
  shows "delete_list h p pos = Some (-1, h)"
proof -
  obtain s z zs where p: "p = Some s" "xs = z # zs" using l ne by (cases xs) (auto simp: is_list_def)
  define k where "k = min (nat (pos - 1)) (length zs)"
  have k: "k < length xs" using p by (simp add: k_def)
  obtain a v where x: "xs ! k = (a, v)" by fastforce
  obtain n where n: "h a = Some \<lparr>widget = v, pNext = n\<rparr>" "chain h n (drop (Suc k) xs) None"
    by (rule is_list_at [OF l k x])
  have sb: "seek_before h s 0 pos = Some (a, int k)"
    using seek_before_eq [of h s z zs 0 pos] l x p by (simp add: is_list_def Let_def k_def)
  have "int k > pos - 1 \<or> n = None"
  proof (cases "pos < 1")
    case False
    then have "Suc k = length xs" using pos p by (auto simp: k_def)
    then show ?thesis using n(2) by simp
  qed (simp add: k_def)
  then show ?thesis using sb n(1) by (auto simp: delete_list_def p)
qed

section \<open>The interface the widgets use\<close>

locale widget_list =
  fixes add :: "'w heap \<Rightarrow> addr option \<Rightarrow> addr option \<Rightarrow> 'w \<Rightarrow> (int \<times> 'w heap \<times> addr option) option"
  assumes add_ok: "is_list h p xs \<Longrightarrow> h new = None \<Longrightarrow>
      \<exists>h' p'. add h (Some new) p w = Some (0, h', p') \<and> is_list h' p' (xs @ [(new, w)]) \<and>
        (\<forall>b. b \<noteq> new \<longrightarrow> b \<notin> fst ` set xs \<longrightarrow> h' b = h b)"
    and add_full: "add h None p w = Some (-1, h, p)"

fun add_many :: "('w heap \<Rightarrow> addr option \<Rightarrow> addr option \<Rightarrow> 'w \<Rightarrow> (int \<times> 'w heap \<times> addr option) option) \<Rightarrow>
    'w heap \<Rightarrow> addr option \<Rightarrow> (addr \<times> 'w) list \<Rightarrow> ('w heap \<times> addr option) option" where
  "add_many add h p [] = Some (h, p)"
| "add_many add h p ((a, w) # items) =
     Option.bind (add h (Some a) p w) (\<lambda>(_, h, p). add_many add h p items)"

context widget_list begin

lemma add_many_ok:
  "is_list h p xs \<Longrightarrow> \<forall>a \<in> fst ` set items. h a = None \<Longrightarrow> distinct (map fst items) \<Longrightarrow>
   fst ` set items \<inter> fst ` set xs = {} \<Longrightarrow>
   \<exists>h' p'. add_many add h p items = Some (h', p') \<and> is_list h' p' (xs @ items)"
proof (induction items arbitrary: h p xs)
  case (Cons i items)
  obtain a w where i: "i = (a, w)" by fastforce
  obtain h1 p1 where s: "add h (Some a) p w = Some (0, h1, p1)" "is_list h1 p1 (xs @ [(a, w)])"
    "\<And>b. b \<noteq> a \<Longrightarrow> b \<notin> fst ` set xs \<Longrightarrow> h1 b = h b"
    using add_ok [OF Cons.prems(1), of a w] Cons.prems(2) i by auto
  have "\<forall>b \<in> fst ` set items. h1 b = None"
  proof
    fix b assume b: "b \<in> fst ` set items"
    then have "b \<noteq> a" "b \<notin> fst ` set xs" using Cons.prems(3,4) i by auto
    then show "h1 b = None" using s(3) Cons.prems(2) b by auto
  qed
  moreover have "fst ` set items \<inter> fst ` set (xs @ [(a, w)]) = {}" using Cons.prems(3,4) i by auto
  ultimately show ?case
    using Cons.IH [OF s(2)] Cons.prems(3) s(1) i by auto
qed simp

end

interpretation bl: widget_list add_button
  by unfold_locales (auto simp: add_button_def add_node_refines, simp add: add_node_def)

interpretation kl: widget_list add_keyboard
  by unfold_locales (auto simp: add_keyboard_def add_node_refines, simp add: add_node_def)

section \<open>Properties\<close>

text \<open>Widgets added one after the other, buttons or keyboards, make a list that holds them in the
  order they were added, each in a node of its own.\<close>

theorem added_in_order:
  assumes "distinct (map fst items)" and "\<forall>a \<in> fst ` set items. h a = None"
  shows "(\<exists>h' p. add_many add_button h initialize_list items = Some (h', p) \<and> is_list h' p items) \<and>
    (\<exists>h' p. add_many add_keyboard h initialize_list items = Some (h', p) \<and> is_list h' p items)"
  using bl.add_many_ok [of h None "[]" items] kl.add_many_ok [of h None "[]" items] assms
  by (auto simp: is_list_def initialize_list_def)

theorem added_in_order_witness:
  "\<exists>h p. add_many add_button (\<lambda>_. None) None [(10, ''pass''), (20, ''fail'')] = Some (h, p) \<and>
     is_list h p [(10, ''pass''), (20, ''fail'')]"
  using added_in_order [of "[(10, ''pass''), (20, ''fail'')]" "\<lambda>_. None"] by (simp add: initialize_list_def)

text \<open>C22. Insertion at a position from 1 to the length of the list puts the new node behind that many
  nodes and keeps the others; at any other position nothing changes, and the two routines differ
  in what they return then: \<open>insert_keyboard\<close> -1, \<open>insert_button\<close> 0, as if it had succeeded.\<close>

theorem insert_refines:
  assumes "is_list h p xs" and "h new = None"
  shows "if 1 \<le> pos \<and> pos \<le> int (length xs)
    then \<exists>h'. insert_button h (Some new) p pos w = Some (0, h') \<and>
           insert_keyboard h (Some new) p pos w = Some (0, h') \<and>
           is_list h' p (take (nat pos) xs @ (new, w) # drop (nat pos) xs)
    else insert_button h (Some new) p pos w = Some (0, h) \<and>
         insert_keyboard h (Some new) p pos w = Some (-1, h)"
proof (cases "1 \<le> pos \<and> pos \<le> int (length xs)")
  case True
  then obtain h1 h2 where "insert_node 0 h (Some new) p pos w = Some (0, h1)"
    "insert_node (-1) h (Some new) p pos w = Some (0, h2)"
    "is_list h1 p (take (nat pos) xs @ (new, w) # drop (nat pos) xs)"
    using insert_node_refines [OF assms, of pos _ w] by meson
  moreover from this have "h1 = h2" by (auto simp: insert_node_def bind_eq_Some_conv split: prod.splits if_splits)
  ultimately show ?thesis using True by (auto simp: insert_button_def insert_keyboard_def)
next
  case False
  then show ?thesis
    using insert_node_miss [OF assms(1), of pos _ "Some new" w]
    by (auto simp: insert_button_def insert_keyboard_def)
qed

theorem insert_refines_witness:
  "\<exists>h. is_list h (Some 1) [(1, ''a''), (2, ''b'')] \<and>
     insert_button h (Some 3) (Some 1) 7 ''c'' = Some (0, h) \<and>
     (\<exists>h'. insert_button h (Some 3) (Some 1) 1 ''c'' = Some (0, h') \<and>
        is_list h' (Some 1) [(1, ''a''), (3, ''c''), (2, ''b'')])"
proof -
  let ?h = "[1 \<mapsto> \<lparr>widget = ''a'', pNext = Some 2\<rparr>, 2 \<mapsto> \<lparr>widget = ''b'', pNext = None\<rparr>] :: string heap"
  have l: "is_list ?h (Some 1) [(1, ''a''), (2, ''b'')]" by (simp add: is_list_def)
  show ?thesis
    using insert_refines [OF l, of 3 7 "''c''"] insert_refines [OF l, of 3 1 "''c''"] l by auto
qed

text \<open>C23. \<open>delete_list\<close> frees and unlinks the node that follows as many nodes as its argument says; it
  cannot remove the first node, and any position out of range is refused with -1.\<close>

theorem delete_refines:
  assumes "is_list h p xs" and "xs \<noteq> []"
  shows "if 1 \<le> pos \<and> pos < int (length xs)
    then \<exists>h'. delete_list h p pos = Some (0, h') \<and> h' (fst (xs ! nat pos)) = None \<and>
           is_list h' p (take (nat pos) xs @ drop (Suc (nat pos)) xs)
    else delete_list h p pos = Some (-1, h)"
  using delete_list_refines [OF assms(1), of pos] delete_list_miss [OF assms(1) _ assms(2), of pos] by auto

theorem delete_refines_witness:
  "\<exists>h h'. delete_list h (Some (1 :: nat)) 1 = Some (0, h') \<and> is_list h' (Some 1) [(1, ''a'')] \<and>
     delete_list h (Some 1) 0 = Some (-1, h)"
proof -
  let ?h = "[1 \<mapsto> \<lparr>widget = ''a'', pNext = Some 2\<rparr>, 2 \<mapsto> \<lparr>widget = ''b'', pNext = None\<rparr>] :: string heap"
  have l: "is_list ?h (Some 1) [(1, ''a''), (2, ''b'')]" by (simp add: is_list_def)
  show ?thesis using delete_refines [OF l, of 1] delete_refines [OF l, of 0] by auto
qed

text \<open>\<open>length_list\<close> and \<open>is_empty\<close> expect a node at the head that holds no widget, which the lists
  that \<open>add_button\<close> builds do not have: the length of such a list is one too small, a list of one
  widget is empty, and on a list without widgets both follow the null pointer.\<close>

theorem length_misses_head:
  assumes "is_list h p xs"
  shows "length_list h p = (if xs = [] then None else Some (int (length xs) - 1)) \<and>
    is_empty h p = (if xs = [] then None else Some (if length xs = 1 then 1 else 0))"
proof (cases xs)
  case Nil
  then show ?thesis using assms by (simp add: is_list_def length_list_def is_empty_def deref_def)
next
  case (Cons x ys)
  obtain a w where x: "x = (a, w)" by fastforce
  obtain n where n: "p = Some a" "h a = Some \<lparr>widget = w, pNext = n\<rparr>" "chain h n ys None"
    using assms Cons x by (auto simp: is_list_def)
  have "n = None \<longleftrightarrow> ys = []" using n(3) by (cases ys) auto
  then show ?thesis
    using n length_loop_eq [OF n(3), of 0] Cons by (auto simp: length_list_def is_empty_def deref_def)
qed

theorem length_misses_head_witness:
  "\<exists>h. is_list h (Some 1) [(1, ''a'')] \<and> length_list h (Some 1) = Some 0 \<and> is_empty h (Some 1) = Some 1"
proof -
  let ?h = "[1 \<mapsto> \<lparr>widget = ''a'', pNext = None\<rparr>] :: string heap"
  have l: "is_list ?h (Some 1) [(1, ''a'')]" by (simp add: is_list_def)
  show ?thesis using length_misses_head [OF l] l by auto
qed

end
