(* ===== verification/Widget.thy ===== *)
theory Widget
  imports NodeList CString
begin

text \<open>
  \<^verbatim>\<open>test_keyboard/widget.c\<close>, \<^verbatim>\<open>widget.h\<close> and \<^verbatim>\<open>inputevent.c\<close>: buttons and keys on a touch screen. The
  globals are the record \<open>screen\<close>; \<open>button_list\<close> and \<open>keyboard_list\<close> are the lists of widgets that
  the nodes of the theory \<^verbatim>\<open>NodeList\<close> hold, in order, and a pointer to a widget is its position.
  What is drawn, the use of the mutex and the callbacks run are the list of effects an operation
  returns. The graphics library (images, their sizes, the size of the screen) is a parameter.
\<close>

unbundle bit_operations_syntax

section \<open>Data (widget.h)\<close>

datatype touch_state = END_TOUCH | KEEP_TOUCH | RESET_TOUCH
datatype button_mode = ECS_LISTEN | NORMAL
datatype button_style = DEFAULT | CUSTOM
datatype enable_or_disable = DISABLE | ENABLE

record keyboard_touch =
  kt_keyboard_id :: int
  kt_event_id :: int
  kt_state :: int

record touch =
  t_x :: u32
  t_y :: u32
  t_state :: touch_state
  t_bt_id :: int

record position =
  f_position_x :: u32
  f_position_y :: u32
  iconWidth :: int
  iconHeight :: int

type_synonym gr_surface = nat

record keyboard =
  k_id :: int
  k_event_id :: int
  k_release_name :: string
  k_press_name :: string
  k_state :: touch_state
  k_result :: int
  k_release_surface :: gr_surface
  k_press_surface :: gr_surface
  k_rs :: position
  k_ps :: position

record default_button_style =
  d_x :: int
  d_y :: int
  d_width :: int
  d_height :: int
  d_rcolor :: u32
  d_pcolor :: u32

record button =
  b_id :: int
  b_mode :: button_mode
  b_style :: button_style
  b_Draw_Button_In_End :: enable_or_disable
  b_Fast_Touch :: enable_or_disable
  b_default :: default_button_style
  b_release_name :: string
  b_press_name :: string
  b_state :: touch_state
  b_result :: int
  b_release_surface :: gr_surface
  b_press_surface :: gr_surface
  b_rs :: position
  b_ps :: position
  b_param :: "nat option"
  b_func :: "nat option"

text \<open>The graphics library, and what the program does through it and to the mutex.\<close>

record graphics =
  gr_fb_width :: int
  gr_fb_height :: int
  res_create_display_surface :: "string \<Rightarrow> gr_surface"
  gr_get_width :: "gr_surface \<Rightarrow> int"
  gr_get_height :: "gr_surface \<Rightarrow> int"

datatype eff =
    Gr_color u8 u8 u8 u8
  | Gr_fill int int int int
  | Gr_blit gr_surface int int int int u32 u32
  | Gr_flip
  | Mutex_lock
  | Mutex_unlock
  | Call nat "nat option"

text \<open>\<open>struct input_event\<close> without its time stamp.\<close>

record input_event =
  ev_type :: nat
  ev_code :: nat
  ev_value :: int

definition EV_SYN :: nat where "EV_SYN = 0"
definition EV_KEY :: nat where "EV_KEY = 1"
definition EV_ABS :: nat where "EV_ABS = 3"
definition ABS_MT_POSITION_X :: nat where "ABS_MT_POSITION_X = 0x35"
definition ABS_MT_POSITION_Y :: nat where "ABS_MT_POSITION_Y = 0x36"

lemmas ev_consts = EV_SYN_def EV_KEY_def EV_ABS_def ABS_MT_POSITION_X_def ABS_MT_POSITION_Y_def

record screen =
  widget_id :: u32
  rec_touch :: touch
  kb_touch :: keyboard_touch
  width_limit :: int
  height_limit :: int
  swap :: int
  button_list :: "button list"
  keyboard_list :: "keyboard list"

section \<open>Set-up\<close>

definition get_screen_width :: "graphics \<Rightarrow> int" where
  "get_screen_width G = gr_fb_width G"

definition get_screen_height :: "graphics \<Rightarrow> int" where
  "get_screen_height G = gr_fb_height G"

definition init_param :: "graphics \<Rightarrow> screen \<Rightarrow> screen" where
  "init_param G s = s\<lparr>widget_id := 1, width_limit := get_screen_width G,
     height_limit := get_screen_height G, swap := 0,
     rec_touch := (rec_touch s)\<lparr>t_state := RESET_TOUCH, t_bt_id := 0\<rparr>,
     kb_touch := (kb_touch s)\<lparr>kt_keyboard_id := 0, kt_event_id := 0, kt_state := 0\<rparr>\<rparr>"

definition set_swap :: "screen \<Rightarrow> screen" where
  "set_swap s = (if swap s = 1 then s\<lparr>swap := 0\<rparr> else s\<lparr>swap := 1\<rparr>)"

definition res_path :: "string \<Rightarrow> string" where
  "res_path name = snprintf 255 (''../..'' @ name)"

definition init_backguound :: "graphics \<Rightarrow> string \<Rightarrow> u32 \<Rightarrow> u32 \<Rightarrow> eff list" where
  "init_backguound G name x y =
     (let bg_surface = res_create_display_surface G (res_path name)
      in [Gr_blit bg_surface 0 0 (gr_get_width G bg_surface) (gr_get_height G bg_surface) x y, Gr_flip])"

section \<open>Drawing\<close>

definition color_of :: "u32 \<Rightarrow> eff" where
  "color_of c = Gr_color (byte_of 3 c) (byte_of 2 c) (byte_of 1 c) (byte_of 0 c)"

definition fill_inset :: "default_button_style \<Rightarrow> int \<Rightarrow> eff" where
  "fill_inset d n = Gr_fill (d_x d + n) (d_y d + n) (d_x d + d_width d - n) (d_y d + d_height d - n)"

definition draw_default_button :: "button \<Rightarrow> int \<Rightarrow> int \<times> eff list" where
  "draw_default_button b state =
     (let d = b_default b;
          es = [Mutex_lock, Gr_color 0 0 0 255, fill_inset d 0, Gr_color 76 76 76 255, fill_inset d 3]
      in if state = 0 then (0, es @ [color_of (d_rcolor d), fill_inset d 5, Gr_flip, Mutex_unlock])
         else if state = 1 then (0, es @ [color_of (d_pcolor d), fill_inset d 5, Gr_flip, Mutex_unlock])
         else (-1, es))"

definition blit_at :: "gr_surface \<Rightarrow> position \<Rightarrow> eff" where
  "blit_at s p = Gr_blit s 0 0 (iconWidth p) (iconHeight p) (f_position_x p) (f_position_y p)"

definition draw_custom_button :: "button \<Rightarrow> int \<Rightarrow> int \<times> eff list" where
  "draw_custom_button b state =
     (if state = 0 then (0, [Mutex_lock, blit_at (b_release_surface b) (b_rs b), Gr_flip, Mutex_unlock])
      else if state = 1 then (0, [Mutex_lock, blit_at (b_press_surface b) (b_ps b), Gr_flip, Mutex_unlock])
      else (-1, []))"

definition draw_button :: "button \<Rightarrow> eff list" where
  "draw_button b =
     (if b_state b = KEEP_TOUCH then
        (case b_style b of DEFAULT \<Rightarrow> snd (draw_default_button b 1) | CUSTOM \<Rightarrow> snd (draw_custom_button b 1))
      else
        (case b_style b of DEFAULT \<Rightarrow> snd (draw_default_button b 0) | CUSTOM \<Rightarrow> snd (draw_custom_button b 0)))"

section \<open>Making widgets\<close>

text \<open>
  \<open>block\<close> is what \<open>malloc\<close> returned for the widget: \<open>None\<close>, which the code does not check, or its
  bytes; \<open>node\<close> is whether \<open>add_button\<close> got its node.
\<close>

definition add_to :: "bool \<Rightarrow> 'a \<Rightarrow> 'a list \<Rightarrow> 'a list" where
  "add_to node w ws = (if node then ws @ [w] else ws)"

definition init_button :: "graphics \<Rightarrow> button option \<Rightarrow> bool \<Rightarrow> string \<Rightarrow> string \<Rightarrow> u32 \<Rightarrow> u32 \<Rightarrow>
    screen \<Rightarrow> (button \<times> eff list \<times> screen) option" where
  "init_button G block node release_name press_name x y s = (case block of
       None \<Rightarrow> None
     | Some b \<Rightarrow>
         let b = b\<lparr>b_result := 0, b_style := CUSTOM\<rparr>;
             b = b\<lparr>b_release_surface := res_create_display_surface G (res_path release_name)\<rparr>;
             b = b\<lparr>b_press_surface := res_create_display_surface G (res_path press_name)\<rparr>;
             b = b\<lparr>b_release_name := release_name,
                   b_rs := \<lparr>f_position_x = x, f_position_y = y,
                     iconWidth = gr_get_width G (b_release_surface b),
                     iconHeight = gr_get_height G (b_release_surface b)\<rparr>\<rparr>;
             b = b\<lparr>b_ps := \<lparr>f_position_x = x, f_position_y = y,
                     iconWidth = gr_get_width G (b_press_surface b),
                     iconHeight = gr_get_height G (b_press_surface b)\<rparr>\<rparr>;
             b = b\<lparr>b_id := sint (widget_id s)\<rparr>;
             s = s\<lparr>widget_id := widget_id s + 1\<rparr>;
             b = b\<lparr>b_param := None, b_func := None, b_mode := NORMAL,
                   b_Draw_Button_In_End := ENABLE, b_Fast_Touch := DISABLE\<rparr>
         in Some (b, [blit_at (b_release_surface b) (b_rs b), Gr_flip],
                  s\<lparr>button_list := add_to node b (button_list s)\<rparr>))"

definition init_default_button :: "button option \<Rightarrow> bool \<Rightarrow> int \<Rightarrow> int \<Rightarrow> int \<Rightarrow> int \<Rightarrow> u32 \<Rightarrow> u32 \<Rightarrow>
    screen \<Rightarrow> (button \<times> eff list \<times> screen) option" where
  "init_default_button block node x y width height release_color press_color s = (case block of
       None \<Rightarrow> None
     | Some b \<Rightarrow>
         let b = b\<lparr>b_result := 0, b_style := DEFAULT\<rparr>;
             b = b\<lparr>b_default := \<lparr>d_x = x, d_y = y, d_width = width, d_height = height,
                     d_rcolor = release_color, d_pcolor = press_color\<rparr>\<rparr>;
             p = \<lparr>f_position_x = word_of_int x, f_position_y = word_of_int y,
                  iconWidth = width, iconHeight = height\<rparr>;
             b = b\<lparr>b_rs := p, b_ps := p\<rparr>;
             b = b\<lparr>b_id := sint (widget_id s)\<rparr>;
             s = s\<lparr>widget_id := widget_id s + 1\<rparr>;
             b = b\<lparr>b_param := None, b_func := None, b_mode := NORMAL,
                   b_Draw_Button_In_End := ENABLE, b_Fast_Touch := DISABLE\<rparr>
         in Some (b, snd (draw_default_button b 0),
                  s\<lparr>button_list := add_to node b (button_list s)\<rparr>))"

definition init_keyboard :: "graphics \<Rightarrow> keyboard option \<Rightarrow> bool \<Rightarrow> string \<Rightarrow> string \<Rightarrow> u32 \<Rightarrow> u32 \<Rightarrow>
    screen \<Rightarrow> (keyboard \<times> eff list \<times> screen) option" where
  "init_keyboard G block node release_name press_name x y s = (case block of
       None \<Rightarrow> None
     | Some k \<Rightarrow>
         let k = k\<lparr>k_release_surface := res_create_display_surface G (res_path release_name)\<rparr>;
             k = k\<lparr>k_press_surface := res_create_display_surface G (res_path press_name)\<rparr>;
             k = k\<lparr>k_release_name := release_name,
                   k_rs := \<lparr>f_position_x = x, f_position_y = y,
                     iconWidth = gr_get_width G (k_release_surface k),
                     iconHeight = gr_get_height G (k_release_surface k)\<rparr>\<rparr>;
             k = k\<lparr>k_ps := \<lparr>f_position_x = x, f_position_y = y,
                     iconWidth = gr_get_width G (k_press_surface k),
                     iconHeight = gr_get_height G (k_press_surface k)\<rparr>\<rparr>;
             k = k\<lparr>k_id := sint (widget_id s)\<rparr>;
             s = s\<lparr>widget_id := widget_id s + 1\<rparr>
         in Some (k, [blit_at (k_release_surface k) (k_rs k), Gr_flip],
                  s\<lparr>keyboard_list := add_to node k (keyboard_list s)\<rparr>))"

text \<open>A null pointer is refused; any other is a button of the list.\<close>

definition set_button_mode :: "nat option \<Rightarrow> button_mode \<Rightarrow> screen \<Rightarrow> int \<times> screen" where
  "set_button_mode p mode s = (case p of
       None \<Rightarrow> (-1, s)
     | Some i \<Rightarrow> (0, s\<lparr>button_list := (button_list s)[i := (button_list s ! i)\<lparr>b_mode := mode\<rparr>]\<rparr>))"

section \<open>Touches\<close>

definition istouchingbutton :: "button \<Rightarrow> touch \<Rightarrow> int" where
  "istouchingbutton b t =
     (if t_x t > f_position_x (b_ps b) \<and> t_x t < f_position_x (b_ps b) + word_of_int (iconWidth (b_ps b)) \<and>
         t_y t > f_position_y (b_ps b) \<and> t_y t < f_position_y (b_ps b) + word_of_int (iconHeight (b_ps b))
      then 1 else 0)"

definition get_touch :: "screen \<Rightarrow> input_event \<Rightarrow> int \<times> touch" where
  "get_touch s t =
     (let m = rec_touch s
      in if ev_type t = EV_ABS then
           let m = m\<lparr>t_state := RESET_TOUCH\<rparr>;
               m = (if ev_code t = ABS_MT_POSITION_X
                    then m\<lparr>t_x := word_of_int (if swap s \<noteq> 0 then width_limit s - ev_value t else ev_value t)\<rparr>
                    else m);
               m = (if ev_code t = ABS_MT_POSITION_Y
                    then m\<lparr>t_y := word_of_int (if swap s \<noteq> 0 then height_limit s - ev_value t else ev_value t)\<rparr>
                    else m)
           in (int EV_ABS, m)
         else if ev_type t = EV_SYN \<and> ev_code t = 0 then
           (int EV_SYN,
            m\<lparr>t_state := (case t_state m of RESET_TOUCH \<Rightarrow> KEEP_TOUCH | KEEP_TOUCH \<Rightarrow> END_TOUCH
                          | END_TOUCH \<Rightarrow> RESET_TOUCH)\<rparr>)
         else (-1, m))"

fun find_button_by_position :: "touch \<Rightarrow> button list \<Rightarrow> nat option" where
  "find_button_by_position t [] = None"
| "find_button_by_position t (b # bs) =
     (if istouchingbutton b t = 1 then Some 0 else map_option Suc (find_button_by_position t bs))"

fun find_button_by_id :: "int \<Rightarrow> button list \<Rightarrow> nat option" where
  "find_button_by_id i [] = None"
| "find_button_by_id i (b # bs) =
     (if b_id b = i then Some 0 else map_option Suc (find_button_by_id i bs))"

definition put_state :: "nat \<Rightarrow> touch_state \<Rightarrow> screen \<Rightarrow> screen" where
  "put_state i st s = s\<lparr>button_list := (button_list s)[i := (button_list s ! i)\<lparr>b_state := st\<rparr>]\<rparr>"

definition put_bt_id :: "int \<Rightarrow> screen \<Rightarrow> screen" where
  "put_bt_id i s = s\<lparr>rec_touch := (rec_touch s)\<lparr>t_bt_id := i\<rparr>\<rparr>"

definition show_end :: "nat \<Rightarrow> screen \<Rightarrow> eff list" where
  "show_end i s = (if b_Draw_Button_In_End (button_list s ! i) = ENABLE
     then draw_button (button_list s ! i) @ [Gr_flip] else [])"

text \<open>The \<open>switch\<close> on the state of the touch: a button id when the routine returns.\<close>

definition on_touch :: "screen \<Rightarrow> int option \<times> eff list \<times> screen" where
  "on_touch s =
     (let t = rec_touch s; bs = button_list s
      in case t_state t of
           KEEP_TOUCH \<Rightarrow>
             (case find_button_by_position t bs of
                None \<Rightarrow>
                  (case find_button_by_id (t_bt_id t) bs of
                     None \<Rightarrow> (None, [], put_bt_id 0 s)
                   | Some l \<Rightarrow> let s = put_state l RESET_TOUCH s in (None, show_end l s, put_bt_id 0 s))
              | Some m \<Rightarrow>
                  (let (es, s) =
                     (case find_button_by_id (t_bt_id t) bs of
                        None \<Rightarrow> let s = put_state m KEEP_TOUCH s in (draw_button (button_list s ! m) @ [Gr_flip], s)
                      | Some l \<Rightarrow>
                          if b_id (bs ! l) \<noteq> b_id (bs ! m) then
                            let s = put_state l RESET_TOUCH s; e1 = show_end l s;
                                s = put_state m KEEP_TOUCH s
                            in (e1 @ draw_button (button_list s ! m) @ [Gr_flip], s)
                          else ([], s));
                       s = put_bt_id (b_id (bs ! m)) s
                   in (if b_Fast_Touch (bs ! m) = ENABLE then Some (b_id (bs ! m)) else None, es, s)))
         | END_TOUCH \<Rightarrow>
             (case find_button_by_id (t_bt_id t) bs of
                None \<Rightarrow> (Some (t_bt_id t), [], s)
              | Some m \<Rightarrow> let s = put_state m RESET_TOUCH s in (Some (t_bt_id t), show_end m s, s))
         | RESET_TOUCH \<Rightarrow> (None, [], s))"

text \<open>The events that \<open>read\<close> delivers until there is none: the value returned, what is left unread.\<close>

fun catch_action_for_button :: "input_event list \<Rightarrow> screen \<Rightarrow> int \<times> eff list \<times> screen \<times> input_event list" where
  "catch_action_for_button [] s = (0, [], s, [])"
| "catch_action_for_button (t # ts) s =
     (let (code, m) = get_touch s t; s = s\<lparr>rec_touch := m\<rparr>
      in if code = int EV_SYN then
           (case on_touch s of
              (Some i, es, s) \<Rightarrow> (i, es, s, ts)
            | (None, es, s) \<Rightarrow>
                let (i, es', s, rest) = catch_action_for_button ts s in (i, es @ es', s, rest))
         else catch_action_for_button ts s)"

section \<open>Keys\<close>

definition get_keyboard_touch :: "input_event \<Rightarrow> keyboard_touch \<Rightarrow> int \<times> keyboard_touch" where
  "get_keyboard_touch t m =
     (if ev_type t = EV_KEY then (int EV_KEY, m\<lparr>kt_event_id := int (ev_code t), kt_state := ev_value t\<rparr>)
      else if ev_type t = EV_SYN then (int EV_SYN, m)
      else (-1, m))"

definition key_effects :: "input_event \<Rightarrow> keyboard \<Rightarrow> eff list" where
  "key_effects t k =
     (if ev_type t = EV_KEY then
        (if ev_value t = 0 then [Mutex_lock, blit_at (k_release_surface k) (k_rs k), Gr_flip, Mutex_unlock, Gr_flip]
         else []) @
        (if ev_value t = 1
         then [Mutex_lock, Gr_blit (k_press_surface k) 0 0 (iconWidth (k_ps k)) (iconHeight (k_rs k))
                 (f_position_x (k_ps k)) (f_position_y (k_ps k)), Gr_flip, Mutex_unlock, Gr_flip]
         else [])
      else [])"

definition catch_action_for_keyboard :: "input_event list \<Rightarrow> screen \<Rightarrow> int \<times> eff list" where
  "catch_action_for_keyboard ts s =
     (0, concat (map (\<lambda>t. concat (map (key_effects t) (keyboard_list s))) ts))"

section \<open>Finding the devices\<close>

definition HANDLERS :: string where "HANDLERS = ''Handlers''"
definition KEYS_NAME :: string where "KEYS_NAME = ''gpio-keys''"
definition TS_NAME :: string where "TS_NAME = ''_ts''"

fun strstr :: "string \<Rightarrow> string \<Rightarrow> string option" where
  "strstr [] pat = (if pat = [] then Some [] else None)"
| "strstr (c # s) pat = (if take (length pat) (c # s) = pat then Some (c # s) else strstr s pat)"

definition strlcat :: "string \<Rightarrow> string \<Rightarrow> nat \<Rightarrow> string" where
  "strlcat dst src n = dst @ take (n - 1 - length dst) src"

text \<open>The two loops over the lines that \<open>fgets\<close> reads; \<open>None\<close> is a null pointer followed.\<close>

fun handlers_loop :: "string \<Rightarrow> string list \<Rightarrow> string option" where
  "handlers_loop dev_path [] = Some dev_path"
| "handlers_loop dev_path (line # ls) =
     (if strstr line HANDLERS \<noteq> None then
        (case strstr line ''event'' of
           None \<Rightarrow> None
         | Some tmp \<Rightarrow> let event = take 7 tmp in Some (strlcat dev_path event 18))
      else handlers_loop dev_path ls)"

fun name_loop :: "string \<Rightarrow> string \<Rightarrow> string list \<Rightarrow> string option" where
  "name_loop name dev_path [] = Some dev_path"
| "name_loop name dev_path (line # ls) =
     (if strstr line name \<noteq> None then handlers_loop dev_path ls else name_loop name dev_path ls)"

definition find_dev_path :: "string \<Rightarrow> string list option \<Rightarrow> string option" where
  "find_dev_path name file = (case file of
       None \<Rightarrow> None
     | Some ls \<Rightarrow> name_loop name ''/dev/input/'' ls)"

definition open_keyboard_fd :: "(string \<Rightarrow> int) \<Rightarrow> string list option \<Rightarrow> int option" where
  "open_keyboard_fd sys_open file = (case find_dev_path KEYS_NAME file of
       None \<Rightarrow> None
     | Some dev_path \<Rightarrow> let keys_fd = sys_open dev_path in Some (if keys_fd \<le> 0 then -1 else keys_fd))"

definition open_button_fd :: "(string \<Rightarrow> int) \<Rightarrow> string list option \<Rightarrow> int option" where
  "open_button_fd sys_open file = (case find_dev_path TS_NAME file of
       None \<Rightarrow> None
     | Some dev_path \<Rightarrow> let keys_fd = sys_open dev_path in Some (if keys_fd \<le> 0 then -1 else keys_fd))"

section \<open>Listening\<close>

text \<open>
  What \<open>epoll_wait\<close> reports: an error, or the descriptors that are ready, each with the events
  that have arrived on it. Events that were not read stay in the queue \<open>q\<close> of the touch screen.
\<close>

datatype wait = Wait_error | Ready "(int \<times> input_event list) list"

text \<open>\<open>cb\<close> is what the functions behind the pointers do to the widgets.\<close>

type_synonym callbacks = "nat \<Rightarrow> nat option \<Rightarrow> screen \<Rightarrow> screen"

definition on_button :: "callbacks \<Rightarrow> int \<Rightarrow> screen \<Rightarrow> eff list \<times> screen \<times> bool" where
  "on_button cb i s = (case find_button_by_id i (button_list s) of
       None \<Rightarrow> ([], s, False)
     | Some k \<Rightarrow>
         let s = s\<lparr>button_list := (button_list s)[k := (button_list s ! k)\<lparr>b_result := 1\<rparr>]\<rparr>;
             b = button_list s ! k;
             (es, s) = (case b_func b of None \<Rightarrow> ([], s) | Some f \<Rightarrow> ([Call f (b_param b)], cb f (b_param b) s))
         in (es, s, b_mode (button_list s ! k) = ECS_LISTEN))"

fun ready_loop :: "callbacks \<Rightarrow> int \<Rightarrow> int \<Rightarrow> (int \<times> input_event list) list \<Rightarrow> input_event list \<Rightarrow> screen \<Rightarrow>
    eff list \<times> screen \<times> input_event list \<times> bool" where
  "ready_loop cb bt_fd key_fd [] q s = ([], s, q, False)"
| "ready_loop cb bt_fd key_fd ((fd, evs) # es) q s =
     (if fd = bt_fd then
        let (i, e1, s, q) = catch_action_for_button (q @ evs) s;
            (e2, s, stop) = on_button cb i s
        in if stop then (e1 @ e2, s, q, True)
           else let (e3, s, q, stop) = ready_loop cb bt_fd key_fd es q s in (e1 @ e2 @ e3, s, q, stop)
      else if fd = key_fd then
        let (_, e1) = catch_action_for_keyboard evs s;
            (e2, s, q, stop) = ready_loop cb bt_fd key_fd es q s
        in (e1 @ e2, s, q, stop)
      else ready_loop cb bt_fd key_fd es q s)"

text \<open>The endless loop over the waits of a run: \<open>None\<close> when it is still waiting at their end.\<close>

fun listen_loop :: "callbacks \<Rightarrow> int \<Rightarrow> int \<Rightarrow> wait list \<Rightarrow> input_event list \<Rightarrow> screen \<Rightarrow> int option \<times> eff list \<times> screen" where
  "listen_loop cb bt_fd key_fd [] q s = (None, [], s)"
| "listen_loop cb bt_fd key_fd (Wait_error # ws) q s = listen_loop cb bt_fd key_fd ws q s"
| "listen_loop cb bt_fd key_fd (Ready evs # ws) q s =
     (let (e1, s, q, stop) = ready_loop cb bt_fd key_fd evs q s
      in if stop then (Some 0, e1, s)
         else let (r, e2, s) = listen_loop cb bt_fd key_fd ws q s in (r, e1 @ e2, s))"

record environment =
  en_open :: "string \<Rightarrow> int"
  en_devices :: "string list option"
  en_epoll_ctl :: "int \<Rightarrow> int"
  en_waits :: "wait list"
  en_func :: callbacks

text \<open>\<open>None\<close> is a null pointer followed, \<open>Some (None, \<dots>)\<close> that it is still listening.\<close>

definition start_listen :: "environment \<Rightarrow> screen \<Rightarrow> (int option \<times> eff list \<times> screen) option" where
  "start_listen E s =
     Option.bind (open_keyboard_fd (en_open E) (en_devices E)) (\<lambda>key_fd.
     Option.bind (open_button_fd (en_open E) (en_devices E)) (\<lambda>bt_fd.
       if en_epoll_ctl E bt_fd < 0 then Some (Some (-1), [], s)
       else if en_epoll_ctl E key_fd < 0 then Some (Some (-1), [], s)
       else Some (listen_loop (en_func E) bt_fd key_fd (en_waits E) [] s)))"

section \<open>The program (inputevent.c)\<close>

definition check_button_result :: "nat \<Rightarrow> screen \<Rightarrow> int" where
  "check_button_result p s = b_result (button_list s ! p)"

definition inputevent_main :: "graphics \<Rightarrow> environment \<Rightarrow> keyboard option \<Rightarrow> button option \<Rightarrow> button option \<Rightarrow>
    screen \<Rightarrow> (int option \<times> eff list) option" where
  "inputevent_main G E kblock block1 block2 s =
     (let s = init_param G s;
          e0 = init_backguound G ''/system/pretest/testkey'' 40 40
      in Option.bind (init_keyboard G kblock True ''/system/pretest/releasekey'' ''/system/pretest/presskey'' 130 168 s)
           (\<lambda>(_, e1, s).
         Option.bind (init_button G block1 True ''/system/pretest/rpass'' ''/system/pretest/ppass'' 55 300 s)
           (\<lambda>(_, e2, s).
         let bt_pass = length (button_list s) - 1
         in Option.bind (init_button G block2 True ''/system/pretest/rfail'' ''/system/pretest/pfail'' 205 300 s)
           (\<lambda>(_, e3, s).
         let bt_fail = length (button_list s) - 1;
             (_, s) = set_button_mode (Some bt_pass) ECS_LISTEN s;
             (_, s) = set_button_mode (Some bt_fail) ECS_LISTEN s
         in Option.bind (start_listen E s) (\<lambda>(r, e4, s).
              Some (map_option (\<lambda>_. check_button_result bt_fail s) r, e0 @ e1 @ e2 @ e3 @ e4))))))"

section \<open>What a touch leaves as it was\<close>

text \<open>A button but for its touch state.\<close>

definition shape :: "button \<Rightarrow> button" where
  "shape b = b\<lparr>b_state := RESET_TOUCH\<rparr>"

definition same_screen :: "screen \<Rightarrow> screen \<Rightarrow> bool" where
  "same_screen s s' \<longleftrightarrow> map shape (button_list s') = map shape (button_list s) \<and>
     swap s' = swap s \<and> width_limit s' = width_limit s \<and> height_limit s' = height_limit s"

lemma same_screen_refl [simp]: "same_screen s s"
  by (simp add: same_screen_def)

lemma same_screen_trans: "same_screen s t \<Longrightarrow> same_screen t u \<Longrightarrow> same_screen s u"
  by (simp add: same_screen_def)

lemma shape_update: "shape b' = shape (bs ! i) \<Longrightarrow> map shape (bs[i := b']) = map shape bs"
  by (cases "i < length bs") (simp_all add: map_update list_update_same_conv list_update_beyond)

lemma same_screen_put_state [simp]: "same_screen s (put_state i st s)"
  by (simp add: same_screen_def put_state_def) (rule shape_update, simp add: shape_def)

lemma same_screen_rec_touch [simp]: "same_screen s (s\<lparr>rec_touch := m\<rparr>)"
  by (simp add: same_screen_def)

lemma same_screen_put_bt_id [simp]: "same_screen s (put_bt_id i s)"
  by (simp add: put_bt_id_def)

lemma same_screen_puts [intro]:
  "same_screen s t \<Longrightarrow> same_screen s (put_bt_id i t)"
  "same_screen s t \<Longrightarrow> same_screen s (put_state k st t)"
  using same_screen_trans same_screen_put_bt_id same_screen_put_state by blast+

lemma rec_touch_put [simp]:
  "rec_touch (put_state i st s) = rec_touch s"
  "rec_touch (put_bt_id j s) = (rec_touch s)\<lparr>t_bt_id := j\<rparr>"
  by (simp_all add: put_state_def put_bt_id_def)

lemma shape_fields:
  "shape a = shape b \<Longrightarrow> b_id a = b_id b \<and> b_ps a = b_ps b \<and> b_Fast_Touch a = b_Fast_Touch b"
  by (cases a; cases b) (simp add: shape_def)

lemma find_position_shape:
  "map shape bs = map shape cs \<Longrightarrow> find_button_by_position t bs = find_button_by_position t cs"
proof (induction bs arbitrary: cs)
  case (Cons b bs)
  then obtain c cs' where c: "cs = c # cs'" "shape b = shape c" "map shape bs = map shape cs'" by (cases cs) auto
  then have "istouchingbutton b t = istouchingbutton c t"
    using shape_fields [OF c(2)] by (simp add: istouchingbutton_def)
  then show ?case using Cons.IH [OF c(3)] c(1) by simp
qed simp

lemma find_position_bound: "find_button_by_position t bs = Some m \<Longrightarrow> m < length bs"
  by (induction bs arbitrary: m) (auto split: if_splits)

text \<open>The id of the button at a point, 0 when there is none.\<close>

definition id_at :: "button list \<Rightarrow> u32 \<Rightarrow> u32 \<Rightarrow> int" where
  "id_at bs x y = (case find_button_by_position \<lparr>t_x = x, t_y = y, t_state = RESET_TOUCH, t_bt_id = 0\<rparr> bs of
     None \<Rightarrow> 0 | Some m \<Rightarrow> b_id (bs ! m))"

lemma find_position_point:
  "find_button_by_position t bs =
   find_button_by_position \<lparr>t_x = t_x t, t_y = t_y t, t_state = RESET_TOUCH, t_bt_id = 0\<rparr> bs"
  by (induction bs) (simp_all add: istouchingbutton_def)

lemma id_at_shape: "map shape bs = map shape cs \<Longrightarrow> id_at bs x y = id_at cs x y"
proof -
  assume m: "map shape bs = map shape cs"
  have len: "length bs = length cs" using arg_cong [OF m, of length] by simp
  have b: "b_id (bs ! k) = b_id (cs ! k)" if "k < length bs" for k
    using arg_cong [OF m, of "\<lambda>l. l ! k"] that len shape_fields [of "bs ! k" "cs ! k"] by simp
  let ?t = "\<lparr>t_x = x, t_y = y, t_state = RESET_TOUCH, t_bt_id = 0\<rparr>"
  show ?thesis
  proof (cases "find_button_by_position ?t bs")
    case (Some k)
    then show ?thesis
      using find_position_shape [OF m, of ?t] b [OF find_position_bound [OF Some]] by (simp add: id_at_def)
  qed (use find_position_shape [OF m, of ?t] in \<open>simp add: id_at_def\<close>)
qed

text \<open>Whether the button at a point has \<open>Fast_Touch\<close> enabled.\<close>

definition fast_at :: "button list \<Rightarrow> u32 \<Rightarrow> u32 \<Rightarrow> bool" where
  "fast_at bs x y = (case find_button_by_position \<lparr>t_x = x, t_y = y, t_state = RESET_TOUCH, t_bt_id = 0\<rparr> bs of
     None \<Rightarrow> False | Some m \<Rightarrow> b_Fast_Touch (bs ! m) = ENABLE)"

lemma fast_at_shape: "map shape bs = map shape cs \<Longrightarrow> fast_at bs x y = fast_at cs x y"
proof -
  assume m: "map shape bs = map shape cs"
  have len: "length bs = length cs" using arg_cong [OF m, of length] by simp
  have b: "b_Fast_Touch (bs ! k) = b_Fast_Touch (cs ! k)" if "k < length bs" for k
    using arg_cong [OF m, of "\<lambda>l. l ! k"] that len shape_fields [of "bs ! k" "cs ! k"] by simp
  let ?t = "\<lparr>t_x = x, t_y = y, t_state = RESET_TOUCH, t_bt_id = 0\<rparr>"
  show ?thesis
  proof (cases "find_button_by_position ?t bs")
    case (Some k)
    then show ?thesis
      using find_position_shape [OF m, of ?t] b [OF find_position_bound [OF Some]] by (simp add: fast_at_def)
  qed (use find_position_shape [OF m, of ?t] in \<open>simp add: fast_at_def\<close>)
qed

definition slow :: "screen \<Rightarrow> bool" where
  "slow s \<longleftrightarrow> (\<forall>b \<in> set (button_list s). b_Fast_Touch b = DISABLE)"

lemma slow_not_fast: "slow s \<Longrightarrow> \<not> fast_at (button_list s) x y"
  by (auto simp: fast_at_def slow_def dest!: find_position_bound nth_mem split: option.splits)

section \<open>One report of the touch screen\<close>

lemma on_touch_keep:
  assumes "t_state (rec_touch s) = KEEP_TOUCH"
    and "\<not> fast_at (button_list s) (t_x (rec_touch s)) (t_y (rec_touch s))"
  shows "\<exists>es s'. on_touch s = (None, es, s') \<and> same_screen s s' \<and>
    rec_touch s' = (rec_touch s)\<lparr>t_bt_id := id_at (button_list s) (t_x (rec_touch s)) (t_y (rec_touch s))\<rparr>"
proof (cases "find_button_by_position (rec_touch s) (button_list s)")
  case None
  then have "id_at (button_list s) (t_x (rec_touch s)) (t_y (rec_touch s)) = 0"
    using find_position_point [of "rec_touch s"] by (simp add: id_at_def)
  then show ?thesis using None assms(1)
    by (auto simp: on_touch_def Let_def split: option.split)
next
  case (Some m)
  then have i: "id_at (button_list s) (t_x (rec_touch s)) (t_y (rec_touch s)) = b_id (button_list s ! m)"
    using find_position_point [of "rec_touch s"] by (simp add: id_at_def)
  have "b_Fast_Touch (button_list s ! m) \<noteq> ENABLE"
    using assms(2) Some find_position_point [of "rec_touch s"] by (simp add: fast_at_def)
  then show ?thesis using Some assms(1) i
    by (auto simp: on_touch_def Let_def intro!: same_screen_puts split: option.split)
qed

lemma on_touch_fast:
  assumes "t_state (rec_touch s) = KEEP_TOUCH"
    and "fast_at (button_list s) (t_x (rec_touch s)) (t_y (rec_touch s))"
  shows "\<exists>es s'. on_touch s = (Some (id_at (button_list s) (t_x (rec_touch s)) (t_y (rec_touch s))), es, s') \<and>
    same_screen s s'"
proof -
  obtain m where m: "find_button_by_position (rec_touch s) (button_list s) = Some m"
    using assms(2) find_position_point [of "rec_touch s" "button_list s"] by (auto simp: fast_at_def split: option.splits)
  have "b_Fast_Touch (button_list s ! m) = ENABLE"
    "id_at (button_list s) (t_x (rec_touch s)) (t_y (rec_touch s)) = b_id (button_list s ! m)"
    using assms(2) m find_position_point [of "rec_touch s"] by (simp_all add: fast_at_def id_at_def)
  then show ?thesis using m assms(1)
    by (auto simp: on_touch_def Let_def intro!: same_screen_puts split: option.split)
qed

lemma on_touch_end:
  assumes "t_state (rec_touch s) = END_TOUCH"
  shows "\<exists>es s'. on_touch s = (Some (t_bt_id (rec_touch s)), es, s') \<and> same_screen s s' \<and> rec_touch s' = rec_touch s"
  using assms by (auto simp: on_touch_def Let_def split: option.split)

definition report :: "int \<times> int \<Rightarrow> input_event list" where
  "report p = [\<lparr>ev_type = EV_ABS, ev_code = ABS_MT_POSITION_X, ev_value = fst p\<rparr>,
     \<lparr>ev_type = EV_ABS, ev_code = ABS_MT_POSITION_Y, ev_value = snd p\<rparr>,
     \<lparr>ev_type = EV_SYN, ev_code = 0, ev_value = 0\<rparr>]"

definition release :: input_event where
  "release = \<lparr>ev_type = EV_SYN, ev_code = 0, ev_value = 0\<rparr>"

definition point :: "screen \<Rightarrow> int \<times> int \<Rightarrow> u32 \<times> u32" where
  "point s p = (if swap s \<noteq> 0 then (word_of_int (width_limit s - fst p), word_of_int (height_limit s - snd p))
     else (word_of_int (fst p), word_of_int (snd p)))"

definition id_under :: "screen \<Rightarrow> int \<times> int \<Rightarrow> int" where
  "id_under s p = id_at (button_list s) (fst (point s p)) (snd (point s p))"

lemma id_under_same: "same_screen s s' \<Longrightarrow> id_under s' p = id_under s p"
  using id_at_shape [of "button_list s'" "button_list s"] by (simp add: id_under_def same_screen_def point_def)

definition fast_under :: "screen \<Rightarrow> int \<times> int \<Rightarrow> bool" where
  "fast_under s p = fast_at (button_list s) (fst (point s p)) (snd (point s p))"

lemma fast_under_same: "same_screen s s' \<Longrightarrow> fast_under s' p = fast_under s p"
  using fast_at_shape [of "button_list s'" "button_list s"] by (simp add: fast_under_def same_screen_def point_def)

lemma catch_fast:
  assumes "fast_under s p"
  shows "\<exists>es s'. catch_action_for_button (report p @ ts) s = (id_under s p, es, s', ts) \<and> same_screen s s'"
proof -
  define t where "t = (rec_touch s)\<lparr>t_x := fst (point s p), t_y := snd (point s p), t_state := KEEP_TOUCH\<rparr>"
  define u where "u = s\<lparr>rec_touch := t\<rparr>"
  have "fast_at (button_list u) (t_x (rec_touch u)) (t_y (rec_touch u))"
    using assms by (simp add: u_def t_def fast_under_def)
  then obtain es s' where o: "on_touch u = (Some (id_under s p), es, s')" "same_screen u s'"
    using on_touch_fast [of u] by (auto simp: u_def t_def id_under_def)
  have e: "s\<lparr>rec_touch := (rec_touch s)\<lparr>t_x := fst (point s p), t_y := snd (point s p), t_state := KEEP_TOUCH\<rparr>\<rparr> = u"
    by (simp add: u_def t_def)
  have "catch_action_for_button (report p @ ts) s = (id_under s p, es, s', ts)"
    using o(1) e
    by (cases "swap s = 0") (simp_all add: report_def get_touch_def ev_consts Let_def point_def split: prod.splits)
  moreover have "same_screen s s'" using o(2) by (simp add: u_def same_screen_def)
  ultimately show ?thesis by blast
qed

lemma catch_report:
  assumes "\<not> fast_under s p"
  shows "\<exists>es s'. (\<forall>ts. catch_action_for_button (report p @ ts) s =
      (let (i, es', s'', rest) = catch_action_for_button ts s' in (i, es @ es', s'', rest))) \<and>
    same_screen s s' \<and> t_state (rec_touch s') = KEEP_TOUCH \<and> t_bt_id (rec_touch s') = id_under s p"
proof -
  define t where "t = (rec_touch s)\<lparr>t_state := KEEP_TOUCH, t_x := fst (point s p), t_y := snd (point s p)\<rparr>"
  define u where "u = s\<lparr>rec_touch := t\<rparr>"
  have tt: "(rec_touch s)\<lparr>t_x := fst (point s p), t_y := snd (point s p), t_state := KEEP_TOUCH\<rparr> = t"
    by (simp add: t_def)
  have "\<not> fast_at (button_list u) (t_x (rec_touch u)) (t_y (rec_touch u))"
    using assms by (simp add: u_def t_def fast_under_def)
  then obtain es s' where o: "on_touch u = (None, es, s')" "same_screen u s'"
    "rec_touch s' = t\<lparr>t_bt_id := id_under s p\<rparr>"
    using on_touch_keep [of u] by (auto simp: u_def t_def id_under_def)
  have "catch_action_for_button (report p @ ts) s =
      (let (i, es', s'', rest) = catch_action_for_button ts s' in (i, es @ es', s'', rest))" for ts
  proof -
    have e: "s\<lparr>rec_touch := (rec_touch s)\<lparr>t_x := fst (point s p), t_y := snd (point s p), t_state := KEEP_TOUCH\<rparr>\<rparr> = u"
      by (simp add: u_def tt)
    show ?thesis
      using o(1) e
      by (cases "swap s = 0") (simp_all add: report_def get_touch_def ev_consts Let_def point_def split: prod.splits)
  qed
  moreover have "same_screen s s'" using o(2) by (simp add: u_def same_screen_def)
  ultimately show ?thesis using o(3) by (intro exI [of _ es] exI [of _ s']) (simp add: t_def)
qed

lemma catch_reports:
  assumes "\<forall>p \<in> set ps. \<not> fast_under s p"
  shows "\<exists>es s'. (\<forall>ts. catch_action_for_button (concat (map report ps) @ ts) s =
      (let (i, es', s'', rest) = catch_action_for_button ts s' in (i, es @ es', s'', rest))) \<and>
    same_screen s s' \<and> (ps \<noteq> [] \<longrightarrow> t_state (rec_touch s') = KEEP_TOUCH \<and> t_bt_id (rec_touch s') = id_under s (last ps))"
  using assms
proof (induction ps arbitrary: s)
  case Nil
  show ?case by (intro exI [of _ "[]"] exI [of _ s]) (simp split: prod.splits)
next
  case (Cons p ps)
  obtain e1 s1 where s1: "\<And>ts. catch_action_for_button (report p @ ts) s =
      (let (i, es', s'', rest) = catch_action_for_button ts s1 in (i, e1 @ es', s'', rest))"
    "same_screen s s1" "t_state (rec_touch s1) = KEEP_TOUCH" "t_bt_id (rec_touch s1) = id_under s p"
    using catch_report [of s p] Cons.prems by auto
  have "\<exists>e2 s2. (\<forall>ts. catch_action_for_button (concat (map report ps) @ ts) s1 =
      (let (i, es', s'', rest) = catch_action_for_button ts s2 in (i, e2 @ es', s'', rest))) \<and>
    same_screen s1 s2 \<and>
    (ps \<noteq> [] \<longrightarrow> t_state (rec_touch s2) = KEEP_TOUCH \<and> t_bt_id (rec_touch s2) = id_under s1 (last ps)) \<and>
    (ps = [] \<longrightarrow> s2 = s1)"
  proof (cases "ps = []")
    case True
    then show ?thesis by (intro exI [of _ "[]"] exI [of _ s1]) (simp split: prod.splits)
  next
    case False
    have "\<forall>q \<in> set ps. \<not> fast_under s1 q" using Cons.prems fast_under_same [OF s1(2)] by simp
    with False show ?thesis using Cons.IH by blast
  qed
  then obtain e2 s2 where s2: "\<And>ts. catch_action_for_button (concat (map report ps) @ ts) s1 =
      (let (i, es', s'', rest) = catch_action_for_button ts s2 in (i, e2 @ es', s'', rest))"
    "same_screen s1 s2"
    "ps \<noteq> [] \<longrightarrow> t_state (rec_touch s2) = KEEP_TOUCH \<and> t_bt_id (rec_touch s2) = id_under s1 (last ps)"
    "ps = [] \<longrightarrow> s2 = s1" by blast
  have "catch_action_for_button (concat (map report (p # ps)) @ ts) s =
      (let (i, es', s'', rest) = catch_action_for_button ts s2 in (i, (e1 @ e2) @ es', s'', rest))" for ts
    using s1(1) [of "concat (map report ps) @ ts"] s2(1) [of ts] by (simp split: prod.splits)
  moreover have "same_screen s s2" by (rule same_screen_trans [OF s1(2) s2(2)])
  moreover have "t_state (rec_touch s2) = KEEP_TOUCH \<and> t_bt_id (rec_touch s2) = id_under s (last (p # ps))"
    using s1 s2 id_under_same [OF s1(2)] by (cases "ps = []") auto
  ultimately show ?case by (intro exI [of _ "e1 @ e2"] exI [of _ s2]) (simp split: prod.splits)
qed

text \<open>What a touch selects: the first point on a fast button decides at once, else the last point.\<close>

lemma catch_points:
  assumes "ps \<noteq> []"
  shows "\<exists>es s'. catch_action_for_button (concat (map report ps) @ release # rest) s =
      (case dropWhile (\<lambda>p. \<not> fast_under s p) ps of
         [] \<Rightarrow> (id_under s (last ps), es, s', rest)
       | p # qs \<Rightarrow> (id_under s p, es, s', concat (map report qs) @ release # rest)) \<and> same_screen s s'"
proof -
  let ?as = "takeWhile (\<lambda>p. \<not> fast_under s p) ps" and ?bs = "dropWhile (\<lambda>p. \<not> fast_under s p) ps"
  have "\<forall>p \<in> set ?as. \<not> fast_under s p" using set_takeWhileD by fast
  from catch_reports [OF this] obtain es s1 where s1: "\<And>ts. catch_action_for_button (concat (map report ?as) @ ts) s =
      (let (i, es', s'', rest) = catch_action_for_button ts s1 in (i, es @ es', s'', rest))"
    "same_screen s s1"
    "?as \<noteq> [] \<longrightarrow> t_state (rec_touch s1) = KEEP_TOUCH \<and> t_bt_id (rec_touch s1) = id_under s (last ?as)" by blast
  have split: "concat (map report ps) = concat (map report ?as) @ concat (map report ?bs)"
    unfolding concat_append [symmetric] map_append [symmetric] takeWhile_dropWhile_id ..
  show ?thesis
  proof (cases ?bs)
    case Nil
    then have as: "?as = ps" by (metis append_Nil2 takeWhile_dropWhile_id)
    then have st: "t_state (rec_touch s1) = KEEP_TOUCH" "t_bt_id (rec_touch s1) = id_under s (last ps)"
      using s1(3) assms unfolding as by blast+
    let ?u = "s1\<lparr>rec_touch := (rec_touch s1)\<lparr>t_state := END_TOUCH\<rparr>\<rparr>"
    obtain e2 s2 where s2: "on_touch ?u = (Some (id_under s (last ps)), e2, s2)" "same_screen ?u s2"
      using on_touch_end [of ?u] st(2) by auto
    have "catch_action_for_button (release # rest) s1 = (id_under s (last ps), e2, s2, rest)"
      using s2(1) st(1) by (simp add: release_def get_touch_def ev_consts Let_def)
    moreover have "same_screen s s2" using s1(2) s2(2) by (simp add: same_screen_def)
    ultimately show ?thesis using s1(1) [of "release # rest"] unfolding as Nil by simp
  next
    case (Cons p qs)
    then have "fast_under s p" by (simp add: dropWhile_eq_Cons_conv)
    then have "fast_under s1 p" using fast_under_same [OF s1(2)] by simp
    from catch_fast [OF this] obtain e2 s2 where s2:
      "catch_action_for_button (report p @ concat (map report qs) @ release # rest) s1 =
         (id_under s p, e2, s2, concat (map report qs) @ release # rest)" "same_screen s1 s2"
      using id_under_same [OF s1(2)] by metis
    have "same_screen s s2" by (rule same_screen_trans [OF s1(2) s2(2)])
    moreover have "catch_action_for_button (concat (map report ps) @ release # rest) s =
        (id_under s p, es @ e2, s2, concat (map report qs) @ release # rest)"
      using s1(1) [of "concat (map report (p # qs)) @ release # rest"] s2(1)
      unfolding split Cons append_assoc by simp
    ultimately show ?thesis unfolding Cons by simp
  qed
qed

lemma catch_touch:
  assumes "slow s" and "ps \<noteq> []"
  shows "\<exists>es s'. catch_action_for_button (concat (map report ps) @ release # rest) s =
      (id_under s (last ps), es, s', rest) \<and> same_screen s s'"
proof -
  have "dropWhile (\<lambda>p. \<not> fast_under s p) ps = []" using slow_not_fast [OF assms(1)] by (simp add: fast_under_def)
  with catch_points [OF assms(2), of rest s] show ?thesis by simp
qed

section \<open>The mutex\<close>

text \<open>The mutex after a list of effects; \<open>None\<close> when it is locked twice or unlocked unlocked.\<close>

fun mutex :: "bool \<Rightarrow> eff list \<Rightarrow> bool option" where
  "mutex l [] = Some l"
| "mutex l (e # es) = (case e of
       Mutex_lock \<Rightarrow> if l then None else mutex True es
     | Mutex_unlock \<Rightarrow> if l then mutex False es else None
     | _ \<Rightarrow> mutex l es)"

definition balanced :: "eff list \<Rightarrow> bool" where
  "balanced es \<longleftrightarrow> mutex False es = Some False"

lemma mutex_append: "mutex l (xs @ ys) = Option.bind (mutex l xs) (\<lambda>l'. mutex l' ys)"
  by (induction xs arbitrary: l) (auto split: eff.split)

lemma balanced_append [intro!]: "balanced xs \<Longrightarrow> balanced ys \<Longrightarrow> balanced (xs @ ys)"
  by (simp add: balanced_def mutex_append)

lemma balanced_concat: "\<forall>es \<in> set ess. balanced es \<Longrightarrow> balanced (concat ess)"
  by (induction ess) (auto, simp add: balanced_def)

lemma balanced_simps [simp]: "balanced []" "balanced [Gr_flip]" "balanced [Call f a]"
  by (simp_all add: balanced_def)

lemma balanced_draw [simp]: "balanced (draw_button b)"
  by (simp add: balanced_def draw_button_def draw_default_button_def draw_custom_button_def Let_def
      fill_inset_def color_of_def blit_at_def split: button_style.split)

lemma balanced_show_end [simp]: "balanced (show_end i s)"
  by (auto simp: show_end_def)

lemma balanced_on_touch: "on_touch s = (r, es, s') \<Longrightarrow> balanced es"
  by (auto simp: on_touch_def Let_def split: touch_state.splits option.splits if_splits)

lemma balanced_catch: "catch_action_for_button ts s = (i, es, s', rest) \<Longrightarrow> balanced es"
proof (induction ts arbitrary: s i es s' rest)
  case (Cons t ts)
  obtain code m where g: "get_touch s t = (code, m)" by fastforce
  obtain r e1 s1 where o: "on_touch (s\<lparr>rec_touch := m\<rparr>) = (r, e1, s1)" by (metis prod_cases3)
  obtain j e2 s2 rest2 where c: "catch_action_for_button ts s1 = (j, e2, s2, rest2)" by (metis prod_cases4)
  show ?case
    using Cons.prems Cons.IH [OF c] Cons.IH [of "s\<lparr>rec_touch := m\<rparr>"] balanced_on_touch [OF o] g o c
    by (cases r) (auto simp: Let_def split: if_splits)
qed simp

lemma balanced_keys: "balanced (snd (catch_action_for_keyboard ts s))"
proof -
  have "balanced (key_effects t k)" for t k
    by (simp add: balanced_def key_effects_def blit_at_def)
  then show ?thesis by (auto simp: catch_action_for_keyboard_def intro!: balanced_concat)
qed

lemma balanced_on_button: "on_button cb i s = (es, s', stop) \<Longrightarrow> balanced es"
  by (auto simp: on_button_def Let_def split: option.splits)

lemma balanced_ready: "ready_loop cb bt_fd key_fd es q s = (e, s', q', stop) \<Longrightarrow> balanced e"
proof (induction es arbitrary: q s e s' q' stop)
  case (Cons x es)
  obtain fd evs where x: "x = (fd, evs)" by fastforce
  show ?case
  proof (cases "fd = bt_fd")
    case True
    obtain i e1 s1 q1 where c: "catch_action_for_button (q @ evs) s = (i, e1, s1, q1)" by (metis prod_cases4)
    obtain e2 s2 st where b: "on_button cb i s1 = (e2, s2, st)" by (metis prod_cases3)
    obtain e3 s3 q3 st3 where r: "ready_loop cb bt_fd key_fd es q1 s2 = (e3, s3, q3, st3)" by (metis prod_cases4)
    show ?thesis
      using Cons.prems x True c b r Cons.IH [OF r] balanced_catch [OF c] balanced_on_button [OF b]
      by (auto split: if_splits)
  next
    case False
    obtain e3 s3 q3 st3 where r: "ready_loop cb bt_fd key_fd es q s = (e3, s3, q3, st3)" by (metis prod_cases4)
    show ?thesis
      using Cons.prems x False r Cons.IH [OF r] balanced_keys [of evs s]
      by (cases "catch_action_for_keyboard evs s") (auto split: if_splits)
  qed
qed simp

lemma balanced_listen: "listen_loop cb bt_fd key_fd ws q s = (r, e, s') \<Longrightarrow> balanced e"
proof (induction cb bt_fd key_fd ws q s arbitrary: r e s' rule: listen_loop.induct)
  case (3 cb bt_fd key_fd evs ws q s)
  obtain e1 s1 q1 st where rl: "ready_loop cb bt_fd key_fd evs q s = (e1, s1, q1, st)" by (metis prod_cases4)
  obtain r2 e2 s2 where l: "listen_loop cb bt_fd key_fd ws q1 s1 = (r2, e2, s2)" by (metis prod_cases3)
  show ?case
    using "3.prems" "3.IH" [OF rl [symmetric] refl refl refl _ l] balanced_ready [OF rl] rl l
    by (cases st) auto
qed auto

section \<open>Properties\<close>

text \<open>The rule of the comment at \<^verbatim>\<open>widget.h:96\<close> for a button with \<open>Fast_Touch\<close> disabled: it is touched only when
  the touch begins and ends on it.\<close>

definition documented_touch :: "screen \<Rightarrow> (int \<times> int) list \<Rightarrow> int" where
  "documented_touch s ps = (if id_under s (hd ps) = id_under s (last ps) then id_under s (last ps) else 0)"

text \<open>C20. What one touch selects, and that it is not what the header says. A point on a button with \<open>Fast_Touch\<close>
  enabled decides at once, and the rest of the touch is left unread. When no point is on such a button the
  touch ends with the id of the button under its last point, 0 when there is none there, and the events
  that follow are left for the next call. Where the touch began does not matter, contrary to the comment
  in \<^verbatim>\<open>widget.h\<close>: code and comment agree exactly on the touches that begin and end on the same button, or
  end on none.\<close>

theorem touch_selects_last:
  assumes "ps \<noteq> []"
  shows "\<exists>es s'. catch_action_for_button (concat (map report ps) @ release # rest) s =
      (case dropWhile (\<lambda>p. \<not> fast_under s p) ps of
         [] \<Rightarrow> (id_under s (last ps), es, s', rest)
       | p # qs \<Rightarrow> (id_under s p, es, s', concat (map report qs) @ release # rest)) \<and> same_screen s s' \<and>
    ((\<forall>p \<in> set ps. \<not> fast_under s p) \<longrightarrow>
      (fst (catch_action_for_button (concat (map report ps) @ release # rest) s) = documented_touch s ps \<longleftrightarrow>
       id_under s (hd ps) = id_under s (last ps) \<or> id_under s (last ps) = 0))"
proof -
  obtain es s' where c: "catch_action_for_button (concat (map report ps) @ release # rest) s =
      (case dropWhile (\<lambda>p. \<not> fast_under s p) ps of
         [] \<Rightarrow> (id_under s (last ps), es, s', rest)
       | p # qs \<Rightarrow> (id_under s p, es, s', concat (map report qs) @ release # rest))" "same_screen s s'"
    using catch_points [OF assms] by blast
  have "fst (catch_action_for_button (concat (map report ps) @ release # rest) s) = id_under s (last ps)"
    if "\<forall>p \<in> set ps. \<not> fast_under s p"
  proof -
    have "dropWhile (\<lambda>p. \<not> fast_under s p) ps = []" using that by simp
    then show ?thesis unfolding c(1) by (simp only: list.case fst_conv)
  qed
  then show ?thesis using c by (intro exI [of _ es] exI [of _ s']) (auto simp: documented_touch_def)
qed

definition plain_button :: "int \<Rightarrow> u32 \<Rightarrow> button" where
  "plain_button i x = \<lparr>b_id = i, b_mode = NORMAL, b_style = CUSTOM, b_Draw_Button_In_End = ENABLE,
     b_Fast_Touch = DISABLE,
     b_default = \<lparr>d_x = 0, d_y = 0, d_width = 0, d_height = 0, d_rcolor = 0, d_pcolor = 0\<rparr>,
     b_release_name = '''', b_press_name = '''', b_state = RESET_TOUCH, b_result = 0,
     b_release_surface = 0, b_press_surface = 0,
     b_rs = \<lparr>f_position_x = x, f_position_y = 0, iconWidth = 50, iconHeight = 50\<rparr>,
     b_ps = \<lparr>f_position_x = x, f_position_y = 0, iconWidth = 50, iconHeight = 50\<rparr>,
     b_param = None, b_func = None\<rparr>"

definition two_buttons :: screen where
  "two_buttons = \<lparr>widget_id = 3, rec_touch = \<lparr>t_x = 0, t_y = 0, t_state = RESET_TOUCH, t_bt_id = 0\<rparr>,
     kb_touch = \<lparr>kt_keyboard_id = 0, kt_event_id = 0, kt_state = 0\<rparr>, width_limit = 320, height_limit = 320,
     swap = 0, button_list = [plain_button 1 0, plain_button 2 100], keyboard_list = []\<rparr>"

theorem touch_selects_last_witness:
  "\<exists>es s'. catch_action_for_button (concat (map report [(10, 10), (70, 10), (110, 20)]) @ [release]) two_buttons =
     (2, es, s', []) \<and> documented_touch two_buttons [(10, 10), (70, 10), (110, 20)] = 0"
proof -
  have i: "id_under two_buttons (110, 20) = 2" "id_under two_buttons (10, 10) = 1"
    by (simp_all add: id_under_def id_at_def point_def two_buttons_def plain_button_def istouchingbutton_def)
  have "slow two_buttons" by (simp add: slow_def two_buttons_def plain_button_def)
  then have f: "\<not> fast_under two_buttons p" for p using slow_not_fast by (simp add: fast_under_def)
  have d: "documented_touch two_buttons [(10, 10), (70, 10), (110, 20)] = 0" using i by (simp add: documented_touch_def)
  show ?thesis
    using touch_selects_last [of "[(10, 10), (70, 10), (110, 20)]" "[]" two_buttons] i d f
    by (auto simp del: list.map concat.simps)
qed

text \<open>C21. The drawing mutex is never locked twice and never left locked: whatever devices, events and
  buttons there are, the effects of listening take and release it in turns.\<close>

theorem listening_releases_mutex:
  assumes "start_listen E s = Some (r, es, s')"
  shows "balanced es"
  using assms by (auto simp: start_listen_def bind_eq_Some_conv split: if_splits intro: balanced_listen)

theorem listening_releases_mutex_witness:
  "\<exists>r es s'. start_listen \<lparr>en_open = (\<lambda>p. 5), en_devices = Some [], en_epoll_ctl = (\<lambda>_. 0),
     en_waits = [Ready [(5, concat (map report [(10, 10)]) @ [release])]], en_func = (\<lambda>_ _ s. s)\<rparr> two_buttons = Some (r, es, s') \<and> balanced es"
proof -
  let ?ws = "[Ready [(5, concat (map report [(10, 10)]) @ [release])]]"
  obtain r es s' where l: "listen_loop (\<lambda>_ _ s. s) 5 5 ?ws [] two_buttons = (r, es, s')" by (rule prod_cases3)
  have "start_listen \<lparr>en_open = (\<lambda>p. 5), en_devices = Some [], en_epoll_ctl = (\<lambda>_. 0),
     en_waits = ?ws, en_func = (\<lambda>_ _ s. s)\<rparr> two_buttons = Some (r, es, s')"
    by (simp add: start_listen_def open_keyboard_fd_def open_button_fd_def find_dev_path_def l
        del: listen_loop.simps list.map concat.simps append_Cons append_Nil)
  then show ?thesis using listening_releases_mutex by blast
qed

text \<open>Of the number of the input device only one digit is kept: when the line of handlers names
  \<^verbatim>\<open>event12\<close>, the device opened is \<^verbatim>\<open>/dev/input/event1\<close>, because the path is cut to 17
  characters; a number below ten followed by a blank is read right.\<close>

theorem device_number_cut:
  assumes "\<forall>l \<in> set before. strstr l name = None" and "strstr line name \<noteq> None"
    and "\<forall>l \<in> set between. strstr l HANDLERS = None" and "strstr handlers HANDLERS \<noteq> None"
    and "strstr handlers ''event'' = Some (''event'' @ digit # c # cs)"
  shows "find_dev_path name (Some (before @ [line] @ between @ [handlers] @ after)) =
    Some (''/dev/input/event'' @ [digit])"
proof -
  have h: "handlers_loop d (between @ handlers # after) = Some (strlcat d (''event'' @ [digit, c]) 18)" for d
    using assms(3-5) by (induction between) simp_all
  have "name_loop name d (before @ line # between @ handlers # after) = handlers_loop d (between @ handlers # after)" for d
    using assms(1,2) by (induction before) auto
  then show ?thesis by (simp add: find_dev_path_def h strlcat_def)
qed

theorem device_number_cut_witness:
  "find_dev_path KEYS_NAME (Some [''N: gpio-keys'', ''H: Handlers=event12 '']) = Some ''/dev/input/event1''"
  using device_number_cut [of "[]" KEYS_NAME "''N: gpio-keys''" "[]" "''H: Handlers=event12 ''"
      "CHR ''1''" "CHR ''2''" "'' ''" "[]"]
  by (simp add: KEYS_NAME_def HANDLERS_def)

section \<open>The program\<close>

lemma shape_all:
  "shape a = shape b \<Longrightarrow> b_id a = b_id b \<and> b_mode a = b_mode b \<and> b_result a = b_result b \<and> b_func a = b_func b"
  by (cases a; cases b) (simp add: shape_def)

text \<open>The two buttons of the program, as \<open>main\<close> has set them up.\<close>

definition is_main_screen :: "int \<Rightarrow> int \<Rightarrow> screen \<Rightarrow> bool" where
  "is_main_screen w h s \<longleftrightarrow> swap s = 0 \<and> (\<exists>pass fail. button_list s = [pass, fail] \<and>
     b_id pass = 2 \<and> b_id fail = 3 \<and> b_mode pass = ECS_LISTEN \<and> b_mode fail = ECS_LISTEN \<and>
     b_result pass = 0 \<and> b_result fail = 0 \<and> b_Fast_Touch pass = DISABLE \<and> b_Fast_Touch fail = DISABLE \<and> b_func pass = None \<and> b_func fail = None \<and>
     b_ps pass = \<lparr>f_position_x = 55, f_position_y = 300, iconWidth = w, iconHeight = h\<rparr> \<and>
     b_ps fail = \<lparr>f_position_x = 205, f_position_y = 300, iconWidth = w, iconHeight = h\<rparr>)"

lemma init_button_result:
  "init_button G (Some b) True rn pn x y s = Some (b', e, s') \<Longrightarrow>
    button_list s' = button_list s @ [b'] \<and> widget_id s' = widget_id s + 1 \<and> swap s' = swap s \<and>
    b_id b' = sint (widget_id s) \<and> b_result b' = 0 \<and> b_Fast_Touch b' = DISABLE \<and> b_func b' = None \<and>
    b_ps b' = \<lparr>f_position_x = x, f_position_y = y, iconWidth = gr_get_width G (b_press_surface b'),
      iconHeight = gr_get_height G (b_press_surface b')\<rparr>"
  by (auto simp: init_button_def Let_def add_to_def)

lemma init_button_some: "\<exists>b' e s'. init_button G (Some b) True rn pn x y s = Some (b', e, s')"
  by (simp add: init_button_def Let_def)

lemma init_keyboard_some:
  "\<exists>k' e s'. init_keyboard G (Some k) True rn pn x y s = Some (k', e, s') \<and> button_list s' = button_list s \<and>
    widget_id s' = widget_id s + 1 \<and> swap s' = swap s"
  by (simp add: init_keyboard_def Let_def)

lemma inputevent_main_eq:
  assumes "\<And>surf. gr_get_width G surf = w" and "\<And>surf. gr_get_height G surf = h" and "button_list s0 = []"
  shows "\<exists>s e. is_main_screen w h s \<and> inputevent_main G E (Some k) (Some b1) (Some b2) s0 =
    Option.bind (start_listen E s) (\<lambda>(r, e4, s'). Some (map_option (\<lambda>_. check_button_result 1 s') r, e @ e4))"
proof -
  have p: "button_list (init_param G s0) = []" "widget_id (init_param G s0) = 1" "swap (init_param G s0) = 0"
    using assms(3) by (simp_all add: init_param_def)
  obtain k' e1 s1 where k: "init_keyboard G (Some k) True ''/system/pretest/releasekey'' ''/system/pretest/presskey''
      130 168 (init_param G s0) = Some (k', e1, s1)" "button_list s1 = []" "widget_id s1 = 2" "swap s1 = 0"
    using init_keyboard_some [of G k "''/system/pretest/releasekey''" "''/system/pretest/presskey''" 130 168
        "init_param G s0"] p by auto
  obtain p1 e2 s2 where b: "init_button G (Some b1) True ''/system/pretest/rpass'' ''/system/pretest/ppass'' 55 300 s1
      = Some (p1, e2, s2)" using init_button_some by blast
  note B = init_button_result [OF b]
  obtain p2 e3 s3 where c: "init_button G (Some b2) True ''/system/pretest/rfail'' ''/system/pretest/pfail'' 205 300 s2
      = Some (p2, e3, s3)" using init_button_some by blast
  note C = init_button_result [OF c]
  let ?s = "s3\<lparr>button_list := [p1\<lparr>b_mode := ECS_LISTEN\<rparr>, p2\<lparr>b_mode := ECS_LISTEN\<rparr>]\<rparr>"
  have "is_main_screen w h ?s"
    using k B C assms(1,2) by (simp add: is_main_screen_def)
  moreover have "inputevent_main G E (Some k) (Some b1) (Some b2) s0 =
    Option.bind (start_listen E ?s) (\<lambda>(r, e4, s'). Some (map_option (\<lambda>_. check_button_result 1 s') r,
      (init_backguound G ''/system/pretest/testkey'' 40 40 @ e1 @ e2 @ e3) @ e4))"
    using k B C by (simp add: inputevent_main_def k(1) b c set_button_mode_def)
  ultimately show ?thesis by blast
qed

lemma inside:
  assumes "0 \<le> a" and "a < x" and "x < a + w" and "a + w < 4294967296"
  shows "(word_of_int a :: u32) < word_of_int x" "(word_of_int x :: u32) < word_of_int a + word_of_int w"
proof -
  have u: "uint (word_of_int i :: u32) = i" if "0 \<le> i" "i < 4294967296" for i
    using that by (simp add: uint_word_of_int)
  show "(word_of_int a :: u32) < word_of_int x" using assms u [of a] u [of x] by (simp add: word_less_def)
  have "(word_of_int a + word_of_int w :: u32) = word_of_int (a + w)" by simp
  then show "(word_of_int x :: u32) < word_of_int a + word_of_int w"
    using assms u [of x] u [of "a + w"] by (simp only: word_less_def)
qed

lemma outside_left:
  assumes "0 \<le> x" and "x \<le> a" and "a < 4294967296"
  shows "\<not> (word_of_int a :: u32) < word_of_int x"
proof -
  have u: "uint (word_of_int i :: u32) = i" if "0 \<le> i" "i < 4294967296" for i
    using that by (simp add: uint_word_of_int)
  show ?thesis using assms u [of a] u [of x] by (simp add: word_less_def)
qed

lemma outside_right:
  assumes "0 \<le> a + w" and "a + w \<le> x" and "x < 4294967296"
  shows "\<not> (word_of_int x :: u32) < word_of_int a + word_of_int w"
proof -
  have u: "uint (word_of_int i :: u32) = i" if "0 \<le> i" "i < 4294967296" for i
    using that by (simp add: uint_word_of_int)
  have "(word_of_int a + word_of_int w :: u32) = word_of_int (a + w)" by simp
  then show ?thesis using assms u [of x] u [of "a + w"] by (simp only: word_less_def)
qed

lemma main_screen_id:
  assumes "is_main_screen w h s" and "0 < w" "w \<le> 150" and "0 < h" "h \<le> 1000" and "300 < y" "y < 300 + h"
    and "205 < x \<and> x < 205 + w \<or> 55 < x \<and> x < 55 + w"
  shows "id_under s (x, y) = (if 205 < x then 3 else 2)"
proof -
  note y = inside [of 300 y h] 
  show ?thesis
  proof (cases "205 < x")
    case True
    then show ?thesis
      using assms inside [of 205 x w] y outside_right [of 55 w x]
      by (auto simp: is_main_screen_def id_under_def id_at_def point_def istouchingbutton_def)
  next
    case False
    then show ?thesis
      using assms inside [of 55 x w] y
      by (auto simp: is_main_screen_def id_under_def id_at_def point_def istouchingbutton_def)
  qed
qed

lemma main_listen:
  assumes s: "is_main_screen w h s" and ps: "ps \<noteq> []" and i: "id_under s (last ps) = i" "i = 2 \<or> i = 3"
  shows "\<exists>es s'. listen_loop cb bt_fd key_fd (Ready [(bt_fd, concat (map report ps) @ [release])] # ws) [] s =
    (Some 0, es, s') \<and> check_button_result 1 s' = (if i = 3 then 1 else 0)"
proof -
  obtain pass fail where b: "button_list s = [pass, fail]" "b_id pass = 2" "b_id fail = 3"
    "b_mode pass = ECS_LISTEN" "b_mode fail = ECS_LISTEN" "b_result fail = 0"
    "b_Fast_Touch pass = DISABLE" "b_Fast_Touch fail = DISABLE" "b_func pass = None" "b_func fail = None"
    using s by (auto simp: is_main_screen_def)
  then have "slow s" by (simp add: slow_def)
  then obtain es s1 where c: "catch_action_for_button (concat (map report ps) @ [release]) s = (i, es, s1, [])"
    "same_screen s s1"
    using catch_touch [of s ps "[]"] ps i(1) by auto
  obtain p f where b1: "button_list s1 = [p, f]" "shape p = shape pass" "shape f = shape fail"
    using c(2) b(1) by (auto simp: same_screen_def Cons_eq_map_conv)
  have "\<exists>e2 s2. on_button cb i s1 = (e2, s2, True) \<and> check_button_result 1 s2 = (if i = 3 then 1 else 0)"
    using i(2) b b1 shape_all [OF b1(2)] shape_all [OF b1(3)]
    by (auto simp: on_button_def Let_def check_button_result_def)
  then show ?thesis using c(1) by auto
qed

text \<open>The test of the keys from end to end: with images that do not overlap, a touch that ends on the
  picture of the button for \<^verbatim>\<open>pass\<close> ends the program with the value 0, one that ends on
  \<^verbatim>\<open>fail\<close> with the value 1, whatever the finger did before it got there.\<close>

theorem inputevent_exit_code:
  assumes "\<And>surf. gr_get_width G surf = w" and "\<And>surf. gr_get_height G surf = h" and "button_list s0 = []"
    and "0 < w" "w \<le> 150" and "0 < h" "h \<le> 1000"
    and "open_keyboard_fd (en_open E) (en_devices E) = Some key_fd"
    and "open_button_fd (en_open E) (en_devices E) = Some bt_fd"
    and "0 \<le> en_epoll_ctl E bt_fd" and "0 \<le> en_epoll_ctl E key_fd"
    and "en_waits E = Ready [(bt_fd, concat (map report ps) @ [release])] # ws"
    and "ps \<noteq> []" and "last ps = (x, y)" and "300 < y" "y < 300 + h"
    and "205 < x \<and> x < 205 + w \<or> 55 < x \<and> x < 55 + w"
  shows "\<exists>es. inputevent_main G E (Some k) (Some b1) (Some b2) s0 = Some (Some (if 205 < x then 1 else 0), es)"
proof -
  obtain s e where s: "is_main_screen w h s" "inputevent_main G E (Some k) (Some b1) (Some b2) s0 =
    Option.bind (start_listen E s) (\<lambda>(r, e4, s'). Some (map_option (\<lambda>_. check_button_result 1 s') r, e @ e4))"
    using inputevent_main_eq [OF assms(1-3)] by blast
  have i: "id_under s (last ps) = (if 205 < x then 3 else 2)"
    unfolding assms(14) by (rule main_screen_id [OF s(1) assms(4-7,15-17)])
  have three: "(if (3::int) = 3 then 1 else 0) = (1::int)" "(if (2::int) = 3 then 1 else 0) = (0::int)" by simp_all
  have "(if 205 < x then 3 else 2) = (2::int) \<or> (if 205 < x then 3 else 2) = (3::int)" by simp
  note L = main_listen [OF s(1) assms(13) i this, of "en_func E" bt_fd key_fd ws]
  obtain es s' where "listen_loop (en_func E) bt_fd key_fd (en_waits E) [] s = (Some 0, es, s')"
    "check_button_result 1 s' = (if 205 < x then 1 else 0)"
    using L unfolding assms(12) by (cases "205 < x") (simp_all only: if_True if_False three, blast+)
  then have "start_listen E s = Some (Some 0, es, s')" 
    using assms(8-11) by (simp add: start_listen_def)
  then show ?thesis
    using s(2) \<open>check_button_result 1 s' = (if 205 < x then 1 else 0)\<close> by simp
qed

definition flat_graphics :: graphics where
  "flat_graphics = \<lparr>gr_fb_width = 320, gr_fb_height = 400, res_create_display_surface = (\<lambda>_. 0),
     gr_get_width = (\<lambda>_. 60), gr_get_height = (\<lambda>_. 40)\<rparr>"

definition blank_keyboard :: keyboard where
  "blank_keyboard = \<lparr>k_id = 0, k_event_id = 0, k_release_name = '''', k_press_name = '''', k_state = RESET_TOUCH,
     k_result = 0, k_release_surface = 0, k_press_surface = 0, k_rs = b_rs (plain_button 0 0), k_ps = b_ps (plain_button 0 0)\<rparr>"

theorem inputevent_exit_code_witness:
  "\<exists>es. inputevent_main flat_graphics \<lparr>en_open = (\<lambda>p. if p = ''/dev/input/'' then 5 else 6),
      en_devices = Some [''N: gpio-keys'', ''H: Handlers=event0 ''], en_epoll_ctl = (\<lambda>_. 0),
      en_waits = [Ready [(5, concat (map report [(60, 310), (230, 320)]) @ [release])]], en_func = (\<lambda>_ _ s. s)\<rparr>
    (Some blank_keyboard) (Some (plain_button 0 0)) (Some (plain_button 0 0)) (two_buttons\<lparr>button_list := []\<rparr>) =
   Some (Some 1, es)"
  using inputevent_exit_code [of flat_graphics 60 40 "two_buttons\<lparr>button_list := []\<rparr>"
      "\<lparr>en_open = (\<lambda>p. if p = ''/dev/input/'' then 5 else 6),
      en_devices = Some [''N: gpio-keys'', ''H: Handlers=event0 ''], en_epoll_ctl = (\<lambda>_. 0),
      en_waits = [Ready [(5, concat (map report [(60, 310), (230, 320)]) @ [release])]], en_func = (\<lambda>_ _ s. s)\<rparr>" 6 5
      "[(60, 310), (230, 320)]" "[]" 230 320 blank_keyboard "plain_button 0 0" "plain_button 0 0"]
  by (simp add: flat_graphics_def open_keyboard_fd_def open_button_fd_def find_dev_path_def KEYS_NAME_def
      TS_NAME_def HANDLERS_def strlcat_def del: list.map concat.simps)

section \<open>The page of the heart rate test\<close>

text \<open>\<^verbatim>\<open>test_pah8001/pah8001_stop.c\<close>: one button, and status 1 when listening ends.\<close>

definition pah8001_stop_main :: "graphics \<Rightarrow> environment \<Rightarrow> button option \<Rightarrow> screen \<Rightarrow> (int option \<times> eff list) option" where
  "pah8001_stop_main G E block s =
     (let s = init_param G s;
          e0 = init_backguound G ''/system/pretest/heartratefail'' 0 0
      in Option.bind (init_button G block True ''/system/pretest/rNextItem'' ''/system/pretest/pNextItem'' 89 255 s)
           (\<lambda>(_, e1, s).
         let bt_pass = length (button_list s) - 1;
             (_, s) = set_button_mode (Some bt_pass) ECS_LISTEN s
         in Option.bind (start_listen E s) (\<lambda>(r, e2, s). Some (map_option (\<lambda>_. 1) r, e0 @ e1 @ e2))))"

end
