(* ===== verification/Buffer.thy ===== *)
theory Buffer
  imports Prelude
begin

text \<open>
  Arrays accessed through pointers. A pointer into an array is its distance from the first
  element, an integer that may leave the array; a load or store outside the array stops the
  program with \<open>Fault\<close>, a false \<open>assert\<close> with \<open>Abort\<close>. A routine that touches memory returns a value
  of type \<open>stop + 'a\<close>.
\<close>

section \<open>Programs that may stop\<close>

datatype stop = Fault | Abort

definition bindE :: "stop + 'a \<Rightarrow> ('a \<Rightarrow> stop + 'b) \<Rightarrow> stop + 'b" where
  "bindE m f = (case m of Inl e \<Rightarrow> Inl e | Inr x \<Rightarrow> f x)"

definition assertE :: "bool \<Rightarrow> stop + unit" where
  "assertE b = (if b then Inr () else Inl Abort)"

lemma bindE_simps [simp]: "bindE (Inl e) f = Inl e" "bindE (Inr x) f = f x"
  by (simp_all add: bindE_def)

lemma bindE_eq_Inr: "bindE m f = Inr y \<longleftrightarrow> (\<exists>x. m = Inr x \<and> f x = Inr y)"
  by (cases m) simp_all

lemma assertE_simps [simp]: "assertE True = Inr ()" "assertE False = Inl Abort"
  by (simp_all add: assertE_def)

section \<open>Loads and stores\<close>

definition load :: "bytes \<Rightarrow> int \<Rightarrow> stop + u8" where
  "load m p = (if 0 \<le> p \<and> p < int (length m) then Inr (m ! nat p) else Inl Fault)"

definition load_bytes :: "bytes \<Rightarrow> int \<Rightarrow> nat \<Rightarrow> stop + bytes" where
  "load_bytes m p n =
     (if 0 \<le> p \<and> p + int n \<le> int (length m) then Inr (take n (drop (nat p) m)) else Inl Fault)"

definition load16 :: "bytes \<Rightarrow> int \<Rightarrow> stop + u16" where
  "load16 m p = bindE (load_bytes m p 2) (\<lambda>b. Inr (get16 b 0))"

definition load32 :: "bytes \<Rightarrow> int \<Rightarrow> stop + u32" where
  "load32 m p = bindE (load_bytes m p 4) (\<lambda>b. Inr (get32 b 0))"

definition store :: "bytes \<Rightarrow> int \<Rightarrow> bytes \<Rightarrow> stop + bytes" where
  "store m p b =
     (if 0 \<le> p \<and> p + int (length b) \<le> int (length m) then Inr (memcpy_at m (nat p) b) else Inl Fault)"

section \<open>Arrays as sequences of fields\<close>

text \<open>An access behind a field goes past it, one at its beginning hits it.\<close>

named_theorems seg_simps \<open>accesses to an array that is a sequence of fields\<close>

lemma store_past [seg_simps]:
  assumes "int (length x) \<le> p"
  shows "store (x @ m) p b = bindE (store m (p - int (length x)) b) (\<lambda>m. Inr (x @ m))"
proof -
  obtain k where "p = int (length x) + int k" using assms zle_iff_zadd by auto
  moreover have "nat (int (length x) + int k) = length x + k" by simp
  ultimately show ?thesis by (auto simp: store_def memcpy_at_def)
qed

lemma store_here [seg_simps]: "length x = length b \<Longrightarrow> store (x @ m) 0 b = Inr (b @ m)"
  by (simp add: store_def memcpy_at_def)

lemma load_bytes_past [seg_simps]:
  assumes "int (length x) \<le> p"
  shows "load_bytes (x @ m) p n = load_bytes m (p - int (length x)) n"
proof -
  obtain k where "p = int (length x) + int k" using assms zle_iff_zadd by auto
  moreover have "nat (int (length x) + int k) = length x + k" by simp
  ultimately show ?thesis by (auto simp: load_bytes_def)
qed

lemma load16_past [seg_simps]: "int (length x) \<le> p \<Longrightarrow> load16 (x @ m) p = load16 m (p - int (length x))"
  by (simp add: load16_def load_bytes_past)

lemma load32_past [seg_simps]: "int (length x) \<le> p \<Longrightarrow> load32 (x @ m) p = load32 m (p - int (length x))"
  by (simp add: load32_def load_bytes_past)

lemma load16_here [seg_simps]: "load16 (bytes16 w @ m) 0 = Inr w"
  using c16.dec_enc [of w] by (simp add: load16_def load_bytes_def)

lemma load32_here [seg_simps]: "load32 (bytes32 w @ m) 0 = Inr w"
  using c32.dec_enc [of w] by (simp add: load32_def load_bytes_def)

lemma load_past [seg_simps]:
  assumes "int (length x) \<le> p"
  shows "load (x @ m) p = load m (p - int (length x))"
proof -
  obtain k where "p = int (length x) + int k" using assms zle_iff_zadd by auto
  moreover have "nat (int (length x) + int k) = length x + k" by simp
  ultimately show ?thesis by (auto simp: load_def nth_append)
qed

lemma load_Cons [seg_simps]: "load (x # m) 0 = Inr x" "1 \<le> p \<Longrightarrow> load (x # m) p = load m (p - 1)"
  using load_past [of "[x]" p m] by (simp_all add: load_def)

lemma store_Cons [seg_simps]:
  "store (x # m) 0 [b] = Inr (b # m)"
  "1 \<le> p \<Longrightarrow> store (x # m) p b' = bindE (store m (p - 1) b') (\<lambda>m. Inr (x # m))"
  using store_past [of "[x]" p m b'] store_here [of "[x]" "[b]" m] by simp_all

end
