(* ===== verification/Wav.thy ===== *)
theory Wav
  imports Buffer "HOL-Library.Signed_Division"
begin

text \<open>
  \<^verbatim>\<open>test_speaker/sndkit_only_replay/wav.c\<close> and \<^verbatim>\<open>wav.h\<close>: the header of a WAV file, written and
  parsed in memory, and the two conversions between samples of 24 and of 32 bits, in place. Loads of
  16 and 32 bits at odd addresses are taken to work; what is printed is left out. A pointer into the
  block is its distance from the beginning, which is a number of 32 bits with a sign: adding the length
  of a chunk wraps around (\<open>advance\<close>).
\<close>

section \<open>Chunks (wav.h)\<close>

record chunk_head =
  ch_type :: bytes
  ch_length :: u32

record fmt_chunk_head = chunk_head +
  fmt_tag :: u16
  fmt_channels :: u16
  fmt_sample_rate :: u32
  fmt_bytes_per_second :: u32
  fmt_block_align :: u16
  fmt_bits_per_sample :: u16

definition enc_fmt :: "fmt_chunk_head \<Rightarrow> bytes" where
  "enc_fmt h = ch_type h @ bytes32 (ch_length h) @ bytes16 (fmt_tag h) @ bytes16 (fmt_channels h) @
     bytes32 (fmt_sample_rate h) @ bytes32 (fmt_bytes_per_second h) @ bytes16 (fmt_block_align h) @
     bytes16 (fmt_bits_per_sample h)"

definition dec_fmt :: "bytes \<Rightarrow> fmt_chunk_head" where
  "dec_fmt b = \<lparr>ch_type = take 4 b, ch_length = get32 b 4, fmt_tag = get16 b 8, fmt_channels = get16 b 10,
     fmt_sample_rate = get32 b 12, fmt_bytes_per_second = get32 b 16, fmt_block_align = get16 b 20,
     fmt_bits_per_sample = get16 b 22\<rparr>"

definition SIZEOF_FMT :: nat where "SIZEOF_FMT = 24"
definition WAV_HEAD_SIZE :: nat where "WAV_HEAD_SIZE = 3 * 4 + SIZEOF_FMT + 2 * 4"
definition MAX_WAV_HEAD_SIZE :: nat where "MAX_WAV_HEAD_SIZE = 256"

lemma SIZEOF_FMT_8: "of_nat SIZEOF_FMT - 8 = (16 :: u32)"
  by (simp add: SIZEOF_FMT_def)

text \<open>Four characters as bytes.\<close>

definition tag :: "string \<Rightarrow> bytes" where
  "tag s = map of_char s"

section \<open>Writing a header\<close>

text \<open>The stores of the function in their order; the block align is read back from memory.\<close>

definition init_wav_header :: "bytes \<Rightarrow> int \<Rightarrow> u32 \<Rightarrow> u32 \<Rightarrow> u32 \<Rightarrow> stop + bytes" where
  "init_wav_header data data_len channels sample_rate bits =
     bindE (store data 0 (tag ''RIFF'')) (\<lambda>data.
     bindE (store data 4 (bytes32 (word_of_int (data_len + 4) + of_nat SIZEOF_FMT + 8))) (\<lambda>data.
     bindE (store data 8 (tag ''WAVE'')) (\<lambda>data.
     let p = 12 in
     bindE (store data p (tag ''fmt '')) (\<lambda>data.
     bindE (store data (p + 4) (bytes32 (of_nat SIZEOF_FMT - 8))) (\<lambda>data.
     bindE (store data (p + 8) (bytes16 1)) (\<lambda>data.
     bindE (store data (p + 10) (bytes16 (ucast channels))) (\<lambda>data.
     bindE (store data (p + 12) (bytes32 sample_rate)) (\<lambda>data.
     bindE (store data (p + 20) (bytes16 (ucast (channels * bits div 8)))) (\<lambda>data.
     bindE (load16 data (p + 20)) (\<lambda>block_align.
     bindE (store data (p + 16) (bytes32 (sample_rate * ucast block_align))) (\<lambda>data.
     bindE (store data (p + 22) (bytes16 (ucast bits))) (\<lambda>data.
     let p = p + int SIZEOF_FMT in
     bindE (store data p (tag ''data'')) (\<lambda>data.
     store data (p + 4) (bytes32 (word_of_int data_len)))))))))))))))"

section \<open>Parsing a header\<close>

text \<open>\<open>(data[0] == c0) && (data[1] == c1) && \<dots>\<close>, which looks no further than the first difference.\<close>

fun tag_at :: "bytes \<Rightarrow> int \<Rightarrow> bytes \<Rightarrow> stop + bool" where
  "tag_at m p [] = Inr True"
| "tag_at m p (c # cs) = bindE (load m p) (\<lambda>b. if b = c then tag_at m (p + 1) cs else Inr False)"

text \<open>What the function stores through its pointer arguments.\<close>

record wav_info =
  head_len :: int
  w_channels :: u32
  w_sample_rate :: u32
  w_bits :: u32

text \<open>\<open>data += n\<close> for an unsigned \<open>n\<close>.\<close>

definition advance :: "int \<Rightarrow> u32 \<Rightarrow> int" where
  "advance p n = sint (word_of_int p + n)"

definition parse_data_chunk :: "bytes \<Rightarrow> int \<Rightarrow> wav_info \<Rightarrow> stop + (int \<times> wav_info)" where
  "parse_data_chunk m p info =
     bindE (tag_at m p (tag ''data'')) (\<lambda>d.
       if d then
         let data_len = p + 4; p = p + 8; info = info\<lparr>head_len := p\<rparr>
         in bindE (load32 m data_len) (\<lambda>n. Inr (sint n, info))
       else Inr (0, info))"

definition parse_fmt_chunk :: "bytes \<Rightarrow> int \<Rightarrow> wav_info \<Rightarrow> stop + (int \<times> wav_info)" where
  "parse_fmt_chunk m p info =
     bindE (tag_at m p (tag ''fmt '')) (\<lambda>f.
       if \<not> f then Inr (0, info)
       else
         bindE (load16 m (p + 8)) (\<lambda>t.
         if t \<noteq> 1 then Inr (0, info)
         else
           bindE (load16 m (p + 10)) (\<lambda>channels.
           bindE (load32 m (p + 12)) (\<lambda>sample_rate.
           bindE (load16 m (p + 22)) (\<lambda>bits.
           let info = info\<lparr>w_channels := ucast channels, w_sample_rate := sample_rate, w_bits := ucast bits\<rparr> in
           bindE (load32 m (p + 4)) (\<lambda>len.
           let p = advance p (len + 8) in
           bindE (tag_at m p (tag ''fact'')) (\<lambda>fact.
           parse_data_chunk m (if fact then p + 12 else p) info)))))))"

definition parse_wav_header :: "bytes \<Rightarrow> wav_info \<Rightarrow> stop + (int \<times> wav_info)" where
  "parse_wav_header m info =
     bindE (tag_at m 0 (tag ''RIFF'')) (\<lambda>riff.
     if \<not> riff then Inr (0, info)
     else bindE (tag_at m 8 (tag ''WAVE'')) (\<lambda>wave.
     if \<not> wave then Inr (0, info)
     else bindE (load32 m 4) (\<lambda>total_len.
     let p = 12 in
     bindE (tag_at m p (tag ''JUNK'')) (\<lambda>junk.
     if junk then bindE (load32 m (p + 4)) (\<lambda>junk_len. parse_fmt_chunk m (advance p (junk_len + 8)) info)
     else parse_fmt_chunk m p info))))"

section \<open>Samples of 24 and of 32 bits\<close>

fun expand_loop :: "nat \<Rightarrow> bytes \<Rightarrow> int \<Rightarrow> int \<Rightarrow> stop + (bytes \<times> int \<times> int)" where
  "expand_loop 0 m dst src = Inr (m, dst, src)"
| "expand_loop (Suc k) m dst src =
     bindE (load m src) (\<lambda>b0. bindE (store m dst [b0]) (\<lambda>m.
     bindE (load m (src + 1)) (\<lambda>b1. bindE (store m (dst + 1) [b1]) (\<lambda>m.
     bindE (load m (src + 2)) (\<lambda>b2. bindE (store m (dst + 2) [b2]) (\<lambda>m.
     bindE (store m (dst + 3) [0]) (\<lambda>m. expand_loop k m (dst - 4) (src - 3))))))))"

definition wav_expand_24bit_to_32bit :: "bytes \<Rightarrow> int \<Rightarrow> stop + bytes" where
  "wav_expand_24bit_to_32bit data len =
     (let len = (if len smod 3 \<noteq> 0 then len - len smod 3 else len);
          dst = len sdiv 3 * 4 - 4; src = len - 3
      in bindE (expand_loop (nat (len sdiv 3 - 3)) data dst src) (\<lambda>(data, dst, src).
         bindE (load_bytes data 0 9) (\<lambda>t.
         bindE (store data 0 [t ! 0, t ! 1, t ! 2, 0]) (\<lambda>data.
         bindE (store data 4 [t ! 3, t ! 4, t ! 5, 0]) (\<lambda>data.
         bindE (store data 8 [t ! 6, t ! 7, t ! 8, 0]) (\<lambda>data.
         let src = src - 6; dst = dst - 8 in
         bindE (assertE (src = 0)) (\<lambda>_. bindE (assertE (dst = 0)) (\<lambda>_. Inr data))))))))"

function shrink_loop :: "bytes \<Rightarrow> int \<Rightarrow> int \<Rightarrow> int \<Rightarrow> int \<Rightarrow> stop + bytes" where
  "shrink_loop m i len dst src =
     (if i < len then
        bindE (load m src) (\<lambda>b0. bindE (store m dst [b0]) (\<lambda>m.
        bindE (load m (src + 1)) (\<lambda>b1. bindE (store m (dst + 1) [b1]) (\<lambda>m.
        bindE (load m (src + 2)) (\<lambda>b2. bindE (store m (dst + 2) [b2]) (\<lambda>m.
        shrink_loop m (i + 4) len (dst + 3) (src + 4)))))))
      else Inr m)"
  by pat_completeness auto
termination
  by (relation "measure (\<lambda>(m, i, len, dst, src). nat (len - i))") auto

declare shrink_loop.simps [simp del]

definition wav_32bit_to_24bit :: "bytes \<Rightarrow> int \<Rightarrow> stop + bytes" where
  "wav_32bit_to_24bit data len = shrink_loop data 0 len 0 0"

section \<open>The header as bytes\<close>

definition wav_fmt :: "u32 \<Rightarrow> u32 \<Rightarrow> u32 \<Rightarrow> fmt_chunk_head" where
  "wav_fmt channels sample_rate bits =
     (let block_align = ucast (channels * bits div 8)
      in \<lparr>ch_type = tag ''fmt '', ch_length = 16, fmt_tag = 1, fmt_channels = ucast channels,
          fmt_sample_rate = sample_rate, fmt_bytes_per_second = sample_rate * ucast block_align,
          fmt_block_align = block_align, fmt_bits_per_sample = ucast bits\<rparr>)"

definition wav_header :: "int \<Rightarrow> u32 \<Rightarrow> u32 \<Rightarrow> u32 \<Rightarrow> bytes" where
  "wav_header data_len channels sample_rate bits =
     tag ''RIFF'' @ bytes32 (word_of_int (data_len + 36)) @ tag ''WAVE'' @
     enc_fmt (wav_fmt channels sample_rate bits) @ tag ''data'' @ bytes32 (word_of_int data_len)"

lemma length_tag [simp]: "length (tag s) = length s"
  by (simp add: tag_def)

lemma length_wav_header [simp]: "length (wav_header d c r b) = 44"
  by (simp add: wav_header_def enc_fmt_def wav_fmt_def Let_def)

lemma init_wav_header_eq:
  assumes "44 \<le> length data"
  shows "init_wav_header data d c r b = Inr (wav_header d c r b @ drop 44 data)"
proof -
  define s where "s n k = take k (drop n data)" for n k
  have seg: "drop n data = s n k @ drop (n + k) data" for n k
    by (simp add: s_def add.commute [of n] drop_drop [symmetric] del: drop_drop)
  have d: "data = s 0 4 @ s 4 4 @ s 8 4 @ s 12 4 @ s 16 4 @ s 20 2 @ s 22 2 @ s 24 4 @ s 28 4 @ s 32 2 @
      s 34 2 @ s 36 4 @ s 40 4 @ drop 44 data"
    using seg [of 0 4] seg [of 4 4] seg [of 8 4] seg [of 12 4] seg [of 16 4] seg [of 20 2] seg [of 22 2]
      seg [of 24 4] seg [of 28 4] seg [of 32 2] seg [of 34 2] seg [of 36 4] seg [of 40 4] by simp
  have len: "length (s n k) = k" if "n + k \<le> 44" for n k
    using that assms by (simp add: s_def)
  have l: "word_of_int (d + 4) + of_nat SIZEOF_FMT + 8 = (word_of_int (d + 36) :: u32)"
    by (simp add: SIZEOF_FMT_def)
  show ?thesis
    by (subst d) (simp add: init_wav_header_def Let_def l seg_simps len wav_header_def enc_fmt_def wav_fmt_def
        SIZEOF_FMT_def add.commute [of 36])
qed

section \<open>What is written is what is parsed\<close>

lemma tag_at_past [seg_simps]:
  "int (length x) \<le> p \<Longrightarrow> tag_at (x @ m) p t = tag_at m (p - int (length x)) t"
proof (induction t arbitrary: p)
  case (Cons c t)
  show ?case using Cons.IH [of "p + 1"] Cons.prems by (simp add: load_past diff_add_eq cong: if_cong)
qed simp

lemma tag_at_Cons [simp]: "tag_at (b # m) 0 (c # cs) = (if b = c then tag_at m 0 cs else Inr False)"
proof -
  have "tag_at (b # m) 1 cs = tag_at m 0 cs" using tag_at_past [of "[b]" 1 m cs] by simp
  then show ?thesis by (auto simp: load_def)
qed

declare tag_at.simps(2) [simp del]

lemma tag_here [seg_simps]: "tag_at (t @ m) 0 t = Inr True"
  by (induction t) simp_all

text \<open>Where a tag of four characters is expected, another of four characters is not accepted.\<close>

lemma tag_differs [seg_simps]: "length t = length u \<Longrightarrow> tag_at (u @ m) 0 t = Inr (t = u)"
proof (induction t arbitrary: u)
  case (Cons c t)
  then show ?case by (cases u) auto
qed simp

lemma tag_values:
  "tag ''JUNK'' \<noteq> tag ''fmt ''" "tag ''fact'' \<noteq> tag ''data''" "tag ''JUNK'' \<noteq> tag ''LIST''"
  by (simp_all add: tag_def)

text \<open>A header in its general form: an optional chunk of padding, a format chunk that may be longer than
  its fixed part, an optional \<^verbatim>\<open>fact\<close> chunk, and the data chunk.\<close>

definition wav_image :: "u32 \<Rightarrow> bytes option \<Rightarrow> fmt_chunk_head \<Rightarrow> bytes \<Rightarrow> bytes option \<Rightarrow> u32 \<Rightarrow> bytes" where
  "wav_image tot junk h extra fct n =
     tag ''RIFF'' @ bytes32 tot @ tag ''WAVE'' @
     (case junk of None \<Rightarrow> [] | Some j \<Rightarrow> tag ''JUNK'' @ bytes32 (of_nat (length j)) @ j) @
     enc_fmt h @ extra @
     (case fct of None \<Rightarrow> [] | Some f \<Rightarrow> tag ''fact'' @ f) @
     tag ''data'' @ bytes32 n"

definition fmt_info :: "int \<Rightarrow> fmt_chunk_head \<Rightarrow> wav_info" where
  "fmt_info len h = \<lparr>head_len = len, w_channels = ucast (fmt_channels h), w_sample_rate = fmt_sample_rate h,
     w_bits = ucast (fmt_bits_per_sample h)\<rparr>"

definition wf_fmt :: "fmt_chunk_head \<Rightarrow> bytes \<Rightarrow> bool" where
  "wf_fmt h extra \<longleftrightarrow> ch_type h = tag ''fmt '' \<and> fmt_tag h = 1 \<and> ch_length h = of_nat (16 + length extra)"

lemma advance_add8:
  assumes "0 \<le> p" and "p + int n < 2147483640"
  shows "advance p (of_nat n + 8) = p + int n + 8"
proof -
  have "(word_of_int p + (of_nat n + 8) :: u32) = word_of_int (p + int n + 8)" by simp
  then show ?thesis
    using assms by (simp only: advance_def signed_of_int) (simp add: signed_take_bit_int_eq_self)
qed

lemma parse_data_chunk_eq:
  "int (length x) = p \<Longrightarrow>
   parse_data_chunk (x @ tag ''data'' @ bytes32 n @ rest) p info = Inr (sint n, info\<lparr>head_len := p + 8\<rparr>)"
  by (auto simp: parse_data_chunk_def Let_def seg_simps)

lemma parse_fmt_chunk_eq:
  assumes h: "wf_fmt h extra" and f: "\<forall>b. fct = Some b \<longrightarrow> length b = 8"
    and p: "int (length x) = p" "p + int (length extra) < 2147483600"
  shows "parse_fmt_chunk (x @ enc_fmt h @ extra @ (case fct of None \<Rightarrow> [] | Some f \<Rightarrow> tag ''fact'' @ f) @
      tag ''data'' @ bytes32 n @ rest) p info =
    Inr (sint n, fmt_info (p + 32 + int (length extra) + (case fct of None \<Rightarrow> 0 | Some _ \<Rightarrow> 12)) h)"
proof -
  have u: "advance p (of_nat (16 + length extra) + 8) = p + (24 + int (length extra))"
    using advance_add8 [of p "16 + length extra"] p by simp
  have e: "length (enc_fmt h) = 24" using h by (simp add: enc_fmt_def wf_fmt_def)
  have "parse_data_chunk (x @ enc_fmt h @ extra @ (case fct of None \<Rightarrow> [] | Some f \<Rightarrow> tag ''fact'' @ f) @
      tag ''data'' @ bytes32 n @ rest) (p + 24 + int (length extra) + (case fct of None \<Rightarrow> 0 | Some _ \<Rightarrow> 12)) i =
      Inr (sint n, i\<lparr>head_len := p + 32 + int (length extra) + (case fct of None \<Rightarrow> 0 | Some _ \<Rightarrow> 12)\<rparr>)" for i
    using parse_data_chunk_eq [of "x @ enc_fmt h @ extra @ (case fct of None \<Rightarrow> [] | Some f \<Rightarrow> tag ''fact'' @ f)" 
        "p + 24 + int (length extra) + (case fct of None \<Rightarrow> 0 | Some _ \<Rightarrow> 12)" n rest i] p e f
    by (auto split: option.splits)
  moreover have "tag_at (x @ enc_fmt h @ extra @ (case fct of None \<Rightarrow> [] | Some f \<Rightarrow> tag ''fact'' @ f) @
      tag ''data'' @ bytes32 n @ rest) (advance p (ch_length h + 8)) (tag ''fact'') = Inr (fct \<noteq> None)"
    using p e h u by (auto simp: wf_fmt_def seg_simps tag_values split: option.split)
  ultimately show ?thesis
    using p h u
    by (simp add: parse_fmt_chunk_def seg_simps enc_fmt_def wf_fmt_def fmt_info_def flip: add.assoc split: option.splits)
qed

lemma wf_fmt_length: "wf_fmt h extra \<Longrightarrow> length (enc_fmt h) = 24"
  by (simp add: wf_fmt_def enc_fmt_def)

lemma wav_image_parsed:
  assumes h: "wf_fmt h extra" and f: "\<forall>b. fct = Some b \<longrightarrow> length b = 8"
    and j: "length (case junk of None \<Rightarrow> [] | Some b \<Rightarrow> b) + length extra < 2000000000"
  shows "parse_wav_header (wav_image tot junk h extra fct n @ rest) info =
    Inr (sint n, fmt_info (int (length (wav_image tot junk h extra fct n))) h)"
proof (cases junk)
  case None
  have "parse_fmt_chunk ((tag ''RIFF'' @ bytes32 tot @ tag ''WAVE'') @ enc_fmt h @ extra @
      (case fct of None \<Rightarrow> [] | Some f \<Rightarrow> tag ''fact'' @ f) @ tag ''data'' @ bytes32 n @ rest) 12 info =
    Inr (sint n, fmt_info (44 + int (length extra) + (case fct of None \<Rightarrow> 0 | Some _ \<Rightarrow> 12)) h)"
    using parse_fmt_chunk_eq [OF h f, of "tag ''RIFF'' @ bytes32 tot @ tag ''WAVE''" 12 n rest info] j None by simp
  moreover have "tag_at (enc_fmt h @ m) 0 (tag ''JUNK'') = Inr False" for m
    using h by (simp add: enc_fmt_def wf_fmt_def seg_simps tag_values)
  ultimately show ?thesis
    using None f wf_fmt_length [OF h(1)]
    by (auto simp: parse_wav_header_def wav_image_def seg_simps split: option.splits)
next
  case (Some b)
  let ?x = "tag ''RIFF'' @ bytes32 tot @ tag ''WAVE'' @ tag ''JUNK'' @ bytes32 (of_nat (length b)) @ b"
  have "parse_fmt_chunk (?x @ enc_fmt h @ extra @
      (case fct of None \<Rightarrow> [] | Some f \<Rightarrow> tag ''fact'' @ f) @ tag ''data'' @ bytes32 n @ rest)
      (20 + int (length b)) info =
    Inr (sint n, fmt_info (52 + int (length b) + int (length extra) + (case fct of None \<Rightarrow> 0 | Some _ \<Rightarrow> 12)) h)"
    using parse_fmt_chunk_eq [OF h f, of ?x "20 + int (length b)" n rest info] j Some
    by (simp add: algebra_simps)
  moreover have "advance 12 (of_nat (length b) + 8) = 20 + int (length b)"
    using advance_add8 [of 12 "length b"] j Some by simp
  ultimately show ?thesis
    using Some f wf_fmt_length [OF h(1)]
    by (auto simp: parse_wav_header_def wav_image_def seg_simps algebra_simps split: option.splits)
qed

lemma wav_header_is_image:
  "wav_header d c r b = wav_image (word_of_int (d + 36)) None (wav_fmt c r b) [] None (word_of_int d)"
  by (simp add: wav_header_def wav_image_def)

lemma wf_wav_fmt: "wf_fmt (wav_fmt c r b) []"
  by (simp add: wf_fmt_def wav_fmt_def Let_def)

lemma sint_word_of_int_id: "- 2147483648 \<le> d \<Longrightarrow> d < 2147483648 \<Longrightarrow> sint (word_of_int d :: u32) = d"
  by (simp add: signed_of_int signed_take_bit_int_eq_self)

lemma ucast_16_id: "c < 65536 \<Longrightarrow> ucast (ucast c :: u16) = (c :: u32)"
proof -
  assume "c < 65536"
  then have "unat c < 65536" by (simp add: word_less_nat_alt)
  then show ?thesis by (simp add: word_unat_eq_iff unsigned_ucast_eq unsigned_take_bit_eq take_bit_nat_eq_self)
qed

lemma wav_header_parsed:
  assumes "c < 65536" "b < 65536" "- 2147483648 \<le> d" "d < 2147483648"
  shows "parse_wav_header (wav_header d c r b @ rest) info =
    Inr (d, \<lparr>head_len = 44, w_channels = c, w_sample_rate = r, w_bits = b\<rparr>)"
  using wav_image_parsed [OF wf_wav_fmt [of c r b], of None None "word_of_int (d + 36)" "word_of_int d" rest info,
      folded wav_header_is_image] assms
  by (simp add: sint_word_of_int_id fmt_info_def wav_fmt_def Let_def ucast_16_id)

text \<open>A header that \<open>init_wav_header\<close> writes into an array of at least 44 bytes is one that
  \<open>parse_wav_header\<close> reads back: it returns the length of the data and the length of the header, the
  number of channels, the rate and the bits of a sample that were written (channels and bits of 16
  bits, a length that is an \<open>int\<close>); neither function touches anything behind these 44 bytes.\<close>

theorem wav_header_roundtrip:
  assumes "44 \<le> length data" and "c < 65536" and "b < 65536" and "- 2147483648 \<le> d" and "d < 2147483648"
  shows "bindE (init_wav_header data d c r b) (\<lambda>m. bindE (parse_wav_header m info) (\<lambda>p. Inr (drop 44 m, p))) =
    Inr (drop 44 data, d, \<lparr>head_len = 44, w_channels = c, w_sample_rate = r, w_bits = b\<rparr>)"
  using assms by (simp add: init_wav_header_eq wav_header_parsed)

theorem wav_header_roundtrip_witness:
  "bindE (init_wav_header (replicate 50 7) 1000 2 44100 16) (\<lambda>m.
     bindE (parse_wav_header m (fmt_info 0 (wav_fmt 0 0 0))) (\<lambda>p. Inr (drop 44 m, p))) =
   Inr (replicate 6 7, 1000, \<lparr>head_len = 44, w_channels = 2, w_sample_rate = 44100, w_bits = 16\<rparr>)"
  using wav_header_roundtrip [of "replicate 50 7" 2 16 1000 44100 "fmt_info 0 (wav_fmt 0 0 0)"] by simp

lemma sint_wraps:
  assumes "2147483648 \<le> k" and "k < 4294967296"
  shows "sint (word_of_int k :: u32) = k - 4294967296"
proof -
  have "(word_of_int k :: u32) = word_of_int (k - 4294967296)"
    by (simp add: word_of_int_eq_iff take_bit_eq_mod mod_diff_right_eq [symmetric])
  then show ?thesis
    using assms by (simp only: signed_of_int) (simp add: signed_take_bit_int_eq_self)
qed

text \<open>The length of a padding chunk is believed: with 236 or more bytes of padding announced in a block
  of 256 bytes, the whole that its callers have read, \<open>parse_wav_header\<close> reads outside the block.\<close>

theorem parse_leaves_block:
  assumes "m = tag ''RIFF'' @ bytes32 tot @ tag ''WAVE'' @ tag ''JUNK'' @ bytes32 n @ rest"
    and "length m = MAX_WAV_HEAD_SIZE" and "236 \<le> uint n" and "uint n < 4294967276"
  shows "parse_wav_header m info = Inl Fault"
proof -
  have w: "(word_of_int 12 + (n + 8) :: u32) = word_of_int (uint n + 20)" by (simp add: algebra_simps)
  have "advance 12 (n + 8) < 0 \<or> 256 \<le> advance 12 (n + 8)"
  proof (cases "uint n + 20 < 2147483648")
    case True
    then show ?thesis
      using assms(3) by (simp only: advance_def w signed_of_int) (simp add: signed_take_bit_int_eq_self)
  next
    case False
    then have "sint (word_of_int (uint n + 20) :: u32) = uint n + 20 - 4294967296"
      using assms(4) by (intro sint_wraps) simp_all
    then show ?thesis using assms(4) by (simp only: advance_def w) simp
  qed
  moreover have "tag_at m p (tag ''fmt '') = Inl Fault" if "p < 0 \<or> 256 \<le> p" for p
    using that assms(2) by (auto simp: tag_def tag_at.simps(2) load_def MAX_WAV_HEAD_SIZE_def)
  moreover have "parse_wav_header m info = parse_fmt_chunk m (advance 12 (n + 8)) info"
    unfolding assms(1) parse_wav_header_def by (simp add: seg_simps)
  ultimately show ?thesis by (simp add: parse_fmt_chunk_def)
qed

theorem parse_leaves_block_witness:
  "parse_wav_header (tag ''RIFF'' @ bytes32 0 @ tag ''WAVE'' @ tag ''JUNK'' @ bytes32 1000 @ replicate 236 0)
     (fmt_info 0 (wav_fmt 0 0 0)) = Inl Fault"
  using parse_leaves_block [OF refl, of 0 1000 "replicate 236 0"] by (simp add: MAX_WAV_HEAD_SIZE_def)

section \<open>The conversions as functions of the samples\<close>

fun expand :: "bytes \<Rightarrow> bytes" where
  "expand (a # b # c # r) = a # b # c # 0 # expand r"
| "expand _ = []"

fun shrink :: "bytes \<Rightarrow> bytes" where
  "shrink (a # b # c # d # r) = a # b # c # shrink r"
| "shrink _ = []"

lemma samples_div [simp]:
  "(3 + n) div 3 = Suc (n div 3)" "(4 + n) div 4 = Suc (n div 4)" for n :: nat
  by (simp_all add: div_add_self1)

lemma length_expand: "length (expand x) = 4 * (length x div 3)"
  by (induction x rule: expand.induct) auto

lemma length_shrink: "length (shrink x) = 3 * (length x div 4)"
  by (induction x rule: shrink.induct) auto

lemma expand_append: "length x mod 3 = 0 \<Longrightarrow> expand (x @ y) = expand x @ expand y"
  by (induction x rule: expand.induct) auto

lemma shrink_append: "length x mod 4 = 0 \<Longrightarrow> shrink (x @ y) = shrink x @ shrink y"
  by (induction x rule: shrink.induct) auto

lemma shrink_expand: "shrink (expand x) = take (3 * (length x div 3)) x"
proof (induction x rule: expand.induct)
  case (1 a b c r)
  have "3 * Suc q = Suc (Suc (Suc (3 * q)))" for q :: nat by simp
  with 1 show ?case by (simp del: mult_Suc_right)
qed simp_all

lemma expand_step:
  assumes "3 \<le> j" and "4 * j + 4 \<le> length m"
  shows "expand_loop (Suc k) m (int (4 * j)) (int (3 * j)) =
    expand_loop k (take (4 * j) m @ take 3 (drop (3 * j) m) @ [0] @ drop (4 * j + 4) m)
      (int (4 * j) - 4) (int (3 * j) - 3)"
proof -
  define A where "A = take (3 * j) m"
  define C where "C = take (j - 3) (drop (3 * j + 3) m)"
  define D where "D = drop (4 * j + 4) m"
  have lA: "length A = 3 * j" and lC: "length C = j - 3" using assms by (auto simp: A_def C_def)
  have four: "\<exists>a b c d. z = [a, b, c, d]" if "length z = 4" for z :: bytes
    using that by (auto simp: eval_nat_numeral length_Suc_conv)
  have three: "\<exists>a b c. z = [a, b, c]" if "length z = 3" for z :: bytes
    using that by (auto simp: eval_nat_numeral length_Suc_conv)
  obtain x0 x1 x2 where x: "take 3 (drop (3 * j) m) = [x0, x1, x2]"
    using three [of "take 3 (drop (3 * j) m)"] assms by auto
  obtain y0 y1 y2 y3 where y: "take 4 (drop (4 * j) m) = [y0, y1, y2, y3]"
    using four [of "take 4 (drop (4 * j) m)"] assms by auto
  have "m = A @ take 3 (drop (3 * j) m) @ C @ take 4 (drop (4 * j) m) @ D"
  proof -
    have "drop (3 * j) m = take 3 (drop (3 * j) m) @ drop (3 * j + 3) m"
      by (metis append_take_drop_id drop_drop add.commute)
    moreover have "drop (3 * j + 3) m = C @ drop (4 * j) m"
      using append_take_drop_id [of "j - 3" "drop (3 * j + 3) m"] assms(1) by (simp add: C_def)
    moreover have "drop (4 * j) m = take 4 (drop (4 * j) m) @ D"
      unfolding D_def by (metis append_take_drop_id drop_drop add.commute)
    ultimately show ?thesis unfolding A_def by (metis append_take_drop_id)
  qed
  then have m: "m = A @ x0 # x1 # x2 # C @ y0 # y1 # y2 # y3 # D" using x y by simp
  have e: "4 * j = length (A @ x0 # x1 # x2 # C)" using lA lC assms(1) by simp
  have t: "take (4 * j) m = A @ x0 # x1 # x2 # C"
  proof -
    have "take (length p) m = p" if "m = p @ q" for p q using that by simp
    from this [of "A @ x0 # x1 # x2 # C" "y0 # y1 # y2 # y3 # D"] show ?thesis by (simp only: e m) simp
  qed
  show ?thesis
    unfolding x t D_def [symmetric] using assms(1)
    by (subst m) (simp add: seg_simps lA lC)
qed

lemma length_3: "length z = 3 \<Longrightarrow> \<exists>a b c. z = [a, b, c]"
  by (auto simp: length_Suc_conv eval_nat_numeral)

lemma length_12: "length z = 12 \<Longrightarrow>
    \<exists>a0 a1 a2 a3 a4 a5 a6 a7 a8 a9 a10 a11. z = [a0, a1, a2, a3, a4, a5, a6, a7, a8, a9, a10, a11]"
  by (auto simp: length_Suc_conv eval_nat_numeral)

lemma sdiv_nonneg: "0 \<le> a \<Longrightarrow> 0 < b \<Longrightarrow> a smod b = a mod b" "0 \<le> a \<Longrightarrow> 0 < b \<Longrightarrow> a sdiv b = a div b" for a b :: int
  by (cases "a = 0"; simp add: signed_modulo_int_def signed_divide_int_def)+

lemma expand_snoc:
  "drop (9 + 3 * k) m \<noteq> [] \<Longrightarrow> 12 + 3 * k \<le> length m \<Longrightarrow>
   expand (take (3 * k) (drop 9 m)) @ take 3 (drop (9 + 3 * k) m) @ [0] = expand (take (3 * Suc k) (drop 9 m))"
proof -
  assume l: "12 + 3 * k \<le> length m"
  let ?x = "take 3 (drop (9 + 3 * k) m)"
  have "take (3 * Suc k) (drop 9 m) = take (3 * k) (drop 9 m) @ ?x"
    using take_add [of "3 * k" 3 "drop 9 m"] by (simp add: add.commute)
  moreover have "length (take (3 * k) (drop 9 m)) mod 3 = 0" using l by simp
  moreover have "\<exists>a b c. ?x = [a, b, c]" by (rule length_3) (use l in simp)
  ultimately show ?thesis using expand_append by fastforce
qed

lemma expand_loop_eq:
  "4 * (k + 3) \<le> length m \<Longrightarrow>
   expand_loop k m (int (4 * (k + 2))) (int (3 * (k + 2))) =
     Inr (take 12 m @ expand (take (3 * k) (drop 9 m)) @ drop (12 + 4 * k) m, 8, 6)"
proof (induction k arbitrary: m)
  case (Suc k)
  define x where "x = take 3 (drop (9 + 3 * k) m)"
  define m' where "m' = take (12 + 4 * k) m @ x @ [0] @ drop (16 + 4 * k) m"
  have lx: "length x = 3" using Suc.prems by (simp add: x_def)
  have "expand_loop (Suc k) m (int (4 * (Suc k + 2))) (int (3 * (Suc k + 2))) =
      expand_loop k m' (int (4 * (k + 2))) (int (3 * (k + 2)))"
    using expand_step [of "k + 3" m k] Suc.prems by (simp add: m'_def x_def algebra_simps)
  also have "\<dots> = Inr (take 12 m' @ expand (take (3 * k) (drop 9 m')) @ drop (12 + 4 * k) m', 8, 6)"
    by (rule Suc.IH) (use Suc.prems lx in \<open>simp add: m'_def\<close>)
  also have "take 12 m' = take 12 m" using Suc.prems by (simp add: m'_def min_def)
  also have "take (3 * k) (drop 9 m') = take (3 * k) (drop 9 m)"
    using Suc.prems by (simp add: m'_def take_drop min_def)
  also have "drop (12 + 4 * k) m' = x @ [0] @ drop (16 + 4 * k) m"
    using Suc.prems by (simp add: m'_def min_def)
  finally show ?case
    using expand_snoc [of k m] Suc.prems by (simp add: x_def)
qed simp

lemma wav_expand_eq:
  assumes "3 \<le> n" and "4 * n \<le> length m" and "r < 3"
  shows "wav_expand_24bit_to_32bit m (int (3 * n + r)) = Inr (expand (take (3 * n) m) @ drop (4 * n) m)"
proof -
  obtain k where k: "n = k + 3" using assms(1) by (metis add.commute le_iff_add)
  have len: "int (3 * n + r) smod 3 = int r" "int (3 * n) sdiv 3 = int n"
    using assms(3) by (simp_all add: sdiv_nonneg)
  define B where "B = drop 12 m"
  have l: "length (take 12 m) = 12" using assms(1,2) by simp
  obtain a0 a1 a2 a3 a4 a5 a6 a7 a8 a9 a10 a11 where
    a: "take 12 m = [a0, a1, a2, a3, a4, a5, a6, a7, a8, a9, a10, a11]"
    using length_12 [OF l] by (elim exE) (rule that)
  have "expand_loop (nat (int n - 3)) m (int n * 4 - 4) (int (3 * n) - 3) =
      Inr (take 12 m @ expand (take (3 * k) (drop 9 m)) @ drop (4 * n) m, 8, 6)"
    using expand_loop_eq [of k m] assms(2) by (simp add: k algebra_simps)
  moreover have "expand (take (3 * n) m) = [a0, a1, a2, 0, a3, a4, a5, 0, a6, a7, a8, 0] @ expand (take (3 * k) (drop 9 m))"
  proof -
    have nine: "take 9 m = [a0, a1, a2, a3, a4, a5, a6, a7, a8]"
      using arg_cong [OF a, of "take 9"] by simp
    have "take (3 * n) m = take 9 m @ take (3 * k) (drop 9 m)"
      by (simp add: k take_add [symmetric] add.commute)
    then show ?thesis by (simp add: nine)
  qed
  ultimately show ?thesis
    using len assms(3) by (simp add: wav_expand_24bit_to_32bit_def Let_def a load_bytes_def store_def memcpy_at_def)
qed

lemma wav_expand_short:
  assumes "n < 3" and "12 \<le> length m" and "r < 3"
  shows "wav_expand_24bit_to_32bit m (int (3 * n + r)) = Inl Abort"
proof -
  have len: "int (3 * n + r) smod 3 = int r" "int (3 * n) sdiv 3 = int n"
    using assms(3) by (simp_all add: sdiv_nonneg)
  have "load_bytes m 0 9 = Inr (take 9 m)" using assms(2) by (simp add: load_bytes_def)
  moreover have "store x p b = Inr (memcpy_at x (nat p) b)" if "0 \<le> p" "p + int (length b) \<le> 12" "12 \<le> length x" for x p b
    using that by (simp add: store_def)
  ultimately show ?thesis
    using len assms by (auto simp: wav_expand_24bit_to_32bit_def Let_def)
qed

lemma load_nth: "0 \<le> p \<Longrightarrow> p < int (length m) \<Longrightarrow> load m p = Inr (m ! nat p)"
  by (simp add: load_def)

lemma store_update: "0 \<le> p \<Longrightarrow> p < int (length m) \<Longrightarrow> store m p [b] = Inr (m[nat p := b])"
  by (simp add: store_def memcpy_at_def upd_conv_take_nth_drop)

lemma update_3:
  "i + 3 \<le> length m \<Longrightarrow> m[i := a, Suc i := b, Suc (Suc i) := c] = take i m @ [a, b, c] @ drop (i + 3) m"
proof -
  assume l: "i + 3 \<le> length m"
  have "drop i m = m ! i # m ! Suc i # m ! Suc (Suc i) # drop (i + 3) m"
    using l by (simp add: Cons_nth_drop_Suc eval_nat_numeral)
  then have "m = take i m @ m ! i # m ! Suc i # m ! Suc (Suc i) # drop (i + 3) m"
    by (metis append_take_drop_id)
  then obtain A x y z D where m: "m = A @ x # y # z # D" "A = take i m" "D = drop (i + 3) m" by blast
  have "length A = i" using l m(2) by simp
  then show ?thesis unfolding m(2,3) [symmetric] by (subst m(1)) (simp add: list_update_append)
qed

lemma shrink_step:
  assumes "int (4 * k) < len" and "4 * k + 4 \<le> length m"
  shows "shrink_loop m (int (4 * k)) len (int (3 * k)) (int (4 * k)) =
    shrink_loop (take (3 * k) m @ take 3 (drop (4 * k) m) @ drop (3 * k + 3) m)
      (int (4 * Suc k)) len (int (3 * Suc k)) (int (4 * Suc k))"
proof -
  have t: "take 3 (drop (4 * k) m) = [m ! (4 * k), m ! Suc (4 * k), m ! Suc (Suc (4 * k))]"
    using assms(2) by (simp add: take_Suc_conv_app_nth eval_nat_numeral)
  have n: "nat (int (3 * k)) = 3 * k" "nat (int (3 * k) + 1) = Suc (3 * k)" "nat (int (3 * k) + 2) = Suc (Suc (3 * k))"
    "nat (int (4 * k)) = 4 * k" "nat (int (4 * k) + 1) = Suc (4 * k)" "nat (int (4 * k) + 2) = Suc (Suc (4 * k))"
    by linarith+
  have "shrink_loop m (int (4 * k)) len (int (3 * k)) (int (4 * k)) =
    shrink_loop (m[3 * k := m ! (4 * k), Suc (3 * k) := m ! Suc (4 * k), Suc (Suc (3 * k)) := m ! Suc (Suc (4 * k))])
      (int (4 * k) + 4) len (int (3 * k) + 3) (int (4 * k) + 4)"
    using assms by (subst shrink_loop.simps) (simp add: load_nth store_update n del: of_nat_mult)
  moreover have "3 * k + 3 \<le> length m" using assms(2) by linarith
  ultimately show ?thesis unfolding t by (simp add: update_3 algebra_simps)
qed

lemma shrink_snoc: "4 \<le> length s \<Longrightarrow> shrink s = take 3 s @ shrink (drop 4 s)"
  by (cases s rule: shrink.cases) simp_all

lemma shrink_more:
  assumes "4 * Suc n \<le> length s"
  shows "take 3 s @ shrink (take (4 * n) (drop 4 s)) = shrink (take (4 * Suc n) s)"
proof -
  have "take 3 (take (4 * Suc n) s) = take 3 s" "drop 4 (take (4 * Suc n) s) = take (4 * n) (drop 4 s)"
    by (simp_all add: min_def drop_take)
  then show ?thesis using shrink_snoc [of "take (4 * Suc n) s"] assms by simp
qed

lemma shrink_loop_eq:
  "4 * (k + n) \<le> length m \<Longrightarrow> int (4 * (k + n)) - 4 < len \<Longrightarrow> len \<le> int (4 * (k + n)) \<Longrightarrow>
   shrink_loop m (int (4 * k)) len (int (3 * k)) (int (4 * k)) =
     Inr (take (3 * k) m @ shrink (take (4 * n) (drop (4 * k) m)) @ drop (3 * (k + n)) m)"
proof (induction n arbitrary: k m)
  case 0
  then show ?case by (subst shrink_loop.simps) simp
next
  case (Suc n)
  define m' where "m' = take (3 * k) m @ take 3 (drop (4 * k) m) @ drop (3 * k + 3) m"
  have l: "length m' = length m" "length (take (3 * k) m) = 3 * k" "length (take 3 (drop (4 * k) m)) = 3"
    using Suc.prems(1) by (simp_all add: m'_def)
  have "shrink_loop m (int (4 * k)) len (int (3 * k)) (int (4 * k)) =
      shrink_loop m' (int (4 * Suc k)) len (int (3 * Suc k)) (int (4 * Suc k))"
    unfolding m'_def by (rule shrink_step) (use Suc.prems in simp_all)
  also have "\<dots> = Inr (take (3 * Suc k) m' @ shrink (take (4 * n) (drop (4 * Suc k) m')) @ drop (3 * (Suc k + n)) m')"
    by (rule Suc.IH) (use Suc.prems l in simp_all)
  finally have r: "shrink_loop m (int (4 * k)) len (int (3 * k)) (int (4 * k)) =
      Inr (take (3 * Suc k) m' @ shrink (take (4 * n) (drop (4 * Suc k) m')) @ drop (3 * (Suc k + n)) m')" .
  have e1: "take (3 * Suc k) m' = take (3 * k) m @ take 3 (drop (4 * k) m)"
    using Suc.prems(1) by (simp add: m'_def min_def)
  have e2: "drop (4 * Suc k) m' = drop (4 * Suc k) m"
    using Suc.prems(1) by (simp add: m'_def min_def)
  have e3: "drop (3 * (Suc k + n)) m' = drop (3 * (k + Suc n)) m"
    using Suc.prems(1) by (simp add: m'_def min_def ac_simps)
  have e4: "take 3 (drop (4 * k) m) @ shrink (take (4 * n) (drop (4 * Suc k) m)) =
      shrink (take (4 * Suc n) (drop (4 * k) m))"
    using shrink_more [of n "drop (4 * k) m"] Suc.prems(1) by (simp add: add.commute)
  show ?case unfolding r e1 e2 e3 e4 [symmetric] by (simp only: append_assoc)
qed

lemma wav_shrink_eq:
  assumes "4 * n \<le> length m" and "int (4 * n) - 4 < len" and "len \<le> int (4 * n)"
  shows "wav_32bit_to_24bit m len = Inr (shrink (take (4 * n) m) @ drop (3 * n) m)"
  using shrink_loop_eq [of 0 n m len] assms by (simp add: wav_32bit_to_24bit_def)

section \<open>The properties of the conversions\<close>

text \<open>The widening in place. For a length of at least three samples (whatever one or two bytes are left
  over) in an array that has room for the result, \<open>wav_expand_24bit_to_32bit\<close> reads and writes only
  inside the array, its two assertions hold, the first samples become exactly the samples with a zero
  byte each, in order, and the rest of the array is as it was.\<close>

theorem expand_in_place:
  assumes "9 \<le> len" and "len sdiv 3 * 4 \<le> int (length m)"
  shows "wav_expand_24bit_to_32bit m len =
    Inr (expand (take (3 * nat (len div 3)) m) @ drop (4 * nat (len div 3)) m)"
proof -
  define n r where "n = nat (len div 3)" and "r = nat (len mod 3)"
  have "len = int (3 * n + r)" "r < 3" "3 \<le> n" using assms(1) by (simp_all add: n_def r_def nat_less_iff)
  moreover have "4 * n \<le> length m" using assms by (simp add: sdiv_nonneg n_def)
  ultimately show ?thesis unfolding n_def [symmetric] using wav_expand_eq [of n m r] by simp
qed

theorem expand_in_place_witness:
  "wav_expand_24bit_to_32bit ([1, 2, 3, 4, 5, 6, 7, 8, 9, 10, 11, 12, 13] @ replicate 4 0) 13 =
     Inr ([1, 2, 3, 0, 4, 5, 6, 0, 7, 8, 9, 0, 10, 11, 12, 0] @ [0])"
  using expand_in_place [of 13 "[1, 2, 3, 4, 5, 6, 7, 8, 9, 10, 11, 12, 13] @ replicate 4 0"]
  by (simp add: sdiv_nonneg eval_nat_numeral)

text \<open>Fewer than three samples stop the program: for a length from 0 to 8 in an array of at least 12
  bytes the first assertion of \<open>wav_expand_24bit_to_32bit\<close> is false. The callers pass whatever the last read of a file returned.\<close>

theorem expand_short_aborts:
  assumes "0 \<le> len" and "len < 9" and "12 \<le> length m"
  shows "wav_expand_24bit_to_32bit m len = Inl Abort"
proof -
  define n r where "n = nat (len div 3)" and "r = nat (len mod 3)"
  have "len = int (3 * n + r)" "r < 3" "n < 3"
    using assms(1,2) by (simp_all add: n_def r_def nat_less_iff pos_imp_zdiv_nonneg_iff)
  then show ?thesis using wav_expand_short [of n m r] assms(3) by simp
qed

theorem expand_short_aborts_witness: "wav_expand_24bit_to_32bit (replicate 12 1) 6 = Inl Abort"
  using expand_short_aborts [of 6 "replicate 12 1"] by simp

text \<open>C31. Widening and narrowing: what \<open>wav_32bit_to_24bit\<close> makes of the output of
  \<open>wav_expand_24bit_to_32bit\<close>, in the same array, is the samples it started from.\<close>

theorem widths_roundtrip:
  assumes "3 \<le> n" and "4 * n \<le> length m"
  shows "\<exists>m'. bindE (wav_expand_24bit_to_32bit m (int (3 * n))) (\<lambda>m. wav_32bit_to_24bit m (int (4 * n))) = Inr m' \<and>
    take (3 * n) m' = take (3 * n) m \<and> length m' = length m"
proof -
  let ?e = "expand (take (3 * n) m)"
  have l: "length ?e = 4 * n" using assms(2) by (simp add: length_expand)
  have s: "shrink ?e = take (3 * n) m" using assms(2) by (simp add: shrink_expand)
  have "wav_32bit_to_24bit (?e @ drop (4 * n) m) (int (4 * n)) = Inr (take (3 * n) m @ drop (3 * n) (?e @ drop (4 * n) m))"
    using wav_shrink_eq [of n "?e @ drop (4 * n) m" "int (4 * n)"] assms(2) l s by simp
  then show ?thesis using wav_expand_eq [of n m 0] assms l by simp
qed

theorem widths_roundtrip_witness:
  "\<exists>m'. bindE (wav_expand_24bit_to_32bit (replicate 20 5) (int (3 * 4))) (\<lambda>m. wav_32bit_to_24bit m (int (4 * 4))) = Inr m' \<and>
    take 12 m' = replicate 12 5 \<and> length m' = 20"
  using widths_roundtrip [of 4 "replicate 20 5"] by simp

end
