(* ===== verification/Files.thy ===== *)
theory Files
  imports Buffer CString
begin

text \<open>
  Files and devices as the audio tools, the partition tool and the log readers use them. A path names
  a regular file (its bytes) or a device (the bytes it will deliver and those it was given); an
  open descriptor is a path and an offset. How much a \<open>read\<close> or \<open>write\<close> transfers is not up to the
  program: each consumes the next entry of the plan \<open>fs_plan\<close>, and a theorem about every plan holds
  whatever the system does. As POSIX has it, \<open>read\<close> returns nothing only at the end of the data, and a
  \<open>write\<close> of something that does not fail takes at least one byte. Drivers answer an \<open>ioctl\<close> through
  \<open>fs_driver\<close>; the requests are logged in \<open>fs_ctl\<close>. \<open>errno\<close> is not modelled.

  A descriptor does not remember how it was opened. Every program here reads only what it opened for
  reading and writes only what it opened for writing, but for one \<open>read\<close> of \<^verbatim>\<open>test_gps.c\<close>, which its
  model leaves out as the failure it is. Of the other flags, \<open>O_CREAT\<close> is an argument of \<open>f_open\<close>;
  \<open>O_TRUNC\<close>, which only \<open>set_flag_recovery\<close> of \<^verbatim>\<open>vcom.c\<close> gives, is written out there.
\<close>

section \<open>The state of the system\<close>

datatype fnode = Reg bytes | Dev bytes bytes

datatype outcome = Full | Short nat | Failed

datatype ctl = SNDCTL_DSP_SETFMT | SNDCTL_DSP_CHANNELS | SNDCTL_DSP_SPEED
  | SOUND_MIXER_WRITE_VOLUME | SOUND_MIXER_WRITE_MIC | TIOCSETD | HCIUARTSETPROTO

datatype access = O_RDONLY | O_WRONLY | O_RDWR

record fs =
  fs_nodes :: "string \<Rightarrow> fnode option"
  fs_denied :: "string \<Rightarrow> bool"
  fs_fds :: "int \<Rightarrow> (string \<times> nat) option"
  fs_next :: nat
  fs_plan :: "outcome list"
  fs_driver :: "ctl \<Rightarrow> int \<Rightarrow> int option"
  fs_ctl :: "(int \<times> ctl \<times> int) list"

section \<open>System calls\<close>

definition next_outcome :: "fs \<Rightarrow> outcome \<times> fs" where
  "next_outcome s = (case fs_plan s of [] \<Rightarrow> (Full, s) | c # cs \<Rightarrow> (c, s\<lparr>fs_plan := cs\<rparr>))"

text \<open>How many of \<open>n\<close> bytes are transferred when it is not an error.\<close>

fun portion :: "outcome \<Rightarrow> nat \<Rightarrow> nat" where
  "portion (Short k) n = (if n = 0 then 0 else max 1 (min k n))"
| "portion _ n = n"

definition f_open :: "string \<Rightarrow> access \<Rightarrow> bool \<Rightarrow> fs \<Rightarrow> int \<times> fs" where
  "f_open path flags creat s =
     (if fs_denied s path \<or> fs_nodes s path = None \<and> \<not> creat then (-1, s)
      else (int (fs_next s),
            s\<lparr>fs_nodes := (fs_nodes s)(path \<mapsto> (case fs_nodes s path of None \<Rightarrow> Reg [] | Some nd \<Rightarrow> nd)),
              fs_fds := (fs_fds s)(int (fs_next s) \<mapsto> (path, 0)), fs_next := Suc (fs_next s)\<rparr>))"

definition f_close :: "int \<Rightarrow> fs \<Rightarrow> fs" where
  "f_close fd s = s\<lparr>fs_fds := (fs_fds s)(fd := None)\<rparr>"

definition f_lseek :: "int \<Rightarrow> int \<Rightarrow> fs \<Rightarrow> fs" where
  "f_lseek fd pos s = (case fs_fds s fd of
       None \<Rightarrow> s
     | Some (path, _) \<Rightarrow> if pos < 0 then s else s\<lparr>fs_fds := (fs_fds s)(fd \<mapsto> (path, nat pos))\<rparr>)"

text \<open>\<open>lstat\<close>: the size of a regular file.\<close>

definition f_size :: "string \<Rightarrow> fs \<Rightarrow> nat option" where
  "f_size path s = (case fs_nodes s path of Some (Reg d) \<Rightarrow> Some (length d) | _ \<Rightarrow> None)"

definition f_read :: "int \<Rightarrow> nat \<Rightarrow> fs \<Rightarrow> bytes option \<times> fs" where
  "f_read fd n s =
     (let (c, s) = next_outcome s
      in case fs_fds s fd of
           None \<Rightarrow> (None, s)
         | Some (path, pos) \<Rightarrow>
             if c = Failed then (None, s)
             else (case fs_nodes s path of
                 Some (Reg d) \<Rightarrow>
                   let b = take (portion c n) (drop pos d)
                   in (Some b, s\<lparr>fs_fds := (fs_fds s)(fd \<mapsto> (path, pos + length b))\<rparr>)
               | Some (Dev i o') \<Rightarrow>
                   (Some (take (portion c n) i), s\<lparr>fs_nodes := (fs_nodes s)(path \<mapsto> Dev (drop (portion c n) i) o')\<rparr>)
               | None \<Rightarrow> (None, s)))"

definition overwrite :: "bytes \<Rightarrow> nat \<Rightarrow> bytes \<Rightarrow> bytes" where
  "overwrite d pos b = take pos (d @ replicate (pos - length d) 0) @ b @ drop (pos + length b) d"

definition f_write :: "int \<Rightarrow> bytes \<Rightarrow> fs \<Rightarrow> nat option \<times> fs" where
  "f_write fd b s =
     (let (c, s) = next_outcome s; b = take (portion c (length b)) b
      in case fs_fds s fd of
           None \<Rightarrow> (None, s)
         | Some (path, pos) \<Rightarrow>
             if c = Failed then (None, s)
             else (case fs_nodes s path of
                 Some (Reg d) \<Rightarrow>
                   (Some (length b), s\<lparr>fs_nodes := (fs_nodes s)(path \<mapsto> Reg (overwrite d pos b)),
                      fs_fds := (fs_fds s)(fd \<mapsto> (path, pos + length b))\<rparr>)
               | Some (Dev i o') \<Rightarrow> (Some (length b), s\<lparr>fs_nodes := (fs_nodes s)(path \<mapsto> Dev i (o' @ b))\<rparr>)
               | None \<Rightarrow> (None, s)))"

text \<open>The value an \<open>ioctl\<close> leaves in its argument; \<open>None\<close> when it fails.\<close>

definition f_ioctl :: "int \<Rightarrow> ctl \<Rightarrow> int \<Rightarrow> fs \<Rightarrow> int option \<times> fs" where
  "f_ioctl fd req v s =
     (if fs_fds s fd = None then None else fs_driver s req v, s\<lparr>fs_ctl := fs_ctl s @ [(fd, req, v)]\<rparr>)"

section \<open>Progress\<close>

lemma portion_le: "portion c n \<le> n"
  by (cases "(c, n)" rule: portion.cases) auto

lemma portion_pos: "0 < n \<Longrightarrow> 0 < portion c n"
  by (cases "(c, n)" rule: portion.cases) auto

lemma f_write_some:
  assumes "f_write fd b s = (Some n, s')"
  shows "n \<le> length b" "b \<noteq> [] \<Longrightarrow> 0 < n"
  using assms portion_le portion_pos
  by (auto simp: f_write_def Let_def split: prod.splits option.splits fnode.splits if_splits)

lemma f_read_length: "f_read fd n s = (Some b, s') \<Longrightarrow> length b \<le> n"
  using portion_le [of _ n]
  by (auto simp: f_read_def Let_def min_le_iff_disj
      split: prod.splits option.splits fnode.splits if_splits)

section \<open>What two descriptors have to do with the data\<close>

text \<open>The bytes a descriptor will still deliver, and those that were put where it stands.\<close>

definition left :: "int \<Rightarrow> fs \<Rightarrow> bytes" where
  "left fd s = (case fs_fds s fd of
       None \<Rightarrow> []
     | Some (path, pos) \<Rightarrow>
         (case fs_nodes s path of Some (Reg d) \<Rightarrow> drop pos d | Some (Dev i _) \<Rightarrow> i | None \<Rightarrow> []))"

definition given :: "int \<Rightarrow> fs \<Rightarrow> bytes" where
  "given fd s = (case fs_fds s fd of
       None \<Rightarrow> []
     | Some (path, pos) \<Rightarrow>
         (case fs_nodes s path of Some (Reg d) \<Rightarrow> take pos d | Some (Dev _ o') \<Rightarrow> o' | None \<Rightarrow> []))"

definition at_data :: "fs \<Rightarrow> string \<times> nat \<Rightarrow> bool" where
  "at_data s p = (case fs_nodes s (fst p) of
       None \<Rightarrow> False | Some (Reg d) \<Rightarrow> snd p \<le> length d | Some (Dev _ _) \<Rightarrow> True)"

text \<open>Two open descriptors on different files, not behind the end of the second, and no failures.\<close>

definition apart :: "int \<Rightarrow> int \<Rightarrow> fs \<Rightarrow> bool" where
  "apart a b s \<longleftrightarrow> (\<exists>p q. fs_fds s a = Some p \<and> fs_fds s b = Some q \<and> fst p \<noteq> fst q \<and>
     fs_nodes s (fst p) \<noteq> None \<and> at_data s q) \<and> Failed \<notin> set (fs_plan s)"

lemma next_outcome_calm:
  "next_outcome s = (c, s') \<Longrightarrow> Failed \<notin> set (fs_plan s) \<Longrightarrow>
    c \<noteq> Failed \<and> Failed \<notin> set (fs_plan s') \<and> (\<exists>cs. s' = s\<lparr>fs_plan := cs\<rparr>) \<and> (fs_plan s = [] \<longrightarrow> c = Full \<and> fs_plan s' = [])"
  by (auto simp: next_outcome_def split: list.splits intro: exI [of _ "fs_plan s"])

lemma apart_neq: "apart a b s \<Longrightarrow> a \<noteq> b"
  by (auto simp: apart_def)

lemma f_read_apart:
  assumes "apart a b s" and "0 < n"
  shows "\<exists>bs s'. f_read a n s = (Some bs, s') \<and> bs = take (length bs) (left a s) \<and> length bs \<le> n \<and>
    (bs = [] \<longleftrightarrow> left a s = []) \<and> left a s' = drop (length bs) (left a s) \<and> given b s' = given b s \<and>
    apart a b s' \<and> (fs_plan s = [] \<longrightarrow> fs_plan s' = [] \<and> bs = take n (left a s))"
proof -
  obtain c s1 where c: "next_outcome s = (c, s1)" by fastforce
  obtain p q where pq: "fs_fds s a = Some p" "fs_fds s b = Some q" "fst p \<noteq> fst q" "fs_nodes s (fst p) \<noteq> None" "at_data s q"
    and calm: "Failed \<notin> set (fs_plan s)"
    using assms(1) by (auto simp: apart_def)
  obtain cs where s1: "s1 = s\<lparr>fs_plan := cs\<rparr>" "c \<noteq> Failed" "Failed \<notin> set cs" "fs_plan s = [] \<longrightarrow> c = Full \<and> cs = []"
    using next_outcome_calm [OF c calm] by auto
  have k: "portion c n \<le> n" "0 < portion c n" using portion_le portion_pos assms(2) by auto
  have full: "fs_plan s = [] \<longrightarrow> portion c n = n" using s1(4) by auto
  have "a \<noteq> b" using pq by auto
  obtain path pos where p: "p = (path, pos)" by fastforce
  obtain path2 pos2 nd2 where q: "q = (path2, pos2)" "fs_nodes s path2 = Some nd2"
    using pq(5) by (cases q) (auto simp: at_data_def split: option.splits)
  show ?thesis
  proof (cases "fs_nodes s path")
    case None
    then show ?thesis using pq(4) p by simp
  next
    case (Some nd)
    show ?thesis
    proof (cases nd)
      case (Reg d)
      then show ?thesis using c s1 pq p q Some k full \<open>a \<noteq> b\<close>
        by (cases nd2) (auto simp: f_read_def left_def given_def apart_def at_data_def min_def add.commute)
    next
      case (Dev i o')
      then show ?thesis using c s1 pq p q Some k full \<open>a \<noteq> b\<close>
        by (cases nd2) (auto simp: f_read_def left_def given_def apart_def at_data_def min_def add.commute)
    qed
  qed
qed

lemma overwrite_at: "pos \<le> length d \<Longrightarrow> overwrite d pos b = take pos d @ b @ drop (pos + length b) d"
  by (simp add: overwrite_def)

lemma f_write_apart:
  assumes "apart a b s" and "bs \<noteq> []"
  shows "\<exists>m s'. f_write b bs s = (Some m, s') \<and> 0 < m \<and> m \<le> length bs \<and> given b s' = given b s @ take m bs \<and>
    left a s' = left a s \<and> apart a b s' \<and> (fs_plan s = [] \<longrightarrow> fs_plan s' = [])"
proof -
  obtain c s1 where c: "next_outcome s = (c, s1)" by fastforce
  obtain p q where pq: "fs_fds s a = Some p" "fs_fds s b = Some q" "fst p \<noteq> fst q" "fs_nodes s (fst p) \<noteq> None" "at_data s q"
    and calm: "Failed \<notin> set (fs_plan s)"
    using assms(1) by (auto simp: apart_def)
  obtain cs where s1: "s1 = s\<lparr>fs_plan := cs\<rparr>" "c \<noteq> Failed" "Failed \<notin> set cs" "fs_plan s = [] \<longrightarrow> c = Full \<and> cs = []"
    using next_outcome_calm [OF c calm] by auto
  define k where "k = portion c (length bs)"
  have k: "k \<le> length bs" "0 < k" using portion_le portion_pos assms(2) by (auto simp: k_def)
  have "a \<noteq> b" using pq by auto
  obtain path pos where q: "q = (path, pos)" by fastforce
  obtain path1 pos1 nd1 where p: "p = (path1, pos1)" "fs_nodes s path1 = Some nd1"
    using pq(4) by (cases p) auto
  show ?thesis
  proof (cases "fs_nodes s path")
    case None
    then show ?thesis using pq(5) q by (simp add: at_data_def)
  next
    case (Some nd)
    show ?thesis
    proof (cases nd)
      case (Reg d)
      have "pos \<le> length d" using pq(5) q Some Reg by (simp add: at_data_def)
      then show ?thesis using c s1 pq p q Some Reg k \<open>a \<noteq> b\<close>
        by (auto simp: f_write_def left_def given_def apart_def at_data_def overwrite_at Let_def k_def [symmetric])
    next
      case (Dev i o')
      then show ?thesis using c s1 pq p q Some k \<open>a \<noteq> b\<close>
        by (auto simp: f_write_def left_def given_def apart_def at_data_def Let_def k_def [symmetric])
    qed
  qed
qed

section \<open>What a transfer leaves alone\<close>

definition open_at :: "int \<Rightarrow> string \<Rightarrow> fs \<Rightarrow> bool" where
  "open_at fd path s \<longleftrightarrow> (\<exists>pos. fs_fds s fd = Some (path, pos))"

definition is_file :: "string \<Rightarrow> fs \<Rightarrow> bool" where
  "is_file path s \<longleftrightarrow> (\<exists>d. fs_nodes s path = Some (Reg d))"

text \<open>The descriptor stands at the end of a regular file.\<close>

definition at_end :: "int \<Rightarrow> fs \<Rightarrow> bool" where
  "at_end fd s \<longleftrightarrow> (\<exists>path d. fs_fds s fd = Some (path, length d) \<and> fs_nodes s path = Some (Reg d))"

text \<open>From \<open>s\<close> to \<open>s'\<close> no regular file has changed except the one that \<open>fd\<close> is open on.\<close>

definition only_writes :: "int \<Rightarrow> fs \<Rightarrow> fs \<Rightarrow> bool" where
  "only_writes fd s s' \<longleftrightarrow> fs_denied s' = fs_denied s \<and> fs_next s' = fs_next s \<and>
     (\<forall>p. open_at fd p s' = open_at fd p s) \<and>
     (\<forall>p. is_file p s' = is_file p s \<and> (fs_nodes s' p = None) = (fs_nodes s p = None)) \<and>
     (\<forall>p. is_file p s \<and> \<not> open_at fd p s \<longrightarrow> fs_nodes s' p = fs_nodes s p) \<and>
     (at_end fd s \<longrightarrow> at_end fd s') \<and> (fs_plan s = [] \<longrightarrow> fs_plan s' = [])"

lemma only_writes_refl: "only_writes fd s s"
  by (simp add: only_writes_def)

lemma only_writes_trans: "only_writes fd s s' \<Longrightarrow> only_writes fd s' s'' \<Longrightarrow> only_writes fd s s''"
  by (simp add: only_writes_def)

lemma next_outcome_cases:
  assumes "next_outcome s = (c, s1)"
  obtains cs where "s1 = s\<lparr>fs_plan := cs\<rparr>" "fs_plan s = [] \<longrightarrow> cs = [] \<and> c = Full"
  using assms by (auto simp: next_outcome_def split: list.splits)

lemma f_write_only: "f_write fd b s = (r, s') \<Longrightarrow> only_writes fd s s'"
proof -
  assume w: "f_write fd b s = (r, s')"
  obtain c s1 where c: "next_outcome s = (c, s1)" by fastforce
  then obtain cs where s1: "s1 = s\<lparr>fs_plan := cs\<rparr>" "fs_plan s = [] \<longrightarrow> cs = []"
    by (auto elim: next_outcome_cases)
  show ?thesis
    using w c s1 by (auto simp: f_write_def Let_def only_writes_def open_at_def is_file_def at_end_def overwrite_def
        split: option.splits if_splits fnode.splits)
qed

lemma f_read_only: "f_read a n s = (r, s') \<Longrightarrow> a \<noteq> fd \<Longrightarrow> only_writes fd s s'"
proof -
  assume w: "f_read a n s = (r, s')" "a \<noteq> fd"
  obtain c s1 where c: "next_outcome s = (c, s1)" by fastforce
  then obtain cs where s1: "s1 = s\<lparr>fs_plan := cs\<rparr>" "fs_plan s = [] \<longrightarrow> cs = []"
    by (auto elim: next_outcome_cases)
  show ?thesis
    using w c s1 by (auto simp: f_read_def Let_def only_writes_def open_at_def is_file_def at_end_def
        split: option.splits if_splits fnode.splits)
qed

lemma at_end_content: "at_end fd s \<Longrightarrow> open_at fd path s \<Longrightarrow> fs_nodes s path = Some (Reg (given fd s))"
  by (auto simp: at_end_def open_at_def given_def)

text \<open>A file that is opened for reading is delivered from its beginning; one that is created is empty.\<close>

lemma f_open_read:
  "fs_nodes s path = Some (Reg d) \<Longrightarrow> \<not> fs_denied s path \<Longrightarrow>
   f_open path m c s = (int (fs_next s), s\<lparr>fs_fds := (fs_fds s)(int (fs_next s) \<mapsto> (path, 0)), fs_next := Suc (fs_next s)\<rparr>)"
  by (simp add: f_open_def fun_upd_idem)

lemma f_open_create:
  "fs_nodes s path = None \<Longrightarrow> \<not> fs_denied s path \<Longrightarrow>
   f_open path m True s = (int (fs_next s), s\<lparr>fs_nodes := (fs_nodes s)(path \<mapsto> Reg []),
     fs_fds := (fs_fds s)(int (fs_next s) \<mapsto> (path, 0)), fs_next := Suc (fs_next s)\<rparr>)"
  by (simp add: f_open_def)

end
