(* ===== verification/Sndkit.thy ===== *)
theory Sndkit
  imports Wav Files
begin

text \<open>
  \<^verbatim>\<open>test_speaker/sndkit_only_replay/sndkit.c\<close>: the OSS player and recorder. A routine returns
  \<open>stop + int \<times> fs\<close>: the program stops inside it, or it returns a value and leaves the system in a
  state. \<open>play\<close> and \<open>record\<close> may run for ever, so their result is an option and \<open>None\<close> is the
  endless run. \<open>malloc\<close> is an argument (the bytes of the block, or \<open>None\<close>); \<open>int\<close>s are of 32 bits,
  with the wrap-around of the target where the code multiplies them. Messages are left out.
\<close>

section \<open>Formats and rates\<close>

definition AFMT_U8 :: int where "AFMT_U8 = 0x08"
definition AFMT_S16_LE :: int where "AFMT_S16_LE = 0x10"
definition AFMT_S24_LE :: int where "AFMT_S24_LE = 0x800"

abbreviation FMT8BITS :: int where "FMT8BITS \<equiv> AFMT_U8"
abbreviation FMT16BITS :: int where "FMT16BITS \<equiv> AFMT_S16_LE"
abbreviation FMT24BITS :: int where "FMT24BITS \<equiv> AFMT_S24_LE"

lemmas fmt_consts = AFMT_U8_def AFMT_S16_LE_def AFMT_S24_LE_def

definition FILE_TYPE_WAV :: int where "FILE_TYPE_WAV = 0"
definition FILE_TYPE_RAW :: int where "FILE_TYPE_RAW = 1"

definition DEFAULT_SND_DEV :: string where "DEFAULT_SND_DEV = ''/dev/snd/dsp''"
definition DEFAULT_SND_SPD :: int where "DEFAULT_SND_SPD = 44100"
definition DEFAULT_SND_CHN :: int where "DEFAULT_SND_CHN = 2"
definition DEFAULT_BUFF_SIZE :: int where "DEFAULT_BUFF_SIZE = 4096 * 3"
definition DEFAULT_DURATION :: int where "DEFAULT_DURATION = 10"

text \<open>The indices \<open>SND_FMT_\<dots>\<close> of the table are the positions of the names.\<close>

definition supported_fmts :: "string list" where
  "supported_fmts = [''S8'', ''U8'', ''S16_LE'', ''S16_BE'', ''U16_LE'', ''U16_BE'',
     ''S24_3LE'', ''S24_3BE'', ''U24_3LE'', ''U24_3BE'']"

fun index_of :: "string list \<Rightarrow> string \<Rightarrow> nat" where
  "index_of [] t = 0"
| "index_of (x # xs) t = (if x = t then 0 else Suc (index_of xs t))"

text \<open>The format, and the two globals \<open>sign_adjust\<close> and \<open>endian_adjust\<close>.\<close>

definition fmtstr_to_fmt :: "string \<Rightarrow> int \<times> int \<Rightarrow> int \<times> int \<times> int" where
  "fmtstr_to_fmt fmtstr adj =
     (let i = index_of supported_fmts fmtstr
      in if i = length supported_fmts then (-1, adj)
         else if i = 1 then (FMT8BITS, 1, 0)
         else if i = 0 then (FMT8BITS, 0, 0)
         else if i = 5 then (FMT16BITS, 1, 1)
         else if i = 4 then (FMT16BITS, 1, 0)
         else if i = 7 then (FMT24BITS, 0, 1)
         else if i = 6 then (FMT24BITS, 0, 0)
         else if i = 9 then (FMT24BITS, 1, 1)
         else if i = 8 then (FMT24BITS, 1, 0)
         else if i = 3 then (FMT16BITS, 0, 1)
         else (FMT16BITS, 0, 0))"

definition support_rates :: "int list" where
  "support_rates = [8000, 11025, 12000, 16000, 22050, 24000, 32000, 44100, 48000, 96000]"

definition rate_is_supported :: "int \<Rightarrow> int" where
  "rate_is_supported rate = (if list_ex (\<lambda>r. r = rate) support_rates then 1 else 0)"

text \<open>\<open>switch (format)\<close>, whose default leaves 16.\<close>

definition format_bits :: "int \<Rightarrow> int" where
  "format_bits format =
     (if format = FMT8BITS then 8 else if format = FMT16BITS then 16 else if format = FMT24BITS then 24 else 16)"

record replay_params =
  p_dev_fd :: int
  p_replay_fd :: int
  p_buffer_size :: int
  p_replay_data_len :: int
  p_format :: int
  p_channels :: int
  p_speed :: int
  p_file_type :: int

record record_params =
  r_dev_fd :: int
  r_record_fd :: int
  r_buffer_size :: int
  r_duration :: int
  r_format :: int
  r_channels :: int
  r_speed :: int
  r_file_type :: int

section \<open>Devices\<close>

definition open_file :: "string \<Rightarrow> access \<Rightarrow> bool \<Rightarrow> fs \<Rightarrow> int \<times> fs" where
  "open_file file oflag creat s = f_open file oflag creat s"

definition open_device :: "string \<Rightarrow> access \<Rightarrow> fs \<Rightarrow> int \<times> bool \<times> fs" where
  "open_device file oflag s =
     (let is_reg_file = (f_size file s \<noteq> None);
          (fd, s) = f_open file oflag False s
      in (fd, is_reg_file, s))"

definition set_param :: "int \<Rightarrow> ctl \<Rightarrow> int \<Rightarrow> fs \<Rightarrow> bool \<times> fs" where
  "set_param fd req v s =
     (case f_ioctl fd req v s of (None, s) \<Rightarrow> (False, s) | (Some ioctl_val, s) \<Rightarrow> (ioctl_val = v, s))"

definition config_device :: "int \<Rightarrow> int \<Rightarrow> int \<Rightarrow> int \<Rightarrow> fs \<Rightarrow> int \<times> fs" where
  "config_device fd format channels speed s =
     (let (ok, s) = set_param fd SNDCTL_DSP_SETFMT format s
      in if \<not> ok then (-1, s)
         else let (ok, s) = set_param fd SNDCTL_DSP_CHANNELS channels s
      in if \<not> ok then (-1, s)
         else let (ok, s) = set_param fd SNDCTL_DSP_SPEED speed s
      in if \<not> ok then (-1, s) else (0, s))"

section \<open>Writing a block\<close>

text \<open>The inner loop of every copy: \<open>while (len > 0)\<close>, false when a write fails.\<close>

lemma bindE_cong [fundef_cong]:
  "m = m' \<Longrightarrow> (\<And>x. m' = Inr x \<Longrightarrow> f x = f' x) \<Longrightarrow> bindE m f = bindE m' f'"
  by (cases m') simp_all

lemma load_bytes_length: "load_bytes m p n = Inr b \<Longrightarrow> length b = n"
  by (auto simp: load_bytes_def split: if_splits)

function write_loop :: "int \<Rightarrow> bytes \<Rightarrow> int \<Rightarrow> int \<Rightarrow> fs \<Rightarrow> stop + (bool \<times> fs)" where
  "write_loop fd buff pos len s =
     (if len > 0 then
        bindE (load_bytes buff pos (nat len)) (\<lambda>b.
          case f_write fd b s of
            (None, s) \<Rightarrow> Inr (False, s)
          | (Some n, s) \<Rightarrow> write_loop fd buff (pos + int n) (len - int n) s)
      else Inr (True, s))"
  by pat_completeness auto
termination
proof (relation "measure (\<lambda>(fd, buff, pos, len, s). nat len)", simp)
  fix fd buff pos len s b x s' o' n
  assume a: "0 < (len :: int)" "load_bytes buff pos (nat len) = Inr b" "(o', s') = f_write fd b s" "o' = Some n"
  have "length b = nat len" using a(2) by (rule load_bytes_length)
  then have "0 < n" using f_write_some(2) [of fd b s n s'] a by (cases "b = []") simp_all
  then show "((fd, buff, pos + int n, len - int n, s'), fd, buff, pos, len, s) \<in>
      measure (\<lambda>(fd, buff, pos, len, s). nat len)"
    using a(1) by simp
qed

declare write_loop.simps [simp del]

lemma write_loop_done: "len \<le> 0 \<Longrightarrow> write_loop fd buff pos len s = Inr (True, s)"
  by (subst write_loop.simps) simp

lemma write_loop_all:
  assumes "apart a b s" and "pos + len \<le> length buff"
  shows "\<exists>s'. write_loop b buff (int pos) (int len) s = Inr (True, s') \<and>
    given b s' = given b s @ take len (drop pos buff) \<and> left a s' = left a s \<and> apart a b s' \<and>
    (fs_plan s = [] \<longrightarrow> fs_plan s' = [])"
  using assms
proof (induction len arbitrary: pos s rule: less_induct)
  case (less len)
  show ?case
  proof (cases "len = 0")
    case True
    then show ?thesis using less.prems by (auto simp: write_loop_done)
  next
    case False
    define bs where "bs = take len (drop pos buff)"
    have lb: "length bs = len" "bs \<noteq> []" using less.prems(2) False by (auto simp: bs_def)
    have load: "load_bytes buff (int pos) len = Inr bs" using less.prems(2) by (simp add: load_bytes_def bs_def)
    obtain m s1 where w: "f_write b bs s = (Some m, s1)" "0 < m" "m \<le> len" "given b s1 = given b s @ take m bs"
      "left a s1 = left a s" "apart a b s1" "fs_plan s = [] \<longrightarrow> fs_plan s1 = []"
      using f_write_apart [OF less.prems(1) lb(2)] lb(1) by auto
    obtain s' where s': "write_loop b buff (int (pos + m)) (int (len - m)) s1 = Inr (True, s')"
      "given b s' = given b s1 @ take (len - m) (drop (pos + m) buff)" "left a s' = left a s1" "apart a b s'"
      "fs_plan s1 = [] \<longrightarrow> fs_plan s' = []"
      using less.IH [of "len - m" s1 "pos + m"] w less.prems(2) by auto
    have "write_loop b buff (int pos) (int len) s = Inr (True, s')"
      using False w s'(1) by (subst write_loop.simps) (simp add: load)
    moreover have "take m bs = take m (drop pos buff)" using w(3) by (simp add: bs_def min_absorb1)
    then have "take m bs @ take (len - m) (drop (pos + m) buff) = take len (drop pos buff)"
      using take_add [of m "len - m" "drop pos buff"] w(3) by (simp add: add.commute)
    ultimately show ?thesis using w s' by auto
  qed
qed

section \<open>Playing\<close>

abbreviation go_on :: "stop + 'a \<Rightarrow> ('a \<Rightarrow> (stop + 'b) option) \<Rightarrow> (stop + 'b) option" where
  "go_on m f \<equiv> (case m of Inl e \<Rightarrow> Some (Inl e) | Inr x \<Rightarrow> f x)"

text \<open>The conversion to \<open>size_t\<close>, and the products of \<open>int\<close>s.\<close>

definition size_t :: "int \<Rightarrow> nat" where
  "size_t n = nat (n mod 4294967296)"

definition i32 :: "int \<Rightarrow> int" where
  "i32 n = signed_take_bit 31 n"

text \<open>What the block is turned into before it is written: the bytes and how many of them.\<close>

definition to_device :: "replay_params \<Rightarrow> bytes \<Rightarrow> int \<Rightarrow> stop + (bytes \<times> int)" where
  "to_device P buff len =
     (if p_file_type P = FILE_TYPE_WAV \<and> p_format P = FMT24BITS then
        let len = len sdiv 3 * 3
        in bindE (wav_expand_24bit_to_32bit buff len) (\<lambda>buff. Inr (buff, len sdiv 3 * 4))
      else Inr (buff, len))"

partial_function (option) play_loop ::
  "replay_params \<Rightarrow> bool \<Rightarrow> bytes \<Rightarrow> int \<Rightarrow> fs \<Rightarrow> (stop + (int \<times> fs)) option" where
  "play_loop P forever buff replay_data_len s =
     (if forever \<or> replay_data_len > 0 then
        (case f_read (p_replay_fd P) (size_t (p_buffer_size P)) s of
           (None, s) \<Rightarrow> Some (Inr (-1, s))
         | (Some b, s) \<Rightarrow>
             if b = [] then Some (Inr (0, s))
             else
               go_on (store buff 0 b) (\<lambda>buff.
               go_on (to_device P buff (int (length b))) (\<lambda>(buff, len).
               go_on (write_loop (p_dev_fd P) buff 0 len s) (\<lambda>(ok, s).
                 if ok then play_loop P forever buff
                   (if forever then replay_data_len else replay_data_len - int (length b)) s
                 else Some (Inr (-1, s))))))
      else Some (Inr (0, s)))"

text \<open>The block \<open>play\<close> allocates: whole samples of 24 bits, and room to widen them.\<close>

definition play_alloc :: "(nat \<Rightarrow> bytes option) \<Rightarrow> replay_params \<Rightarrow> bytes option" where
  "play_alloc malloc P =
     (let n = p_buffer_size P;
          alloc_size = (if p_format P = FMT24BITS \<and> n smod 3 \<noteq> 0 then i32 ((n sdiv 3 + 1) * 3) else n)
      in if p_format P = FMT24BITS then malloc (size_t (i32 (alloc_size sdiv 3 * 4)))
         else malloc (size_t alloc_size))"

definition play :: "(nat \<Rightarrow> bytes option) \<Rightarrow> replay_params \<Rightarrow> fs \<Rightarrow> (stop + (int \<times> fs)) option" where
  "play malloc P s =
     (case play_alloc malloc P of
        None \<Rightarrow> Some (Inr (-1, s))
      | Some buff \<Rightarrow> play_loop P (p_replay_data_len P = 0) buff (p_replay_data_len P) s)"

declare play_loop.simps [code]

definition converts :: "replay_params \<Rightarrow> bool" where
  "converts P \<longleftrightarrow> p_file_type P = FILE_TYPE_WAV \<and> p_format P = FMT24BITS"

lemma size_t_id: "0 \<le> n \<Longrightarrow> n < 4294967296 \<Longrightarrow> size_t n = nat n"
  by (simp add: size_t_def)

lemma store_front: "length b \<le> length m \<Longrightarrow> store m 0 b = Inr (b @ drop (length b) m)"
  by (simp add: store_def memcpy_at_def)

text \<open>How much of the file a run plays: everything, or the first blocks that reach the length.\<close>

definition played :: "bool \<Rightarrow> int \<Rightarrow> int \<Rightarrow> nat \<Rightarrow> nat \<Rightarrow> bool" where
  "played forever n buffer_size avail k \<longleftrightarrow> k \<le> avail \<and> (forever \<longrightarrow> k = avail) \<and>
     (\<not> forever \<longrightarrow> (n \<le> int k \<or> k = avail) \<and> (if n \<le> 0 then k = 0 else int k < n + buffer_size))"

lemma played_step:
  assumes "played forever (if forever then n else n - int c) z (avail - c) k" and "c \<le> avail" "int c \<le> z"
    and "forever \<or> 0 < n"
  shows "played forever n z avail (c + k)"
  using assms by (auto simp: played_def split: if_splits)

lemma play_loop_delivers:
  assumes c: "\<not> converts P" and b: "0 < p_buffer_size P" "p_buffer_size P < 4294967296"
    and "nat (p_buffer_size P) \<le> length buff" and "apart (p_replay_fd P) (p_dev_fd P) s"
  shows "\<exists>s' k. play_loop P forever buff n s = Some (Inr (0, s')) \<and>
    played forever n (p_buffer_size P) (length (left (p_replay_fd P) s)) k \<and>
    given (p_dev_fd P) s' = given (p_dev_fd P) s @ take k (left (p_replay_fd P) s)"
  using assms(4,5)
proof (induction "length (left (p_replay_fd P) s)" arbitrary: n buff s rule: less_induct)
  case less
  let ?a = "p_replay_fd P" and ?d = "p_dev_fd P" and ?z = "p_buffer_size P"
  show ?case
  proof (cases "forever \<or> 0 < n")
    case False
    then show ?thesis by (subst play_loop.simps) (auto simp: played_def intro!: exI [of _ "0::nat"])
  next
    case True
    obtain bs s1 where r: "f_read ?a (nat ?z) s = (Some bs, s1)" "bs = take (length bs) (left ?a s)"
      "length bs \<le> nat ?z" "bs = [] \<longleftrightarrow> left ?a s = []" "left ?a s1 = drop (length bs) (left ?a s)"
      "given ?d s1 = given ?d s" "apart ?a ?d s1"
      using f_read_apart [OF less.prems(2), of "nat ?z"] b by auto
    show ?thesis
    proof (cases "bs = []")
      case True
      then show ?thesis using r b \<open>forever \<or> 0 < n\<close>
        by (subst play_loop.simps) (auto simp: played_def size_t_id)
    next
      case False
      define buff1 where "buff1 = bs @ drop (length bs) buff"
      have buff1: "store buff 0 bs = Inr buff1" "length buff1 = length buff"
        using less.prems(1) r(3) by (simp_all add: store_front buff1_def)
      have len: "length bs \<le> length (left ?a s)" by (subst r(2)) simp
      obtain s2 where w: "write_loop ?d buff1 0 (int (length bs)) s1 = Inr (True, s2)"
        "given ?d s2 = given ?d s1 @ bs" "left ?a s2 = left ?a s1" "apart ?a ?d s2"
        using write_loop_all [OF r(7), of 0 "length bs" buff1] buff1(2) less.prems(1) r(3) by (auto simp: buff1_def)
      let ?n = "if forever then n else n - int (length bs)"
      have "length (left ?a s2) < length (left ?a s)" using w(3) r(5) False len by (cases bs) auto
      then obtain s' k where ih: "play_loop P forever buff1 ?n s2 = Some (Inr (0, s'))"
        "played forever ?n ?z (length (left ?a s2)) k" "given ?d s' = given ?d s2 @ take k (left ?a s2)"
        using less.hyps [of s2 buff1 ?n] w(4) less.prems(1) buff1(2) by auto
      have td: "to_device P buff1 k = Inr (buff1, k)" for k using c by (auto simp: to_device_def converts_def)
      have "play_loop P forever buff n s = Some (Inr (0, s'))"
        using True False r(1) buff1(1) w(1) ih(1) b
        by (subst play_loop.simps) (simp add: size_t_id td)
      moreover have "played forever n ?z (length (left ?a s)) (length bs + k)"
        using played_step [OF _ len _ True, of ?z k] ih(2) w(3) r(3,5) b(1) by (simp add: le_nat_iff)
      moreover have "given ?d s' = given ?d s @ take (length bs + k) (left ?a s)"
        using ih(3) w(2,3) r(2,5,6) by (simp add: take_add)
      ultimately show ?thesis by blast
    qed
  qed
qed

lemma play_alloc_size:
  assumes "0 < p_buffer_size P" and "p_buffer_size P < 1000000000" and "\<And>n. \<exists>b. malloc n = Some b \<and> length b = n"
  shows "\<exists>b. play_alloc malloc P = Some b \<and> nat (p_buffer_size P) \<le> length b"
proof -
  let ?n = "p_buffer_size P"
  define A where "A = (if p_format P = FMT24BITS \<and> ?n smod 3 \<noteq> 0 then i32 ((?n sdiv 3 + 1) * 3) else ?n)"
  define M where "M = (if p_format P = FMT24BITS then size_t (i32 (A sdiv 3 * 4)) else size_t A)"
  obtain b where b: "malloc M = Some b" "length b = M" using assms(3) by blast
  have i: "i32 x = x" if "0 \<le> x" "x < 2147483648" for x
    using that by (simp add: i32_def signed_take_bit_int_eq_self)
  have d: "?n = 3 * (?n div 3) + ?n mod 3" "0 \<le> ?n mod 3" "?n mod 3 < 3" by simp_all
  have q: "?n smod 3 = ?n mod 3" "?n sdiv 3 = ?n div 3" using assms(1) by (simp_all add: sdiv_nonneg)
  have a: "?n \<le> A" "A < 1000000003" "p_format P = FMT24BITS \<Longrightarrow> 3 dvd A"
    unfolding A_def q using d assms(1,2) i by (auto simp: dvd_eq_mod_eq_0)
  have "nat ?n \<le> M"
  proof (cases "p_format P = FMT24BITS")
    case True
    have "A sdiv 3 * 3 = A" using a(3) [OF True] a(1) assms(1) by (simp add: sdiv_nonneg)
    then have "?n \<le> A sdiv 3 * 4" "A sdiv 3 * 4 < 2147483648" "0 \<le> A sdiv 3 * 4" using a(1,2) assms(1) by linarith+
    then show ?thesis using True by (simp add: M_def i size_t_id)
  next
    case False
    then show ?thesis using assms(1,2) by (simp add: M_def A_def size_t_id)
  qed
  moreover have "play_alloc malloc P = Some b"
    using b(1) unfolding play_alloc_def Let_def A_def [symmetric] M_def by (cases "p_format P = FMT24BITS") simp_all
  ultimately show ?thesis using b(2) by auto
qed

lemma play_run:
  assumes "\<not> converts P" and "0 < p_buffer_size P" and "p_buffer_size P < 1000000000"
    and "\<And>n. \<exists>b. malloc n = Some b \<and> length b = n" and "apart (p_replay_fd P) (p_dev_fd P) s"
  shows "\<exists>s' k. play malloc P s = Some (Inr (0, s')) \<and>
    played (p_replay_data_len P = 0) (p_replay_data_len P) (p_buffer_size P) (length (left (p_replay_fd P) s)) k \<and>
    given (p_dev_fd P) s' = given (p_dev_fd P) s @ take k (left (p_replay_fd P) s)"
proof -
  obtain b where b: "play_alloc malloc P = Some b" "nat (p_buffer_size P) \<le> length b"
    using play_alloc_size [OF assms(2-4)] by blast
  then have "play malloc P s = play_loop P (p_replay_data_len P = 0) b (p_replay_data_len P) s" by (simp add: play_def)
  then show ?thesis
    using play_loop_delivers [OF assms(1,2), of b s "p_replay_data_len P = 0" "p_replay_data_len P"] assms(3,5) b
    by simp
qed

text \<open>Playing samples that need no conversion. However the system cuts the transfers into pieces, \<open>play\<close>
  comes to an end and returns 0, and the device has been given, in order and nothing else, what the file
  holds from its position on: all of it when no length is set, otherwise the blocks up to the first
  that reaches the length of the data (so up to a block minus one byte of what follows the data).\<close>

theorem play_delivers:
  assumes "\<not> converts P" and "0 < p_buffer_size P" and "p_buffer_size P < 1000000000"
    and "\<And>n. \<exists>b. malloc n = Some b \<and> length b = n" and "apart (p_replay_fd P) (p_dev_fd P) s"
  shows "\<exists>s' k. play malloc P s = Some (Inr (0, s')) \<and>
    played (p_replay_data_len P = 0) (p_replay_data_len P) (p_buffer_size P) (length (left (p_replay_fd P) s)) k \<and>
    given (p_dev_fd P) s' = given (p_dev_fd P) s @ take k (left (p_replay_fd P) s)"
  using play_run assms by blast

definition song_fs :: "bytes \<Rightarrow> outcome list \<Rightarrow> fs" where
  "song_fs song plan = \<lparr>fs_nodes = [''/song'' \<mapsto> Reg song, ''/dev/snd/dsp'' \<mapsto> Dev [] []], fs_denied = (\<lambda>_. False),
     fs_fds = [3 \<mapsto> (''/song'', 2), 4 \<mapsto> (''/dev/snd/dsp'', 0)], fs_next = 5, fs_plan = plan,
     fs_driver = (\<lambda>_ v. Some v), fs_ctl = []\<rparr>"

definition song_params :: "int \<Rightarrow> int \<Rightarrow> int \<Rightarrow> replay_params" where
  "song_params z n fmt = \<lparr>p_dev_fd = 4, p_replay_fd = 3, p_buffer_size = z, p_replay_data_len = n, p_format = fmt,
     p_channels = 2, p_speed = 44100, p_file_type = FILE_TYPE_WAV\<rparr>"

lemma song_apart: "Failed \<notin> set plan \<Longrightarrow> 2 \<le> length song \<Longrightarrow> apart 3 4 (song_fs song plan)"
  by (simp add: apart_def song_fs_def at_data_def)

theorem play_delivers_witness:
  "\<exists>s' k. play (\<lambda>n. Some (replicate n 0)) (song_params 4 0 FMT16BITS)
       (song_fs [9, 9, 1, 2, 3, 4, 5, 6, 7] [Short 3, Short 1]) = Some (Inr (0, s')) \<and>
     played True 0 4 7 k \<and> given 4 s' = take k [1, 2, 3, 4, 5, 6, 7]"
proof -
  let ?s = "song_fs [9, 9, 1, 2, 3, 4, 5, 6, 7] [Short 3, Short 1]"
  have "left 3 ?s = [1, 2, 3, 4, 5, 6, 7]" "given 4 ?s = []" "length [1, 2, 3, 4, 5, 6, 7 :: u8] = 7"
    by (simp_all add: song_fs_def left_def given_def)
  moreover have a: "apart 3 4 ?s" by (rule song_apart) simp_all
  ultimately show ?thesis
    using play_delivers [of "song_params 4 0 FMT16BITS" "\<lambda>n. Some (replicate n 0)" ?s] a
    by (simp add: song_params_def converts_def fmt_consts del: list.size)
qed

section \<open>Playing samples of 24 bits\<close>

lemma expand_whole: "expand (take (3 * (length x div 3)) x) = expand x"
proof (induction x rule: expand.induct)
  case (1 a b c r)
  have "3 * Suc q = Suc (Suc (Suc (3 * q)))" for q :: nat by simp
  with 1 show ?case by (simp del: mult_Suc_right)
qed simp_all

lemma to_device_expand:
  assumes "converts P" and "9 \<le> length bs" and "4 * (length bs div 3) \<le> length (bs @ rest)"
  shows "to_device P (bs @ rest) (int (length bs)) =
    Inr (expand bs @ drop (4 * (length bs div 3)) (bs @ rest), int (4 * (length bs div 3)))"
proof -
  let ?n = "length bs div 3"
  have "wav_expand_24bit_to_32bit (bs @ rest) (int (3 * ?n)) = Inr (expand (take (3 * ?n) (bs @ rest)) @ drop (4 * ?n) (bs @ rest))"
    using wav_expand_eq [of ?n "bs @ rest" 0] assms(2,3) by simp
  moreover have "take (3 * ?n) (bs @ rest) = take (3 * ?n) bs" by simp
  moreover have "int (length bs) sdiv 3 * 3 = int (3 * ?n)" "int (3 * ?n) sdiv 3 = int ?n"
    by (simp_all add: sdiv_nonneg zdiv_int)
  ultimately show ?thesis using assms(1) by (simp add: to_device_def converts_def Let_def expand_whole mult.commute)
qed

lemma to_device_abort:
  assumes "converts P" and "length bs < 9" and "12 \<le> length buff"
  shows "to_device P buff (int (length bs)) = Inl Abort"
proof -
  have "int (length bs) sdiv 3 * 3 = int (3 * (length bs div 3))" by (simp add: sdiv_nonneg zdiv_int)
  then show ?thesis
    using wav_expand_short [of "length bs div 3" buff 0] assms
    by (simp add: to_device_def converts_def Let_def mult.commute less_mult_imp_div_less)
qed

definition cut_short :: "nat \<Rightarrow> nat \<Rightarrow> bool" where
  "cut_short z avail \<longleftrightarrow> 0 < avail mod z \<and> avail mod z < 9"

lemma play24_loop:
  assumes c: "converts P" and z: "p_buffer_size P = int z" "z < 4294967296" "z mod 3 = 0" "9 \<le> z"
    and "length buff = 4 * (z div 3)" and "apart (p_replay_fd P) (p_dev_fd P) s" and "fs_plan s = []"
    and "forever \<or> int (length (left (p_replay_fd P) s)) \<le> n"
  shows "if cut_short z (length (left (p_replay_fd P) s))
    then play_loop P forever buff n s = Some (Inl Abort)
    else \<exists>s'. play_loop P forever buff n s = Some (Inr (0, s')) \<and>
      given (p_dev_fd P) s' = given (p_dev_fd P) s @ expand (left (p_replay_fd P) s)"
  using assms(6-9)
proof (induction "length (left (p_replay_fd P) s)" arbitrary: n buff s rule: less_induct)
  case less
  let ?a = "p_replay_fd P" and ?d = "p_dev_fd P"
  define L where "L = left ?a s"
  have sz: "size_t (p_buffer_size P) = z" using z by (simp add: size_t_id)
  obtain s1 where r: "f_read ?a z s = (Some (take z L), s1)" "left ?a s1 = drop z L"
      "given ?d s1 = given ?d s" "apart ?a ?d s1" "fs_plan s1 = []"
    using f_read_apart [OF less.prems(2), of z] z(4) less.prems(3) by (auto simp: L_def min_def split: if_splits)
  show ?case
  proof (cases "L = []")
    case True
    then have "play_loop P forever buff n s = Some (Inr (0, s1)) \<or> play_loop P forever buff n s = Some (Inr (0, s))"
      using r(1) sz by (subst (1 2) play_loop.simps) auto
    then show ?thesis using True r(3) by (auto simp: L_def cut_short_def)
  next
    case False
    then have run: "forever \<or> 0 < n" using less.prems(4) by (cases L) (auto simp: L_def)
    let ?b = "take z L"
    define rest where "rest = drop (length ?b) buff"
    have lb: "length ?b \<le> length buff" "0 < length ?b" using False z(4) less.prems(1) z(3) by (auto simp: min_def)
    have st: "store buff 0 ?b = Inr (?b @ rest)" "length (?b @ rest) = length buff"
      using lb by (simp_all add: store_front rest_def)
    show ?thesis
    proof (cases "length ?b < 9")
      case True
      then have "length L < 9" "length L < z" using z(4) by (auto simp: min_def split: if_splits)
      moreover have "to_device P (?b @ rest) (int (length ?b)) = Inl Abort"
        by (rule to_device_abort [OF c True]) (use st(2) less.prems(1) z(3,4) in auto)
      ultimately show ?thesis
        using run r(1) sz st(1) False
        by (subst (1 2) play_loop.simps) (auto simp: cut_short_def L_def [symmetric])
    next
      case ge: False
      let ?c = "4 * (length ?b div 3)"
      have cz: "?c \<le> 4 * (z div 3)" by (simp add: div_le_mono)
      define buff2 where "buff2 = expand ?b @ drop ?c (?b @ rest)"
      have td: "to_device P (?b @ rest) (int (length ?b)) = Inr (buff2, int ?c)"
        unfolding buff2_def by (rule to_device_expand [OF c]) (use ge st(2) less.prems(1) cz in linarith)+
      have "length buff2 = ?c + (length (?b @ rest) - ?c)"
        unfolding buff2_def by (simp only: length_append [of "expand ?b"] length_drop length_expand)
      then have lb2: "length buff2 = length buff" "take ?c buff2 = expand ?b"
        using cz less.prems(1) unfolding st(2) by (simp_all add: buff2_def length_expand)
      obtain s2 where w: "write_loop ?d buff2 0 (int ?c) s1 = Inr (True, s2)"
        "given ?d s2 = given ?d s1 @ expand ?b" "left ?a s2 = drop z L" "apart ?a ?d s2" "fs_plan s2 = []"
        using write_loop_all [OF r(4), of 0 ?c buff2] lb2 cz less.prems(1) r(2,5) by auto
      let ?n = "if forever then n else n - int (length ?b)"
      have step: "play_loop P forever buff n s = play_loop P forever buff2 ?n s2"
        using run r(1) sz st(1) td w(1) False z(4) by (subst play_loop.simps) auto
      have cut: "cut_short z (length L) = cut_short z (length (left ?a s2))"
      proof (cases "length L < z")
        case True
        then show ?thesis using ge w(3) by (simp add: cut_short_def min_def)
      next
        case False
        then show ?thesis using w(3) by (simp add: cut_short_def le_mod_geq)
      qed
      have ex: "expand ?b @ expand (drop z L) = expand L"
      proof (cases "length L < z")
        case False
        then show ?thesis using expand_append [of ?b "drop z L"] z(3) by (simp add: min_def)
      qed simp
      have ih: "if cut_short z (length (left ?a s2)) then play_loop P forever buff2 ?n s2 = Some (Inl Abort)
        else \<exists>s'. play_loop P forever buff2 ?n s2 = Some (Inr (0, s')) \<and>
          given ?d s' = given ?d s2 @ expand (left ?a s2)"
      proof (rule less.hyps)
        show "length (left ?a s2) < length (left ?a s)" using w(3) False z(4) by (simp add: L_def [symmetric])
        show "length buff2 = 4 * (z div 3)" using lb2 less.prems(1) by simp
        show "forever \<or> int (length (left ?a s2)) \<le> ?n" using less.prems(4) w(3) by (auto simp: L_def [symmetric] min_def)
      qed (use w in auto)
      show ?thesis
      proof (cases "cut_short z (length L)")
        case True
        then show ?thesis using ih step cut by (simp add: L_def [symmetric])
      next
        case nc: False
        then obtain s' where "play_loop P forever buff2 ?n s2 = Some (Inr (0, s'))"
          "given ?d s' = given ?d s2 @ expand (left ?a s2)" using ih cut by auto
        then show ?thesis using nc step w(2,3) r(3) ex by (auto simp: L_def [symmetric])
      qed
    qed
  qed
qed

text \<open>C19. Playing a WAV file of 24 bits when every transfer is complete and the blocks hold whole samples. If
  the last block read holds at least three samples, or the data are a whole number of blocks, the
  device gets every sample widened to 32 bits, in order; if it holds from 1 to 8 bytes, the program is
  stopped by the assertion of the conversion. With the default size of 12288 bytes that is every file
  whose data are 1 to 8 bytes more than a multiple of 12288.\<close>

theorem play_24bit:
  assumes "converts P" and "p_buffer_size P = int z" and "z < 1000000000" and "z mod 3 = 0" and "9 \<le> z"
    and "\<And>n. \<exists>b. malloc n = Some b \<and> length b = n"
    and "apart (p_replay_fd P) (p_dev_fd P) s" and "fs_plan s = []"
    and "p_replay_data_len P = 0 \<or> int (length (left (p_replay_fd P) s)) \<le> p_replay_data_len P"
  shows "if cut_short z (length (left (p_replay_fd P) s))
    then play malloc P s = Some (Inl Abort)
    else \<exists>s'. play malloc P s = Some (Inr (0, s')) \<and>
      given (p_dev_fd P) s' = given (p_dev_fd P) s @ expand (left (p_replay_fd P) s)"
proof -
  have f: "p_format P = FMT24BITS" using assms(1) by (simp add: converts_def)
  have q: "int z smod 3 = 0" "int z sdiv 3 * 4 = int (4 * (z div 3))"
    using assms(4) zmod_int [of z 3] by (simp_all add: sdiv_nonneg zdiv_int)
  have "4 * (z div 3) < 2147483648" using assms(3) by simp
  then have "size_t (i32 (int (4 * (z div 3)))) = 4 * (z div 3)"
    by (simp add: i32_def signed_take_bit_int_eq_self size_t_id del: of_nat_mult)
  moreover obtain b where b: "malloc (4 * (z div 3)) = Some b" "length b = 4 * (z div 3)" using assms(6) by blast
  ultimately have "play malloc P s = play_loop P (p_replay_data_len P = 0) b (p_replay_data_len P) s"
    using f q assms(2) by (simp add: play_def play_alloc_def Let_def mult.commute)
  then show ?thesis
    using play24_loop [OF assms(1,2) _ assms(4,5) b(2) assms(7,8), of "p_replay_data_len P = 0" "p_replay_data_len P"]
      assms(3,9) by simp
qed

theorem play_24bit_witness:
  "play (\<lambda>n. Some (replicate n 0)) (song_params 12 0 FMT24BITS)
     (song_fs ([0, 0] @ replicate 14 1) []) = Some (Inl Abort)"
proof -
  have "left 3 (song_fs ([0, 0] @ replicate 14 1) []) = replicate 14 1" by (simp add: song_fs_def left_def)
  moreover have "apart 3 4 (song_fs ([0, 0] @ replicate 14 1) [])" by (rule song_apart) simp_all
  moreover have "fs_plan (song_fs x []) = []" for x by (simp add: song_fs_def)
  ultimately show ?thesis
    using play_24bit [of "song_params 12 0 FMT24BITS" 12 "\<lambda>n. Some (replicate n 0)" "song_fs ([0, 0] @ replicate 14 1) []"]
    by (simp add: song_params_def converts_def cut_short_def)
qed

section \<open>Recording\<close>

definition from_device :: "record_params \<Rightarrow> int \<Rightarrow> bytes \<Rightarrow> int \<Rightarrow> stop + (bytes \<times> int)" where
  "from_device P bits buff n_read =
     (if r_file_type P = FILE_TYPE_WAV \<and> bits = 24
      then bindE (wav_32bit_to_24bit buff n_read) (\<lambda>buff. Inr (buff, n_read sdiv 4 * 3))
      else Inr (buff, n_read))"

partial_function (option) record_loop ::
  "record_params \<Rightarrow> int \<Rightarrow> bytes \<Rightarrow> int \<Rightarrow> fs \<Rightarrow> (stop + (int \<times> fs)) option" where
  "record_loop P bits buff record_len s =
     (if record_len > 0 then
        (case f_read (r_dev_fd P)
                (size_t (if r_buffer_size P > record_len then record_len else r_buffer_size P)) s of
           (None, s) \<Rightarrow> Some (Inr (-1, s))
         | (Some b, s) \<Rightarrow>
             if b = [] then record_loop P bits buff record_len s
             else
               go_on (store buff 0 b) (\<lambda>buff.
               go_on (from_device P bits buff (int (length b))) (\<lambda>(buff, n_read).
               let n_to_write = (if n_read < record_len then n_read else record_len) in
               go_on (write_loop (r_record_fd P) buff 0 n_to_write s) (\<lambda>(ok, s).
                 if ok then record_loop P bits buff (record_len - n_to_write) s
                 else Some (Inr (-1, s))))))
      else Some (Inr (0, s)))"

definition record_length :: "int \<Rightarrow> int \<Rightarrow> int \<Rightarrow> int \<Rightarrow> int" where
  "record_length bits channels speed duration = i32 (i32 (i32 (bits * channels) * speed) sdiv 8 * duration)"

definition record_run :: "(nat \<Rightarrow> bytes option) \<Rightarrow> record_params \<Rightarrow> fs \<Rightarrow> (stop + (int \<times> fs)) option" where
  "record_run malloc P s =
     (case malloc (size_t (r_buffer_size P)) of
        None \<Rightarrow> Some (Inr (-1, s))
      | Some buff \<Rightarrow>
          let bits = format_bits (r_format P);
              record_len = record_length bits (r_channels P) (r_speed P) (r_duration P)
          in record_loop P bits buff record_len s)"

lemma record_loop_exact:
  assumes c: "\<not> (r_file_type P = FILE_TYPE_WAV \<and> bits = 24)"
    and b: "0 < r_buffer_size P" "r_buffer_size P < 4294967296"
    and "nat (r_buffer_size P) \<le> length buff" and "apart (r_dev_fd P) (r_record_fd P) s"
    and "n \<le> length (left (r_dev_fd P) s)"
  shows "\<exists>s'. record_loop P bits buff (int n) s = Some (Inr (0, s')) \<and>
    given (r_record_fd P) s' = given (r_record_fd P) s @ take n (left (r_dev_fd P) s)"
  using assms(4-6)
proof (induction n arbitrary: buff s rule: less_induct)
  case (less n)
  let ?a = "r_dev_fd P" and ?d = "r_record_fd P"
  define z where "z = (if r_buffer_size P > int n then n else nat (r_buffer_size P))"
  show ?case
  proof (cases "n = 0")
    case True
    then show ?thesis by (subst record_loop.simps) simp
  next
    case False
    have z: "0 < z" "z \<le> n" "z \<le> length buff"
      "size_t (if r_buffer_size P > int n then int n else r_buffer_size P) = z"
      using False b less.prems(1) by (auto simp: z_def size_t_id)
    obtain bs s1 where r: "f_read ?a z s = (Some bs, s1)" "bs = take (length bs) (left ?a s)" "length bs \<le> z"
      "bs = [] \<longleftrightarrow> left ?a s = []" "left ?a s1 = drop (length bs) (left ?a s)" "given ?d s1 = given ?d s" "apart ?a ?d s1"
      using f_read_apart [OF less.prems(2) z(1)] by auto
    have bs: "bs \<noteq> []" using r(4) less.prems(3) False by auto
    define buff1 where "buff1 = bs @ drop (length bs) buff"
    have buff1: "store buff 0 bs = Inr buff1" "length buff1 = length buff"
      using z(3) r(3) by (simp_all add: store_front buff1_def)
    obtain s2 where w: "write_loop ?d buff1 0 (int (length bs)) s1 = Inr (True, s2)"
      "given ?d s2 = given ?d s1 @ bs" "left ?a s2 = left ?a s1" "apart ?a ?d s2"
      using write_loop_all [OF r(7), of 0 "length bs" buff1] buff1(2) z(3) r(3) by (auto simp: buff1_def)
    have k: "(if int (length bs) < int n then int (length bs) else int n) = int (length bs)"
      "int n - int (length bs) = int (n - length bs)" using z(2) r(3) by auto
    have m: "n - length bs < n" "nat (r_buffer_size P) \<le> length buff1" "n - length bs \<le> length (left ?a s2)"
      using w(3) bs less.prems(1) buff1(2) r(5) False diff_le_mono [OF less.prems(3), of "length bs"] by simp_all
    obtain s' where ih: "record_loop P bits buff1 (int (n - length bs)) s2 = Some (Inr (0, s'))"
      "given ?d s' = given ?d s2 @ take (n - length bs) (left ?a s2)"
      using less.IH [OF m(1,2) w(4) m(3)] by blast
    have fd: "from_device P bits buff1 x = Inr (buff1, x)" for x using c by (auto simp: from_device_def)
    have ih1: "record_loop P bits buff1 (int n - int (length bs)) s2 = Some (Inr (0, s'))"
      unfolding k(2) by (rule ih(1))
    have "record_loop P bits buff (int n) s = Some (Inr (0, s'))"
      using False r(1) z(4) buff1(1) w(1) ih1 bs k(1) fd by (subst record_loop.simps) simp
    moreover have "bs @ take (n - length bs) (drop (length bs) (left ?a s)) = take n (left ?a s)"
      using take_add [of "length bs" "n - length bs" "left ?a s"] sym [OF r(2)] r(3) z(2) by simp
    ultimately show ?thesis using ih(2) w(2,3) r(5,6) by simp
  qed
qed

text \<open>Recording samples of 8 or 16 bits, or raw data: when the device delivers at least as many bytes as
  the duration asks for, in whatever pieces, \<open>record\<close> comes to an end, returns 0, and has put exactly
  the first so many bytes of the device into the file.\<close>

theorem record_exact:
  assumes "\<not> (r_file_type P = FILE_TYPE_WAV \<and> r_format P = FMT24BITS)"
    and "0 < r_buffer_size P" and "r_buffer_size P < 2147483648"
    and "\<And>n. \<exists>b. malloc n = Some b \<and> length b = n" and "apart (r_dev_fd P) (r_record_fd P) s"
    and "record_length (format_bits (r_format P)) (r_channels P) (r_speed P) (r_duration P) = int n"
    and "n \<le> length (left (r_dev_fd P) s)"
  shows "\<exists>s'. record_run malloc P s = Some (Inr (0, s')) \<and>
    given (r_record_fd P) s' = given (r_record_fd P) s @ take n (left (r_dev_fd P) s)"
proof -
  obtain b where b: "malloc (size_t (r_buffer_size P)) = Some b" "length b = size_t (r_buffer_size P)"
    using assms(4) by blast
  have "\<not> (r_file_type P = FILE_TYPE_WAV \<and> format_bits (r_format P) = 24)"
    using assms(1) by (auto simp: format_bits_def split: if_splits)
  from record_loop_exact [OF this assms(2), of b s n] show ?thesis
    using assms b by (simp add: record_run_def Let_def size_t_id)
qed

definition record_params_of :: "int \<Rightarrow> int \<Rightarrow> record_params" where
  "record_params_of z fmt = \<lparr>r_dev_fd = 3, r_record_fd = 4, r_buffer_size = z, r_duration = 2, r_format = fmt,
     r_channels = 1, r_speed = 8, r_file_type = FILE_TYPE_WAV\<rparr>"

theorem record_exact_witness:
  "\<exists>s'. record_run (\<lambda>n. Some (replicate n 0)) (record_params_of 10 FMT16BITS)
      (song_fs ([0, 0] @ replicate 40 5) [Short 3, Full, Short 1]) = Some (Inr (0, s')) \<and> given 4 s' = replicate 32 5"
proof -
  let ?s = "song_fs ([0, 0] @ replicate 40 5) [Short 3, Full, Short 1]"
  have "left 3 ?s = replicate 40 5" "given 4 ?s = []" by (simp_all add: song_fs_def left_def given_def)
  moreover have "apart 3 4 ?s" by (rule song_apart) simp_all
  moreover have "record_length 16 1 8 2 = 32"
    by (simp add: record_length_def i32_def signed_take_bit_int_eq_self sdiv_nonneg)
  ultimately show ?thesis
    using record_exact [of "record_params_of 10 FMT16BITS" "\<lambda>n. Some (replicate n 0)" ?s 32]
    by (simp add: record_params_of_def fmt_consts format_bits_def)
qed

text \<open>What a run that returns has found on the device: all it was to record.\<close>

definition supplied :: "((((record_params \<times> int) \<times> bytes) \<times> int) \<times> fs) \<Rightarrow> stop + (int \<times> fs) \<Rightarrow> bool" where
  "supplied x r = (case x of ((((P, bits), buff), n), s) \<Rightarrow>
     \<not> (r_file_type P = FILE_TYPE_WAV \<and> bits = 24) \<and> 0 < r_buffer_size P \<and> r_buffer_size P < 2147483648 \<and>
     nat (r_buffer_size P) \<le> length buff \<and> apart (r_dev_fd P) (r_record_fd P) s \<longrightarrow>
     n \<le> int (length (left (r_dev_fd P) s)))"

lemma record_supplied:
  assumes "record_loop P bits buff n s = Some r"
  shows "supplied ((((P, bits), buff), n), s) r"
proof (rule record_loop.raw_induct [where Pa = supplied, OF _ assms])
  fix rl P bits buff n s r
  assume 1: "\<And>P bits buff n s r. rl P bits buff n s = Some r \<Longrightarrow> supplied ((((P, bits), buff), n), s) r"
    and 2: "(if n > 0 then
        (case f_read (r_dev_fd P) (size_t (if r_buffer_size P > n then n else r_buffer_size P)) s of
           (None, s) \<Rightarrow> Some (Inr (-1, s))
         | (Some b, s) \<Rightarrow>
             if b = [] then rl P bits buff n s
             else
               go_on (store buff 0 b) (\<lambda>buff.
               go_on (from_device P bits buff (int (length b))) (\<lambda>(buff, n_read).
               let n_to_write = (if n_read < n then n_read else n) in
               go_on (write_loop (r_record_fd P) buff 0 n_to_write s) (\<lambda>(ok, s).
                 if ok then rl P bits buff (n - n_to_write) s
                 else Some (Inr (-1, s))))))
      else Some (Inr (0, s))) = Some r"
  show "supplied ((((P, bits), buff), n), s) r"
    unfolding supplied_def prod.case
  proof
    assume a: "\<not> (r_file_type P = FILE_TYPE_WAV \<and> bits = 24) \<and> 0 < r_buffer_size P \<and> r_buffer_size P < 2147483648 \<and>
     nat (r_buffer_size P) \<le> length buff \<and> apart (r_dev_fd P) (r_record_fd P) s"
    let ?a = "r_dev_fd P" and ?d = "r_record_fd P"
    define z where "z = (if r_buffer_size P > n then nat n else nat (r_buffer_size P))"
    show "n \<le> int (length (left ?a s))"
    proof (cases "0 < n")
      case True
      have z: "0 < z" "size_t (if r_buffer_size P > n then n else r_buffer_size P) = z" "int z \<le> n" "z \<le> length buff"
        using a True by (auto simp: z_def size_t_id)
      obtain bs s1 where r: "f_read ?a z s = (Some bs, s1)" "length bs \<le> z" "bs = take (length bs) (left ?a s)"
        "bs = [] \<longleftrightarrow> left ?a s = []" "left ?a s1 = drop (length bs) (left ?a s)" "apart ?a ?d s1"
        using f_read_apart [of ?a ?d s z] a z(1) by auto
      show ?thesis
      proof (cases "bs = []")
        case True
        then have "rl P bits buff n s1 = Some r" using 2 \<open>0 < n\<close> r(1) z(2) by simp
        then show ?thesis using 1 [of P bits buff n s1 r] a r(5,6) True by (simp add: supplied_def)
      next
        case False
        define buff1 where "buff1 = bs @ drop (length bs) buff"
        have buff1: "store buff 0 bs = Inr buff1" "length buff1 = length buff"
          using z(4) r(2) by (simp_all add: store_front buff1_def)
        obtain s2 where w: "write_loop ?d buff1 0 (int (length bs)) s1 = Inr (True, s2)"
          "left ?a s2 = left ?a s1" "apart ?a ?d s2"
          using write_loop_all [OF r(6), of 0 "length bs" buff1] buff1(2) z(4) r(2) by auto
        have k: "(if int (length bs) < n then int (length bs) else n) = int (length bs)" using z(3) r(2) by auto
        have fd: "from_device P bits buff1 x = Inr (buff1, x)" for x using a by (auto simp: from_device_def)
        have "rl P bits buff1 (n - int (length bs)) s2 = Some r"
          using 2 \<open>0 < n\<close> r(1) z(2) buff1(1) w(1) False k fd by simp
        then have "n - int (length bs) \<le> int (length (left ?a s2))"
          using 1 [of P bits buff1 "n - int (length bs)" s2 r] a w(3) buff1(2) by (simp add: supplied_def)
        moreover have "length bs \<le> length (left ?a s)" by (subst r(3)) simp
        ultimately show ?thesis using w(2) r(5) by simp
      qed
    qed simp
  qed
qed

text \<open>C25. Recording samples of 8 or 16 bits, or raw data, where nothing fails: \<open>record\<close> returns exactly when the
  device delivers as many bytes as the duration asks for. When it is at its end before (a regular
  file that is too short, say), a \<open>read\<close> of nothing is repeated for ever.\<close>

theorem record_ends_iff:
  assumes "\<not> (r_file_type P = FILE_TYPE_WAV \<and> r_format P = FMT24BITS)"
    and "0 < r_buffer_size P" and "r_buffer_size P < 2147483648"
    and "\<And>n. \<exists>b. malloc n = Some b \<and> length b = n" and "apart (r_dev_fd P) (r_record_fd P) s"
    and "record_length (format_bits (r_format P)) (r_channels P) (r_speed P) (r_duration P) = int n"
  shows "record_run malloc P s \<noteq> None \<longleftrightarrow> n \<le> length (left (r_dev_fd P) s)"
proof -
  obtain b where b: "malloc (size_t (r_buffer_size P)) = Some b" "length b = size_t (r_buffer_size P)"
    using assms(4) by blast
  have f: "\<not> (r_file_type P = FILE_TYPE_WAV \<and> format_bits (r_format P) = 24)"
    using assms(1) by (auto simp: format_bits_def split: if_splits)
  have run: "record_run malloc P s = record_loop P (format_bits (r_format P)) b (int n) s"
    using b(1) assms(6) by (simp add: record_run_def Let_def)
  have lb: "nat (r_buffer_size P) \<le> length b" using b(2) assms(2,3) by (simp add: size_t_id)
  show ?thesis
  proof
    assume "record_run malloc P s \<noteq> None"
    then obtain r where "record_loop P (format_bits (r_format P)) b (int n) s = Some r" using run by auto
    then show "n \<le> length (left (r_dev_fd P) s)"
      using record_supplied f assms(2,3,5) lb by (fastforce simp: supplied_def)
  next
    assume "n \<le> length (left (r_dev_fd P) s)"
    then show "record_run malloc P s \<noteq> None"
      using record_loop_exact [OF f assms(2) _ lb assms(5), of n] assms(3) unfolding run by auto
  qed
qed

theorem record_ends_iff_witness:
  "record_run (\<lambda>n. Some (replicate n 0)) (record_params_of 10 FMT16BITS) (song_fs ([0, 0] @ replicate 31 5) []) = None"
proof -
  let ?s = "song_fs ([0, 0] @ replicate 31 5) []"
  have "left 3 ?s = replicate 31 5" by (simp add: song_fs_def left_def)
  moreover have "apart 3 4 ?s" by (rule song_apart) simp_all
  moreover have "record_length 16 1 8 2 = 32"
    by (simp add: record_length_def i32_def signed_take_bit_int_eq_self sdiv_nonneg)
  ultimately show ?thesis
    using record_ends_iff [of "record_params_of 10 FMT16BITS" "\<lambda>n. Some (replicate n 0)" ?s 32]
    by (simp add: record_params_of_def fmt_consts format_bits_def)
qed

section \<open>Recording samples of 24 bits\<close>

lemma quarters_less: "0 < m \<Longrightarrow> int m sdiv 4 * 3 < int m"
  by (simp add: sdiv_nonneg)

text \<open>What is kept of a block is less than the block, and the block is at most what is missing.\<close>

definition unfinished :: "((((record_params \<times> int) \<times> bytes) \<times> int) \<times> fs) \<Rightarrow> stop + (int \<times> fs) \<Rightarrow> bool" where
  "unfinished x r = (case x of ((((P, bits), buff), n), s) \<Rightarrow>
     r_file_type P = FILE_TYPE_WAV \<and> bits = 24 \<and> 0 < n \<and> n < 2147483648 \<and> 0 \<le> r_buffer_size P \<longrightarrow>
     (\<forall>s'. r \<noteq> Inr (0, s')))"

lemma record24_unfinished:
  assumes "record_loop P bits buff n s = Some r"
  shows "unfinished ((((P, bits), buff), n), s) r"
proof (rule record_loop.raw_induct [where Pa = unfinished, OF _ assms])
  fix rl P bits buff n s r
  assume 1: "\<And>P bits buff n s r. rl P bits buff n s = Some r \<Longrightarrow> unfinished ((((P, bits), buff), n), s) r"
    and 2: "(if n > 0 then
        (case f_read (r_dev_fd P) (size_t (if r_buffer_size P > n then n else r_buffer_size P)) s of
           (None, s) \<Rightarrow> Some (Inr (-1, s))
         | (Some b, s) \<Rightarrow>
             if b = [] then rl P bits buff n s
             else
               go_on (store buff 0 b) (\<lambda>buff.
               go_on (from_device P bits buff (int (length b))) (\<lambda>(buff, n_read).
               let n_to_write = (if n_read < n then n_read else n) in
               go_on (write_loop (r_record_fd P) buff 0 n_to_write s) (\<lambda>(ok, s).
                 if ok then rl P bits buff (n - n_to_write) s
                 else Some (Inr (-1, s))))))
      else Some (Inr (0, s))) = Some r"
  show "unfinished ((((P, bits), buff), n), s) r"
    unfolding unfinished_def prod.case
  proof (intro impI)
    assume a: "r_file_type P = FILE_TYPE_WAV \<and> bits = 24 \<and> 0 < n \<and> n < 2147483648 \<and> 0 \<le> r_buffer_size P"
    define z where "z = size_t (if r_buffer_size P > n then n else r_buffer_size P)"
    have z: "int z \<le> n" using a by (auto simp: z_def size_t_id)
    obtain ob s1 where r: "f_read (r_dev_fd P) z s = (ob, s1)" by fastforce
    show "\<forall>s'. r \<noteq> Inr (0, s')"
    proof (cases ob)
      case None
      then show ?thesis using 2 a r by (auto simp: z_def)
    next
      case (Some b)
      show ?thesis
      proof (cases "b = []")
        case True
        then have "rl P bits buff n s1 = Some r" using 2 a r Some by (simp add: z_def)
        then show ?thesis using 1 [of P bits buff n s1 r] a by (simp add: unfinished_def)
      next
        case False
        have "length b \<le> z" using f_read_length r Some by blast
        then have l: "int (length b) sdiv 4 * 3 < n" using quarters_less [of "length b"] z False by simp
        let ?k = "int (length b) sdiv 4 * 3"
        have 3: "go_on (store buff 0 b) (\<lambda>buff.
               go_on (from_device P bits buff (int (length b))) (\<lambda>(buff, n_read).
               let n_to_write = (if n_read < n then n_read else n) in
               go_on (write_loop (r_record_fd P) buff 0 n_to_write s1) (\<lambda>(ok, s).
                 if ok then rl P bits buff (n - n_to_write) s
                 else Some (Inr (-1, s))))) = Some r"
          using 2 a r Some False by (simp add: z_def)
        then consider (stopped) e where "r = Inl e" | (failed) s2 where "r = Inr (-1, s2)"
          | (more) buff2 s2 where "rl P bits buff2 (n - ?k) s2 = Some r"
          using a l by (auto simp: from_device_def bindE_def Let_def split: sum.splits prod.splits if_splits)
        then show ?thesis
        proof cases
          case more
          moreover have "0 \<le> ?k" by (simp add: sdiv_nonneg)
          then have "0 < n - ?k" "n - ?k < 2147483648" using a l by linarith+
          ultimately show ?thesis using 1 [OF more] a unfolding unfinished_def prod.case by blast
        qed simp_all
      qed
    qed
  qed
qed

text \<open>C26. Recording a WAV file of 24 bits never succeeds. The loop asks the device for no more bytes than are
  missing in the file, but a block shrinks to three quarters before it is written, so at least one byte
  is missing after every round: whatever the device delivers and however transfers are cut, \<open>record\<close>
  does not return 0; it fails, is stopped, or runs for ever.\<close>

theorem record_24bit_never_done:
  assumes "r_file_type P = FILE_TYPE_WAV" and "r_format P = FMT24BITS" and "0 \<le> r_buffer_size P"
    and "0 < record_length 24 (r_channels P) (r_speed P) (r_duration P)"
  shows "record_run malloc P s \<noteq> Some (Inr (0, s'))"
proof -
  have b: "format_bits (r_format P) = 24" using assms(2) by (simp add: format_bits_def fmt_consts)
  have "record_length 24 (r_channels P) (r_speed P) (r_duration P) < 2147483648"
    using signed_take_bit_int_less_exp [of 31 "i32 (i32 (24 * r_channels P) * r_speed P) sdiv 8 * r_duration P"]
    by (simp add: record_length_def i32_def)
  then show ?thesis
    using record24_unfinished assms b by (fastforce simp: record_run_def unfinished_def Let_def split: option.splits)
qed

theorem record_24bit_never_done_witness:
  "\<forall>s s'. record_run (\<lambda>n. Some (replicate n 0)) (record_params_of 64 FMT24BITS) s \<noteq> Some (Inr (0, s'))"
  using record_24bit_never_done [of "record_params_of 64 FMT24BITS"]
  by (simp add: record_params_of_def record_length_def i32_def signed_take_bit_int_eq_self sdiv_nonneg)

end
