(* ===== verification/Sndtool.thy ===== *)
theory Sndtool
  imports Sndkit
begin

text \<open>
  The rest of \<^verbatim>\<open>sndkit.c\<close>: conversion of raw files to WAV and back, the options, and \<open>main\<close> up to the
  threads it starts. What \<open>getopt_long\<close> has parsed is an argument, a list of option characters with
  their arguments; \<open>stack\<close> stands for the bytes of local arrays before they are written.
\<close>

section \<open>Copying the data\<close>

definition FILE_BLOCK_LEN :: nat where "FILE_BLOCK_LEN = 4096"

text \<open>The copy loops of \<open>makewav\<close> and of \<open>strip_wav\<close> differ in the value after a failed \<open>read\<close>.\<close>

function copy_loop :: "int \<Rightarrow> int \<Rightarrow> int \<Rightarrow> bytes \<Rightarrow> int \<Rightarrow> fs \<Rightarrow> stop + (int \<times> fs)" where
  "copy_loop err from_fd to_fd buff file_len s =
     (if file_len > 0 then
        (case f_read from_fd FILE_BLOCK_LEN s of
           (None, s) \<Rightarrow> Inr (err, s)
         | (Some b, s) \<Rightarrow>
             if b = [] then Inr (0, s)
             else
               bindE (store buff 0 b) (\<lambda>buff.
               bindE (write_loop to_fd buff 0 (int (length b)) s) (\<lambda>(ok, s).
                 if ok then copy_loop err from_fd to_fd buff (file_len - int (length b)) s
                 else Inr (-1, s))))
      else Inr (0, s))"
  by pat_completeness auto
termination
  by (relation "measure (\<lambda>(err, a, b, buff, n, s). nat n)") auto

declare copy_loop.simps [simp del]

definition makewav :: "(nat \<Rightarrow> bytes option) \<Rightarrow> bytes \<Rightarrow> string \<Rightarrow> string \<Rightarrow> int \<Rightarrow> int \<Rightarrow> int \<Rightarrow> fs \<Rightarrow>
    stop + (int \<times> fs)" where
  "makewav malloc stack wav_file raw_file channels speed format s =
     (if wav_file = [] then Inr (-1, s)
      else if raw_file = [] then Inr (-1, s)
      else let (wav_fd, s) = open_file wav_file O_WRONLY True s
      in if wav_fd < 0 then Inr (-1, s)
      else (case f_size raw_file s of
          None \<Rightarrow> Inr (-1, s)
        | Some st_size \<Rightarrow>
            let file_len = i32 (int st_size); (raw_fd, s) = open_file raw_file O_RDONLY False s
            in if raw_fd < 0 then Inr (-1, s)
            else
              bindE (init_wav_header stack file_len (word_of_int channels) (word_of_int speed)
                      (word_of_int (format_bits format))) (\<lambda>wav_head.
              bindE (write_loop wav_fd wav_head 0 (int WAV_HEAD_SIZE) s) (\<lambda>(ok, s).
              if \<not> ok then Inr (-1, s)
              else (case malloc FILE_BLOCK_LEN of
                  None \<Rightarrow> Inr (-1, s)
                | Some buff \<Rightarrow> copy_loop (-1) raw_fd wav_fd buff file_len s)))))"

definition strip_wav :: "(nat \<Rightarrow> bytes option) \<Rightarrow> int \<Rightarrow> string \<Rightarrow> string \<Rightarrow> fs \<Rightarrow> stop + (int \<times> fs)" where
  "strip_wav malloc stack_head_len raw_file wav_file s =
     (if wav_file = [] then Inr (-1, s)
      else if raw_file = [] then Inr (-1, s)
      else let (wav_fd, s) = open_file wav_file O_RDONLY False s
      in if wav_fd < 0 then Inr (-1, s)
      else let (raw_fd, s) = open_file raw_file O_WRONLY True s
      in if raw_fd < 0 then Inr (-1, s)
      else (case malloc FILE_BLOCK_LEN of
          None \<Rightarrow> Inr (-1, s)
        | Some buff \<Rightarrow>
            (case f_read wav_fd MAX_WAV_HEAD_SIZE s of
               (None, s) \<Rightarrow> Inr (-1, s)
             | (Some b, s) \<Rightarrow>
                 if length b \<noteq> MAX_WAV_HEAD_SIZE then Inr (-1, s)
                 else
                   bindE (store buff 0 b) (\<lambda>buff.
                   bindE (parse_wav_header buff
                           \<lparr>head_len = stack_head_len, w_channels = 0, w_sample_rate = 0, w_bits = 0\<rparr>)
                     (\<lambda>(wav_data_len, info).
                       if wav_data_len = 0 then Inr (-1, s)
                       else copy_loop 0 wav_fd raw_fd buff wav_data_len (f_lseek wav_fd (head_len info) s))))))"

section \<open>A WAV file made from raw data and stripped again\<close>

lemma write_loop_only: "write_loop fd buff pos len s = Inr (ok, s') \<Longrightarrow> only_writes fd s s'"
proof (induction fd buff pos len s rule: write_loop.induct)
  case (1 fd buff pos len s)
  show ?case
  proof (cases "0 < len")
    case False
    then show ?thesis using "1.prems" by (simp add: write_loop_done only_writes_refl)
  next
    case True
    then obtain b where b: "load_bytes buff pos (nat len) = Inr b"
      using "1.prems" by (subst (asm) write_loop.simps) (auto simp: bindE_eq_Inr)
    obtain r s1 where w: "f_write fd b s = (r, s1)" by fastforce
    show ?thesis
    proof (cases r)
      case None
      then show ?thesis using "1.prems" True b w f_write_only [OF w]
        by (subst (asm) write_loop.simps) simp
    next
      case (Some n)
      then have "write_loop fd buff (pos + int n) (len - int n) s1 = Inr (ok, s')"
        using "1.prems" True b w by (subst (asm) write_loop.simps) simp
      then show ?thesis
        using "1.IH" [OF True b sym [OF w] Some] only_writes_trans [OF f_write_only [OF w]] by blast
    qed
  qed
qed

lemma copy_loop_only:
  "copy_loop err a fd buff n s = Inr (r, s') \<Longrightarrow> a \<noteq> fd \<Longrightarrow> only_writes fd s s'"
proof (induction err a fd buff n s rule: copy_loop.induct)
  case (1 err a fd buff n s)
  show ?case
  proof (cases "0 < n")
    case False
    then show ?thesis using "1.prems"(1) by (subst (asm) copy_loop.simps) (simp add: only_writes_refl)
  next
    case True
    obtain ob s1 where r: "f_read a FILE_BLOCK_LEN s = (ob, s1)" by fastforce
    note o1 = f_read_only [OF r "1.prems"(2)]
    show ?thesis
    proof (cases "\<exists>b. ob = Some b \<and> b \<noteq> []")
      case False
      then show ?thesis using "1.prems"(1) True r o1
        by (subst (asm) copy_loop.simps) (auto split: option.splits)
    next
      case nonempty: True
      then obtain b where b: "ob = Some b" "b \<noteq> []" by blast
      obtain buff1 where st: "store buff 0 b = Inr buff1"
        using "1.prems"(1) True r b by (subst (asm) copy_loop.simps) (auto simp: bindE_eq_Inr)
      obtain ok s2 where w: "write_loop fd buff1 0 (int (length b)) s1 = Inr (ok, s2)"
        using "1.prems"(1) True r b st by (subst (asm) copy_loop.simps) (auto simp: bindE_eq_Inr)
      note o2 = only_writes_trans [OF o1 write_loop_only [OF w]]
      show ?thesis
      proof (cases ok)
        case False
        then show ?thesis using "1.prems"(1) True r b st w o2
          by (subst (asm) copy_loop.simps) simp
      next
        case True
        then have "copy_loop err a fd buff1 (n - int (length b)) s2 = Inr (r, s')"
          using "1.prems"(1) \<open>0 < n\<close> r b st w by (subst (asm) copy_loop.simps) simp
        then show ?thesis
          using "1.IH" [OF \<open>0 < n\<close> sym [OF r] b(1) b(2) st w refl True] "1.prems"(2) only_writes_trans [OF o2] by blast
      qed
    qed
  qed
qed

lemma copy_loop_copies:
  assumes "FILE_BLOCK_LEN \<le> length buff" and "apart a d s"
  shows "\<exists>s' k. copy_loop err a d buff n s = Inr (0, s') \<and>
    played False n (int FILE_BLOCK_LEN) (length (left a s)) k \<and> given d s' = given d s @ take k (left a s)"
  using assms
proof (induction "length (left a s)" arbitrary: n buff s rule: less_induct)
  case less
  have z: "0 < FILE_BLOCK_LEN" by (simp add: FILE_BLOCK_LEN_def)
  show ?case
  proof (cases "0 < n")
    case False
    then show ?thesis by (subst copy_loop.simps) (auto simp: played_def intro!: exI [of _ "0::nat"])
  next
    case True
    obtain bs s1 where r: "f_read a FILE_BLOCK_LEN s = (Some bs, s1)" "bs = take (length bs) (left a s)"
      "length bs \<le> FILE_BLOCK_LEN" "bs = [] \<longleftrightarrow> left a s = []" "left a s1 = drop (length bs) (left a s)"
      "given d s1 = given d s" "apart a d s1"
      using f_read_apart [OF less.prems(2) z] by blast
    show ?thesis
    proof (cases "bs = []")
      case True
      then have "left a s = []" using r(4) by blast
      then show ?thesis using True r(1,6) \<open>0 < n\<close> z by (subst copy_loop.simps) (simp add: played_def)
    next
      case False
      define buff1 where "buff1 = bs @ drop (length bs) buff"
      have buff1: "store buff 0 bs = Inr buff1" "length buff1 = length buff"
        using less.prems(1) r(3) by (simp_all add: store_front buff1_def)
      have len: "length bs \<le> length (left a s)" by (subst r(2)) simp
      obtain s2 where w: "write_loop d buff1 0 (int (length bs)) s1 = Inr (True, s2)"
        "given d s2 = given d s1 @ bs" "left a s2 = left a s1" "apart a d s2"
        using write_loop_all [OF r(7), of 0 "length bs" buff1] buff1(2) less.prems(1) r(3) by (auto simp: buff1_def)
      have m: "length (left a s2) < length (left a s)" "FILE_BLOCK_LEN \<le> length buff1"
        using w(3) r(5) False len less.prems(1) buff1(2) by (cases bs; simp)+
      obtain s' k where ih: "copy_loop err a d buff1 (n - int (length bs)) s2 = Inr (0, s')"
        "played False (n - int (length bs)) (int FILE_BLOCK_LEN) (length (left a s2)) k"
        "given d s' = given d s2 @ take k (left a s2)"
        using less.hyps [OF m w(4), of "n - int (length bs)"] by blast
      have "copy_loop err a d buff n s = Inr (0, s')"
        using True False r(1) buff1(1) w(1) ih(1) by (subst copy_loop.simps) simp
      moreover have "played False n (int FILE_BLOCK_LEN) (length (left a s)) (length bs + k)"
        using played_step [of False n "length bs" _ "length (left a s)" k] len True ih(2) w(3) r(3,5) by simp
      moreover have "given d s' = given d s @ take (length bs + k) (left a s)"
        using ih(3) w(2,3) sym [OF r(2)] r(5,6) by (simp add: take_add)
      ultimately show ?thesis by blast
    qed
  qed
qed

lemma played_all: "played False (int k) z k j \<Longrightarrow> j = k"
  by (auto simp: played_def split: if_splits)

lemma wav_header_head: "parse_wav_header (wav_header d c r b @ rest) info =
    Inr (sint (word_of_int d :: u32), fmt_info 44 (wav_fmt c r b))"
  using wav_image_parsed [OF wf_wav_fmt [of c r b], of None None "word_of_int (d + 36)" "word_of_int d" rest info,
      folded wav_header_is_image] by simp

lemma i32_id: "- 2147483648 \<le> d \<Longrightarrow> d < 2147483648 \<Longrightarrow> i32 d = d"
  by (simp add: i32_def signed_take_bit_int_eq_self)

text \<open>A file system in which two files can be read and written by a program.\<close>

definition ready :: "fs \<Rightarrow> string \<Rightarrow> bytes \<Rightarrow> string \<Rightarrow> bool" where
  "ready s src d dst \<longleftrightarrow> src \<noteq> [] \<and> dst \<noteq> [] \<and> fs_nodes s src = Some (Reg d) \<and> fs_nodes s dst = None \<and>
     \<not> fs_denied s src \<and> \<not> fs_denied s dst \<and> fs_plan s = []"

lemma makewav_result:
  assumes r: "ready s raw d wav" and st: "44 \<le> length stack" and len: "length d < 2147483648"
    and m: "\<And>n. \<exists>b. malloc n = Some b \<and> length b = n"
  shows "\<exists>s'. makewav malloc stack wav raw channels speed format s = Inr (0, s') \<and> fs_plan s' = [] \<and>
    fs_denied s' = fs_denied s \<and> (\<forall>p. fs_nodes s p = None \<and> p \<noteq> wav \<longrightarrow> fs_nodes s' p = None) \<and>
    fs_nodes s' wav = Some (Reg (wav_header (int (length d)) (word_of_int channels) (word_of_int speed)
      (word_of_int (format_bits format)) @ d))"
proof -
  let ?k = "int (fs_next s)" and ?n = "fs_next s"
  let ?h = "wav_header (int (length d)) (word_of_int channels) (word_of_int speed) (word_of_int (format_bits format))"
  define s1 where "s1 = s\<lparr>fs_nodes := (fs_nodes s)(wav \<mapsto> Reg []), fs_fds := (fs_fds s)(?k \<mapsto> (wav, 0)), fs_next := Suc ?n\<rparr>"
  define s2 where "s2 = s1\<lparr>fs_fds := (fs_fds s1)(?k + 1 \<mapsto> (raw, 0)), fs_next := Suc (Suc ?n)\<rparr>"
  have neq: "raw \<noteq> wav" using r by (auto simp: ready_def)
  have o1: "f_open wav O_WRONLY True s = (?k, s1)"
    using r f_open_create [of s wav O_WRONLY] by (simp add: ready_def s1_def)
  have o2: "f_open raw O_RDONLY False s1 = (?k + 1, s2)"
    using r neq f_open_read [of s1 raw d O_RDONLY False] by (simp add: ready_def s1_def s2_def add.commute)
  have size: "f_size raw s1 = Some (length d)" using r neq by (simp add: f_size_def s1_def ready_def)
  have ap: "apart (?k + 1) ?k s2" "given ?k s2 = []" "left (?k + 1) s2 = d" "at_end ?k s2" "open_at ?k wav s2"
    "fs_plan s2 = []"
    using r neq by (auto simp: apart_def at_data_def s2_def s1_def ready_def given_def left_def at_end_def open_at_def)
  define head where "head = ?h @ drop 44 stack"
  have h: "init_wav_header stack (int (length d)) (word_of_int channels) (word_of_int speed) (word_of_int (format_bits format)) = Inr head"
    unfolding head_def by (rule init_wav_header_eq [OF st])
  obtain s3 where w: "write_loop ?k head 0 44 s2 = Inr (True, s3)" "given ?k s3 = ?h" "left (?k + 1) s3 = d"
    "apart (?k + 1) ?k s3"
    using write_loop_all [OF ap(1), of 0 44 head] ap(2,3) by (auto simp: head_def)
  obtain b where b: "malloc FILE_BLOCK_LEN = Some b" "length b = FILE_BLOCK_LEN" using m by blast
  obtain s4 j where c: "copy_loop (-1) (?k + 1) ?k b (int (length d)) s3 = Inr (0, s4)"
    "played False (int (length d)) (int FILE_BLOCK_LEN) (length d) j" "given ?k s4 = ?h @ take j d"
    using copy_loop_copies [OF eq_refl [OF sym [OF b(2)]] w(4), of "-1" "int (length d)"] w(2,3) by auto
  have ow: "only_writes ?k s2 s4"
    using only_writes_trans [OF write_loop_only [OF w(1)] copy_loop_only [OF c(1)]] by simp
  have "makewav malloc stack wav raw channels speed format s = Inr (0, s4)"
    using r o1 o2 size i32_id [of "int (length d)"] len h w(1) b(1) c(1)
    by (simp add: makewav_def open_file_def ready_def WAV_HEAD_SIZE_def SIZEOF_FMT_def)
  moreover have "fs_nodes s4 wav = Some (Reg (?h @ d))"
    using at_end_content [of ?k s4 wav] ow ap(4,5) c(3) played_all [OF c(2)] by (simp add: only_writes_def)
  moreover have "fs_plan s4 = []" "fs_denied s4 = fs_denied s" using ow ap(6) by (simp_all add: only_writes_def s2_def s1_def)
  moreover have "\<forall>p. fs_nodes s p = None \<and> p \<noteq> wav \<longrightarrow> fs_nodes s4 p = None"
    using ow by (simp add: only_writes_def s2_def s1_def)
  ultimately show ?thesis by blast
qed

lemma strip_wav_result:
  assumes r: "ready s wav (wav_header (int (length d)) c sr b @ d) raw" and len: "212 \<le> length d" "length d < 2147483648"
    and m: "\<And>n. \<exists>b. malloc n = Some b \<and> length b = n"
  shows "\<exists>s'. strip_wav malloc hl raw wav s = Inr (0, s') \<and> fs_nodes s' raw = Some (Reg d)"
proof -
  let ?k = "int (fs_next s)" and ?n = "fs_next s"
  let ?h = "wav_header (int (length d)) c sr b"
  define s1 where "s1 = s\<lparr>fs_fds := (fs_fds s)(?k \<mapsto> (wav, 0)), fs_next := Suc ?n\<rparr>"
  define s2 where "s2 = s1\<lparr>fs_nodes := (fs_nodes s1)(raw \<mapsto> Reg []), fs_fds := (fs_fds s1)(?k + 1 \<mapsto> (raw, 0)), fs_next := Suc (Suc ?n)\<rparr>"
  have neq: "raw \<noteq> wav" using r by (auto simp: ready_def)
  have o1: "f_open wav O_RDONLY False s = (?k, s1)"
    using r f_open_read [of s wav _ O_RDONLY False] by (simp add: ready_def s1_def)
  have o2: "f_open raw O_WRONLY True s1 = (?k + 1, s2)"
    using r f_open_create [of s1 raw O_WRONLY] by (simp add: ready_def s1_def s2_def add.commute)
  have ap: "apart ?k (?k + 1) s2" "given (?k + 1) s2 = []" "left ?k s2 = ?h @ d" "at_end (?k + 1) s2"
    "open_at (?k + 1) raw s2" "fs_plan s2 = []" "fs_fds s2 ?k = Some (wav, 0)" "fs_nodes s2 wav = Some (Reg (?h @ d))"
    using r neq by (auto simp: apart_def at_data_def s2_def s1_def ready_def given_def left_def at_end_def open_at_def)
  obtain buff where buff: "malloc FILE_BLOCK_LEN = Some buff" "length buff = FILE_BLOCK_LEN" using m by blast
  have z: "256 \<le> length buff" using buff(2) by (simp add: FILE_BLOCK_LEN_def)
  let ?t = "take 256 (?h @ d)"
  define s3 where "s3 = s2\<lparr>fs_fds := (fs_fds s2)(?k \<mapsto> (wav, 256))\<rparr>"
  have rd: "f_read ?k 256 s2 = (Some ?t, s3)" "length ?t = 256"
    using len ap(6-8) by (simp_all add: f_read_def next_outcome_def s3_def Let_def del: take_append)
  define buff1 where "buff1 = ?t @ drop 256 buff"
  have st: "store buff 0 ?t = Inr buff1" "length buff1 = FILE_BLOCK_LEN"
    using store_front [of ?t buff] rd(2) z buff(2) by (simp_all add: buff1_def)
  have "buff1 = ?h @ (take 212 d @ drop 256 buff)" by (simp add: buff1_def)
  then have p: "parse_wav_header buff1 info = Inr (int (length d), fmt_info 44 (wav_fmt c sr b))" for info
    using wav_header_head [of "int (length d)" c sr b] sint_word_of_int_id [of "int (length d)"] len(2)
    by (simp del: of_int_of_nat_eq)
  define s4 where "s4 = f_lseek ?k 44 s3"
  have ap4: "apart ?k (?k + 1) s4" "given (?k + 1) s4 = []" "left ?k s4 = d" "at_end (?k + 1) s4" "open_at (?k + 1) raw s4"
    using r neq
    by (auto simp: s4_def f_lseek_def s3_def apart_def at_data_def s2_def s1_def ready_def given_def left_def at_end_def open_at_def)
  obtain s5 j where c: "copy_loop 0 ?k (?k + 1) buff1 (int (length d)) s4 = Inr (0, s5)"
    "played False (int (length d)) (int FILE_BLOCK_LEN) (length d) j" "given (?k + 1) s5 = take j d"
    using copy_loop_copies [OF eq_refl [OF sym [OF st(2)]] ap4(1), of 0 "int (length d)"] ap4(2,3) by auto
  have ow: "only_writes (?k + 1) s4 s5" using copy_loop_only [OF c(1)] by simp
  have "d \<noteq> []" using len(1) by auto
  then have "strip_wav malloc hl raw wav s = Inr (0, s5)"
    using r o1 o2 rd st(1) p buff(1) c(1)
    by (simp add: strip_wav_def open_file_def ready_def MAX_WAV_HEAD_SIZE_def s4_def fmt_info_def del: take_append)
  moreover have "fs_nodes s5 raw = Some (Reg d)"
    using at_end_content [of "?k + 1" s5 raw] ow ap4(4,5) c(3) played_all [OF c(2)] by (simp add: only_writes_def)
  ultimately show ?thesis by blast
qed

text \<open>C24. Raw to WAV and back. With two names that do not exist yet and transfers that are complete, the file
  \<open>makewav\<close> writes is the header followed by the raw data, and \<open>strip_wav\<close> makes of that file one that
  holds exactly the raw data, whatever channels, rate and format the header was given; both return 0.
  The data must be at least 212 bytes, for \<open>strip_wav\<close> refuses a WAV file of less than 256.\<close>

theorem makewav_strip_roundtrip:
  assumes "ready s raw d wav" and "fs_nodes s copy = None" "\<not> fs_denied s copy" "copy \<noteq> wav" "copy \<noteq> []"
    and "44 \<le> length stack" and "212 \<le> length d" and "length d < 2147483648"
    and "\<And>n. \<exists>b. malloc n = Some b \<and> length b = n"
  shows "\<exists>s1 s2. makewav malloc stack wav raw channels speed format s = Inr (0, s1) \<and>
    fs_nodes s1 wav = Some (Reg (wav_header (int (length d)) (word_of_int channels) (word_of_int speed)
      (word_of_int (format_bits format)) @ d)) \<and>
    strip_wav malloc hl copy wav s1 = Inr (0, s2) \<and> fs_nodes s2 copy = Some (Reg d)"
proof -
  obtain s1 where s1: "makewav malloc stack wav raw channels speed format s = Inr (0, s1)" "fs_plan s1 = []"
    "fs_denied s1 = fs_denied s" "fs_nodes s1 copy = None"
    "fs_nodes s1 wav = Some (Reg (wav_header (int (length d)) (word_of_int channels) (word_of_int speed)
      (word_of_int (format_bits format)) @ d))"
    using makewav_result [OF assms(1,6,8,9)] assms(2,4) by blast
  then have "ready s1 wav (wav_header (int (length d)) (word_of_int channels) (word_of_int speed)
      (word_of_int (format_bits format)) @ d) copy"
    using assms(1,3,5) by (simp add: ready_def)
  then show ?thesis using strip_wav_result [OF _ assms(7,8,9)] s1(1,5) by blast
qed

definition raw_fs :: "bytes \<Rightarrow> fs" where
  "raw_fs d = \<lparr>fs_nodes = [''raw'' \<mapsto> Reg d], fs_denied = (\<lambda>_. False), fs_fds = Map.empty, fs_next = 3,
     fs_plan = [], fs_driver = (\<lambda>_ v. Some v), fs_ctl = []\<rparr>"

theorem makewav_strip_roundtrip_witness:
  "\<exists>s1 s2. makewav (\<lambda>n. Some (replicate n 0)) (replicate 44 9) ''wav'' ''raw'' 2 44100 FMT16BITS (raw_fs (replicate 300 7)) = Inr (0, s1) \<and>
    fs_nodes s1 ''wav'' = Some (Reg (wav_header 300 2 44100 16 @ replicate 300 7)) \<and>
    strip_wav (\<lambda>n. Some (replicate n 0)) 0 ''copy'' ''wav'' s1 = Inr (0, s2) \<and> fs_nodes s2 ''copy'' = Some (Reg (replicate 300 7))"
  using makewav_strip_roundtrip [of "raw_fs (replicate 300 7)" "''raw''" "replicate 300 7" "''wav''" "''copy''"
      "replicate 44 9" "\<lambda>n. Some (replicate n 0)" 2 44100 FMT16BITS 0]
  by (simp add: raw_fs_def ready_def format_bits_def fmt_consts)

section \<open>The options\<close>

text \<open>The three character arrays keep what was in them behind the characters copied into them.\<close>

record options =
  o_snd_dev :: string
  o_file_type :: int
  o_channels :: int
  o_channels_user :: bool
  o_format :: int
  o_format_user :: bool
  o_speed :: int
  o_speed_user :: bool
  o_duration :: int
  o_buffer_size :: int
  o_replay_enable :: bool
  o_replay_file :: string
  o_record_enable :: bool
  o_record_file :: string
  o_vol :: int
  o_raw_to_wav :: bool
  o_strip_wav :: bool
  o_adjust :: "int \<times> int"
  o_debug_level :: int

text \<open>\<open>strcpy\<close>, and \<open>strncpy (arr, s, strlen (s))\<close>, which copies no NUL.\<close>

definition copy_into :: "string \<Rightarrow> string \<Rightarrow> string" where
  "copy_into arr s = s @ drop (length s) arr"

definition init_options :: "string \<Rightarrow> options" where
  "init_options stack = \<lparr>o_snd_dev = copy_into stack (DEFAULT_SND_DEV @ [NUL]), o_file_type = FILE_TYPE_WAV,
     o_channels = DEFAULT_SND_CHN, o_channels_user = False, o_format = FMT16BITS, o_format_user = False,
     o_speed = DEFAULT_SND_SPD, o_speed_user = False, o_duration = DEFAULT_DURATION,
     o_buffer_size = DEFAULT_BUFF_SIZE, o_replay_enable = False, o_replay_file = replicate 128 NUL,
     o_record_enable = False, o_record_file = replicate 128 NUL, o_vol = 0, o_raw_to_wav = False,
     o_strip_wav = False, o_adjust = (0, 0), o_debug_level = 0\<rparr>"

text \<open>One turn of the loop: the options, or the value \<open>main\<close> returns.\<close>

definition opt_step :: "char \<Rightarrow> string \<Rightarrow> options \<Rightarrow> int + options" where
  "opt_step c optarg opts =
     (if c = CHR ''h'' \<or> c = CHR ''V'' then Inl 0
      else if c = CHR ''W'' then Inr (opts\<lparr>o_raw_to_wav := True\<rparr>)
      else if c = CHR ''T'' then Inr (opts\<lparr>o_strip_wav := True\<rparr>)
      else if c = CHR ''D'' then
        (if length optarg > 127 then Inl 127 else Inr (opts\<lparr>o_snd_dev := copy_into (o_snd_dev opts) optarg\<rparr>))
      else if c = CHR ''t'' then
        (if optarg = ''wav'' then Inr (opts\<lparr>o_file_type := FILE_TYPE_WAV\<rparr>)
         else if optarg = ''raw'' then Inr (opts\<lparr>o_file_type := FILE_TYPE_RAW\<rparr>)
         else Inl 127)
      else if c = CHR ''c'' then Inr (opts\<lparr>o_channels := atoi optarg, o_channels_user := True\<rparr>)
      else if c = CHR ''f'' then
        (let (format, adj) = fmtstr_to_fmt optarg (o_adjust opts)
         in if format < 0 then Inl 127
            else Inr (opts\<lparr>o_format := format, o_adjust := adj, o_format_user := True\<rparr>))
      else if c = CHR ''r'' then
        (let speed = atoi optarg
         in if rate_is_supported speed = 0 then Inl 127 else Inr (opts\<lparr>o_speed := speed, o_speed_user := True\<rparr>))
      else if c = CHR ''d'' then
        (let duration = atoi optarg in if duration = 0 then Inl 127 else Inr (opts\<lparr>o_duration := duration\<rparr>))
      else if c = CHR ''B'' then Inr (opts\<lparr>o_buffer_size := atoi optarg\<rparr>)
      else if c = CHR ''v'' then Inr (opts\<lparr>o_debug_level := o_debug_level opts + 1\<rparr>)
      else if c = CHR ''P'' then Inr (opts\<lparr>o_replay_enable := True\<rparr>)
      else if c = CHR ''p'' then
        (if length optarg > 127 then Inl 127
         else Inr (opts\<lparr>o_replay_file := copy_into (o_replay_file opts) optarg\<rparr>))
      else if c = CHR ''R'' then Inr (opts\<lparr>o_record_enable := True\<rparr>)
      else if c = CHR ''w'' then
        (if length optarg > 127 then Inl 127
         else Inr (opts\<lparr>o_record_file := copy_into (o_record_file opts) optarg\<rparr>))
      else if c = CHR ''o'' then
        (let vol = atoi optarg in if vol < 0 \<or> vol > 100 then Inl 127 else Inr (opts\<lparr>o_vol := vol\<rparr>))
      else Inl 127)"

fun opt_loop :: "(char \<times> string) list \<Rightarrow> options \<Rightarrow> int + options" where
  "opt_loop [] opts = Inr opts"
| "opt_loop ((c, optarg) # args) opts =
     (case opt_step c optarg opts of Inl r \<Rightarrow> Inl r | Inr opts \<Rightarrow> opt_loop args opts)"

section \<open>main\<close>

text \<open>What \<open>main\<close> ends with: a value, or the threads it starts and waits for, after which it returns 0.\<close>

datatype action = Exit int | Threads "replay_params option" "record_params option"

definition text_of :: "string \<Rightarrow> stop + string" where
  "text_of arr = (case c_string arr of None \<Rightarrow> Inl Fault | Some t \<Rightarrow> Inr t)"

definition set_volume :: "options \<Rightarrow> fs \<Rightarrow> bool \<times> fs" where
  "set_volume opts s =
     (let (mixer_fd, s) = f_open ''/dev/snd/mixer'' O_RDWR False s
      in if mixer_fd < 0 then (False, s)
         else
           let s = (if o_replay_enable opts then snd (f_ioctl mixer_fd SOUND_MIXER_WRITE_VOLUME (o_vol opts) s) else s);
               s = (if o_record_enable opts then snd (f_ioctl mixer_fd SOUND_MIXER_WRITE_MIC (o_vol opts) s) else s)
           in (True, s))"

text \<open>The header of the file to play: the options with its format, channels and rate where the user gave
  none, and the length of its data.\<close>

definition header_options :: "wav_info \<Rightarrow> options \<Rightarrow> options" where
  "header_options info opts =
     (let opts = (if o_format_user opts then opts
                  else if w_bits info = 8 then opts\<lparr>o_format := FMT8BITS\<rparr>
                  else if w_bits info = 16 then opts\<lparr>o_format := FMT16BITS\<rparr>
                  else if w_bits info = 24 then opts\<lparr>o_format := FMT24BITS\<rparr>
                  else opts);
          opts = (if o_channels_user opts then opts else opts\<lparr>o_channels := sint (w_channels info)\<rparr>)
      in if o_speed_user opts then opts else opts\<lparr>o_speed := sint (w_sample_rate info)\<rparr>)"

definition read_header :: "int \<Rightarrow> options \<Rightarrow> fs \<Rightarrow> stop + ((options \<times> int) option \<times> fs)" where
  "read_header replay_fd opts s =
     (case f_read replay_fd MAX_WAV_HEAD_SIZE s of
        (None, s) \<Rightarrow> Inr (None, s)
      | (Some buff, s) \<Rightarrow>
          if length buff \<noteq> MAX_WAV_HEAD_SIZE then Inr (None, s)
          else
            bindE (parse_wav_header buff \<lparr>head_len = 0, w_channels = 0, w_sample_rate = 0, w_bits = 0\<rparr>)
              (\<lambda>(is_wav_file, info).
                if is_wav_file = 0 then Inr (None, s)
                else Inr (Some (header_options info opts, is_wav_file), f_lseek replay_fd (head_len info) s)))"

text \<open>The recording's file and, for a WAV file, its header.\<close>

definition prepare_record :: "bytes \<Rightarrow> string \<Rightarrow> options \<Rightarrow> fs \<Rightarrow> stop + (int \<times> fs)" where
  "prepare_record stack record_file opts s =
     (let (record_fd, s) = open_file record_file O_WRONLY True s
      in if record_fd < 0 then Inr (-1, s)
         else if o_file_type opts = FILE_TYPE_WAV then
           let bits = format_bits (o_format opts);
               record_len = record_length bits (o_channels opts) (o_speed opts) (o_duration opts)
           in bindE (init_wav_header stack record_len (word_of_int (o_channels opts)) (word_of_int (o_speed opts))
                       (word_of_int bits)) (\<lambda>head.
              bindE (write_loop record_fd head 0 (int WAV_HEAD_SIZE) s) (\<lambda>(ok, s).
                Inr (if ok then record_fd else -1, s)))
         else Inr (record_fd, s))"

text \<open>The end of \<open>main\<close>: the device is configured and the parameters of the threads are set.\<close>

definition start_threads :: "bool \<Rightarrow> bool \<Rightarrow> bool \<Rightarrow> int \<Rightarrow> int \<Rightarrow> int \<Rightarrow> int \<Rightarrow> options \<Rightarrow> fs \<Rightarrow> action \<times> fs" where
  "start_threads replay rec is_dev_reg_file dev_fd replay_fd replay_data_len record_fd opts s =
     (let (r, s) = (if (rec \<or> replay) \<and> \<not> is_dev_reg_file
                    then config_device dev_fd (o_format opts) (o_channels opts) (o_speed opts) s
                    else (0, s)) in
      if r < 0 then (Exit (-1), s)
      else
        (Threads
          (if replay
           then Some \<lparr>p_dev_fd = dev_fd, p_replay_fd = replay_fd, p_buffer_size = o_buffer_size opts,
                  p_replay_data_len = replay_data_len, p_format = o_format opts,
                  p_channels = o_channels opts, p_speed = o_speed opts, p_file_type = o_file_type opts\<rparr>
           else None)
          (if rec
           then Some \<lparr>r_dev_fd = dev_fd, r_record_fd = record_fd, r_buffer_size = o_buffer_size opts,
                  r_duration = o_duration opts, r_format = o_format opts,
                  r_channels = o_channels opts, r_speed = o_speed opts, r_file_type = o_file_type opts\<rparr>
           else None), s))"

definition sndkit_main :: "(nat \<Rightarrow> bytes option) \<Rightarrow> string \<Rightarrow> bytes \<Rightarrow> (char \<times> string) list \<Rightarrow> fs \<Rightarrow>
    stop + (action \<times> fs)" where
  "sndkit_main malloc stack head_stack args s =
     (case opt_loop args (init_options stack) of
        Inl r \<Rightarrow> Inr (Exit r, s)
      | Inr opts \<Rightarrow>
          bindE (text_of (o_record_file opts)) (\<lambda>record_file.
          bindE (text_of (o_replay_file opts)) (\<lambda>replay_file.
          let replay = o_replay_enable opts; rec = o_record_enable opts in
          if o_raw_to_wav opts then
            bindE (makewav malloc head_stack record_file replay_file (o_channels opts) (o_speed opts) (o_format opts) s)
              (\<lambda>(r, s). Inr (Exit r, s))
          else if o_strip_wav opts then
            bindE (strip_wav malloc 0 record_file replay_file s) (\<lambda>(r, s). Inr (Exit r, s))
          else if hd (o_snd_dev opts) = NUL then Inr (Exit 127, s)
          else if rec \<and> record_file = [] then Inr (Exit 127, s)
          else let (ok, s) = set_volume opts s in
          if \<not> ok then Inr (Exit 1, s)
          else
            bindE (if replay \<or> rec
                   then bindE (text_of (o_snd_dev opts)) (\<lambda>snd_dev.
                          Inr (open_device snd_dev (if replay \<and> rec then O_RDWR else if replay then O_WRONLY else O_RDONLY) s))
                   else Inr (-1, False, s)) (\<lambda>(dev_fd, is_dev_reg_file, s).
            if (rec \<or> replay) \<and> dev_fd < 0 then Inr (Exit (-1), s)
            else
              let (replay_fd, s) = (if replay \<and> replay_file \<noteq> [] then open_file replay_file O_RDONLY False s
                                    else if replay then (0, s) else (-1, s)) in
              if replay \<and> replay_file \<noteq> [] \<and> replay_fd < 0 then Inr (Exit (-1), s)
              else
                bindE (if replay \<and> o_file_type opts = FILE_TYPE_WAV then read_header replay_fd opts s
                       else Inr (Some (opts, 0), s)) (\<lambda>(header, s).
                (case header of None \<Rightarrow> Inr (Exit (-1), s) | Some (opts, replay_data_len) \<Rightarrow>
                bindE (if rec then prepare_record head_stack record_file opts s else Inr (-1, s)) (\<lambda>(record_fd, s).
                if rec \<and> record_fd < 0 then Inr (Exit (-1), s)
                else
                  Inr (start_threads replay rec is_dev_reg_file dev_fd replay_fd replay_data_len record_fd opts s))))))))"

section \<open>The name of the device\<close>

lemma NUL_not_in_default: "NUL \<notin> set DEFAULT_SND_DEV" "length DEFAULT_SND_DEV = 12"
  by (simp_all add: DEFAULT_SND_DEV_def NUL_def)

text \<open>A device name given with \<^verbatim>\<open>-D\<close> is copied over the default name without a terminating NUL: a
  name shorter than \<^verbatim>\<open>/dev/snd/dsp\<close> gets the rest of it as its tail (\<^verbatim>\<open>/dev/dsp\<close> becomes
  \<^verbatim>\<open>/dev/dsp/dsp\<close>), one of 12 characters replaces it, and a longer one is followed by whatever the
  array held behind the default name, which nothing has initialised.\<close>

theorem device_name_tail:
  assumes "NUL \<notin> set name" and "length name \<le> 127" and "length stack = 128"
  shows "\<exists>opts. opt_loop [(CHR ''D'', name)] (init_options stack) = Inr opts \<and>
    (length name \<le> 12 \<longrightarrow> text_of (o_snd_dev opts) = Inr (name @ drop (length name) DEFAULT_SND_DEV)) \<and>
    (12 < length name \<longrightarrow> text_of (o_snd_dev opts) =
       (case c_string (drop (length name) stack) of None \<Rightarrow> Inl Fault | Some tail \<Rightarrow> Inr (name @ tail)))"
proof -
  define arr where "arr = copy_into (copy_into stack (DEFAULT_SND_DEV @ [NUL])) name"
  have o': "opt_loop [(CHR ''D'', name)] (init_options stack) = Inr ((init_options stack)\<lparr>o_snd_dev := arr\<rparr>)"
    using assms(2) by (simp add: opt_step_def init_options_def arr_def)
  have app: "c_string (xs @ ys) = map_option ((@) xs) (c_string ys)" if "NUL \<notin> set xs" for xs ys
  proof -
    have "takeWhile (\<lambda>c. c \<noteq> NUL) (xs @ ys) = xs @ takeWhile (\<lambda>c. c \<noteq> NUL) ys"
      using that by (intro takeWhile_append2) auto
    then show ?thesis using that by (simp add: c_string_def)
  qed
  have "text_of arr = Inr (name @ drop (length name) DEFAULT_SND_DEV)" if "length name \<le> 12"
  proof -
    have "arr = (name @ drop (length name) DEFAULT_SND_DEV) @ NUL # drop 13 stack"
      using that by (simp add: arr_def copy_into_def NUL_not_in_default)
    moreover have "NUL \<notin> set (name @ drop (length name) DEFAULT_SND_DEV)"
      using assms(1) NUL_not_in_default(1) by (auto dest: in_set_dropD)
    moreover have "c_string (NUL # z) = Some []" for z by (simp add: c_string_def)
    ultimately show ?thesis using app by (simp add: text_of_def)
  qed
  moreover have "text_of arr = (case c_string (drop (length name) stack) of None \<Rightarrow> Inl Fault | Some tail \<Rightarrow> Inr (name @ tail))"
    if "12 < length name"
  proof -
    have "arr = name @ drop (length name) stack"
      using that by (simp add: arr_def copy_into_def NUL_not_in_default drop_Cons')
    then show ?thesis using app [OF assms(1)] by (simp add: text_of_def split: option.split)
  qed
  ultimately show ?thesis using o' by simp
qed

theorem device_name_tail_witness:
  "\<exists>opts. opt_loop [(CHR ''D'', ''/dev/dsp'')] (init_options (replicate 128 CHR ''x'')) = Inr opts \<and>
    text_of (o_snd_dev opts) = Inr ''/dev/dsp/dsp''"
  using device_name_tail [of "''/dev/dsp''" "replicate 128 CHR ''x''"] by (auto simp: NUL_def DEFAULT_SND_DEV_def)

section \<open>The tool from the command line to the device\<close>

definition sound_system :: "fs \<Rightarrow> string \<Rightarrow> bytes \<Rightarrow> bool" where
  "sound_system s name d \<longleftrightarrow> fs_nodes s ''/dev/snd/mixer'' = Some (Dev [] []) \<and>
     fs_nodes s DEFAULT_SND_DEV = Some (Dev [] []) \<and> fs_nodes s name = Some (Reg d) \<and>
     (\<forall>p. \<not> fs_denied s p) \<and> fs_plan s = [] \<and> (\<forall>c v. fs_driver s c v = Some v)"

lemma f_open_some:
  "fs_nodes s path = Some nd \<Longrightarrow> \<not> fs_denied s path \<Longrightarrow>
   f_open path m c s = (int (fs_next s), s\<lparr>fs_fds := (fs_fds s)(int (fs_next s) \<mapsto> (path, 0)), fs_next := Suc (fs_next s)\<rparr>)"
  by (simp add: f_open_def fun_upd_idem)

lemma open_option_step:
  "NUL \<notin> set name \<Longrightarrow> length name \<le> 127 \<Longrightarrow> text_of (copy_into (replicate 128 NUL) name) = Inr name"
proof -
  assume n: "NUL \<notin> set name" "length name \<le> 127"
  have "copy_into (replicate 128 NUL) name = name @ NUL # replicate (127 - length name) NUL"
    using n(2) by (simp add: copy_into_def Suc_diff_le flip: replicate_Suc)
  moreover have "takeWhile (\<lambda>c. c \<noteq> NUL) (name @ NUL # z) = name" for z
    using n(1) by (induction name) auto
  ultimately show ?thesis by (simp add: text_of_def c_string_def)
qed

lemma sint_uint_31: "(w :: u32) < 2147483648 \<Longrightarrow> sint w = uint w"
proof -
  assume "w < 2147483648"
  then have "uint w < 2147483648" by (simp add: word_less_def)
  moreover have "- 2147483648 \<le> uint w" by (rule order_trans [of _ 0]) simp_all
  ultimately show ?thesis by (simp add: sint_uint signed_take_bit_int_eq_self)
qed

definition wav_format :: "u32 \<Rightarrow> int" where
  "wav_format b = (if b = 8 then FMT8BITS else FMT16BITS)"

text \<open>The options that a header gives, and the header of a file that has just been opened.\<close>

lemma header_options_wav:
  assumes "b = 8 \<or> b = 16" and "c < 65536" "r < 2147483648"
    and "\<not> o_format_user opts" "\<not> o_channels_user opts" "\<not> o_speed_user opts"
  shows "header_options (fmt_info 44 (wav_fmt c r b)) opts = opts\<lparr>o_format := wav_format b, o_channels := uint c, o_speed := uint r\<rparr>"
proof -
  have "c < 2147483648" using assms(2) by (rule less_trans) simp
  then have "sint (ucast (ucast c :: u16) :: u32) = uint c" "sint r = uint r"
    using sint_uint_31 assms(2,3) ucast_16_id by simp_all
  moreover have "b < 65536" using assms(1) by auto
  then have "ucast (ucast b :: u16) = b" by (rule ucast_16_id)
  ultimately show ?thesis
    using assms(1,4-6) by (auto simp: header_options_def fmt_info_def wav_fmt_def wav_format_def Let_def)
qed

lemma read_header_wav:
  assumes "fs_fds s fd = Some (name, 0)" and "fs_nodes s name = Some (Reg (wav_header (int (length d)) c r b @ d))" and "fs_plan s = []"
    and b: "b = 8 \<or> b = 16" "c < 65536" "r < 2147483648" and d: "212 \<le> length d" "length d < 2147483648"
    and u: "\<not> o_format_user opts" "\<not> o_channels_user opts" "\<not> o_speed_user opts"
  shows "read_header fd opts s = Inr (Some (opts\<lparr>o_format := wav_format b, o_channels := uint c, o_speed := uint r\<rparr>, int (length d)),
    s\<lparr>fs_fds := (fs_fds s)(fd \<mapsto> (name, 44))\<rparr>)"
proof -
  let ?t = "take 256 (wav_header (int (length d)) c r b @ d)"
  have "f_read fd 256 s = (Some ?t, s\<lparr>fs_fds := (fs_fds s)(fd \<mapsto> (name, 256))\<rparr>)" "length ?t = 256"
    using assms(1-3) d by (simp_all add: f_read_def next_outcome_def Let_def del: take_append)
  moreover have "?t = wav_header (int (length d)) c r b @ take 212 d" by simp
  then have "parse_wav_header ?t info = Inr (int (length d), fmt_info 44 (wav_fmt c r b))" for info
    using wav_header_head [of "int (length d)" c r b] sint_word_of_int_id [of "int (length d)"] d(2)
    by (simp del: of_int_of_nat_eq)
  moreover have "d \<noteq> []" using d(1) by auto
  ultimately show ?thesis
    using header_options_wav [OF b u] by (simp add: read_header_def MAX_WAV_HEAD_SIZE_def f_lseek_def fmt_info_def)
qed

text \<open>The system and the player when everything is set up: the mixer, the device and the file are open on the next three
  descriptors, the file behind its header.\<close>

definition set_up :: "fs \<Rightarrow> string \<Rightarrow> int \<Rightarrow> int \<Rightarrow> int \<Rightarrow> fs" where
  "set_up s name fmt chn spd =
     (let k = int (fs_next s) in
      s\<lparr>fs_fds := (fs_fds s)(k \<mapsto> (''/dev/snd/mixer'', 0), k + 1 \<mapsto> (DEFAULT_SND_DEV, 0), k + 2 \<mapsto> (name, 44)),
        fs_next := Suc (Suc (Suc (fs_next s))),
        fs_ctl := fs_ctl s @ [(k, SOUND_MIXER_WRITE_VOLUME, 0), (k + 1, SNDCTL_DSP_SETFMT, fmt),
          (k + 1, SNDCTL_DSP_CHANNELS, chn), (k + 1, SNDCTL_DSP_SPEED, spd)]\<rparr>)"

definition wav_player :: "nat \<Rightarrow> nat \<Rightarrow> int \<Rightarrow> int \<Rightarrow> int \<Rightarrow> replay_params" where
  "wav_player k len fmt chn spd = \<lparr>p_dev_fd = int k + 1, p_replay_fd = int k + 2, p_buffer_size = DEFAULT_BUFF_SIZE,
     p_replay_data_len = int len, p_format = fmt, p_channels = chn, p_speed = spd, p_file_type = FILE_TYPE_WAV\<rparr>"

lemma sndkit_sets_up:
  assumes sys: "sound_system s name (wav_header (int (length d)) c r b @ d)" and b: "b = 8 \<or> b = 16" "c < 65536" "r < 2147483648"
    and name: "NUL \<notin> set name" "length name \<le> 127" "name \<noteq> []" and d: "212 \<le> length d" "length d < 2147483648"
    and st: "length stack = 128"
  shows "sndkit_main malloc stack hs [(CHR ''P'', []), (CHR ''p'', name)] s =
    Inr (Threads (Some (wav_player (fs_next s) (length d) (wav_format b) (uint c) (uint r))) None,
      set_up s name (wav_format b) (uint c) (uint r))"
proof -
  define k where "k = fs_next s"
  define s1 where "s1 = s\<lparr>fs_fds := (fs_fds s)(int k \<mapsto> (''/dev/snd/mixer'', 0)), fs_next := Suc k,
    fs_ctl := fs_ctl s @ [(int k, SOUND_MIXER_WRITE_VOLUME, 0)]\<rparr>"
  define s2 where "s2 = s1\<lparr>fs_fds := (fs_fds s1)(int k + 1 \<mapsto> (DEFAULT_SND_DEV, 0)), fs_next := Suc (Suc k)\<rparr>"
  define s3 where "s3 = s2\<lparr>fs_fds := (fs_fds s2)(int k + 2 \<mapsto> (name, 0)), fs_next := Suc (Suc (Suc k))\<rparr>"
  define s4 where "s4 = s3\<lparr>fs_fds := (fs_fds s3)(int k + 2 \<mapsto> (name, 44))\<rparr>"
  note S = sys [unfolded sound_system_def]
  define opts where "opts = (init_options stack)\<lparr>o_replay_enable := True, o_replay_file := copy_into (replicate 128 NUL) name\<rparr>"
  have loop: "opt_loop [(CHR ''P'', []), (CHR ''p'', name)] (init_options stack) = Inr opts"
    using name(2) by (simp add: opt_step_def opts_def init_options_def)
  have vol: "set_volume opts s = (True, s1)"
    using S f_open_some [of s "''/dev/snd/mixer''"]
    by (simp add: set_volume_def opts_def init_options_def f_ioctl_def s1_def k_def)
  have dev: "open_device DEFAULT_SND_DEV O_WRONLY s1 = (int k + 1, False, s2)"
    using S f_open_some [of s1 DEFAULT_SND_DEV] by (simp add: open_device_def f_size_def s1_def s2_def add.commute)
  have op: "f_open name O_RDONLY False s2 = (int k + 2, s3)"
    using S f_open_some [of s2 name] by (simp add: s1_def s2_def s3_def add.commute)
  have head: "read_header (int k + 2) opts s3 =
      Inr (Some (opts\<lparr>o_format := wav_format b, o_channels := uint c, o_speed := uint r\<rparr>, int (length d)), s4)"
    unfolding s4_def
    by (rule read_header_wav [OF _ _ _ b d]) (use S in \<open>simp_all add: s1_def s2_def s3_def opts_def init_options_def\<close>)
  have cfg: "config_device (int k + 1) (wav_format b) (uint c) (uint r) s4 = (0, set_up s name (wav_format b) (uint c) (uint r))"
    using S by (simp add: config_device_def set_param_def f_ioctl_def s1_def s2_def s3_def s4_def set_up_def k_def Let_def)
  have "text_of (copy_into stack (DEFAULT_SND_DEV @ [NUL])) = Inr DEFAULT_SND_DEV" "hd (copy_into stack (DEFAULT_SND_DEV @ [NUL])) \<noteq> NUL"
    by (simp_all add: copy_into_def text_of_def c_string_def DEFAULT_SND_DEV_def NUL_def)
  moreover have "text_of (replicate 128 NUL) = Inr []" by (simp add: text_of_def c_string_def)
  ultimately show ?thesis
    using loop vol dev op head cfg open_option_step [OF name(1,2)] name(3)
    by (simp add: sndkit_main_def start_threads_def opts_def init_options_def open_file_def wav_player_def k_def)
qed

text \<open>C4. \<^verbatim>\<open>sndkit -P -p name\<close> on a WAV file of 8 or 16 bits that its own header describes: on a system
  where the mixer, the default device and the file can be opened, drivers take every value and
  transfers are complete, \<open>main\<close> starts the player with the format, channels and rate of the header;
  the device has been asked for format, channels and rate in this order; and the player then gives
  the device exactly the data of the file.\<close>

theorem sndkit_plays_wav:
  assumes sys: "sound_system s name (wav_header (int (length d)) c r b @ d)" and "b = 8 \<or> b = 16"
    and cr: "c < 65536" "r < 2147483648" and name: "NUL \<notin> set name" "length name \<le> 127" "name \<noteq> []"
    and d: "212 \<le> length d" "length d < 2147483648" and st: "length stack = 128"
    and m: "\<And>n. \<exists>b. malloc n = Some b \<and> length b = n"
  shows "\<exists>P s1 s2. sndkit_main malloc stack hs [(CHR ''P'', []), (CHR ''p'', name)] s = Inr (Threads (Some P) None, s1) \<and>
    p_format P = (if b = 8 then FMT8BITS else FMT16BITS) \<and> p_channels P = uint c \<and> p_speed P = uint r \<and>
    fs_ctl s1 = fs_ctl s @ [(int (fs_next s), SOUND_MIXER_WRITE_VOLUME, 0),
      (int (fs_next s) + 1, SNDCTL_DSP_SETFMT, p_format P), (int (fs_next s) + 1, SNDCTL_DSP_CHANNELS, uint c),
      (int (fs_next s) + 1, SNDCTL_DSP_SPEED, uint r)] \<and>
    play malloc P s1 = Some (Inr (0, s2)) \<and> given (p_dev_fd P) s2 = d"
proof -
  let ?P = "wav_player (fs_next s) (length d) (wav_format b) (uint c) (uint r)"
  let ?s = "set_up s name (wav_format b) (uint c) (uint r)"
  have main: "sndkit_main malloc stack hs [(CHR ''P'', []), (CHR ''p'', name)] s = Inr (Threads (Some ?P) None, ?s)"
    by (rule sndkit_sets_up [OF sys assms(2) cr name d st])
  note S = sys [unfolded sound_system_def]
  have neq: "name \<noteq> DEFAULT_SND_DEV" using S by auto
  have ap: "apart (p_replay_fd ?P) (p_dev_fd ?P) ?s" "left (p_replay_fd ?P) ?s = d" "given (p_dev_fd ?P) ?s = []"
    using S neq by (simp_all add: apart_def at_data_def left_def given_def set_up_def wav_player_def Let_def)
  have F: "\<not> converts ?P" "0 < p_buffer_size ?P" "p_buffer_size ?P < 1000000000" "p_replay_data_len ?P = int (length d)"
    "d \<noteq> []"
    using d(1) by (auto simp: converts_def wav_player_def wav_format_def fmt_consts DEFAULT_BUFF_SIZE_def)
  obtain s' j where p: "play malloc ?P ?s = Some (Inr (0, s'))"
    "played False (int (length d)) (p_buffer_size ?P) (length d) j" "given (p_dev_fd ?P) s' = take j d"
    using play_run [OF F(1-3) m ap(1)] unfolding ap(2,3) F(4) using F(5) by auto
  then have "given (p_dev_fd ?P) s' = d" using played_all by auto
  then show ?thesis
    using main p(1) by (intro exI [of _ ?P] exI [of _ ?s] exI [of _ s']) (simp add: wav_player_def wav_format_def set_up_def Let_def)
qed

definition phone :: fs where
  "phone = \<lparr>fs_nodes = [''/dev/snd/mixer'' \<mapsto> Dev [] [], ''/dev/snd/dsp'' \<mapsto> Dev [] [],
       ''a.wav'' \<mapsto> Reg (wav_header 300 2 44100 16 @ replicate 300 7)],
     fs_denied = (\<lambda>_. False), fs_fds = Map.empty, fs_next = 3, fs_plan = [], fs_driver = (\<lambda>_ v. Some v), fs_ctl = []\<rparr>"

theorem sndkit_plays_wav_witness:
  "\<exists>P s1 s2. sndkit_main (\<lambda>n. Some (replicate n 0)) (replicate 128 CHR ''x'') []
      [(CHR ''P'', []), (CHR ''p'', ''a.wav'')] phone = Inr (Threads (Some P) None, s1) \<and>
    p_format P = FMT16BITS \<and> p_channels P = 2 \<and> p_speed P = 44100 \<and>
    fs_ctl s1 = [(3, SOUND_MIXER_WRITE_VOLUME, 0), (4, SNDCTL_DSP_SETFMT, FMT16BITS), (4, SNDCTL_DSP_CHANNELS, 2),
      (4, SNDCTL_DSP_SPEED, 44100)] \<and>
    play (\<lambda>n. Some (replicate n 0)) P s1 = Some (Inr (0, s2)) \<and> given (p_dev_fd P) s2 = replicate 300 7"
proof -
  have s: "sound_system phone ''a.wav'' (wav_header (int (length (replicate 300 (7 :: u8)))) 2 44100 16 @ replicate 300 7)"
    by (simp add: sound_system_def phone_def DEFAULT_SND_DEV_def)
  have c: "fs_next phone = 3" "fs_ctl phone = []" by (simp_all add: phone_def)
  obtain P s1 s2 where "sndkit_main (\<lambda>n. Some (replicate n 0)) (replicate 128 CHR ''x'') []
      [(CHR ''P'', []), (CHR ''p'', ''a.wav'')] phone = Inr (Threads (Some P) None, s1)"
    "p_format P = FMT16BITS" "p_channels P = 2" "p_speed P = 44100"
    "fs_ctl s1 = [(3, SOUND_MIXER_WRITE_VOLUME, 0), (4, SNDCTL_DSP_SETFMT, FMT16BITS), (4, SNDCTL_DSP_CHANNELS, 2),
      (4, SNDCTL_DSP_SPEED, 44100)]"
    "play (\<lambda>n. Some (replicate n 0)) P s1 = Some (Inr (0, s2))" "given (p_dev_fd P) s2 = replicate 300 7"
    using sndkit_plays_wav [OF s, of "replicate 128 CHR ''x''" "\<lambda>n. Some (replicate n 0)" "[]"] c
    by (auto simp: NUL_def)
  then show ?thesis by blast
qed

section \<open>What the options can be\<close>

definition opt_ok :: "options \<Rightarrow> bool" where
  "opt_ok opts \<longleftrightarrow> o_format opts \<in> {FMT8BITS, FMT16BITS, FMT24BITS} \<and>
     o_file_type opts \<in> {FILE_TYPE_WAV, FILE_TYPE_RAW} \<and> o_speed opts \<in> set support_rates \<and>
     0 \<le> o_vol opts \<and> o_vol opts \<le> 100 \<and> o_duration opts \<noteq> 0 \<and> length (o_snd_dev opts) = 128 \<and>
     length (o_replay_file opts) = 128 \<and> o_replay_file opts ! 127 = NUL \<and>
     length (o_record_file opts) = 128 \<and> o_record_file opts ! 127 = NUL"

lemma fmtstr_to_fmt_valid:
  "fmtstr_to_fmt t adj = (f, adj') \<Longrightarrow> f = -1 \<or> f \<in> {FMT8BITS, FMT16BITS, FMT24BITS}"
  by (auto simp: fmtstr_to_fmt_def Let_def split: if_splits)

lemma copy_into_array:
  "length arr = 128 \<Longrightarrow> length t \<le> 127 \<Longrightarrow> length (copy_into arr t) = 128 \<and> (arr ! 127 = NUL \<longrightarrow> copy_into arr t ! 127 = NUL)"
  by (simp add: copy_into_def nth_append)

lemma rate_is_supported_iff: "rate_is_supported r \<noteq> 0 \<longleftrightarrow> r \<in> set support_rates"
  by (simp add: rate_is_supported_def list_ex_iff Bex_def)

lemma opt_ok_free:
  assumes "opt_ok opts"
  shows "opt_ok (opts\<lparr>o_raw_to_wav := b\<rparr>)" "opt_ok (opts\<lparr>o_strip_wav := b\<rparr>)" "opt_ok (opts\<lparr>o_replay_enable := b\<rparr>)"
    "opt_ok (opts\<lparr>o_record_enable := b\<rparr>)" "opt_ok (opts\<lparr>o_debug_level := n\<rparr>)" "opt_ok (opts\<lparr>o_buffer_size := n\<rparr>)"
    "opt_ok (opts\<lparr>o_channels := n, o_channels_user := b\<rparr>)"
  using assms by (simp_all add: opt_ok_def)

lemma opt_ok_checked:
  assumes "opt_ok opts"
  shows "t \<in> {FILE_TYPE_WAV, FILE_TYPE_RAW} \<Longrightarrow> opt_ok (opts\<lparr>o_file_type := t\<rparr>)"
    "f \<in> {FMT8BITS, FMT16BITS, FMT24BITS} \<Longrightarrow> opt_ok (opts\<lparr>o_format := f, o_adjust := adj, o_format_user := True\<rparr>)"
    "rate_is_supported n \<noteq> 0 \<Longrightarrow> opt_ok (opts\<lparr>o_speed := n, o_speed_user := True\<rparr>)"
    "n \<noteq> 0 \<Longrightarrow> opt_ok (opts\<lparr>o_duration := n\<rparr>)"
    "0 \<le> n \<Longrightarrow> n \<le> 100 \<Longrightarrow> opt_ok (opts\<lparr>o_vol := n\<rparr>)"
    "length a \<le> 127 \<Longrightarrow> opt_ok (opts\<lparr>o_snd_dev := copy_into (o_snd_dev opts) a\<rparr>)"
    "length a \<le> 127 \<Longrightarrow> opt_ok (opts\<lparr>o_replay_file := copy_into (o_replay_file opts) a\<rparr>)"
    "length a \<le> 127 \<Longrightarrow> opt_ok (opts\<lparr>o_record_file := copy_into (o_record_file opts) a\<rparr>)"
  using assms rate_is_supported_iff by (simp_all add: opt_ok_def copy_into_array)

lemma step_ifE:
  "(if A then x else z) = Inr y \<Longrightarrow> (x = Inr y \<Longrightarrow> A \<Longrightarrow> Q) \<Longrightarrow> (z = Inr y \<Longrightarrow> \<not> A \<Longrightarrow> Q) \<Longrightarrow> Q"
  by (cases A) simp_all

lemma opt_step_ok:
  assumes "opt_ok opts" and "opt_step c t opts = Inr opts'"
  shows "opt_ok opts'"
proof -
  have f: "f \<in> {FMT8BITS, FMT16BITS, FMT24BITS}" if "fmtstr_to_fmt t adj = (f, adj')" "\<not> f < 0" for f adj adj'
    using fmtstr_to_fmt_valid [OF that(1)] that(2) by auto
  show ?thesis
    using assms(2) unfolding opt_step_def Let_def
    by (elim step_ifE)
      (auto simp: opt_ok_free [OF assms(1)] opt_ok_checked [OF assms(1)] not_less dest: f split: prod.splits if_splits)
qed

lemma init_options_ok: "length stack = 128 \<Longrightarrow> opt_ok (init_options stack)"
  by (simp add: opt_ok_def init_options_def copy_into_def NUL_not_in_default DEFAULT_SND_SPD_def support_rates_def
      DEFAULT_DURATION_def)

lemma opt_loop_ok: "opt_ok opts \<Longrightarrow> opt_loop args opts = Inr opts' \<Longrightarrow> opt_ok opts'"
  by (induction args opts rule: opt_loop.induct) (auto split: sum.splits dest: opt_step_ok)

text \<open>C30. Whatever options are given, in any order and number: if the loop over them ends without returning
  from \<open>main\<close>, the format is one of the three the program knows, the file type WAV or raw, the rate one
  of the table, the volume from 0 to 100 and the duration not 0, no array was written outside its
  128 characters, and both file names end inside their arrays.\<close>

theorem options_well_formed:
  assumes "length stack = 128" and "opt_loop args (init_options stack) = Inr opts"
  shows "opt_ok opts \<and> (\<exists>f. text_of (o_replay_file opts) = Inr f) \<and> (\<exists>f. text_of (o_record_file opts) = Inr f)"
proof -
  have "opt_ok opts" using opt_loop_ok init_options_ok assms by blast
  moreover have "\<exists>f. text_of arr = Inr f" if "length arr = 128" "arr ! 127 = NUL" for arr
  proof -
    have "NUL \<in> set arr" using that nth_mem [of 127 arr] by simp
    then show ?thesis by (simp add: text_of_def c_string_def)
  qed
  ultimately show ?thesis by (simp add: opt_ok_def)
qed

theorem options_well_formed_witness:
  "\<exists>opts. opt_loop [(CHR ''P'', []), (CHR ''w'', ''out''), (CHR ''f'', ''U8'')] (init_options (replicate 128 NUL)) = Inr opts \<and>
     opt_ok opts"
proof -
  have "\<exists>opts. opt_loop [(CHR ''P'', []), (CHR ''w'', ''out''), (CHR ''f'', ''U8'')] (init_options (replicate 128 NUL)) = Inr opts"
    by (simp add: opt_step_def fmtstr_to_fmt_def supported_fmts_def fmt_consts)
  then show ?thesis using options_well_formed [of "replicate 128 NUL"] by (auto simp del: opt_loop.simps)
qed

end
