(* ===== verification/Sndtest.thy ===== *)
theory Sndtest
  imports Sndtool
begin

text \<open>
  \<^verbatim>\<open>test_audio/oss_test/sndtest.c\<close>, the sound test: it plays a file on the sound device, or records
  from the digital microphone, until the file is over or the alarm has come. Files and devices are
  those of theory \<open>Files\<close>. The time at which the alarm comes is an argument: the number of times the
  loops still find \<open>alarm_flag\<close> set (\<open>second\<close> is never 0, so the alarm always comes; every loop ends).
  Whether \<open>malloc\<close> finds the block of 2048 bytes is an argument too. Messages are left out.
\<close>

section \<open>Parameters\<close>

text \<open>\<^verbatim>\<open>struct run_params\<close>; the two file names are arrays of 127 characters.\<close>

record run_params =
  t_dsp_fd :: int
  t_mixer_fd :: int
  t_replay_fd :: int
  t_record_fd :: int
  t_jz_dmic_fd :: int
  t_buffer_size :: int
  t_replay_data_len :: int
  t_format :: int
  t_channel :: int
  t_speed :: int
  t_file_type :: int
  t_replay_enable :: bool
  t_record_enable :: bool
  t_rate :: int
  t_volume :: int
  t_replay_file :: string
  t_record_file :: string
  t_replay_file_length :: int
  t_record_file_length :: int
  t_second :: int

text \<open>The variable \<open>params\<close> is static: all zeros when the program starts.\<close>

definition static_params :: run_params where
  "static_params = \<lparr>t_dsp_fd = 0, t_mixer_fd = 0, t_replay_fd = 0, t_record_fd = 0, t_jz_dmic_fd = 0,
     t_buffer_size = 0, t_replay_data_len = 0, t_format = 0, t_channel = 0, t_speed = 0, t_file_type = 0,
     t_replay_enable = False, t_record_enable = False, t_rate = 0, t_volume = 0,
     t_replay_file = replicate 127 NUL, t_record_file = replicate 127 NUL,
     t_replay_file_length = 0, t_record_file_length = 0, t_second = 0\<rparr>"

definition DEVICE_DSP_NAME :: string where "DEVICE_DSP_NAME = ''/dev/snd/dsp''"
definition DEVICE_MIXER_NAME :: string where "DEVICE_MIXER_NAME = ''/dev/snd/mixer''"
definition DEVICE_JZ_DMIC :: string where "DEVICE_JZ_DMIC = ''/dev/jz-dmic''"
definition DEFAULT_BUF_SIZE :: int where "DEFAULT_BUF_SIZE = 1024 * 2"

lemmas device_names = DEVICE_DSP_NAME_def DEVICE_MIXER_NAME_def DEVICE_JZ_DMIC_def

text \<open>\<open>DEFAULT_FORMAT\<close>, \<open>DEFAULT_SND_VOLUME\<close> and the others are written out.\<close>

definition init_params :: "run_params \<Rightarrow> run_params" where
  "init_params P = P\<lparr>t_buffer_size := DEFAULT_BUF_SIZE, t_channel := 2, t_format := FMT16BITS, t_speed := 44100,
     t_volume := 80, t_replay_enable := False, t_record_enable := False, t_second := 5, t_replay_fd := -1,
     t_record_fd := -1, t_dsp_fd := -1, t_mixer_fd := -1\<rparr>"

definition test_fmts :: "string list" where
  "test_fmts = [''S8'', ''U8'', ''S16_LE'', ''S16_BE'', ''U16_LE'', ''U16_BE'',
     ''S24_3LE'', ''S24_3BE'', ''U24_3LE'', ''U24_3BE'']"

text \<open>The switch: \<open>SND_FMT_S8\<close> is 0 and \<open>SND_FMT_U8\<close> is 1, every other case gives 16 bits.\<close>

definition set_format :: "string \<Rightarrow> int" where
  "set_format format =
     (let i = index_of test_fmts format
      in if i = length test_fmts then -1 else if i = 1 \<or> i = 0 then FMT8BITS else FMT16BITS)"

section \<open>The command line\<close>

text \<open>The local variables of \<open>check_arg\<close>.\<close>

record arg_vals =
  a_format :: int
  a_channel :: int
  a_rate :: int
  a_mode :: int
  a_volume :: int
  a_speed :: int
  a_buffer_size :: int
  a_second :: int

definition no_vals :: arg_vals where
  "no_vals = \<lparr>a_format = -1, a_channel = -1, a_rate = -1, a_mode = -1, a_volume = -1, a_speed = -1,
     a_buffer_size = -1, a_second = -1\<rparr>"

text \<open>\<open>strcpy\<close> into an array; a string that does not fit is written past its end.\<close>

definition strcpy :: "string \<Rightarrow> string \<Rightarrow> stop + string" where
  "strcpy arr t = (if length t < length arr then Inr (copy_into arr (t @ [NUL])) else Inl Fault)"

text \<open>One turn of the loop; \<open>None\<close> is the return of -1.\<close>

definition arg_step :: "string \<Rightarrow> string \<Rightarrow> arg_vals \<Rightarrow> run_params \<Rightarrow> stop + (arg_vals \<times> run_params) option" where
  "arg_step arg val v P =
     (if arg = ''--format'' then Inr (Some (v\<lparr>a_format := set_format val\<rparr>, P))
      else if arg = ''--channel'' then Inr (Some (v\<lparr>a_channel := atoi val\<rparr>, P))
      else if arg = ''--rate'' then Inr (Some (v\<lparr>a_rate := atoi val\<rparr>, P))
      else if arg = ''--volume'' then Inr (Some (v\<lparr>a_volume := atoi val\<rparr>, P))
      else if arg = ''--speed'' then Inr (Some (v\<lparr>a_speed := atoi val\<rparr>, P))
      else if arg = ''--buffer'' then Inr (Some (v\<lparr>a_buffer_size := atoi val\<rparr>, P))
      else if arg = ''--time'' then Inr (Some (v\<lparr>a_second := atoi val\<rparr>, P))
      else if arg = ''--replay'' then
        bindE (strcpy (t_replay_file P) val) (\<lambda>f.
          Inr (Some (v\<lparr>a_mode := 1\<rparr>, P\<lparr>t_replay_enable := True, t_replay_file := f\<rparr>)))
      else if arg = ''--record'' then
        bindE (strcpy (t_record_file P) val) (\<lambda>f.
          Inr (Some (v\<lparr>a_mode := 2\<rparr>, P\<lparr>t_record_enable := True, t_record_file := f\<rparr>)))
      else Inr None)"

fun arg_loop :: "string list \<Rightarrow> arg_vals \<Rightarrow> run_params \<Rightarrow> stop + (arg_vals \<times> run_params) option" where
  "arg_loop [] v P = Inr (Some (v, P))"
| "arg_loop [arg] v P = Inr None"
| "arg_loop (arg # val # args) v P =
     bindE (arg_step arg val v P) (\<lambda>r. case r of None \<Rightarrow> Inr None | Some (v, P) \<Rightarrow> arg_loop args v P)"

definition set_given :: "arg_vals \<Rightarrow> run_params \<Rightarrow> run_params" where
  "set_given v P =
     (let P = (if a_format v \<ge> 0 then P\<lparr>t_format := a_format v\<rparr> else P);
          P = (if a_channel v \<ge> 0 then P\<lparr>t_channel := a_channel v\<rparr> else P);
          P = (if a_rate v \<ge> 0 then P\<lparr>t_rate := a_rate v\<rparr> else P);
          P = (if a_volume v \<ge> 0 then P\<lparr>t_volume := a_volume v\<rparr> else P);
          P = (if a_speed v \<ge> 0 then P\<lparr>t_speed := a_speed v\<rparr> else P);
          P = (if a_buffer_size v \<ge> 0 then P\<lparr>t_buffer_size := a_buffer_size v\<rparr> else P)
      in if a_second v > 0 then P\<lparr>t_second := a_second v\<rparr> else P)"

text \<open>The arguments behind the name of the program; \<open>usage\<close> and \<open>version\<close> return -1 as well.\<close>

definition check_arg :: "string list \<Rightarrow> run_params \<Rightarrow> stop + run_params option" where
  "check_arg args P =
     (if args = [] \<or> args = [''--version''] \<or> args = [''--help''] then Inr None
      else bindE (arg_loop args no_vals P) (\<lambda>r.
        case r of
          None \<Rightarrow> Inr None
        | Some (v, P) \<Rightarrow>
            if t_replay_enable P \<and> t_record_enable P then Inr None
            else if \<not> (t_replay_enable P \<or> t_record_enable P) then Inr None
            else Inr (Some (set_given v P))))"

section \<open>Devices and files\<close>

definition test_open_device :: "string \<Rightarrow> access \<Rightarrow> fs \<Rightarrow> int \<times> fs" where
  "test_open_device dev flag s = f_open dev flag False s"

definition test_open_file :: "string \<Rightarrow> access \<Rightarrow> fs \<Rightarrow> int \<times> fs" where
  "test_open_file name flag s = f_open name flag False s"

text \<open>What the drivers answer is only reported.\<close>

definition test_config_device :: "run_params \<Rightarrow> fs \<Rightarrow> fs" where
  "test_config_device P s =
     (let s = snd (f_ioctl (t_dsp_fd P) SNDCTL_DSP_CHANNELS (t_channel P) s);
          s = snd (f_ioctl (t_dsp_fd P) SNDCTL_DSP_SETFMT (t_format P) s);
          s = snd (f_ioctl (t_dsp_fd P) SNDCTL_DSP_SPEED (t_speed P) s)
      in if t_replay_enable P then snd (f_ioctl (t_mixer_fd P) SOUND_MIXER_WRITE_VOLUME (t_volume P) s) else s)"

text \<open>\<open>st_size\<close> of what is not a regular file is 0, as is the length when \<open>stat\<close> fails.\<close>

definition file_length :: "string \<Rightarrow> fs \<Rightarrow> int" where
  "file_length name s = (case f_size name s of None \<Rightarrow> 0 | Some n \<Rightarrow> i32 (int n))"

definition init_replay :: "run_params \<Rightarrow> fs \<Rightarrow> stop + (int \<times> run_params \<times> fs)" where
  "init_replay P s =
     bindE (text_of (t_replay_file P)) (\<lambda>name.
     let (fd, s) = test_open_device DEVICE_DSP_NAME O_WRONLY s; P = P\<lparr>t_dsp_fd := fd\<rparr> in
     if fd < 0 then Inr (-1, P, s)
     else
       let (fd, s) = test_open_file name O_RDONLY s; P = P\<lparr>t_replay_fd := fd\<rparr> in
       if fd < 0 then Inr (-1, P, s)
       else Inr (0, P\<lparr>t_replay_file_length := file_length name s\<rparr>, s))"

definition init_record :: "run_params \<Rightarrow> fs \<Rightarrow> stop + (int \<times> run_params \<times> fs)" where
  "init_record P s =
     bindE (text_of (t_record_file P)) (\<lambda>name.
     let (fd, s) = test_open_device DEVICE_DSP_NAME O_RDONLY s; P = P\<lparr>t_dsp_fd := fd\<rparr> in
     if fd < 0 then Inr (-1, P, s)
     else
       let (fd, s) = test_open_device DEVICE_JZ_DMIC O_RDONLY s; P = P\<lparr>t_jz_dmic_fd := fd\<rparr> in
       if fd < 0 then Inr (-1, P, s)
       else
         let (fd, s) = test_open_file name O_WRONLY s; P = P\<lparr>t_record_fd := fd\<rparr> in
         if fd < 0 then Inr (-1, P, s)
         else Inr (0, P\<lparr>t_record_file_length := file_length name s\<rparr>, s))"

definition init_mixer :: "run_params \<Rightarrow> fs \<Rightarrow> stop + (int \<times> run_params \<times> fs)" where
  "init_mixer P s =
     (let (fd, s) = test_open_device DEVICE_MIXER_NAME O_WRONLY s; P = P\<lparr>t_mixer_fd := fd\<rparr>
      in if fd < 0 then Inr (-1, P, s) else Inr (0, P, test_config_device P s))"

definition init_audio :: "run_params \<Rightarrow> fs \<Rightarrow> stop + (int \<times> run_params \<times> fs)" where
  "init_audio P s =
     bindE (if t_replay_enable P \<and> t_replay_file P ! 0 \<noteq> NUL then init_replay P s else Inr (0, P, s)) (\<lambda>(r, P, s).
     if r < 0 then Inr (-1, P, s)
     else
     bindE (if t_record_enable P \<and> t_record_file P ! 0 \<noteq> NUL then init_record P s else Inr (0, P, s)) (\<lambda>(r, P, s).
     if r < 0 then Inr (-1, P, s)
     else init_mixer P s))"

definition close_audio :: "run_params \<Rightarrow> fs \<Rightarrow> fs" where
  "close_audio P s =
     (let s = (if t_replay_enable P \<or> t_record_enable P then f_close (t_dsp_fd P) s else s);
          s = (if t_replay_enable P then f_close (t_replay_fd P) s else s);
          s = (if t_record_enable P then f_close (t_jz_dmic_fd P) (f_close (t_record_fd P) s) else s)
      in f_close (t_mixer_fd P) s)"

section \<open>The run\<close>

text \<open>The loops return how often the flag will still be found set, and the state.\<close>

fun test_record_loop :: "nat \<Rightarrow> run_params \<Rightarrow> fs \<Rightarrow> nat \<times> fs" where
  "test_record_loop 0 P s = (0, s)"
| "test_record_loop (Suc n) P s =
     (case f_read (t_jz_dmic_fd P) (nat DEFAULT_BUF_SIZE) s of
        (None, s) \<Rightarrow> (n, s)
      | (Some b, s) \<Rightarrow>
          if b = [] then test_record_loop n P s
          else (case f_write (t_record_fd P) b s of
              (None, s) \<Rightarrow> (n, s)
            | (Some _, s) \<Rightarrow> test_record_loop n P s))"

fun test_replay_loop :: "nat \<Rightarrow> run_params \<Rightarrow> int \<Rightarrow> fs \<Rightarrow> nat \<times> fs" where
  "test_replay_loop 0 P ops s = (0, s)"
| "test_replay_loop (Suc n) P ops s =
     (if ops < t_replay_file_length P then
        (case f_read (t_replay_fd P) (nat DEFAULT_BUF_SIZE) s of
           (None, s) \<Rightarrow> (n, s)
         | (Some b, s) \<Rightarrow>
             if b = [] then test_replay_loop n P ops s
             else (case f_write (t_dsp_fd P) b s of
                 (None, s) \<Rightarrow> (n, s)
               | (Some _, s) \<Rightarrow> test_replay_loop n P (i32 (ops + int (length b))) s))
      else (Suc n, s))"

definition run :: "bool \<Rightarrow> nat \<Rightarrow> run_params \<Rightarrow> fs \<Rightarrow> int \<times> fs" where
  "run memory n P s =
     (if \<not> memory then (-1, s)
      else
        let (n, s) = (if t_record_enable P then test_record_loop n P (snd (f_write (t_mixer_fd P) [0x38] s)) else (n, s));
            (n, s) = (if t_replay_enable P then test_replay_loop n P 0 (snd (f_write (t_mixer_fd P) [0x36] s)) else (n, s))
        in (0, s))"

text \<open>The exit status.\<close>

definition sndtest_main :: "string list \<Rightarrow> bool \<Rightarrow> nat \<Rightarrow> fs \<Rightarrow> stop + (int \<times> fs)" where
  "sndtest_main args memory n s =
     bindE (check_arg args (init_params static_params)) (\<lambda>r.
       case r of
         None \<Rightarrow> Inr (1, s)
       | Some P \<Rightarrow>
           bindE (init_audio P s) (\<lambda>(r, P, s).
             if r \<noteq> 0 then Inr (1, s)
             else
               let (r, s) = run memory n P s
               in if r \<noteq> 0 then Inr (1, s) else Inr (0, close_audio P s)))"

section \<open>What the arguments can be\<close>

definition name_ok :: "string \<Rightarrow> bool" where
  "name_ok arr \<longleftrightarrow> length arr = 127 \<and> NUL \<in> set arr"

definition args_ok :: "run_params \<Rightarrow> bool" where
  "args_ok P \<longleftrightarrow> t_format P \<in> {FMT8BITS, FMT16BITS} \<and> 0 \<le> t_channel P \<and> 0 \<le> t_speed P \<and> 0 \<le> t_volume P \<and>
     0 < t_second P \<and> t_replay_enable P \<noteq> t_record_enable P \<and> name_ok (t_replay_file P) \<and> name_ok (t_record_file P)"

lemma text_of_name: "name_ok arr \<Longrightarrow> \<exists>name. text_of arr = Inr name"
  by (simp add: name_ok_def text_of_def c_string_def)

lemma strcpy_name: "strcpy arr t = Inr f \<Longrightarrow> length arr = 127 \<Longrightarrow> name_ok f"
  by (auto simp: strcpy_def name_ok_def copy_into_def split: if_splits)

lemma set_format_valid: "set_format t \<in> {-1, FMT8BITS, FMT16BITS}"
  by (simp add: set_format_def Let_def)

text \<open>What \<open>arg_loop\<close> keeps, and the parameters it does not change.\<close>

definition fixed_part :: "run_params \<Rightarrow> run_params" where
  "fixed_part P = P\<lparr>t_replay_enable := False, t_record_enable := False, t_replay_file := [], t_record_file := []\<rparr>"

definition vals_ok :: "arg_vals \<Rightarrow> run_params \<Rightarrow> bool" where
  "vals_ok v P \<longleftrightarrow> name_ok (t_replay_file P) \<and> name_ok (t_record_file P) \<and> a_format v \<in> {-1, FMT8BITS, FMT16BITS}"

definition keeps_ok :: "arg_vals \<Rightarrow> run_params \<Rightarrow> stop + (arg_vals \<times> run_params) option \<Rightarrow> bool" where
  "keeps_ok v P r \<longleftrightarrow> (\<forall>v' P'. r = Inr (Some (v', P')) \<and> vals_ok v P \<longrightarrow> vals_ok v' P' \<and> fixed_part P' = fixed_part P)"

lemma keeps_ok_if: "(c \<Longrightarrow> keeps_ok v P a) \<Longrightarrow> (\<not> c \<Longrightarrow> keeps_ok v P b) \<Longrightarrow> keeps_ok v P (if c then a else b)"
  by simp

lemma keeps_ok_vals: "a_format w \<in> {a_format v, -1, FMT8BITS, FMT16BITS} \<Longrightarrow> keeps_ok v P (Inr (Some (w, P)))"
  by (auto simp: keeps_ok_def vals_ok_def)

lemma keeps_ok_replay:
  "a_format w = a_format v \<Longrightarrow>
   keeps_ok v P (bindE (strcpy (t_replay_file P) t) (\<lambda>f. Inr (Some (w, P\<lparr>t_replay_enable := True, t_replay_file := f\<rparr>))))"
  using strcpy_name [of "t_replay_file P" t]
  by (auto simp: keeps_ok_def vals_ok_def fixed_part_def bindE_eq_Inr name_ok_def)

lemma keeps_ok_record:
  "a_format w = a_format v \<Longrightarrow>
   keeps_ok v P (bindE (strcpy (t_record_file P) t) (\<lambda>f. Inr (Some (w, P\<lparr>t_record_enable := True, t_record_file := f\<rparr>))))"
  using strcpy_name [of "t_record_file P" t]
  by (auto simp: keeps_ok_def vals_ok_def fixed_part_def bindE_eq_Inr name_ok_def)

lemma arg_step_ok: "keeps_ok v P (arg_step arg val v P)"
  unfolding arg_step_def
proof (intro keeps_ok_if keeps_ok_vals keeps_ok_replay keeps_ok_record)
  show "a_format (v\<lparr>a_format := set_format val\<rparr>) \<in> {a_format v, -1, FMT8BITS, FMT16BITS}"
    using set_format_valid [of val] by simp
qed (simp_all add: keeps_ok_def)

lemma arg_loop_ok: "keeps_ok v P (arg_loop args v P)"
proof (induction args v P rule: arg_loop.induct)
  case (3 arg val args v P)
  show ?case
    unfolding keeps_ok_def
  proof (intro allI impI, elim conjE)
    fix v' P'
    assume "arg_loop (arg # val # args) v P = Inr (Some (v', P'))" and ok: "vals_ok v P"
    then obtain v1 P1 where s: "arg_step arg val v P = Inr (Some (v1, P1))" "arg_loop args v1 P1 = Inr (Some (v', P'))"
      by (auto simp: bindE_eq_Inr split: option.splits)
    then show "vals_ok v' P' \<and> fixed_part P' = fixed_part P"
      using 3(1) [OF s(1) refl refl] arg_step_ok [of v P arg val] ok by (simp add: keeps_ok_def)
  qed
qed (simp_all add: keeps_ok_def)

lemma static_names: "name_ok (t_replay_file (init_params static_params))" "name_ok (t_record_file (init_params static_params))"
  by (simp_all add: name_ok_def init_params_def static_params_def)

lemma check_arg_ok: "check_arg args (init_params static_params) = Inr (Some P) \<Longrightarrow> args_ok P"
proof -
  assume c: "check_arg args (init_params static_params) = Inr (Some P)"
  then obtain v Q where l: "arg_loop args no_vals (init_params static_params) = Inr (Some (v, Q))"
    and e: "t_replay_enable Q \<noteq> t_record_enable Q" and P: "P = set_given v Q"
    by (auto simp: check_arg_def bindE_eq_Inr split: if_splits option.splits)
  have "vals_ok no_vals (init_params static_params)" using static_names by (simp add: vals_ok_def no_vals_def)
  then have k: "vals_ok v Q" and eq: "fixed_part Q = fixed_part (init_params static_params)"
    using arg_loop_ok [of no_vals "init_params static_params" args] l by (simp_all add: keeps_ok_def)
  have "t_format Q = FMT16BITS" "t_channel Q = 2" "t_speed Q = 44100" "t_volume Q = 80" "t_second Q = 5"
    using arg_cong [OF eq, of t_format] arg_cong [OF eq, of t_channel] arg_cong [OF eq, of t_speed]
      arg_cong [OF eq, of t_volume] arg_cong [OF eq, of t_second] by (simp_all add: init_params_def fixed_part_def)
  then show "args_ok P"
    using k e unfolding P args_ok_def vals_ok_def set_given_def Let_def by (auto simp: fmt_consts)
qed

text \<open>Whatever the command line: if \<open>check_arg\<close> accepts it, exactly one of replay and record is asked
  for, the format is 8 or 16 bits, channels, speed and volume are not negative, the time is positive
  (so the alarm always comes), and both file names are strings inside their arrays of 127 characters.\<close>

theorem sndtest_args:
  assumes "check_arg args (init_params static_params) = Inr (Some P)"
  shows "args_ok P"
  by (rule check_arg_ok [OF assms])

theorem sndtest_args_witness:
  "\<exists>P. check_arg [''--time'', ''0'', ''--replay'', ''a.wav''] (init_params static_params) = Inr (Some P) \<and> args_ok P"
proof -
  have "\<exists>P. check_arg [''--time'', ''0'', ''--replay'', ''a.wav''] (init_params static_params) = Inr (Some P)"
    by (simp add: check_arg_def arg_step_def strcpy_def init_params_def static_params_def)
  then show ?thesis using sndtest_args by blast
qed

section \<open>Options without an effect\<close>

definition same_vals :: "arg_vals \<Rightarrow> arg_vals \<Rightarrow> bool" where
  "same_vals v w \<longleftrightarrow> v\<lparr>a_rate := 0, a_buffer_size := 0\<rparr> = w\<lparr>a_rate := 0, a_buffer_size := 0\<rparr>"

definition same_params :: "run_params \<Rightarrow> run_params \<Rightarrow> bool" where
  "same_params P Q \<longleftrightarrow> P\<lparr>t_rate := 0, t_buffer_size := 0\<rparr> = Q\<lparr>t_rate := 0, t_buffer_size := 0\<rparr>"

lemma same_paramsE:
  assumes "same_params P Q"
  obtains x y where "Q = P\<lparr>t_rate := x, t_buffer_size := y\<rparr>"
  using assms that [of "t_rate Q" "t_buffer_size Q"] by (cases P; cases Q) (auto simp: same_params_def)

lemma same_valsE:
  assumes "same_vals v w"
  obtains x y where "w = v\<lparr>a_rate := x, a_buffer_size := y\<rparr>"
  using assms that [of "a_rate w" "a_buffer_size w"] by (cases v; cases w) (auto simp: same_vals_def)

lemma rel_if:
  "(c \<Longrightarrow> rel_sum A B a a') \<Longrightarrow> (\<not> c \<Longrightarrow> rel_sum A B b b') \<Longrightarrow>
   rel_sum A B (if c then a else b) (if c then a' else b')"
  by simp

lemma rel_bind: "(\<And>x. rel_sum (=) B (f x) (g x)) \<Longrightarrow> rel_sum (=) B (bindE m f) (bindE m g)"
  by (cases m) simp_all

lemma arg_step_same:
  assumes "same_vals v w"
  shows "rel_sum (=) (rel_option (rel_prod same_vals (=))) (arg_step arg val v P) (arg_step arg val w P)"
proof -
  obtain x y where w: "w = v\<lparr>a_rate := x, a_buffer_size := y\<rparr>" using assms by (rule same_valsE)
  show ?thesis
    unfolding arg_step_def w by (intro rel_if rel_bind) (simp_all add: same_vals_def)
qed

lemma rel_bindE:
  assumes "rel_sum (=) A m m'" and "\<And>x y. A x y \<Longrightarrow> m = Inr x \<Longrightarrow> rel_sum (=) B (f x) (g y)"
  shows "rel_sum (=) B (bindE m f) (bindE m' g)"
  using assms by (cases m; cases m') simp_all

lemma arg_loop_same:
  "same_vals v w \<Longrightarrow> rel_sum (=) (rel_option (rel_prod same_vals (=))) (arg_loop args v P) (arg_loop args w P)"
proof (induction args v P arbitrary: w rule: arg_loop.induct)
  case (3 arg val args v P)
  show ?case
    unfolding arg_loop.simps
  proof (rule rel_bindE [OF arg_step_same [OF 3(2)]])
    fix r r'
    assume r: "rel_option (rel_prod same_vals (=)) r r'" "arg_step arg val v P = Inr r"
    show "rel_sum (=) (rel_option (rel_prod same_vals (=)))
        (case r of None \<Rightarrow> Inr None | Some (v, P) \<Rightarrow> arg_loop args v P)
        (case r' of None \<Rightarrow> Inr None | Some (v, P) \<Rightarrow> arg_loop args v P)"
    proof (cases r)
      case None
      then show ?thesis using r(1) by (cases r') simp_all
    next
      case (Some q)
      obtain v1 P1 where q: "q = (v1, P1)" by fastforce
      then obtain w1 where w1: "r' = Some (w1, P1)" "same_vals v1 w1"
        using r(1) Some by (cases r') auto
      show ?thesis using 3(1) [OF r(2) Some sym [OF q] w1(2)] Some q w1 by (simp only: option.case prod.case)
    qed
  qed
qed simp_all

lemma set_given_same: "same_vals v w \<Longrightarrow> same_params (set_given v P) (set_given w P)"
  by (erule same_valsE) (simp add: same_params_def set_given_def Let_def)

text \<open>What follows the command line does not read these two parameters.\<close>

lemma loops_same:
  "test_record_loop n (P\<lparr>t_rate := x, t_buffer_size := y\<rparr>) s = test_record_loop n P s"
  "test_replay_loop n (P\<lparr>t_rate := x, t_buffer_size := y\<rparr>) i s = test_replay_loop n P i s"
  by (induction n arbitrary: i s) (auto split: prod.split option.split)

abbreviation set_ignored :: "int \<Rightarrow> int \<Rightarrow> run_params \<Rightarrow> run_params" where
  "set_ignored x y P \<equiv> P\<lparr>t_rate := x, t_buffer_size := y\<rparr>"

abbreviation ignored_in :: "int \<Rightarrow> int \<Rightarrow> stop + (int \<times> run_params \<times> fs) \<Rightarrow> stop + (int \<times> run_params \<times> fs)" where
  "ignored_in x y \<equiv> map_sum id (\<lambda>(r, P, s). (r, set_ignored x y P, s))"

lemma init_replay_same: "init_replay (set_ignored x y P) s = ignored_in x y (init_replay P s)"
proof (cases "text_of (t_replay_file P)")
  case (Inr name)
  obtain fd s1 where 1: "test_open_device DEVICE_DSP_NAME O_WRONLY s = (fd, s1)" by fastforce
  obtain fd2 s2 where 2: "test_open_file name O_RDONLY s1 = (fd2, s2)" by fastforce
  show ?thesis using Inr by (simp add: init_replay_def 1 2 Let_def)
qed (simp add: init_replay_def)

lemma init_record_same: "init_record (set_ignored x y P) s = ignored_in x y (init_record P s)"
proof (cases "text_of (t_record_file P)")
  case (Inr name)
  obtain fd s1 where 1: "test_open_device DEVICE_DSP_NAME O_RDONLY s = (fd, s1)" by fastforce
  obtain fd2 s2 where 2: "test_open_device DEVICE_JZ_DMIC O_RDONLY s1 = (fd2, s2)" by fastforce
  obtain fd3 s3 where 3: "test_open_file name O_WRONLY s2 = (fd3, s3)" by fastforce
  show ?thesis using Inr by (simp add: init_record_def 1 2 3 Let_def)
qed (simp add: init_record_def)

lemma init_mixer_same:
  "init_mixer (set_ignored x y P) s = ignored_in x y (init_mixer P s)"
proof -
  obtain fd s1 where 1: "test_open_device DEVICE_MIXER_NAME O_WRONLY s = (fd, s1)" by fastforce
  show ?thesis by (simp add: init_mixer_def 1 test_config_device_def Let_def)
qed

lemma bind_ignored:
  "(\<And>r P s. f (r, set_ignored x y P, s) = ignored_in x y (f (r, P, s))) \<Longrightarrow>
   bindE (ignored_in x y m) f = ignored_in x y (bindE m f)"
  by (cases m) auto

lemma init_audio_same: "init_audio (set_ignored x y P) s = ignored_in x y (init_audio P s)"
proof -
  have 1: "(if t_replay_enable (set_ignored x y P) \<and> t_replay_file (set_ignored x y P) ! 0 \<noteq> NUL
      then init_replay (set_ignored x y P) s else Inr (0, set_ignored x y P, s)) =
    ignored_in x y (if t_replay_enable P \<and> t_replay_file P ! 0 \<noteq> NUL then init_replay P s else Inr (0, P, s))" for P s
    by (simp add: init_replay_same)
  have 2: "(if t_record_enable (set_ignored x y P) \<and> t_record_file (set_ignored x y P) ! 0 \<noteq> NUL
      then init_record (set_ignored x y P) s else Inr (0, set_ignored x y P, s)) =
    ignored_in x y (if t_record_enable P \<and> t_record_file P ! 0 \<noteq> NUL then init_record P s else Inr (0, P, s))" for P s
    by (simp add: init_record_same)
  show ?thesis
    unfolding init_audio_def 1
    by (rule bind_ignored, simp only: prod.case 2)
      (simp add: bind_ignored init_mixer_same del: run_params.update_convs split: prod.split)
qed

text \<open>The part of \<open>main\<close> behind \<open>check_arg\<close>.\<close>

definition sndtest_rest :: "bool \<Rightarrow> nat \<Rightarrow> fs \<Rightarrow> run_params option \<Rightarrow> stop + (int \<times> fs)" where
  "sndtest_rest memory n s r = (case r of
         None \<Rightarrow> Inr (1, s)
       | Some P \<Rightarrow>
           bindE (init_audio P s) (\<lambda>(r, P, s).
             if r \<noteq> 0 then Inr (1, s)
             else
               let (r, s) = run memory n P s
               in if r \<noteq> 0 then Inr (1, s) else Inr (0, close_audio P s)))"

lemma sndtest_main_rest:
  "sndtest_main args memory n s = bindE (check_arg args (init_params static_params)) (sndtest_rest memory n s)"
  by (simp add: sndtest_main_def sndtest_rest_def [abs_def])

lemma sndtest_rest_same: "same_params P Q \<Longrightarrow> sndtest_rest memory n s (Some Q) = sndtest_rest memory n s (Some P)"
proof (erule same_paramsE)
  fix x y
  assume Q: "Q = set_ignored x y P"
  have 1: "run memory n (set_ignored x y P) s = run memory n P s" "close_audio (set_ignored x y P) s = close_audio P s" for P s
    by (simp_all add: run_def loops_same close_audio_def Let_def cong: if_cong)
  show ?thesis
    unfolding Q sndtest_rest_def option.case init_audio_same
    by (cases "init_audio P s") (auto simp: 1 split: prod.split)
qed

definition accepted :: "(arg_vals \<times> run_params) option \<Rightarrow> run_params option" where
  "accepted r = (case r of
     None \<Rightarrow> None
   | Some (v, P) \<Rightarrow> if t_replay_enable P = t_record_enable P then None else Some (set_given v P))"

lemma check_arg_accepted:
  "check_arg args P = (if args = [] \<or> args = [''--version''] \<or> args = [''--help''] then Inr None
     else bindE (arg_loop args no_vals P) (\<lambda>r. Inr (accepted r)))"
  by (auto simp: check_arg_def accepted_def bindE_def split: sum.split option.split)

lemma sndtest_rest_accepted:
  "rel_option (rel_prod same_vals (=)) r r' \<Longrightarrow>
   sndtest_rest memory n s (accepted r') = sndtest_rest memory n s (accepted r)"
  by (cases r; cases r') (auto simp: accepted_def sndtest_rest_same [OF set_given_same])

lemma ignored_step:
  "a = ''--rate'' \<or> a = ''--buffer'' \<Longrightarrow> \<exists>v'. arg_step a val v P = Inr (Some (v', P)) \<and> same_vals v v'"
proof (elim disjE)
  assume "a = ''--rate''"
  then show ?thesis by (intro exI [of _ "v\<lparr>a_rate := atoi val\<rparr>"]) (simp add: arg_step_def same_vals_def)
next
  assume "a = ''--buffer''"
  then show ?thesis by (intro exI [of _ "v\<lparr>a_buffer_size := atoi val\<rparr>"]) (simp add: arg_step_def same_vals_def)
qed

text \<open>The options \<^verbatim>\<open>--rate\<close> and \<^verbatim>\<open>--buffer\<close> are accepted and change nothing: with either of them in front of
  any command line, whatever its value, the program does exactly what it does without it. (The rate of
  the device is set by \<^verbatim>\<open>--speed\<close>, and blocks have 2048 bytes.)\<close>

theorem sndtest_ignored_options:
  assumes "a = ''--rate'' \<or> a = ''--buffer''"
  shows "sndtest_main (a # val # args) memory n s = sndtest_main args memory n s"
proof -
  define P0 where "P0 = init_params static_params"
  have P0: "\<not> t_replay_enable P0" "\<not> t_record_enable P0" by (simp_all add: P0_def init_params_def)
  obtain v where v: "arg_step a val no_vals P0 = Inr (Some (v, P0))" "same_vals no_vals v"
    using ignored_step [OF assms] by blast
  have l: "arg_loop (a # val # args) no_vals P0 = arg_loop args v P0" by (simp add: v(1))
  note rel = arg_loop_same [OF v(2), of args P0]
  show ?thesis
  proof (cases "args = [] \<or> args = [''--version''] \<or> args = [''--help'']")
    case True
    then have "bindE (arg_loop args v P0) (\<lambda>r. Inr (accepted r)) = Inr None" using P0 by (auto simp: accepted_def)
    then show ?thesis using True by (simp add: sndtest_main_rest check_arg_accepted l del: arg_loop.simps flip: P0_def)
  next
    case False
    then show ?thesis using rel sndtest_rest_accepted
      by (cases "arg_loop args no_vals P0"; cases "arg_loop args v P0")
        (auto simp: sndtest_main_rest check_arg_accepted l simp del: arg_loop.simps simp flip: P0_def)
  qed
qed

theorem sndtest_ignored_options_witness:
  "\<forall>m n s. sndtest_main [''--rate'', ''8000'', ''--replay'', ''a''] m n s = sndtest_main [''--replay'', ''a''] m n s"
  using sndtest_ignored_options by simp

section \<open>Playing\<close>

text \<open>With complete transfers a block is read and written in one step each.\<close>

lemma f_read_file:
  "fs_plan s = [] \<Longrightarrow> fs_fds s a = Some (p, i) \<Longrightarrow> fs_nodes s p = Some (Reg d) \<Longrightarrow>
   f_read a n s = (Some (take n (drop i d)), s\<lparr>fs_fds := (fs_fds s)(a \<mapsto> (p, i + length (take n (drop i d))))\<rparr>)"
  by (simp add: f_read_def next_outcome_def)

lemma f_read_device:
  "fs_plan s = [] \<Longrightarrow> fs_fds s a = Some (p, i) \<Longrightarrow> fs_nodes s p = Some (Dev d e) \<Longrightarrow>
   f_read a n s = (Some (take n d), s\<lparr>fs_nodes := (fs_nodes s)(p \<mapsto> Dev (drop n d) e)\<rparr>)"
  by (simp add: f_read_def next_outcome_def)

lemma f_write_file:
  "fs_plan s = [] \<Longrightarrow> fs_fds s a = Some (p, i) \<Longrightarrow> fs_nodes s p = Some (Reg d) \<Longrightarrow>
   f_write a b s = (Some (length b), s\<lparr>fs_nodes := (fs_nodes s)(p \<mapsto> Reg (overwrite d i b)),
     fs_fds := (fs_fds s)(a \<mapsto> (p, i + length b))\<rparr>)"
  by (simp add: f_write_def next_outcome_def)

lemma f_write_device:
  "fs_plan s = [] \<Longrightarrow> fs_fds s a = Some (p, i) \<Longrightarrow> fs_nodes s p = Some (Dev d e) \<Longrightarrow>
   f_write a b s = (Some (length b), s\<lparr>fs_nodes := (fs_nodes s)(p \<mapsto> Dev d (e @ b))\<rparr>)"
  by (simp add: f_write_def next_outcome_def)

lemma test_replay_loop_plays:
  assumes "fs_plan s = []" and "fs_fds s (t_replay_fd P) = Some (name, i)" "fs_nodes s name = Some (Reg d)"
    and "fs_fds s (t_dsp_fd P) = Some (dsp, j)" "fs_nodes s dsp = Some (Dev q e)" and "t_dsp_fd P \<noteq> t_replay_fd P"
    and "t_replay_file_length P = int (length d)" "length d < 2147483648" "i \<le> length d" "length d \<le> i + 2048 * n"
  shows "snd (test_replay_loop n P (int i) s) =
    s\<lparr>fs_nodes := (fs_nodes s)(dsp \<mapsto> Dev q (e @ drop i d)), fs_fds := (fs_fds s)(t_replay_fd P \<mapsto> (name, length d))\<rparr>"
  using assms
proof (induction n arbitrary: i e s)
  case 0
  then have "i = length d" by simp
  then show ?case using 0 by (simp add: fun_upd_idem)
next
  case (Suc n)
  let ?r = "t_replay_fd P" and ?w = "t_dsp_fd P"
  show ?case
  proof (cases "i = length d")
    case True
    then show ?thesis using Suc.prems by (simp add: fun_upd_idem)
  next
    case False
    define b where "b = take 2048 (drop i d)"
    define k where "k = length b"
    have k: "0 < k" "i + k \<le> length d" "length d \<le> (i + k) + 2048 * n" "b \<noteq> []"
      using False Suc.prems(9,10) by (auto simp: k_def b_def)
    have neq: "name \<noteq> dsp" using Suc.prems(3,5) by auto
    define s1 where "s1 = s\<lparr>fs_fds := (fs_fds s)(?r \<mapsto> (name, i + k))\<rparr>"
    define s2 where "s2 = s1\<lparr>fs_nodes := (fs_nodes s1)(dsp \<mapsto> Dev q (e @ b))\<rparr>"
    have r: "f_read ?r 2048 s = (Some b, s1)" using f_read_file [OF Suc.prems(1-3)] by (simp add: s1_def b_def k_def)
    have w: "f_write ?w b s1 = (Some k, s2)"
      using f_write_device [of s1 ?w dsp j q e b] Suc.prems(1,4-6) by (simp add: s2_def s1_def k_def)
    have i: "i32 (int i + int k) = int (i + k)"
      using k(2) Suc.prems(8) by (simp add: i32_def signed_take_bit_int_eq_self)
    have "snd (test_replay_loop (Suc n) P (int i) s) = snd (test_replay_loop n P (int (i + k)) s2)"
      using False Suc.prems(7,9) k(4) i by (simp add: DEFAULT_BUF_SIZE_def r w k_def)
    also have "\<dots> = s2\<lparr>fs_nodes := (fs_nodes s2)(dsp \<mapsto> Dev q ((e @ b) @ drop (i + k) d)),
        fs_fds := (fs_fds s2)(?r \<mapsto> (name, length d))\<rparr>"
      using Suc.prems k neq by (intro Suc.IH) (simp_all add: s2_def s1_def)
    also have "(e @ b) @ drop (i + k) d = e @ drop i d"
    proof -
      have "drop (i + k) d = drop 2048 (drop i d)"
        by (cases "2048 \<le> length d - i") (simp_all add: k_def b_def add.commute)
      then show ?thesis by (simp add: b_def del: drop_drop)
    qed
    also have "s2\<lparr>fs_nodes := (fs_nodes s2)(dsp \<mapsto> x), fs_fds := (fs_fds s2)(?r \<mapsto> z)\<rparr> =
      s\<lparr>fs_nodes := (fs_nodes s)(dsp \<mapsto> x), fs_fds := (fs_fds s)(?r \<mapsto> z)\<rparr>" for x z
    proof -
      have "(fs_nodes s2)(dsp \<mapsto> x) = (fs_nodes s)(dsp \<mapsto> x)" "(fs_fds s2)(?r \<mapsto> z) = (fs_fds s)(?r \<mapsto> z)"
        by (simp_all add: fun_eq_iff s2_def s1_def)
      then show ?thesis by (simp add: s2_def s1_def)
    qed
    finally show ?thesis .
  qed
qed

section \<open>Recording\<close>

lemma overwrite_overwrite:
  "p \<le> length d \<Longrightarrow> overwrite (overwrite d p a) (p + length a) b = overwrite d p (a @ b)"
  by (auto simp: overwrite_def min_def ac_simps)

lemma test_record_loop_records:
  assumes "fs_plan s = []" and "fs_fds s (t_jz_dmic_fd P) = Some (mic, j)" "fs_nodes s mic = Some (Dev q e)"
    and "fs_fds s (t_record_fd P) = Some (name, p + length a)" "fs_nodes s name = Some (Reg (overwrite d p a))"
    and "t_record_fd P \<noteq> t_jz_dmic_fd P" and "p \<le> length d"
  shows "snd (test_record_loop n P s) =
    s\<lparr>fs_nodes := (fs_nodes s)(mic \<mapsto> Dev (drop (2048 * n) q) e, name \<mapsto> Reg (overwrite d p (a @ take (2048 * n) q))),
      fs_fds := (fs_fds s)(t_record_fd P \<mapsto> (name, p + length (a @ take (2048 * n) q)))\<rparr>"
  using assms
proof (induction n arbitrary: a q s)
  case 0
  then show ?case by (simp add: fun_upd_idem)
next
  case (Suc n)
  let ?r = "t_jz_dmic_fd P" and ?w = "t_record_fd P"
  have neq: "name \<noteq> mic" using Suc.prems(3,5) by auto
  define s1 where "s1 = s\<lparr>fs_nodes := (fs_nodes s)(mic \<mapsto> Dev (drop 2048 q) e)\<rparr>"
  have r: "f_read ?r 2048 s = (Some (take 2048 q), s1)" using f_read_device [OF Suc.prems(1-3)] by (simp add: s1_def)
  define s2 where "s2 = s1\<lparr>fs_nodes := (fs_nodes s1)(name \<mapsto> Reg (overwrite d p (a @ take 2048 q))),
    fs_fds := (fs_fds s1)(?w \<mapsto> (name, p + length (a @ take 2048 q)))\<rparr>"
  have "fs_plan s1 = []" "fs_fds s1 ?w = Some (name, p + length a)" "fs_nodes s1 name = Some (Reg (overwrite d p a))"
    using Suc.prems(1,4,5) neq by (simp_all add: s1_def)
  from f_write_file [OF this, of "take 2048 q"]
  have w: "f_write ?w (take 2048 q) s1 = (Some (length (take 2048 q)), s2)"
    using overwrite_overwrite [OF Suc.prems(7)] by (simp add: s2_def add.assoc)
  have "snd (test_record_loop (Suc n) P s) = snd (test_record_loop n P s2)"
  proof (cases "q = []")
    case True
    then have "s2 = s" using Suc.prems(3-5) by (simp add: s2_def s1_def fun_upd_idem)
    moreover have "s1 = s" using True Suc.prems(3) by (simp add: s1_def fun_upd_idem)
    ultimately show ?thesis using r True by (simp add: DEFAULT_BUF_SIZE_def)
  next
    case False
    then show ?thesis using r w by (simp add: DEFAULT_BUF_SIZE_def)
  qed
  also have "\<dots> = s2\<lparr>fs_nodes := (fs_nodes s2)(mic \<mapsto> Dev (drop (2048 * n) (drop 2048 q)) e,
      name \<mapsto> Reg (overwrite d p ((a @ take 2048 q) @ take (2048 * n) (drop 2048 q)))),
      fs_fds := (fs_fds s2)(?w \<mapsto> (name, p + length ((a @ take 2048 q) @ take (2048 * n) (drop 2048 q))))\<rparr>"
    using Suc.prems neq by (intro Suc.IH) (simp_all add: s2_def s1_def)
  also have "(a @ take 2048 q) @ take (2048 * n) (drop 2048 q) = a @ take (2048 * Suc n) q"
    using take_add [of 2048 "2048 * n" q] by simp
  also have "drop (2048 * n) (drop 2048 q) = drop (2048 * Suc n) q" by (simp add: add.commute)
  also have "s2\<lparr>fs_nodes := (fs_nodes s2)(mic \<mapsto> x, name \<mapsto> y), fs_fds := (fs_fds s2)(?w \<mapsto> z)\<rparr> =
    s\<lparr>fs_nodes := (fs_nodes s)(mic \<mapsto> x, name \<mapsto> y), fs_fds := (fs_fds s)(?w \<mapsto> z)\<rparr>" for x y z
  proof -
    have "(fs_nodes s2)(mic \<mapsto> x, name \<mapsto> y) = (fs_nodes s)(mic \<mapsto> x, name \<mapsto> y)"
      by (simp add: fun_eq_iff s2_def s1_def)
    then show ?thesis by (simp add: s2_def s1_def)
  qed
  finally show ?case .
qed

section \<open>The test from the command line to the devices\<close>

definition test_system :: "fs \<Rightarrow> bool" where
  "test_system s \<longleftrightarrow> (\<forall>p. \<not> fs_denied s p) \<and> fs_plan s = [] \<and>
     (\<exists>i e. fs_nodes s DEVICE_DSP_NAME = Some (Dev i e)) \<and> (\<exists>i e. fs_nodes s DEVICE_MIXER_NAME = Some (Dev i e)) \<and>
     (\<exists>i e. fs_nodes s DEVICE_JZ_DMIC = Some (Dev i e))"

text \<open>What a device was given, what it will deliver, and what a file holds.\<close>

definition sent :: "fs \<Rightarrow> string \<Rightarrow> bytes" where
  "sent s p = (case fs_nodes s p of Some (Dev _ e) \<Rightarrow> e | _ \<Rightarrow> [])"

definition heard :: "fs \<Rightarrow> string \<Rightarrow> bytes" where
  "heard s p = (case fs_nodes s p of Some (Dev i _) \<Rightarrow> i | _ \<Rightarrow> [])"

lemma names_differ [simp]:
  "DEVICE_DSP_NAME \<noteq> DEVICE_MIXER_NAME" "DEVICE_MIXER_NAME \<noteq> DEVICE_DSP_NAME" "DEVICE_DSP_NAME \<noteq> DEVICE_JZ_DMIC"
  "DEVICE_JZ_DMIC \<noteq> DEVICE_DSP_NAME" "DEVICE_MIXER_NAME \<noteq> DEVICE_JZ_DMIC" "DEVICE_JZ_DMIC \<noteq> DEVICE_MIXER_NAME"
  by (simp_all add: device_names)

lemma text_of_head: "text_of arr = Inr name \<Longrightarrow> name \<noteq> [] \<Longrightarrow> arr ! 0 \<noteq> NUL"
  by (cases arr) (auto simp: text_of_def c_string_def split: if_splits)

definition opened :: "string \<Rightarrow> fs \<Rightarrow> fs" where
  "opened p s = s\<lparr>fs_fds := (fs_fds s)(int (fs_next s) \<mapsto> (p, 0)), fs_next := Suc (fs_next s)\<rparr>"

lemma f_open_opened:
  "fs_nodes s p = Some nd \<Longrightarrow> \<not> fs_denied s p \<Longrightarrow> f_open p m c s = (int (fs_next s), opened p s)"
  by (simp add: f_open_some opened_def)

lemma opened_simps [simp]:
  "fs_nodes (opened p s) = fs_nodes s" "fs_denied (opened p s) = fs_denied s" "fs_plan (opened p s) = fs_plan s"
  "fs_next (opened p s) = Suc (fs_next s)" "fs_ctl (opened p s) = fs_ctl s"
  "fs_fds (opened p s) = (fs_fds s)(int (fs_next s) \<mapsto> (p, 0))"
  by (simp_all add: opened_def)

lemma f_ioctl_logged: "snd (f_ioctl fd req v s) = s\<lparr>fs_ctl := fs_ctl s @ [(fd, req, v)]\<rparr>"
  by (simp add: f_ioctl_def)

text \<open>The system and the parameters when replay has been set up: the device, the file and the mixer are open on the next three
  descriptors.\<close>

definition replay_ready :: "run_params \<Rightarrow> string \<Rightarrow> fs \<Rightarrow> fs" where
  "replay_ready P name s =
     (let k = int (fs_next s) in
      (opened DEVICE_MIXER_NAME (opened name (opened DEVICE_DSP_NAME s)))\<lparr>fs_ctl := fs_ctl s @
        [(k, SNDCTL_DSP_CHANNELS, t_channel P), (k, SNDCTL_DSP_SETFMT, t_format P),
         (k, SNDCTL_DSP_SPEED, t_speed P), (k + 2, SOUND_MIXER_WRITE_VOLUME, t_volume P)]\<rparr>)"

definition replay_handles :: "run_params \<Rightarrow> nat \<Rightarrow> nat \<Rightarrow> run_params" where
  "replay_handles P k len =
     P\<lparr>t_dsp_fd := int k, t_replay_fd := int k + 1, t_replay_file_length := int len, t_mixer_fd := int k + 2\<rparr>"

lemma replay_handles_simps [simp]:
  "t_replay_enable (replay_handles P k len) = t_replay_enable P" "t_record_enable (replay_handles P k len) = t_record_enable P"
  "t_dsp_fd (replay_handles P k len) = int k" "t_replay_fd (replay_handles P k len) = int k + 1"
  "t_mixer_fd (replay_handles P k len) = int k + 2" "t_replay_file_length (replay_handles P k len) = int len"
  by (simp_all add: replay_handles_def)

lemma replay_ready_simps [simp]:
  "fs_nodes (replay_ready P name s) = fs_nodes s" "fs_denied (replay_ready P name s) = fs_denied s"
  "fs_plan (replay_ready P name s) = fs_plan s"
  "fs_fds (replay_ready P name s) = (fs_fds s)(int (fs_next s) \<mapsto> (DEVICE_DSP_NAME, 0), int (fs_next s) + 1 \<mapsto> (name, 0),
     int (fs_next s) + 2 \<mapsto> (DEVICE_MIXER_NAME, 0))"
  "fs_ctl (replay_ready P name s) = fs_ctl s @ [(int (fs_next s), SNDCTL_DSP_CHANNELS, t_channel P),
     (int (fs_next s), SNDCTL_DSP_SETFMT, t_format P), (int (fs_next s), SNDCTL_DSP_SPEED, t_speed P),
     (int (fs_next s) + 2, SOUND_MIXER_WRITE_VOLUME, t_volume P)]"
  by (simp_all add: replay_ready_def Let_def add.commute)

lemma init_audio_replays:
  assumes "t_replay_enable P" and "\<not> t_record_enable P" and name: "text_of (t_replay_file P) = Inr name" "name \<noteq> []"
    and sys: "test_system s" "fs_nodes s name = Some (Reg d)" and d: "length d < 2147483648"
  shows "init_audio P s = Inr (0, replay_handles P (fs_next s) (length d), replay_ready P name s)"
proof -
  let ?k = "int (fs_next s)"
  obtain di de mi me where S: "fs_nodes s DEVICE_DSP_NAME = Some (Dev di de)" "fs_nodes s DEVICE_MIXER_NAME = Some (Dev mi me)"
    "\<And>p. \<not> fs_denied s p"
    using sys(1) by (auto simp: test_system_def)
  define s1 where "s1 = opened DEVICE_DSP_NAME s"
  define s2 where "s2 = opened name s1"
  define s3 where "s3 = opened DEVICE_MIXER_NAME s2"
  have len: "file_length name s2 = int (length d)"
    using sys(2) d by (simp add: file_length_def f_size_def s2_def s1_def i32_def signed_take_bit_int_eq_self)
  have o1: "test_open_device DEVICE_DSP_NAME O_WRONLY s = (?k, s1)"
    using f_open_opened S by (simp add: test_open_device_def s1_def)
  have o2: "test_open_file name O_RDONLY s1 = (?k + 1, s2)"
    using f_open_opened [of s1 name "Reg d"] S sys(2) by (simp add: test_open_file_def s1_def s2_def)
  have o3: "test_open_device DEVICE_MIXER_NAME O_WRONLY s2 = (?k + 2, s3)"
    using f_open_opened [of s2 DEVICE_MIXER_NAME] S by (simp add: test_open_device_def s1_def s2_def s3_def)
  have "test_config_device (replay_handles P (fs_next s) (length d)) s3 = replay_ready P name s"
    using assms(1) by (simp add: test_config_device_def f_ioctl_logged replay_handles_def replay_ready_def s3_def s2_def s1_def Let_def)
  then show ?thesis
    using assms(1,2) text_of_head [OF name] name(1) o1 o2 o3 len
    by (simp add: init_audio_def init_replay_def init_mixer_def replay_handles_def Let_def)
qed

text \<open>C14. \<^verbatim>\<open>sndtest\<close> playing a file, from the command line to the devices. For any accepted command line that
  asks for replay, on a system where the three files can be opened and transfers are complete, and if
  the alarm does not come before the file is over: the program exits with 0; the sound device has been
  asked for the channels, the format and the speed of the parameters, the mixer for the volume, and
  then given the digit 6; the sound device got the bytes of the file after what it had got before; and
  no descriptor is left open.\<close>

theorem sndtest_replays:
  assumes args: "check_arg args (init_params static_params) = Inr (Some P)" "t_replay_enable P"
    and name: "text_of (t_replay_file P) = Inr name" "name \<noteq> []"
    and sys: "test_system s" "fs_nodes s name = Some (Reg d)"
    and d: "length d < 2147483648" "length d \<le> 2048 * n"
  shows "\<exists>s'. sndtest_main args True n s = Inr (0, s') \<and> sent s' DEVICE_DSP_NAME = sent s DEVICE_DSP_NAME @ d \<and>
    sent s' DEVICE_MIXER_NAME = sent s DEVICE_MIXER_NAME @ [0x36] \<and>
    fs_ctl s' = fs_ctl s @ [(int (fs_next s), SNDCTL_DSP_CHANNELS, t_channel P), (int (fs_next s), SNDCTL_DSP_SETFMT, t_format P),
      (int (fs_next s), SNDCTL_DSP_SPEED, t_speed P), (int (fs_next s) + 2, SOUND_MIXER_WRITE_VOLUME, t_volume P)] \<and>
    fs_fds s' = (fs_fds s)(int (fs_next s) := None, int (fs_next s) + 1 := None, int (fs_next s) + 2 := None)"
proof -
  let ?k = "int (fs_next s)" and ?Q = "replay_handles P (fs_next s) (length d)"
  obtain di de mi me where S: "fs_nodes s DEVICE_DSP_NAME = Some (Dev di de)" "fs_nodes s DEVICE_MIXER_NAME = Some (Dev mi me)"
    "fs_plan s = []"
    using sys(1) by (auto simp: test_system_def)
  have neq: "name \<noteq> DEVICE_DSP_NAME" "name \<noteq> DEVICE_MIXER_NAME" using S sys(2) by auto
  have rec: "\<not> t_record_enable P" using check_arg_ok [OF args(1)] args(2) by (simp add: args_ok_def)
  define s4 where "s4 = replay_ready P name s"
  define s5 where "s5 = s4\<lparr>fs_nodes := (fs_nodes s)(DEVICE_MIXER_NAME \<mapsto> Dev mi (me @ [0x36]))\<rparr>"
  define s6 where "s6 = snd (test_replay_loop n ?Q (int 0) s5)"
  have init: "init_audio P s = Inr (0, ?Q, s4)" unfolding s4_def by (rule init_audio_replays [OF args(2) rec name sys d(1)])
  have mix: "snd (f_write (?k + 2) [0x36] s4) = s5"
    using f_write_device [of s4 "?k + 2" DEVICE_MIXER_NAME 0 mi me "[0x36]"] S by (simp add: s5_def s4_def)
  have loop: "s6 = s5\<lparr>fs_nodes := (fs_nodes s5)(DEVICE_DSP_NAME \<mapsto> Dev di (de @ drop 0 d)),
      fs_fds := (fs_fds s5)(t_replay_fd ?Q \<mapsto> (name, length d))\<rparr>"
    unfolding s6_def
    by (rule test_replay_loop_plays [of _ _ _ _ _ _ 0]) (use S sys(2) neq d in \<open>simp_all add: s5_def s4_def\<close>)
  have "run True n ?Q s4 = (0, s6)" using args(2) rec mix by (simp add: run_def s6_def split: prod.split)
  then have main: "sndtest_main args True n s = Inr (0, close_audio ?Q s6)" using args init by (simp add: sndtest_main_def)
  have close: "fs_nodes (close_audio ?Q s6) = fs_nodes s6" "fs_ctl (close_audio ?Q s6) = fs_ctl s6"
    "fs_fds (close_audio ?Q s6) = (fs_fds s6)(?k := None, ?k + 1 := None, ?k + 2 := None)"
    using args(2) rec by (simp_all add: close_audio_def f_close_def Let_def)
  have "fs_fds (close_audio ?Q s6) = (fs_fds s)(?k := None, ?k + 1 := None, ?k + 2 := None)"
    unfolding close(3) unfolding loop by (simp add: fun_eq_iff s5_def s4_def)
  then show ?thesis using main close(1,2) S neq unfolding loop by (simp add: sent_def s5_def s4_def)
qed

definition test_phone :: fs where
  "test_phone = \<lparr>fs_nodes = [DEVICE_DSP_NAME \<mapsto> Dev [] [], DEVICE_MIXER_NAME \<mapsto> Dev [] [],
       DEVICE_JZ_DMIC \<mapsto> Dev (replicate 3000 5) [], ''a'' \<mapsto> Reg (replicate 5000 7)],
     fs_denied = (\<lambda>_. False), fs_fds = Map.empty, fs_next = 3, fs_plan = [], fs_driver = (\<lambda>_ v. Some v), fs_ctl = []\<rparr>"

lemma test_phone_simps:
  "test_system test_phone" "fs_nodes test_phone ''a'' = Some (Reg (replicate 5000 7))" "fs_next test_phone = 3"
  "sent test_phone DEVICE_DSP_NAME = []" "sent test_phone DEVICE_MIXER_NAME = []" "heard test_phone DEVICE_JZ_DMIC = replicate 3000 5"
  "fs_nodes test_phone ''b'' = None"
  by (simp_all add: test_system_def test_phone_def sent_def heard_def) (simp_all add: device_names)

lemma one_file_args:
  "length f < 127 \<Longrightarrow> NUL \<notin> set f \<Longrightarrow> \<exists>P. check_arg [''--replay'', f] (init_params static_params) = Inr (Some P) \<and>
     t_replay_enable P \<and> text_of (t_replay_file P) = Inr f"
  "length f < 127 \<Longrightarrow> NUL \<notin> set f \<Longrightarrow> \<exists>P. check_arg [''--record'', f] (init_params static_params) = Inr (Some P) \<and>
     t_record_enable P \<and> text_of (t_record_file P) = Inr f"
  by (auto simp: check_arg_def arg_step_def strcpy_def init_params_def static_params_def set_given_def no_vals_def
      copy_into_def text_of_def c_string_def takeWhile_tail Let_def)

theorem sndtest_replays_witness:
  "\<exists>s'. sndtest_main [''--replay'', ''a''] True 3 test_phone = Inr (0, s') \<and> sent s' DEVICE_DSP_NAME = replicate 5000 7"
proof -
  obtain P where "check_arg [''--replay'', ''a''] (init_params static_params) = Inr (Some P)" "t_replay_enable P"
    "text_of (t_replay_file P) = Inr ''a''"
    using one_file_args(1) [of "''a''"] by (auto simp: NUL_def)
  from sndtest_replays [OF this, of test_phone "replicate 5000 7" 3] show ?thesis
    by (auto simp: test_phone_simps)
qed

lemma record_args:
  assumes "check_arg args (init_params static_params) = Inr (Some P)" and "t_record_enable P"
  shows "\<not> t_replay_enable P"
  using check_arg_ok [OF assms(1)] assms(2) by (simp add: args_ok_def)

lemma sndtest_recording:
  assumes args: "check_arg args (init_params static_params) = Inr (Some P)" "t_record_enable P"
    and name: "text_of (t_record_file P) = Inr name" "name \<noteq> []" and sys: "test_system s"
  shows "fs_nodes s name = None \<Longrightarrow> \<exists>s'. sndtest_main args memory n s = Inr (1, s') \<and> fs_nodes s' name = None"
    and "fs_nodes s name = Some (Reg d) \<Longrightarrow> \<exists>s'. sndtest_main args True n s = Inr (0, s') \<and>
      fs_nodes s' name = Some (Reg (take (2048 * n) (heard s DEVICE_JZ_DMIC) @ drop (length (take (2048 * n) (heard s DEVICE_JZ_DMIC))) d)) \<and>
      heard s' DEVICE_JZ_DMIC = drop (2048 * n) (heard s DEVICE_JZ_DMIC) \<and>
      (\<forall>(fd, c, v) \<in> set (drop (length (fs_ctl s)) (fs_ctl s')). fd = int (fs_next s)) \<and>
      sent s' DEVICE_MIXER_NAME = sent s DEVICE_MIXER_NAME @ [0x38]"
proof -
  define k where "k = fs_next s"
  obtain di de mi me q e where S: "fs_nodes s DEVICE_DSP_NAME = Some (Dev di de)" "fs_nodes s DEVICE_MIXER_NAME = Some (Dev mi me)"
    "fs_nodes s DEVICE_JZ_DMIC = Some (Dev q e)" "\<And>p. \<not> fs_denied s p" "fs_plan s = []"
    using sys by (auto simp: test_system_def)
  note rep = record_args [OF args]
  define s1 where "s1 = opened DEVICE_DSP_NAME s"
  define s2 where "s2 = opened DEVICE_JZ_DMIC s1"
  have o1: "test_open_device DEVICE_DSP_NAME O_RDONLY s = (int k, s1)"
    using f_open_opened S by (simp add: test_open_device_def s1_def k_def)
  have o2: "test_open_device DEVICE_JZ_DMIC O_RDONLY s1 = (int k + 1, s2)"
    using f_open_opened [of s1 DEVICE_JZ_DMIC "Dev q e"] S by (simp add: test_open_device_def s1_def s2_def k_def)
  show "\<exists>s'. sndtest_main args memory n s = Inr (1, s') \<and> fs_nodes s' name = None" if "fs_nodes s name = None"
  proof -
    have "test_open_file name O_WRONLY s2 = (-1, s2)" using that by (simp add: test_open_file_def f_open_def s2_def s1_def)
    then have "\<exists>Q. init_audio P s = Inr (-1, Q, s2)"
      using args(2) rep text_of_head [OF name] name(1) o1 o2 by (simp add: init_audio_def init_record_def Let_def)
    then show ?thesis using args(1) that by (auto simp: sndtest_main_def s2_def s1_def)
  qed
  assume old: "fs_nodes s name = Some (Reg d)"
  define s3 where "s3 = opened name s2"
  define s4 where "s4 = opened DEVICE_MIXER_NAME s3"
  define s5 where "s5 = s4\<lparr>fs_ctl := fs_ctl s @ [(int k, SNDCTL_DSP_CHANNELS, t_channel P), (int k, SNDCTL_DSP_SETFMT, t_format P),
      (int k, SNDCTL_DSP_SPEED, t_speed P)]\<rparr>"
  define s6 where "s6 = s5\<lparr>fs_nodes := (fs_nodes s)(DEVICE_MIXER_NAME \<mapsto> Dev mi (me @ [0x38]))\<rparr>"
  define Q where "Q = P\<lparr>t_dsp_fd := int k, t_jz_dmic_fd := int k + 1, t_record_fd := int k + 2,
    t_record_file_length := file_length name s3, t_mixer_fd := int k + 3\<rparr>"
  have neq: "name \<noteq> DEVICE_DSP_NAME" "name \<noteq> DEVICE_MIXER_NAME" "name \<noteq> DEVICE_JZ_DMIC" using S old by auto
  have o3: "test_open_file name O_WRONLY s2 = (int k + 2, s3)"
    using f_open_opened [of s2 name "Reg d"] S old by (simp add: test_open_file_def s1_def s2_def s3_def k_def)
  have o4: "test_open_device DEVICE_MIXER_NAME O_WRONLY s3 = (int k + 3, s4)"
    using f_open_opened [of s3 DEVICE_MIXER_NAME] S by (simp add: test_open_device_def s1_def s2_def s3_def s4_def k_def)
  have cfg: "test_config_device Q s4 = s5"
    using rep by (simp add: test_config_device_def f_ioctl_logged Q_def s5_def s4_def s3_def s2_def s1_def)
  have init: "init_audio P s = Inr (0, Q, s5)"
    using args(2) rep text_of_head [OF name] name(1) o1 o2 o3 o4 cfg
    by (simp add: init_audio_def init_record_def init_mixer_def Q_def Let_def)
  have mix: "snd (f_write (int k + 3) [0x38] s5) = s6"
    using f_write_device [of s5 "int k + 3" DEVICE_MIXER_NAME 0 mi me "[0x38]"] S
    by (simp add: s6_def s5_def s4_def s3_def s2_def s1_def k_def)
  define s7 where "s7 = snd (test_record_loop n Q s6)"
  have loop: "s7 = s6\<lparr>fs_nodes := (fs_nodes s6)(DEVICE_JZ_DMIC \<mapsto> Dev (drop (2048 * n) q) e,
        name \<mapsto> Reg (overwrite d 0 ([] @ take (2048 * n) q))),
      fs_fds := (fs_fds s6)(t_record_fd Q \<mapsto> (name, 0 + length ([] @ take (2048 * n) q)))\<rparr>"
    unfolding s7_def
    by (rule test_record_loop_records [of _ _ _ 0])
      (use S old neq in \<open>simp_all add: s6_def s5_def s4_def s3_def s2_def s1_def Q_def k_def overwrite_def\<close>)
  have "run True n Q s5 = (0, s7)"
    using args(2) rep mix by (simp add: run_def Q_def s7_def split: prod.split)
  then have main: "sndtest_main args True n s = Inr (0, close_audio Q s7)"
    using args init by (simp add: sndtest_main_def)
  have "fs_nodes (close_audio Q s7) = fs_nodes s7" "fs_ctl (close_audio Q s7) = fs_ctl s7"
    by (simp_all add: close_audio_def f_close_def Let_def)
  moreover have "fs_ctl s7 = fs_ctl s5" unfolding loop by (simp add: s6_def)
  moreover have "fs_nodes s7 = (fs_nodes s6)(DEVICE_JZ_DMIC \<mapsto> Dev (drop (2048 * n) q) e,
        name \<mapsto> Reg (overwrite d 0 (take (2048 * n) q)))"
    unfolding loop by simp
  ultimately show "\<exists>s'. sndtest_main args True n s = Inr (0, s') \<and>
      fs_nodes s' name = Some (Reg (take (2048 * n) (heard s DEVICE_JZ_DMIC) @ drop (length (take (2048 * n) (heard s DEVICE_JZ_DMIC))) d)) \<and>
      heard s' DEVICE_JZ_DMIC = drop (2048 * n) (heard s DEVICE_JZ_DMIC) \<and>
      (\<forall>(fd, c, v) \<in> set (drop (length (fs_ctl s)) (fs_ctl s')). fd = int (fs_next s)) \<and>
      sent s' DEVICE_MIXER_NAME = sent s DEVICE_MIXER_NAME @ [0x38]"
    using main S neq by (simp add: sent_def heard_def s6_def s5_def k_def overwrite_def)
qed

text \<open>Recording: what the microphone delivers in as many blocks as are read before the alarm is written over
  the beginning of the file. The file is neither created nor cut: with a file that does not exist the
  program exits with 1 and makes none, and behind a recording shorter than the old contents the rest
  of these stays. The format, the channels and the speed are set on \<^verbatim>\<open>/dev/snd/dsp\<close>, not on
  the microphone that is read.\<close>

theorem sndtest_records:
  assumes args: "check_arg args (init_params static_params) = Inr (Some P)" "t_record_enable P"
    and name: "text_of (t_record_file P) = Inr name" "name \<noteq> []" and sys: "test_system s"
  shows "(fs_nodes s name = None \<longrightarrow> (\<exists>s'. sndtest_main args memory n s = Inr (1, s') \<and> fs_nodes s' name = None)) \<and>
    (fs_nodes s name = Some (Reg d) \<longrightarrow> (\<exists>s'. sndtest_main args True n s = Inr (0, s') \<and>
      fs_nodes s' name = Some (Reg (take (2048 * n) (heard s DEVICE_JZ_DMIC) @ drop (length (take (2048 * n) (heard s DEVICE_JZ_DMIC))) d)) \<and>
      heard s' DEVICE_JZ_DMIC = drop (2048 * n) (heard s DEVICE_JZ_DMIC) \<and>
      (\<forall>(fd, c, v) \<in> set (drop (length (fs_ctl s)) (fs_ctl s')). fd = int (fs_next s)) \<and>
      sent s' DEVICE_MIXER_NAME = sent s DEVICE_MIXER_NAME @ [0x38]))"
  using sndtest_recording [OF assms] by blast

theorem sndtest_records_witness:
  "(\<exists>s'. sndtest_main [''--record'', ''a''] True 1 test_phone = Inr (0, s') \<and>
     fs_nodes s' ''a'' = Some (Reg (replicate 2048 5 @ replicate 2952 7))) \<and>
   (\<exists>s'. sndtest_main [''--record'', ''b''] True 1 test_phone = Inr (1, s') \<and> fs_nodes s' ''b'' = None)"
proof -
  obtain P where P: "check_arg [''--record'', ''a''] (init_params static_params) = Inr (Some P)" "t_record_enable P"
    "text_of (t_record_file P) = Inr ''a''"
    using one_file_args(2) [of "''a''"] by (auto simp: NUL_def)
  obtain Q where Q: "check_arg [''--record'', ''b''] (init_params static_params) = Inr (Some Q)" "t_record_enable Q"
    "text_of (t_record_file Q) = Inr ''b''"
    using one_file_args(2) [of "''b''"] by (auto simp: NUL_def)
  show ?thesis
    using sndtest_records [OF P, of test_phone True 1 "replicate 5000 7"] sndtest_records [OF Q, of test_phone True 1]
    by (auto simp: test_phone_simps)
qed

section \<open>The exit status\<close>

lemma f_open_plan: "f_open p m c (s\<lparr>fs_plan := x\<rparr>) = map_prod id (\<lambda>s. s\<lparr>fs_plan := x\<rparr>) (f_open p m c s)"
  by (simp add: f_open_def)

lemma f_ioctl_plan: "snd (f_ioctl fd r v (s\<lparr>fs_plan := x\<rparr>)) = (snd (f_ioctl fd r v s))\<lparr>fs_plan := x\<rparr>"
  by (simp add: f_ioctl_def)

abbreviation with_plan :: "outcome list \<Rightarrow> stop + (int \<times> run_params \<times> fs) \<Rightarrow> stop + (int \<times> run_params \<times> fs)" where
  "with_plan x \<equiv> map_sum id (\<lambda>(r, P, s). (r, P, s\<lparr>fs_plan := x\<rparr>))"

lemmas test_opens = test_open_device_def test_open_file_def f_open_plan

lemma init_replay_plan: "init_replay P (s\<lparr>fs_plan := x\<rparr>) = with_plan x (init_replay P s)"
proof (cases "text_of (t_replay_file P)")
  case (Inr name)
  obtain fd s1 where 1: "f_open DEVICE_DSP_NAME O_WRONLY False s = (fd, s1)" by fastforce
  obtain fd2 s2 where 2: "f_open name O_RDONLY False s1 = (fd2, s2)" by fastforce
  show ?thesis using Inr by (simp add: init_replay_def test_opens 1 2 Let_def file_length_def f_size_def)
qed (simp add: init_replay_def)

lemma init_record_plan: "init_record P (s\<lparr>fs_plan := x\<rparr>) = with_plan x (init_record P s)"
proof (cases "text_of (t_record_file P)")
  case (Inr name)
  obtain fd s1 where 1: "f_open DEVICE_DSP_NAME O_RDONLY False s = (fd, s1)" by fastforce
  obtain fd2 s2 where 2: "f_open DEVICE_JZ_DMIC O_RDONLY False s1 = (fd2, s2)" by fastforce
  obtain fd3 s3 where 3: "f_open name O_WRONLY False s2 = (fd3, s3)" by fastforce
  show ?thesis using Inr by (simp add: init_record_def test_opens 1 2 3 Let_def file_length_def f_size_def)
qed (simp add: init_record_def)

lemma init_mixer_plan: "init_mixer P (s\<lparr>fs_plan := x\<rparr>) = with_plan x (init_mixer P s)"
proof -
  obtain fd s1 where 1: "f_open DEVICE_MIXER_NAME O_WRONLY False s = (fd, s1)" by fastforce
  show ?thesis by (simp add: init_mixer_def test_opens 1 Let_def test_config_device_def f_ioctl_plan)
qed

lemma bind_with_plan:
  "(\<And>r P s. f (r, P, s\<lparr>fs_plan := x\<rparr>) = with_plan x (f (r, P, s))) \<Longrightarrow>
   bindE (with_plan x m) f = with_plan x (bindE m f)"
  by (cases m) auto

lemma init_audio_plan: "init_audio P (s\<lparr>fs_plan := x\<rparr>) = with_plan x (init_audio P s)"
proof -
  have 1: "(if c then init_replay P (s\<lparr>fs_plan := x\<rparr>) else Inr (0, P, s\<lparr>fs_plan := x\<rparr>)) =
    with_plan x (if c then init_replay P s else Inr (0, P, s))" for c P s
    by (simp add: init_replay_plan)
  have 2: "(if c then init_record P (s\<lparr>fs_plan := x\<rparr>) else Inr (0, P, s\<lparr>fs_plan := x\<rparr>)) =
    with_plan x (if c then init_record P s else Inr (0, P, s))" for c P s
    by (simp add: init_record_plan)
  show ?thesis
    unfolding init_audio_def 1
    by (rule bind_with_plan, simp only: prod.case 2) (simp add: bind_with_plan init_mixer_plan)
qed

lemma run_result: "fst (run memory n P s) = (if memory then 0 else -1)"
  by (simp add: run_def split: prod.split)

lemma main_status:
  "map_sum id fst (sndtest_main args memory n s) =
   bindE (check_arg args (init_params static_params)) (\<lambda>r. case r of None \<Rightarrow> Inr 1
     | Some P \<Rightarrow> bindE (init_audio P s) (\<lambda>(r, P, s). Inr (if r \<noteq> 0 \<or> \<not> memory then 1 else 0)))"
proof (cases "check_arg args (init_params static_params)")
  case (Inr r)
  show ?thesis
  proof (cases r)
    case (Some P)
    show ?thesis
    proof (cases "init_audio P s")
      case (Inr q)
      obtain r1 P1 s1 where "q = (r1, P1, s1)" by (cases q)
      moreover obtain r2 s2 where "run memory n P1 s1 = (r2, s2)" by fastforce
      moreover from this have "r2 = (if memory then 0 else -1)" using run_result [of memory n P1 s1] by simp
      ultimately show ?thesis using Some Inr \<open>check_arg args _ = Inr r\<close> by (cases memory; simp add: sndtest_main_def)
    qed (use Some \<open>check_arg args _ = Inr r\<close> in \<open>simp add: sndtest_main_def\<close>)
  qed (use \<open>check_arg args _ = Inr r\<close> in \<open>simp add: sndtest_main_def\<close>)
qed (simp add: sndtest_main_def)

text \<open>The exit status says nothing about the sound: whatever becomes of the transfers - all fail, some are
  short - and whenever the alarm comes, the status is the same. \<open>run\<close> returns 0 after a read or
  write error as well, and a short write to the sound device is not repeated.\<close>

theorem sndtest_status:
  "map_sum id fst (sndtest_main args memory n (s\<lparr>fs_plan := plan\<rparr>)) = map_sum id fst (sndtest_main args memory n' s)"
proof -
  have "bindE (with_plan plan m) (\<lambda>(r, P, s). Inr (if r \<noteq> 0 \<or> \<not> memory then 1 else 0 :: int)) =
      bindE m (\<lambda>(r, P, s). Inr (if r \<noteq> 0 \<or> \<not> memory then 1 else 0))" for m
    by (cases m) auto
  then show ?thesis unfolding main_status init_audio_plan by simp
qed

end
