(* ===== verification/Sndthreads.thy ===== *)
theory Sndthreads
  imports Sndtool
begin

text \<open>
  \<^verbatim>\<open>test_speaker/sndkit_only_replay/sndkit.c\<close>, playing and recording at once: the end of \<open>main\<close> creates
  \<open>replay_thread\<close> and \<open>record_thread\<close> on one sound device and joins them. \<open>Sndkit\<close> describes a run of \<open>play\<close> or
  \<open>record\<close> that is not disturbed; here the two threads and \<open>main\<close> take their steps in any order. A step of a
  thread goes to its next system call, the only place where the threads meet: their buffers and counters
  are their own. A thread is where it stands with its local variables.
\<close>

section \<open>The threads step by step\<close>

text \<open>At the beginning, at the test of the outer loop (the buffer and the count of the loop), in the inner loop
  (buffer, \<open>pos\<close>, the bytes still to write, the count of the outer loop after it), returned, or stopped with
  the whole process.\<close>

datatype thread = Begin | Top bytes int | Out bytes int int int | Ended int | Stopped stop

fun put_step :: "int \<Rightarrow> bytes \<Rightarrow> int \<Rightarrow> int \<Rightarrow> int \<Rightarrow> fs \<Rightarrow> thread \<times> fs" where
  "put_step fd buff pos len n s =
     (if len > 0 then
        (case load_bytes buff pos (nat len) of
           Inl e \<Rightarrow> (Stopped e, s)
         | Inr b \<Rightarrow>
             (case f_write fd b s of
                (None, s) \<Rightarrow> (Ended (-1), s)
              | (Some k, s) \<Rightarrow> (Out buff (pos + int k) (len - int k) n, s)))
      else (Top buff n, s))"

fun play_step :: "(nat \<Rightarrow> bytes option) \<Rightarrow> replay_params \<Rightarrow> thread \<Rightarrow> fs \<Rightarrow> thread \<times> fs" where
  "play_step malloc P Begin s =
     (case play_alloc malloc P of None \<Rightarrow> (Ended (-1), s) | Some buff \<Rightarrow> (Top buff (p_replay_data_len P), s))"
| "play_step malloc P (Top buff n) s =
     (let forever = (p_replay_data_len P = 0) in
      if forever \<or> n > 0 then
        (case f_read (p_replay_fd P) (size_t (p_buffer_size P)) s of
           (None, s) \<Rightarrow> (Ended (-1), s)
         | (Some b, s) \<Rightarrow>
             if b = [] then (Ended 0, s)
             else
               (case bindE (store buff 0 b) (\<lambda>buff. to_device P buff (int (length b))) of
                  Inl e \<Rightarrow> (Stopped e, s)
                | Inr (buff, len) \<Rightarrow> (Out buff 0 len (if forever then n else n - int (length b)), s)))
      else (Ended 0, s))"
| "play_step malloc P (Out buff pos len n) s = put_step (p_dev_fd P) buff pos len n s"
| "play_step malloc P t s = (t, s)"

fun record_step :: "(nat \<Rightarrow> bytes option) \<Rightarrow> record_params \<Rightarrow> thread \<Rightarrow> fs \<Rightarrow> thread \<times> fs" where
  "record_step malloc R Begin s =
     (case malloc (size_t (r_buffer_size R)) of
        None \<Rightarrow> (Ended (-1), s)
      | Some buff \<Rightarrow>
          (Top buff (record_length (format_bits (r_format R)) (r_channels R) (r_speed R) (r_duration R)), s))"
| "record_step malloc R (Top buff record_len) s =
     (if record_len > 0 then
        (case f_read (r_dev_fd R)
                (size_t (if r_buffer_size R > record_len then record_len else r_buffer_size R)) s of
           (None, s) \<Rightarrow> (Ended (-1), s)
         | (Some b, s) \<Rightarrow>
             if b = [] then (Top buff record_len, s)
             else
               (case bindE (store buff 0 b) (\<lambda>buff.
                       from_device R (format_bits (r_format R)) buff (int (length b))) of
                  Inl e \<Rightarrow> (Stopped e, s)
                | Inr (buff, n_read) \<Rightarrow>
                    let n_to_write = (if n_read < record_len then n_read else record_len)
                    in (Out buff 0 n_to_write (record_len - n_to_write), s)))
      else (Ended 0, s))"
| "record_step malloc R (Out buff pos len n) s = put_step (r_record_fd R) buff pos len n s"
| "record_step malloc R t s = (t, s)"

text \<open>Whether a thread has still something to do.\<close>

fun busy :: "thread \<Rightarrow> bool" where
  "busy (Ended _) = False"
| "busy (Stopped _) = False"
| "busy _ = True"

fun stopped :: "thread \<Rightarrow> bool" where
  "stopped (Stopped _) = True"
| "stopped _ = False"

section \<open>main and its threads\<close>

text \<open>Where \<open>main\<close> stands, the two threads (\<open>None\<close>: not created, so \<open>replaying\<close> or \<open>recording\<close> is not 0) and the system.\<close>

datatype place = Create_replay | Sleep | Create_record | Join_record | Join_replay | Returned int

record process =
  m_at :: place
  m_replay :: "thread option"
  m_record :: "thread option"
  m_fs :: fs

definition process_start :: "fs \<Rightarrow> process" where
  "process_start s = \<lparr>m_at = Create_replay, m_replay = None, m_record = None, m_fs = s\<rparr>"

text \<open>The process is alive as long as \<open>main\<close> has not returned and no assertion has failed.\<close>

definition alive :: "process \<Rightarrow> bool" where
  "alive c \<longleftrightarrow> (case m_at c of Returned _ \<Rightarrow> False | _ \<Rightarrow> True) \<and>
     (case m_replay c of None \<Rightarrow> True | Some t \<Rightarrow> \<not> stopped t) \<and>
     (case m_record c of None \<Rightarrow> True | Some t \<Rightarrow> \<not> stopped t)"

definition joined :: "thread option \<Rightarrow> bool" where
  "joined ot \<longleftrightarrow> (case ot of None \<Rightarrow> True | Some t \<Rightarrow> \<not> busy t)"

inductive process_step ::
  "(nat \<Rightarrow> bytes option) \<Rightarrow> replay_params option \<Rightarrow> record_params option \<Rightarrow> process \<Rightarrow> process \<Rightarrow> bool"
  for malloc P R where
  replay_created: "m_at c = Create_replay \<Longrightarrow> alive c \<Longrightarrow> P \<noteq> None \<Longrightarrow>
     process_step malloc P R c (c\<lparr>m_at := Sleep, m_replay := Some Begin\<rparr>)"
| no_replay: "m_at c = Create_replay \<Longrightarrow> alive c \<Longrightarrow>
     process_step malloc P R c (c\<lparr>m_at := Sleep\<rparr>)"
| slept: "m_at c = Sleep \<Longrightarrow> alive c \<Longrightarrow> process_step malloc P R c (c\<lparr>m_at := Create_record\<rparr>)"
| record_created: "m_at c = Create_record \<Longrightarrow> alive c \<Longrightarrow> R \<noteq> None \<Longrightarrow>
     process_step malloc P R c (c\<lparr>m_at := Join_record, m_record := Some Begin\<rparr>)"
| no_record: "m_at c = Create_record \<Longrightarrow> alive c \<Longrightarrow>
     process_step malloc P R c (c\<lparr>m_at := Join_record\<rparr>)"
| record_joined: "m_at c = Join_record \<Longrightarrow> alive c \<Longrightarrow> joined (m_record c) \<Longrightarrow>
     process_step malloc P R c (c\<lparr>m_at := Join_replay\<rparr>)"
| replay_joined: "m_at c = Join_replay \<Longrightarrow> alive c \<Longrightarrow> joined (m_replay c) \<Longrightarrow>
     process_step malloc P R c (c\<lparr>m_at := Returned 0\<rparr>)"
| replay_runs: "alive c \<Longrightarrow> m_replay c = Some t \<Longrightarrow> busy t \<Longrightarrow> P = Some p \<Longrightarrow>
     play_step malloc p t (m_fs c) = (t', s') \<Longrightarrow>
     process_step malloc P R c (c\<lparr>m_replay := Some t', m_fs := s'\<rparr>)"
| record_runs: "alive c \<Longrightarrow> m_record c = Some t \<Longrightarrow> busy t \<Longrightarrow> R = Some r \<Longrightarrow>
     record_step malloc r t (m_fs c) = (t', s') \<Longrightarrow>
     process_step malloc P R c (c\<lparr>m_record := Some t', m_fs := s'\<rparr>)"

text \<open>What a run of so many steps can reach.\<close>

inductive process_run ::
  "(nat \<Rightarrow> bytes option) \<Rightarrow> replay_params option \<Rightarrow> record_params option \<Rightarrow> fs \<Rightarrow> nat \<Rightarrow> process \<Rightarrow> bool"
  for malloc P R s where
  run_start: "process_run malloc P R s 0 (process_start s)"
| run_step: "process_run malloc P R s n c \<Longrightarrow> process_step malloc P R c c' \<Longrightarrow> process_run malloc P R s (Suc n) c'"

code_pred (modes: i \<Rightarrow> i \<Rightarrow> i \<Rightarrow> i \<Rightarrow> o \<Rightarrow> bool) process_step .

section \<open>A thread that runs alone\<close>

inductive thread_end :: "(thread \<Rightarrow> fs \<Rightarrow> thread \<times> fs) \<Rightarrow> thread \<Rightarrow> fs \<Rightarrow> stop + (int \<times> fs) \<Rightarrow> bool" for step where
  has_ended: "thread_end step (Ended r) s (Inr (r, s))"
| has_stopped: "thread_end step (Stopped e) s (Inl e)"
| goes_on: "busy t \<Longrightarrow> step t s = (t', s') \<Longrightarrow> thread_end step t' s' res \<Longrightarrow> thread_end step t s res"

text \<open>What the steps of a routine have to do with the routine: \<open>rest\<close> is what it will still return from a place
  on, no step changes that, and its inner loop is the one of every copy.\<close>

locale copy_thread =
  fixes step :: "thread \<Rightarrow> fs \<Rightarrow> thread \<times> fs" and dst :: int
    and rest :: "thread \<Rightarrow> fs \<Rightarrow> (stop + (int \<times> fs)) option"
  assumes step_put: "step (Out buff pos len n) s = put_step dst buff pos len n s"
    and rest_step: "busy t \<Longrightarrow> step t s = (t', s') \<Longrightarrow> rest t s = rest t' s'"
    and rest_ended: "rest (Ended r) s = Some (Inr (r, s))"
    and rest_stopped: "rest (Stopped e) s = Some (Inl e)"
begin

lemma end_is_rest: "thread_end step t s res \<Longrightarrow> rest t s = Some res"
  by (induction rule: thread_end.induct) (simp_all add: rest_ended rest_stopped rest_step)

text \<open>The inner loop is run through.\<close>

lemma end_of_put:
  assumes "fd = dst"
    and "case write_loop fd buff pos len s of
      Inl e \<Rightarrow> res = Inl e
    | Inr (ok, s') \<Rightarrow> if ok then thread_end step (Top buff n) s' res else res = Inr (-1, s')"
  shows "thread_end step (Out buff pos len n) s res"
  using assms
proof (induction fd buff pos len s rule: write_loop.induct)
  case (1 fd buff pos len s)
  have next_step: "thread_end step t' s' res \<Longrightarrow> put_step dst buff pos len n s = (t', s') \<Longrightarrow> ?case" for t' s'
    by (rule goes_on [of "Out buff pos len n"]) (simp_all add: step_put)
  show ?case
  proof (cases "len > 0")
    case False
    then show ?thesis using 1(3) by (intro next_step [of "Top buff n" s]) (simp_all add: write_loop_done)
  next
    case True
    show ?thesis
    proof (cases "load_bytes buff pos (nat len)")
      case (Inl e)
      then have "res = Inl e" using 1(3) True by (subst (asm) write_loop.simps) simp
      then show ?thesis using True Inl by (intro next_step [of "Stopped e" s]) (simp_all add: has_stopped)
    next
      case (Inr b)
      obtain w s1 where w: "f_write dst b s = (w, s1)" by fastforce
      show ?thesis
      proof (cases w)
        case None
        then have "res = Inr (-1, s1)" using 1(2,3) True Inr w by (subst (asm) write_loop.simps) simp
        then show ?thesis using True Inr w None by (intro next_step [of "Ended (-1)" s1]) (simp_all add: has_ended)
      next
        case (Some k)
        have "write_loop fd buff pos len s = write_loop fd buff (pos + int k) (len - int k) s1"
          using 1(2) True Inr w Some by (subst write_loop.simps) simp
        then have "thread_end step (Out buff (pos + int k) (len - int k) n) s1 res"
          using 1(1) [OF True Inr] 1(2,3) w Some by simp
        then show ?thesis using True Inr w Some by (intro next_step) simp_all
      qed
    qed
  qed
qed

end

text \<open>Once the inner loop has been entered, \<open>play\<close> and \<open>record\<close> still return:\<close>

abbreviation after_put :: "int \<Rightarrow> bytes \<Rightarrow> int \<Rightarrow> int \<Rightarrow> fs \<Rightarrow> (fs \<Rightarrow> (stop + (int \<times> fs)) option) \<Rightarrow> (stop + (int \<times> fs)) option" where
  "after_put fd buff pos len s k \<equiv>
     go_on (write_loop fd buff pos len s) (\<lambda>(ok, s). if ok then k s else Some (Inr (-1, s)))"

lemma after_put_step:
  assumes "put_step fd buff pos len n s = (t', s')"
  obtains (more) pos' len' where "t' = Out buff pos' len' n"
      "\<And>k. after_put fd buff pos len s k = after_put fd buff pos' len' s' k"
  | (top) "t' = Top buff n" "\<And>k. after_put fd buff pos len s k = k s'"
  | (ended) r where "t' = Ended r" "\<And>k. after_put fd buff pos len s k = Some (Inr (r, s'))"
  | (stopped) e where "t' = Stopped e" "\<And>k. after_put fd buff pos len s k = Some (Inl e)"
proof (cases "len > 0")
  case False
  then show thesis using assms by (intro top) (simp_all add: write_loop_done)
next
  case True
  show thesis
  proof (cases "load_bytes buff pos (nat len)")
    case (Inl e)
    then show thesis using assms True by (intro stopped [of e]) (simp_all add: write_loop.simps [of fd buff pos len])
  next
    case (Inr b)
    show thesis
    proof (cases "fst (f_write fd b s)")
      case None
      then show thesis using assms True Inr
        by (intro ended [of "-1"]) (simp_all add: write_loop.simps [of fd buff pos len] split: prod.splits)
    next
      case (Some k)
      then have "write_loop fd buff pos len s = write_loop fd buff (pos + int k) (len - int k) s'"
        using assms True Inr by (subst write_loop.simps) (simp split: prod.splits)
      then show thesis using assms True Inr Some
        by (intro more [of "pos + int k" "len - int k"]) (simp_all split: prod.splits)
    qed
  qed
qed

fun play_rest :: "(nat \<Rightarrow> bytes option) \<Rightarrow> replay_params \<Rightarrow> thread \<Rightarrow> fs \<Rightarrow> (stop + (int \<times> fs)) option" where
  "play_rest malloc P Begin s = play malloc P s"
| "play_rest malloc P (Top buff n) s = play_loop P (p_replay_data_len P = 0) buff n s"
| "play_rest malloc P (Out buff pos len n) s =
     after_put (p_dev_fd P) buff pos len s (play_loop P (p_replay_data_len P = 0) buff n)"
| "play_rest malloc P (Ended r) s = Some (Inr (r, s))"
| "play_rest malloc P (Stopped e) s = Some (Inl e)"

fun record_rest :: "(nat \<Rightarrow> bytes option) \<Rightarrow> record_params \<Rightarrow> thread \<Rightarrow> fs \<Rightarrow> (stop + (int \<times> fs)) option" where
  "record_rest malloc R Begin s = record_run malloc R s"
| "record_rest malloc R (Top buff n) s = record_loop R (format_bits (r_format R)) buff n s"
| "record_rest malloc R (Out buff pos len n) s =
     after_put (r_record_fd R) buff pos len s (record_loop R (format_bits (r_format R)) buff n)"
| "record_rest malloc R (Ended r) s = Some (Inr (r, s))"
| "record_rest malloc R (Stopped e) s = Some (Inl e)"

lemma play_top_rest:
  "play_step malloc P (Top buff n) s = (t', s') \<Longrightarrow>
    play_loop P (p_replay_data_len P = 0) buff n s = play_rest malloc P t' s'"
  by (subst play_loop.simps)
    (auto simp: Let_def bindE_def split: if_splits sum.splits prod.splits option.splits)

lemma record_top_rest:
  "record_step malloc R (Top buff n) s = (t', s') \<Longrightarrow>
    record_loop R (format_bits (r_format R)) buff n s = record_rest malloc R t' s'"
  by (subst record_loop.simps)
    (auto simp: Let_def bindE_def split: if_splits sum.splits prod.splits option.splits)


interpretation player: copy_thread "play_step malloc P" "p_dev_fd P" "play_rest malloc P" for malloc P
proof
  fix t s t' s'
  assume "busy t" "play_step malloc P t s = (t', s')"
  then show "play_rest malloc P t s = play_rest malloc P t' s'"
  proof (cases t)
    case Begin
    then show ?thesis using \<open>play_step malloc P t s = (t', s')\<close>
      by (auto simp: play_def split: option.splits)
  next
    case (Top buff n)
    then show ?thesis using play_top_rest [of malloc P buff n s t' s'] \<open>play_step malloc P t s = (t', s')\<close>
      by (simp del: play_step.simps)
  next
    case (Out buff pos len n)
    then have "put_step (p_dev_fd P) buff pos len n s = (t', s')" using \<open>play_step malloc P t s = (t', s')\<close> by simp
    then show ?thesis using Out by (cases rule: after_put_step) (simp_all del: put_step.simps)
  qed simp_all
qed simp_all

interpretation recorder: copy_thread "record_step malloc R" "r_record_fd R" "record_rest malloc R" for malloc R
proof
  fix t s t' s'
  assume "busy t" "record_step malloc R t s = (t', s')"
  then show "record_rest malloc R t s = record_rest malloc R t' s'"
  proof (cases t)
    case Begin
    then show ?thesis using \<open>record_step malloc R t s = (t', s')\<close>
      by (auto simp: record_run_def Let_def split: option.splits)
  next
    case (Top buff n)
    then show ?thesis using record_top_rest [of malloc R buff n s t' s'] \<open>record_step malloc R t s = (t', s')\<close>
      by (simp del: record_step.simps)
  next
    case (Out buff pos len n)
    then have "put_step (r_record_fd R) buff pos len n s = (t', s')" using \<open>record_step malloc R t s = (t', s')\<close> by simp
    then show ?thesis using Out by (cases rule: after_put_step) (simp_all del: put_step.simps)
  qed simp_all
qed simp_all

text \<open>What returns has ended after finitely many steps.\<close>

definition plays_to_end :: "(nat \<Rightarrow> bytes option) \<Rightarrow> ((((replay_params \<times> bool) \<times> bytes) \<times> int) \<times> fs) \<Rightarrow> stop + (int \<times> fs) \<Rightarrow> bool" where
  "plays_to_end malloc x res = (case x of ((((P, forever), buff), n), s) \<Rightarrow>
     forever = (p_replay_data_len P = 0) \<longrightarrow> thread_end (play_step malloc P) (Top buff n) s res)"

lemma play_loop_ends:
  assumes "play_loop P forever buff n s = Some res"
  shows "plays_to_end malloc ((((P, forever), buff), n), s) res"
proof (rule play_loop.raw_induct [where Pa = "plays_to_end malloc", OF _ assms])
  fix pl P forever buff n s res
  assume 1: "\<And>P forever buff n s res. pl P forever buff n s = Some res \<Longrightarrow> plays_to_end malloc ((((P, forever), buff), n), s) res"
    and 2: "(if forever \<or> n > 0 then
        (case f_read (p_replay_fd P) (size_t (p_buffer_size P)) s of
           (None, s) \<Rightarrow> Some (Inr (-1, s))
         | (Some b, s) \<Rightarrow>
             if b = [] then Some (Inr (0, s))
             else
               go_on (store buff 0 b) (\<lambda>buff.
               go_on (to_device P buff (int (length b))) (\<lambda>(buff, len).
               go_on (write_loop (p_dev_fd P) buff 0 len s) (\<lambda>(ok, s).
                 if ok then pl P forever buff
                   (if forever then n else n - int (length b)) s
                 else Some (Inr (-1, s))))))
      else Some (Inr (0, s))) = Some res"
  show "plays_to_end malloc ((((P, forever), buff), n), s) res"
    unfolding plays_to_end_def prod.case
  proof
    assume f: "forever = (p_replay_data_len P = 0)"
    obtain t' s' where st: "play_step malloc P (Top buff n) s = (t', s')" by fastforce
    consider r where "t' = Ended r" "res = Inr (r, s')" | e where "t' = Stopped e" "res = Inl e"
      | buff1 len k where "t' = Out buff1 0 len k"
          "after_put (p_dev_fd P) buff1 0 len s' (pl P forever buff1 k) = Some res"
      using st 2 f by (auto simp: Let_def bindE_def split: if_splits sum.splits prod.splits option.splits)
    then have "thread_end (play_step malloc P) t' s' res"
    proof cases
      case 3
      then show ?thesis using 1 f
        by (auto simp: plays_to_end_def intro!: player.end_of_put [OF refl] split: sum.splits prod.splits)
    qed (simp_all add: has_ended has_stopped)
    then show "thread_end (play_step malloc P) (Top buff n) s res" using goes_on st by simp
  qed
qed

definition records_to_end :: "(nat \<Rightarrow> bytes option) \<Rightarrow> ((((record_params \<times> int) \<times> bytes) \<times> int) \<times> fs) \<Rightarrow> stop + (int \<times> fs) \<Rightarrow> bool" where
  "records_to_end malloc x res = (case x of ((((R, bits), buff), n), s) \<Rightarrow>
     bits = format_bits (r_format R) \<longrightarrow> thread_end (record_step malloc R) (Top buff n) s res)"

lemma record_loop_ends:
  assumes "record_loop R bits buff n s = Some res"
  shows "records_to_end malloc ((((R, bits), buff), n), s) res"
proof (rule record_loop.raw_induct [where Pa = "records_to_end malloc", OF _ assms])
  fix rl R bits buff n s res
  assume 1: "\<And>R bits buff n s res. rl R bits buff n s = Some res \<Longrightarrow> records_to_end malloc ((((R, bits), buff), n), s) res"
    and 2: "(if n > 0 then
        (case f_read (r_dev_fd R) (size_t (if r_buffer_size R > n then n else r_buffer_size R)) s of
           (None, s) \<Rightarrow> Some (Inr (-1, s))
         | (Some b, s) \<Rightarrow>
             if b = [] then rl R bits buff n s
             else
               go_on (store buff 0 b) (\<lambda>buff.
               go_on (from_device R bits buff (int (length b))) (\<lambda>(buff, n_read).
               let n_to_write = (if n_read < n then n_read else n) in
               go_on (write_loop (r_record_fd R) buff 0 n_to_write s) (\<lambda>(ok, s).
                 if ok then rl R bits buff (n - n_to_write) s
                 else Some (Inr (-1, s))))))
      else Some (Inr (0, s))) = Some res"
  show "records_to_end malloc ((((R, bits), buff), n), s) res"
    unfolding records_to_end_def prod.case
  proof
    assume f: "bits = format_bits (r_format R)"
    obtain t' s' where st: "record_step malloc R (Top buff n) s = (t', s')" by fastforce
    consider r where "t' = Ended r" "res = Inr (r, s')" | e where "t' = Stopped e" "res = Inl e"
      | "t' = Top buff n" "rl R bits buff n s' = Some res"
      | buff1 len k where "t' = Out buff1 0 len k"
          "after_put (r_record_fd R) buff1 0 len s' (rl R bits buff1 k) = Some res"
      using st 2 f by (auto simp: Let_def bindE_def split: if_splits sum.splits prod.splits option.splits)
    then have "thread_end (record_step malloc R) t' s' res"
    proof cases
      case 3
      then show ?thesis using 1 f by (auto simp: records_to_end_def)
    next
      case 4
      then show ?thesis using 1 f
        by (auto simp: records_to_end_def intro!: recorder.end_of_put [OF refl] split: sum.splits prod.splits)
    qed (simp_all add: has_ended has_stopped)
    then show "thread_end (record_step malloc R) (Top buff n) s res" using goes_on st by simp
  qed
qed

text \<open>A thread that is not disturbed is its routine: stepping \<open>replay_thread\<close> from its beginning ends, with this
  value and system or stopped by this assertion, exactly when \<open>play\<close> returns so, and \<open>record_thread\<close> exactly
  as \<open>record\<close>; a routine that runs for ever is a thread whose steps never end.\<close>

theorem threads_are_routines:
  "(thread_end (play_step malloc P) Begin s res \<longleftrightarrow> play malloc P s = Some res) \<and>
   (thread_end (record_step malloc R) Begin s res \<longleftrightarrow> record_run malloc R s = Some res)"
proof (intro conjI iffI)
  assume "play malloc P s = Some res"
  then have "case play_alloc malloc P of None \<Rightarrow> res = Inr (-1, s)
      | Some buff \<Rightarrow> thread_end (play_step malloc P) (Top buff (p_replay_data_len P)) s res"
    using play_loop_ends by (fastforce simp: play_def plays_to_end_def split: option.splits)
  then show "thread_end (play_step malloc P) Begin s res"
    by (cases "play_alloc malloc P") (auto intro: goes_on [of Begin] has_ended)
next
  assume "record_run malloc R s = Some res"
  then have "case malloc (size_t (r_buffer_size R)) of None \<Rightarrow> res = Inr (-1, s)
      | Some buff \<Rightarrow> thread_end (record_step malloc R)
          (Top buff (record_length (format_bits (r_format R)) (r_channels R) (r_speed R) (r_duration R))) s res"
    using record_loop_ends by (fastforce simp: record_run_def records_to_end_def Let_def split: option.splits)
  then show "thread_end (record_step malloc R) Begin s res"
    by (cases "malloc (size_t (r_buffer_size R))") (auto intro: goes_on [of Begin] has_ended)
qed (use player.end_is_rest [of malloc P Begin] recorder.end_is_rest [of malloc R Begin] in simp_all)

end
