(* ===== verification/Sndduplex.thy ===== *)
theory Sndduplex
  imports Sndthreads
begin

text \<open>
  \<^verbatim>\<open>test_speaker/sndkit_only_replay/sndkit.c\<close>: the two threads of \<open>Sndthreads\<close> on one device do not disturb each other.
  Each has an assertion that its own steps keep and that depends only on what it sees of the system (rely); no
  step changes what the other sees (guarantee). The locale \<open>two_workers\<close> holds these laws, the interpretation \<open>duo\<close>
  is the program's own pair, and the properties of the whole process follow by induction on its runs.
\<close>

section \<open>Two threads on one device\<close>

text \<open>The file to play, the device and the file to record to are different; nothing fails.\<close>

definition duplex :: "int \<Rightarrow> int \<Rightarrow> int \<Rightarrow> fs \<Rightarrow> bool" where
  "duplex a d r s \<longleftrightarrow> (\<exists>p q w. fs_fds s a = Some p \<and> fs_fds s d = Some q \<and> fs_fds s r = Some w \<and>
     distinct [fst p, fst q, fst w] \<and> fs_nodes s (fst p) \<noteq> None \<and>
     (\<exists>i o'. fs_nodes s (fst q) = Some (Dev i o')) \<and> at_data s w) \<and> Failed \<notin> set (fs_plan s)"

text \<open>What a thread sees of the system, and what it leaves to the other.\<close>

definition same_view :: "int \<Rightarrow> int \<Rightarrow> fs \<Rightarrow> fs \<Rightarrow> bool" where
  "same_view src dst s s' \<longleftrightarrow> left src s' = left src s \<and> given dst s' = given dst s"

lemma same_view_refl: "same_view src dst s s"
  by (simp add: same_view_def)

lemma duplex_apart:
  assumes "duplex a d r s"
  shows "apart a d s" "apart d r s"
  using assms by (fastforce simp: duplex_def apart_def at_data_def)+

text \<open>A transfer changes the offset of its descriptor and the data this is open on, nothing else.\<close>

definition moves :: "int \<Rightarrow> string \<Rightarrow> fs \<Rightarrow> fs \<Rightarrow> bool" where
  "moves fd path s s' \<longleftrightarrow> (\<forall>b. b \<noteq> fd \<longrightarrow> fs_fds s' b = fs_fds s b) \<and> (\<exists>i. fs_fds s' fd = Some (path, i)) \<and>
     (\<forall>p. p \<noteq> path \<longrightarrow> fs_nodes s' p = fs_nodes s p) \<and> (Failed \<notin> set (fs_plan s) \<longrightarrow> Failed \<notin> set (fs_plan s'))"

lemma next_outcome_plan:
  assumes "next_outcome s = (c, s1)"
  obtains cs where "s1 = s\<lparr>fs_plan := cs\<rparr>" "Failed \<notin> set (fs_plan s) \<longrightarrow> Failed \<notin> set cs"
  using assms by (intro that [of "fs_plan s1"]) (auto simp: next_outcome_def split: list.splits)

lemma f_read_moves:
  assumes "f_read fd n s = (x, s')" and "fs_fds s fd = Some (path, i)"
  shows "moves fd path s s'" and "fs_nodes s path \<noteq> None \<Longrightarrow> fs_nodes s' path \<noteq> None"
    and "fs_nodes s path = Some (Dev inp outp) \<Longrightarrow> \<exists>inp'. fs_nodes s' path = Some (Dev inp' outp)"
proof -
  obtain c s1 where c: "next_outcome s = (c, s1)" by fastforce
  then obtain cs where s1: "s1 = s\<lparr>fs_plan := cs\<rparr>" "Failed \<notin> set (fs_plan s) \<longrightarrow> Failed \<notin> set cs"
    by (rule next_outcome_plan)
  show "moves fd path s s'" "fs_nodes s path \<noteq> None \<Longrightarrow> fs_nodes s' path \<noteq> None"
    "fs_nodes s path = Some (Dev inp outp) \<Longrightarrow> \<exists>inp'. fs_nodes s' path = Some (Dev inp' outp)"
    using assms c s1 by (auto simp: f_read_def moves_def Let_def split: option.splits if_splits fnode.splits)
qed

lemma f_write_moves:
  assumes "f_write fd b s = (x, s')" and "fs_fds s fd = Some (path, i)"
  shows "moves fd path s s'" and "at_data s (path, i) \<Longrightarrow> fs_fds s' fd = Some (path, i') \<Longrightarrow> at_data s' (path, i')"
    and "fs_nodes s path = Some (Dev inp outp) \<Longrightarrow> \<exists>outp'. fs_nodes s' path = Some (Dev inp outp')"
proof -
  obtain c s1 where c: "next_outcome s = (c, s1)" by fastforce
  then obtain cs where s1: "s1 = s\<lparr>fs_plan := cs\<rparr>" "Failed \<notin> set (fs_plan s) \<longrightarrow> Failed \<notin> set cs"
    by (rule next_outcome_plan)
  show "moves fd path s s'" "fs_nodes s path = Some (Dev inp outp) \<Longrightarrow> \<exists>outp'. fs_nodes s' path = Some (Dev inp outp')"
    "at_data s (path, i) \<Longrightarrow> fs_fds s' fd = Some (path, i') \<Longrightarrow> at_data s' (path, i')"
    using assms c s1
    by (auto simp: f_write_def moves_def Let_def at_data_def overwrite_at split: option.splits if_splits fnode.splits)
qed

text \<open>The names behind the three descriptors.\<close>

lemma duplexE:
  assumes "duplex a d r s"
  obtains pa ia pd id' pr ir inp outp where "fs_fds s a = Some (pa, ia)" "fs_fds s d = Some (pd, id')" "fs_fds s r = Some (pr, ir)"
    "pa \<noteq> pd" "pa \<noteq> pr" "pd \<noteq> pr" "a \<noteq> d" "a \<noteq> r" "d \<noteq> r" "fs_nodes s pa \<noteq> None" "fs_nodes s pd = Some (Dev inp outp)"
    "at_data s (pr, ir)" "Failed \<notin> set (fs_plan s)"
proof -
  obtain p q w inp outp where D: "fs_fds s a = Some p" "fs_fds s d = Some q" "fs_fds s r = Some w"
    "distinct [fst p, fst q, fst w]" "fs_nodes s (fst p) \<noteq> None" "fs_nodes s (fst q) = Some (Dev inp outp)" "at_data s w"
    "Failed \<notin> set (fs_plan s)"
    using assms by (auto simp: duplex_def)
  show thesis by (rule that [of "fst p" "snd p" "fst q" "snd q" "fst w" "snd w" inp outp]) (use D in auto)
qed

lemma read_file_frame:
  assumes "duplex a d r s" and "f_read a n s = (x, s')"
  shows "duplex a d r s' \<and> same_view d r s s'"
proof -
  from assms(1) obtain pa ia pd id' pr ir inp outp where D: "fs_fds s a = Some (pa, ia)" "fs_fds s d = Some (pd, id')" "fs_fds s r = Some (pr, ir)"
    "pa \<noteq> pd" "pa \<noteq> pr" "pd \<noteq> pr" "a \<noteq> d" "a \<noteq> r" "d \<noteq> r" "fs_nodes s pa \<noteq> None" "fs_nodes s pd = Some (Dev inp outp)"
    "at_data s (pr, ir)" "Failed \<notin> set (fs_plan s)" by (rule duplexE)
  note M = f_read_moves [OF assms(2) D(1)]
  obtain i where "fs_fds s' a = Some (pa, i)" "fs_fds s' d = Some (pd, id')" "fs_fds s' r = Some (pr, ir)"
    "fs_nodes s' pd = Some (Dev inp outp)" "fs_nodes s' pr = fs_nodes s pr" "Failed \<notin> set (fs_plan s')"
    using M(1) D by (auto simp: moves_def)
  then show ?thesis using M(2) D by (simp add: duplex_def same_view_def left_def given_def at_data_def)
qed

lemma write_device_frame:
  assumes "duplex a d r s" and "f_write d b s = (x, s')"
  shows "duplex a d r s' \<and> same_view d r s s'"
proof -
  from assms(1) obtain pa ia pd id' pr ir inp outp where D: "fs_fds s a = Some (pa, ia)" "fs_fds s d = Some (pd, id')" "fs_fds s r = Some (pr, ir)"
    "pa \<noteq> pd" "pa \<noteq> pr" "pd \<noteq> pr" "a \<noteq> d" "a \<noteq> r" "d \<noteq> r" "fs_nodes s pa \<noteq> None" "fs_nodes s pd = Some (Dev inp outp)"
    "at_data s (pr, ir)" "Failed \<notin> set (fs_plan s)" by (rule duplexE)
  note M = f_write_moves [OF assms(2) D(2)]
  obtain i outp' where "fs_fds s' a = Some (pa, ia)" "fs_fds s' d = Some (pd, i)" "fs_fds s' r = Some (pr, ir)"
    "fs_nodes s' pd = Some (Dev inp outp')" "fs_nodes s' pa = fs_nodes s pa" "fs_nodes s' pr = fs_nodes s pr" "Failed \<notin> set (fs_plan s')"
    using M(1) M(3) [OF D(11)] D by (auto simp: moves_def)
  then show ?thesis using D by (simp add: duplex_def same_view_def left_def given_def at_data_def)
qed

lemma read_device_frame:
  assumes "duplex a d r s" and "f_read d n s = (x, s')"
  shows "duplex a d r s' \<and> same_view a d s s'"
proof -
  from assms(1) obtain pa ia pd id' pr ir inp outp where D: "fs_fds s a = Some (pa, ia)" "fs_fds s d = Some (pd, id')" "fs_fds s r = Some (pr, ir)"
    "pa \<noteq> pd" "pa \<noteq> pr" "pd \<noteq> pr" "a \<noteq> d" "a \<noteq> r" "d \<noteq> r" "fs_nodes s pa \<noteq> None" "fs_nodes s pd = Some (Dev inp outp)"
    "at_data s (pr, ir)" "Failed \<notin> set (fs_plan s)" by (rule duplexE)
  note M = f_read_moves [OF assms(2) D(2)]
  obtain i inp' where "fs_fds s' a = Some (pa, ia)" "fs_fds s' d = Some (pd, i)" "fs_fds s' r = Some (pr, ir)"
    "fs_nodes s' pd = Some (Dev inp' outp)" "fs_nodes s' pa = fs_nodes s pa" "fs_nodes s' pr = fs_nodes s pr" "Failed \<notin> set (fs_plan s')"
    using M(1) M(3) [OF D(11)] D by (auto simp: moves_def)
  then show ?thesis using D by (simp add: duplex_def same_view_def left_def given_def at_data_def)
qed

lemma write_record_frame:
  assumes "duplex a d r s" and "f_write r b s = (x, s')"
  shows "duplex a d r s' \<and> same_view a d s s'"
proof -
  from assms(1) obtain pa ia pd id' pr ir inp outp where D: "fs_fds s a = Some (pa, ia)" "fs_fds s d = Some (pd, id')" "fs_fds s r = Some (pr, ir)"
    "pa \<noteq> pd" "pa \<noteq> pr" "pd \<noteq> pr" "a \<noteq> d" "a \<noteq> r" "d \<noteq> r" "fs_nodes s pa \<noteq> None" "fs_nodes s pd = Some (Dev inp outp)"
    "at_data s (pr, ir)" "Failed \<notin> set (fs_plan s)" by (rule duplexE)
  note M = f_write_moves [OF assms(2) D(3)]
  obtain i where "fs_fds s' a = Some (pa, ia)" "fs_fds s' d = Some (pd, id')" "fs_fds s' r = Some (pr, i)"
    "fs_nodes s' pd = Some (Dev inp outp)" "fs_nodes s' pa = fs_nodes s pa" "Failed \<notin> set (fs_plan s')"
    using M(1) D by (auto simp: moves_def)
  then show ?thesis using M(2) D by (simp add: duplex_def same_view_def left_def given_def)
qed

text \<open>A step makes at most one system call.\<close>

lemma put_step_call: "put_step fd buff pos len n s = (t', s') \<Longrightarrow> s' = s \<or> (\<exists>b x. f_write fd b s = (x, s'))"
  by (auto split: if_splits sum.splits prod.splits option.splits)

lemma play_step_call:
  assumes "play_step malloc P t s = (t', s')"
  shows "s' = s \<or> (\<exists>n x. f_read (p_replay_fd P) n s = (x, s')) \<or> (\<exists>b x. f_write (p_dev_fd P) b s = (x, s'))"
proof (cases t)
  case (Top buff n)
  obtain x s1 where r: "f_read (p_replay_fd P) (size_t (p_buffer_size P)) s = (x, s1)" by fastforce
  then have "s' = s \<or> s' = s1" using assms Top by (auto simp: Let_def split: if_splits sum.splits option.splits)
  then show ?thesis using r by auto
next
  case (Out buff pos len n)
  then show ?thesis using assms put_step_call [of "p_dev_fd P" buff pos len n s t' s'] by (simp del: put_step.simps) blast
qed (use assms in \<open>auto split: option.splits\<close>)

lemma record_step_call:
  assumes "record_step malloc R t s = (t', s')"
  shows "s' = s \<or> (\<exists>n x. f_read (r_dev_fd R) n s = (x, s')) \<or> (\<exists>b x. f_write (r_record_fd R) b s = (x, s'))"
proof (cases t)
  case (Top buff n)
  obtain x s1 where r: "f_read (r_dev_fd R) (size_t (if r_buffer_size R > n then n else r_buffer_size R)) s = (x, s1)" by fastforce
  then have "s' = s \<or> s' = s1" using assms Top by (auto simp: Let_def split: if_splits sum.splits option.splits)
  then show ?thesis using r by auto
next
  case (Out buff pos len n)
  then show ?thesis using assms put_step_call [of "r_record_fd R" buff pos len n s t' s'] by (simp del: put_step.simps) blast
qed (use assms in \<open>auto split: option.splits\<close>)

lemma play_frame:
  assumes "duplex (p_replay_fd P) (p_dev_fd P) r s" and "play_step malloc P t s = (t', s')"
  shows "duplex (p_replay_fd P) (p_dev_fd P) r s' \<and> same_view (p_dev_fd P) r s s'"
  using play_step_call [OF assms(2)] assms(1) same_view_refl
    read_file_frame [OF assms(1)] write_device_frame [OF assms(1)] by metis

lemma record_frame:
  assumes "duplex a (r_dev_fd R) (r_record_fd R) s" and "record_step malloc R t s = (t', s')"
  shows "duplex a (r_dev_fd R) (r_record_fd R) s' \<and> same_view a (r_dev_fd R) s s'"
  using record_step_call [OF assms(2)] assms(1) same_view_refl
    read_device_frame [OF assms(1)] write_record_frame [OF assms(1)] by metis


section \<open>What a thread has copied\<close>

text \<open>From \<open>S0\<close>, which \<open>src\<close> delivers from the beginning, \<open>k\<close> bytes have been read and all but the last \<open>len\<close> of
  them written behind \<open>D0\<close>; these stand in the buffer from \<open>pos\<close> on.\<close>

definition copied :: "int \<Rightarrow> int \<Rightarrow> bytes \<Rightarrow> bytes \<Rightarrow> nat \<Rightarrow> nat \<Rightarrow> bytes \<Rightarrow> nat \<Rightarrow> fs \<Rightarrow> bool" where
  "copied src dst S0 D0 k len buff pos s \<longleftrightarrow> len \<le> k \<and> k \<le> length S0 \<and> left src s = drop k S0 \<and>
     given dst s = D0 @ take (k - len) S0 \<and> pos + len \<le> length buff \<and>
     take len (drop pos buff) = take len (drop (k - len) S0)"

text \<open>A bound on the steps a thread has still to make, if it reads something whenever it reads.\<close>

fun work :: "int \<Rightarrow> thread \<Rightarrow> fs \<Rightarrow> nat" where
  "work src Begin s = 3 * length (left src s) + 2"
| "work src (Top buff n) s = 3 * length (left src s) + 1"
| "work src (Out buff pos len n) s = 3 * length (left src s) + 2 + nat len"
| "work src _ s = 0"

lemma copied_view: "same_view src dst s s' \<Longrightarrow> copied src dst S0 D0 k len buff pos s' = copied src dst S0 D0 k len buff pos s"
  by (simp add: copied_def same_view_def)

lemma work_view: "same_view src dst s s' \<Longrightarrow> work src t s' = work src t s"
  by (cases t) (simp_all add: same_view_def)

lemma read_copied:
  assumes c: "copied src dst S0 D0 k 0 buff pos s" and "apart src dst s" and z: "0 < z" "z \<le> length buff"
  shows "\<exists>bs s'. f_read src z s = (Some bs, s') \<and> length bs \<le> z \<and> (bs = [] \<longleftrightarrow> k = length S0) \<and>
    k + length bs \<le> length S0 \<and> store buff 0 bs = Inr (bs @ drop (length bs) buff) \<and>
    copied src dst S0 D0 (k + length bs) (length bs) (bs @ drop (length bs) buff) 0 s' \<and>
    length (left src s') = length (left src s) - length bs"
proof -
  have L: "left src s = drop k S0" "k \<le> length S0" "given dst s = D0 @ take k S0" using c by (simp_all add: copied_def)
  obtain bs s' where r: "f_read src z s = (Some bs, s')" "bs = take (length bs) (drop k S0)" "length bs \<le> z"
    "bs = [] \<longleftrightarrow> drop k S0 = []" "left src s' = drop (length bs) (drop k S0)" "given dst s' = D0 @ take k S0"
    using f_read_apart [OF assms(2) z(1)] L by auto
  have "length bs \<le> length S0 - k" using arg_cong [OF r(2), of length] by simp
  then show ?thesis using r z L
    by (intro exI [of _ bs] exI [of _ s']) (auto simp: copied_def store_front add.commute)
qed

lemma put_copied:
  assumes c: "copied src dst S0 D0 k len buff pos s" and "apart src dst s" and "0 < len"
  shows "\<exists>m s'. put_step dst buff (int pos) (int len) n s = (Out buff (int (pos + m)) (int (len - m)) n, s') \<and>
    0 < m \<and> m \<le> len \<and> copied src dst S0 D0 k (len - m) buff (pos + m) s' \<and> left src s' = left src s"
proof -
  define bs where "bs = take len (drop pos buff)"
  have B: "bs \<noteq> []" "length bs = len" "bs = take len (drop (k - len) S0)" "len \<le> k" "k \<le> length S0" "pos + len \<le> length buff"
    using c assms(3) by (auto simp: copied_def bs_def)
  obtain m s' where w: "f_write dst bs s = (Some m, s')" "0 < m" "m \<le> len" "given dst s' = given dst s @ take m bs"
    "left src s' = left src s"
    using f_write_apart [OF assms(2) B(1)] B(2) by auto
  have load: "load_bytes buff (int pos) len = Inr bs" using B(6) by (simp add: load_bytes_def bs_def)
  have "put_step dst buff (int pos) (int len) n s = (Out buff (int (pos + m)) (int (len - m)) n, s')"
    using assms(3) load w by simp
  moreover have "take m bs = take m (drop (k - len) S0)" using w(3) by (subst B(3)) (simp add: min_absorb1)
  then have "take (k - len) S0 @ take m bs = take (k - (len - m)) S0"
    using take_add [of "k - len" m S0] B(4) w(3) by (simp add: add.commute)
  moreover have "take (len - m) (drop m (take len (drop pos buff))) = take (len - m) (drop m (take len (drop (k - len) S0)))"
    using B(3) by (simp add: bs_def)
  then have "take (len - m) (drop (pos + m) buff) = take (len - m) (drop (k - (len - m)) S0)"
    using w(3) B(4) by (simp add: drop_take add.commute)
  ultimately show ?thesis using w c B by (intro exI [of _ m] exI [of _ s']) (auto simp: copied_def)
qed


section \<open>Every step of a thread keeps what it has copied\<close>

text \<open>The place of a thread, as an assertion on the system: \<open>counted k n\<close> relates the bytes read to the count of
  the outer loop, \<open>done s\<close> is what holds at the end, and the buffer has room for \<open>z\<close> bytes.\<close>

definition place_ok :: "int \<Rightarrow> int \<Rightarrow> bytes \<Rightarrow> bytes \<Rightarrow> nat \<Rightarrow> (nat \<Rightarrow> int \<Rightarrow> bool) \<Rightarrow> (bytes \<Rightarrow> bool) \<Rightarrow> thread \<Rightarrow> fs \<Rightarrow> bool" where
  "place_ok src dst S0 D0 z counted finished t s \<longleftrightarrow> (case t of
       Begin \<Rightarrow> copied src dst S0 D0 0 0 [] 0 s
     | Top buff n \<Rightarrow> \<exists>k. copied src dst S0 D0 k 0 buff 0 s \<and> z \<le> length buff \<and> counted k n
     | Out buff pos len n \<Rightarrow> \<exists>k p l. pos = int p \<and> len = int l \<and> copied src dst S0 D0 k l buff p s \<and>
         z \<le> length buff \<and> counted k n
     | Ended r \<Rightarrow> r = 0 \<and> (\<exists>D. given dst s = D0 @ D \<and> finished D)
     | Stopped e \<Rightarrow> False)"

lemma place_ok_view:
  assumes "same_view src dst s s'"
  shows "place_ok src dst S0 D0 z counted finished t s' = place_ok src dst S0 D0 z counted finished t s"
proof -
  have "given dst s' = given dst s" using assms by (simp add: same_view_def)
  then show ?thesis by (cases t) (simp_all add: place_ok_def copied_view [OF assms])
qed

lemma copied_shift: "copied src dst S0 D0 k 0 buff pos s \<Longrightarrow> pos' \<le> length buff' \<Longrightarrow> copied src dst S0 D0 k 0 buff' pos' s"
  by (simp add: copied_def)

lemma put_place:
  assumes i: "place_ok src dst S0 D0 z counted finished (Out buff pos len n) s" and ap: "apart src dst s"
    and st: "put_step dst buff pos len n s = (t', s')"
  shows "place_ok src dst S0 D0 z counted finished t' s' \<and> work src t' s' < work src (Out buff pos len n) s"
proof -
  obtain k p l where P: "pos = int p" "len = int l" "copied src dst S0 D0 k l buff p s" "z \<le> length buff" "counted k n"
    using i by (auto simp: place_ok_def)
  show ?thesis
  proof (cases "l = 0")
    case True
    then have "t' = Top buff n" "s' = s" using st P(2) by simp_all
    then show ?thesis using P True copied_shift [of src dst S0 D0 k buff p s 0 buff]
      by (auto simp: place_ok_def)
  next
    case False
    obtain m s1 where m: "put_step dst buff pos len n s = (Out buff (int (p + m)) (int (l - m)) n, s1)"
      "0 < m" "m \<le> l" "copied src dst S0 D0 k (l - m) buff (p + m) s1" "left src s1 = left src s"
      using put_copied [OF P(3) ap, of n] False P(1,2) by auto
    have T: "t' = Out buff (int (p + m)) (int (l - m)) n" "s' = s1" using st m(1) by (simp_all del: put_step.simps)
    have "place_ok src dst S0 D0 z counted finished t' s'"
      unfolding place_ok_def T thread.case using m(4) P(4,5) by blast
    then show ?thesis using T m(2,3,5) P(2) by simp
  qed
qed

subsection \<open>The thread that plays\<close>

definition counted_play :: "replay_params \<Rightarrow> nat \<Rightarrow> int \<Rightarrow> bool" where
  "counted_play P k n \<longleftrightarrow>
     (if p_replay_data_len P = 0 then n = 0
      else n = p_replay_data_len P - int k \<and>
        (if p_replay_data_len P \<le> 0 then k = 0 else int k < p_replay_data_len P + p_buffer_size P))"

definition played_out :: "replay_params \<Rightarrow> bytes \<Rightarrow> bytes \<Rightarrow> bool" where
  "played_out P S0 D \<longleftrightarrow> (\<exists>k. D = take k S0 \<and>
     played (p_replay_data_len P = 0) (p_replay_data_len P) (p_buffer_size P) (length S0) k)"

text \<open>What the player needs: samples that need no conversion, a usual buffer, memory.\<close>

definition can_play :: "(nat \<Rightarrow> bytes option) \<Rightarrow> replay_params \<Rightarrow> bool" where
  "can_play malloc P \<longleftrightarrow> \<not> converts P \<and> 0 < p_buffer_size P \<and> p_buffer_size P < 1000000000 \<and>
     (\<forall>n. \<exists>b. malloc n = Some b \<and> length b = n)"

definition player_at :: "(nat \<Rightarrow> bytes option) \<Rightarrow> replay_params \<Rightarrow> bytes \<Rightarrow> bytes \<Rightarrow> thread \<Rightarrow> fs \<Rightarrow> bool" where
  "player_at malloc P S0 D0 t s \<longleftrightarrow> can_play malloc P \<and>
     place_ok (p_replay_fd P) (p_dev_fd P) S0 D0 (nat (p_buffer_size P)) (counted_play P) (played_out P S0) t s"

lemma play_begin:
  assumes "player_at malloc P S0 D0 Begin s" and "play_step malloc P Begin s = (t', s')"
  shows "player_at malloc P S0 D0 t' s' \<and> work (p_replay_fd P) t' s' < work (p_replay_fd P) Begin s"
proof -
  obtain b where b: "play_alloc malloc P = Some b" "nat (p_buffer_size P) \<le> length b"
    using play_alloc_size [of P malloc] assms(1) by (auto simp: player_at_def can_play_def)
  have "copied (p_replay_fd P) (p_dev_fd P) S0 D0 0 0 b 0 s"
    using assms(1) by (auto simp: player_at_def place_ok_def intro: copied_shift [of _ _ _ _ _ "[]" 0])
  moreover have "counted_play P 0 (p_replay_data_len P)" using assms(1) by (simp add: counted_play_def player_at_def can_play_def)
  ultimately show ?thesis using assms b by (auto simp: player_at_def place_ok_def)
qed

lemma play_top:
  assumes i: "player_at malloc P S0 D0 (Top buff n) s" and ap: "apart (p_replay_fd P) (p_dev_fd P) s"
    and st: "play_step malloc P (Top buff n) s = (t', s')"
  shows "player_at malloc P S0 D0 t' s' \<and> work (p_replay_fd P) t' s' < work (p_replay_fd P) (Top buff n) s"
proof -
  let ?a = "p_replay_fd P" and ?d = "p_dev_fd P" and ?z = "nat (p_buffer_size P)" and ?f = "p_replay_data_len P = 0"
  obtain k where K: "copied ?a ?d S0 D0 k 0 buff 0 s" "?z \<le> length buff" "counted_play P k n"
    using i by (auto simp: player_at_def place_ok_def)
  have C: "can_play malloc P" using i by (simp add: player_at_def)
  then have z: "0 < ?z" "size_t (p_buffer_size P) = ?z" by (simp_all add: can_play_def size_t_id)
  have out: "place_ok ?a ?d S0 D0 ?z (counted_play P) (played_out P S0) (Ended 0) s1"
    if "given ?d s1 = D0 @ take k S0" "k = length S0 \<or> \<not> (?f \<or> 0 < n)" for s1
    using that K(1,3) C
    by (auto simp: place_ok_def played_out_def played_def counted_play_def copied_def can_play_def intro!: exI [of _ k])
  show ?thesis
  proof (cases "?f \<or> 0 < n")
    case False
    then have "t' = Ended 0" "s' = s" using st by simp_all
    then show ?thesis using False out [of s] K(1) C by (simp add: player_at_def copied_def)
  next
    case True
    obtain bs s1 where r: "f_read ?a ?z s = (Some bs, s1)" "length bs \<le> ?z" "bs = [] \<longleftrightarrow> k = length S0"
      "k + length bs \<le> length S0" "store buff 0 bs = Inr (bs @ drop (length bs) buff)"
      "copied ?a ?d S0 D0 (k + length bs) (length bs) (bs @ drop (length bs) buff) 0 s1"
      "length (left ?a s1) = length (left ?a s) - length bs"
      using read_copied [OF K(1) ap z(1) K(2)] by blast
    show ?thesis
    proof (cases "bs = []")
      case True
      then have "t' = Ended 0" "s' = s1" using st r(1) z(2) \<open>?f \<or> 0 < n\<close> by simp_all
      then show ?thesis using out [of s1] r(3,6) True C by (simp add: player_at_def copied_def)
    next
      case False
      let ?n = "if ?f then n else n - int (length bs)" and ?b = "bs @ drop (length bs) buff"
      have td: "to_device P x y = Inr (x, y)" for x y using C by (auto simp: to_device_def converts_def can_play_def)
      have T: "t' = Out ?b 0 (int (length bs)) ?n" "s' = s1"
        using st r(1,5) z(2) True False by (simp_all add: Let_def td)
      have "counted_play P (k + length bs) ?n"
        using K(3) True r(2) z(1) by (auto simp: counted_play_def split: if_splits)
      moreover have "length bs \<le> length (left ?a s)" using K(1) r(4) by (simp add: copied_def)
      then have "work ?a t' s' < work ?a (Top buff n) s" using T r(7) False by (cases bs) auto
      ultimately show ?thesis using T r(2,6) K(2) C unfolding player_at_def place_ok_def
        by (auto intro!: exI [of _ "k + length bs"])
    qed
  qed
qed

lemma player_keeps:
  assumes "player_at malloc P S0 D0 t s" and "apart (p_replay_fd P) (p_dev_fd P) s" and "busy t"
    and "play_step malloc P t s = (t', s')"
  shows "player_at malloc P S0 D0 t' s' \<and> work (p_replay_fd P) t' s' < work (p_replay_fd P) t s"
proof (cases t)
  case Begin
  then show ?thesis using play_begin assms by blast
next
  case (Top buff n)
  then show ?thesis using play_top assms by blast
next
  case (Out buff pos len n)
  then have "put_step (p_dev_fd P) buff pos len n s = (t', s')" using assms(4) by simp
  then show ?thesis using assms(1,2) put_place unfolding Out player_at_def by blast
qed (use assms(3) in simp_all)

subsection \<open>The thread that records\<close>

definition record_amount :: "record_params \<Rightarrow> int" where
  "record_amount R = record_length (format_bits (r_format R)) (r_channels R) (r_speed R) (r_duration R)"

definition can_record :: "(nat \<Rightarrow> bytes option) \<Rightarrow> record_params \<Rightarrow> bytes \<Rightarrow> bool" where
  "can_record malloc R S0 \<longleftrightarrow> \<not> (r_file_type R = FILE_TYPE_WAV \<and> r_format R = FMT24BITS) \<and>
     0 < r_buffer_size R \<and> r_buffer_size R < 2147483648 \<and> (\<forall>n. \<exists>b. malloc n = Some b \<and> length b = n) \<and>
     0 \<le> record_amount R \<and> nat (record_amount R) \<le> length S0"

definition counted_record :: "record_params \<Rightarrow> nat \<Rightarrow> int \<Rightarrow> bool" where
  "counted_record R k n \<longleftrightarrow> n = record_amount R - int k \<and> 0 \<le> n"

definition recorder_at :: "(nat \<Rightarrow> bytes option) \<Rightarrow> record_params \<Rightarrow> bytes \<Rightarrow> bytes \<Rightarrow> thread \<Rightarrow> fs \<Rightarrow> bool" where
  "recorder_at malloc R S0 D0 t s \<longleftrightarrow> can_record malloc R S0 \<and>
     place_ok (r_dev_fd R) (r_record_fd R) S0 D0 (nat (r_buffer_size R)) (counted_record R)
       (\<lambda>D. D = take (nat (record_amount R)) S0) t s"

lemma record_begin:
  assumes "recorder_at malloc R S0 D0 Begin s" and "record_step malloc R Begin s = (t', s')"
  shows "recorder_at malloc R S0 D0 t' s' \<and> work (r_dev_fd R) t' s' < work (r_dev_fd R) Begin s"
proof -
  obtain b where b: "malloc (size_t (r_buffer_size R)) = Some b" "nat (r_buffer_size R) \<le> length b"
  proof -
    obtain b where "malloc (size_t (r_buffer_size R)) = Some b" "length b = size_t (r_buffer_size R)"
      using assms(1) by (auto simp: recorder_at_def can_record_def)
    then show thesis using assms(1) by (intro that [of b]) (simp_all add: recorder_at_def can_record_def size_t_id)
  qed
  have "copied (r_dev_fd R) (r_record_fd R) S0 D0 0 0 b 0 s"
    using assms(1) by (auto simp: recorder_at_def place_ok_def intro: copied_shift [of _ _ _ _ _ "[]" 0])
  moreover have "counted_record R 0 (record_amount R)" using assms(1) by (simp add: counted_record_def recorder_at_def can_record_def)
  ultimately show ?thesis using assms b by (auto simp: recorder_at_def place_ok_def record_amount_def)
qed

lemma record_top:
  assumes i: "recorder_at malloc R S0 D0 (Top buff n) s" and ap: "apart (r_dev_fd R) (r_record_fd R) s"
    and st: "record_step malloc R (Top buff n) s = (t', s')"
  shows "recorder_at malloc R S0 D0 t' s' \<and> work (r_dev_fd R) t' s' < work (r_dev_fd R) (Top buff n) s"
proof -
  let ?a = "r_dev_fd R" and ?d = "r_record_fd R" and ?z = "nat (r_buffer_size R)"
  define z where "z = (if r_buffer_size R > n then nat n else ?z)"
  obtain k where K: "copied ?a ?d S0 D0 k 0 buff 0 s" "?z \<le> length buff" "counted_record R k n"
    using i by (auto simp: recorder_at_def place_ok_def)
  have C: "can_record malloc R S0" using i by (simp add: recorder_at_def)
  show ?thesis
  proof (cases "0 < n")
    case False
    then have "nat (record_amount R) = k" using K(3) by (auto simp: counted_record_def)
    moreover have "t' = Ended 0" "s' = s" using st False by simp_all
    ultimately show ?thesis using K(1) C by (simp add: recorder_at_def place_ok_def copied_def)
  next
    case True
    have z: "0 < z" "size_t (if r_buffer_size R > n then n else r_buffer_size R) = z" "int z \<le> n" "z \<le> ?z" "z \<le> length buff"
      using C True K(2) by (auto simp: z_def can_record_def size_t_id)
    obtain bs s1 where r: "f_read ?a z s = (Some bs, s1)" "length bs \<le> z" "bs = [] \<longleftrightarrow> k = length S0"
      "k + length bs \<le> length S0" "store buff 0 bs = Inr (bs @ drop (length bs) buff)"
      "copied ?a ?d S0 D0 (k + length bs) (length bs) (bs @ drop (length bs) buff) 0 s1"
      "length (left ?a s1) = length (left ?a s) - length bs"
      using read_copied [OF K(1) ap z(1,5)] by blast
    have "k < length S0" using K(3) True C by (auto simp: counted_record_def can_record_def)
    then have ne: "bs \<noteq> []" using r(3) by simp
    have fmt: "\<not> (r_file_type R = FILE_TYPE_WAV \<and> format_bits (r_format R) = 24)"
      using C by (auto simp: can_record_def format_bits_def split: if_splits)
    let ?b = "bs @ drop (length bs) buff"
    have fd: "from_device R (format_bits (r_format R)) x y = Inr (x, y)" for x y
      using fmt by (auto simp: from_device_def)
    have w: "(if int (length bs) < n then int (length bs) else n) = int (length bs)" using r(2) z(3) by auto
    have T: "t' = Out ?b 0 (int (length bs)) (n - int (length bs))" "s' = s1"
      using st r(1,5) z(2) True ne by (simp_all add: Let_def fd w)
    have "counted_record R (k + length bs) (n - int (length bs))" using K(3) r(2) z(3) by (auto simp: counted_record_def)
    moreover have "length bs \<le> length (left ?a s)" using K(1) r(4) by (simp add: copied_def)
    then have "work ?a t' s' < work ?a (Top buff n) s" using T r(7) ne by (cases bs) auto
    ultimately show ?thesis using T r(2,6) K(2) C unfolding recorder_at_def place_ok_def
      by (auto intro!: exI [of _ "k + length bs"])
  qed
qed

lemma recorder_keeps:
  assumes "recorder_at malloc R S0 D0 t s" and "apart (r_dev_fd R) (r_record_fd R) s" and "busy t"
    and "record_step malloc R t s = (t', s')"
  shows "recorder_at malloc R S0 D0 t' s' \<and> work (r_dev_fd R) t' s' < work (r_dev_fd R) t s"
proof (cases t)
  case Begin
  then show ?thesis using record_begin assms by blast
next
  case (Top buff n)
  then show ?thesis using record_top assms by blast
next
  case (Out buff pos len n)
  then have "put_step (r_record_fd R) buff pos len n s = (t', s')" using assms(4) by simp
  then show ?thesis using assms(1,2) put_place unfolding Out recorder_at_def by blast
qed (use assms(3) in simp_all)


section \<open>Rely and guarantee\<close>

text \<open>A thread whose assertion \<open>inv\<close> every own step keeps, making its work less, and which depends only on what it
  sees of the system; \<open>world\<close> is what both threads rely on. Two such threads, of which neither changes what the
  other sees, do not disturb each other.\<close>

locale worker =
  fixes step :: "thread \<Rightarrow> fs \<Rightarrow> thread \<times> fs" and src dst :: int
    and world :: "fs \<Rightarrow> bool" and inv :: "thread \<Rightarrow> fs \<Rightarrow> bool"
  assumes keeps: "inv t s \<Longrightarrow> world s \<Longrightarrow> busy t \<Longrightarrow> step t s = (t', s') \<Longrightarrow> inv t' s' \<and> work src t' s' < work src t s"
    and keeps_world: "world s \<Longrightarrow> step t s = (t', s') \<Longrightarrow> world s'"
    and view: "same_view src dst s s' \<Longrightarrow> inv t s' = inv t s"
    and not_stopped: "inv t s \<Longrightarrow> \<not> stopped t"

locale two_workers =
  a: worker step_a src_a dst_a world inv_a + b: worker step_b src_b dst_b world inv_b
  for step_a src_a dst_a world inv_a step_b src_b dst_b inv_b +
  assumes a_leaves: "world s \<Longrightarrow> step_a t s = (t', s') \<Longrightarrow> same_view src_b dst_b s s'"
    and b_leaves: "world s \<Longrightarrow> step_b t s = (t', s') \<Longrightarrow> same_view src_a dst_a s s'"
begin

lemma a_moves:
  assumes "world s" and "inv_a t s" and "inv_b u s" and "busy t" and "step_a t s = (t', s')"
  shows "world s' \<and> inv_a t' s' \<and> inv_b u s' \<and> work src_a t' s' < work src_a t s \<and> work src_b u' s' = work src_b u' s"
  using assms a.keeps a.keeps_world a_leaves b.view work_view by blast

lemma b_moves:
  assumes "world s" and "inv_a t s" and "inv_b u s" and "busy u" and "step_b u s = (u', s')"
  shows "world s' \<and> inv_a t s' \<and> inv_b u' s' \<and> work src_b u' s' < work src_b u s \<and> work src_a t' s' = work src_a t' s"
  using assms b.keeps b.keeps_world b_leaves a.view work_view by blast

end

definition shared :: "replay_params \<Rightarrow> record_params \<Rightarrow> fs \<Rightarrow> bool" where
  "shared P R s \<longleftrightarrow> r_dev_fd R = p_dev_fd P \<and> duplex (p_replay_fd P) (p_dev_fd P) (r_record_fd R) s"

lemma player_view: "same_view (p_replay_fd P) (p_dev_fd P) s s' \<Longrightarrow> player_at malloc P S0 D0 t s' = player_at malloc P S0 D0 t s"
  unfolding player_at_def by (simp only: place_ok_view [of "p_replay_fd P" "p_dev_fd P" s s'])

lemma recorder_view: "same_view (r_dev_fd R) (r_record_fd R) s s' \<Longrightarrow> recorder_at malloc R S0 D0 t s' = recorder_at malloc R S0 D0 t s"
  unfolding recorder_at_def by (simp only: place_ok_view [of "r_dev_fd R" "r_record_fd R" s s'])

lemma shared_apart:
  "shared P R s \<Longrightarrow> apart (p_replay_fd P) (p_dev_fd P) s"
  "shared P R s \<Longrightarrow> apart (r_dev_fd R) (r_record_fd R) s"
  unfolding shared_def by (auto intro: duplex_apart)

lemma shared_play:
  assumes "shared P R s" and "play_step malloc P t s = (t', s')"
  shows "shared P R s' \<and> same_view (r_dev_fd R) (r_record_fd R) s s'"
  using play_frame [OF _ assms(2)] assms(1) by (simp add: shared_def)

lemma shared_record:
  assumes "shared P R s" and "record_step malloc R t s = (t', s')"
  shows "shared P R s' \<and> same_view (p_replay_fd P) (p_dev_fd P) s s'"
  using record_frame [OF _ assms(2), of "p_replay_fd P"] assms(1) by (simp add: shared_def)

lemma not_stopped_at: "player_at malloc P S0 D0 t s \<Longrightarrow> \<not> stopped t" "recorder_at malloc R S0 D0 t s \<Longrightarrow> \<not> stopped t"
  by (cases t; simp add: player_at_def recorder_at_def place_ok_def)+

interpretation duo: two_workers "play_step malloc P" "p_replay_fd P" "p_dev_fd P" "shared P R" "player_at malloc P S0 D0"
    "record_step malloc R" "r_dev_fd R" "r_record_fd R" "recorder_at malloc R S1 D1" for malloc P R S0 D0 S1 D1
proof (unfold_locales, goal_cases)
  case 1 then show ?case by (intro player_keeps) (auto intro: shared_apart)
next
  case 2 then show ?case using shared_play by blast
next
  case 3 then show ?case by (rule player_view)
next
  case 4 then show ?case by (rule not_stopped_at)
next
  case 5 then show ?case by (intro recorder_keeps) (auto intro: shared_apart)
next
  case 6 then show ?case using shared_record by blast
next
  case 7 then show ?case by (rule recorder_view)
next
  case 8 then show ?case by (rule not_stopped_at)
next
  case 9 then show ?case using shared_play by blast
next
  case 10 then show ?case using shared_record by blast
qed

section \<open>The whole process\<close>

definition thread_ok :: "(thread \<Rightarrow> fs \<Rightarrow> bool) \<Rightarrow> thread option \<Rightarrow> fs \<Rightarrow> bool" where
  "thread_ok ok ot s = ok (case ot of None \<Rightarrow> Begin | Some t \<Rightarrow> t) s"

definition process_ok :: "(nat \<Rightarrow> bytes option) \<Rightarrow> replay_params \<Rightarrow> record_params \<Rightarrow> fs \<Rightarrow> process \<Rightarrow> bool" where
  "process_ok malloc P R s c \<longleftrightarrow> shared P R (m_fs c) \<and>
     thread_ok (player_at malloc P (left (p_replay_fd P) s) (given (p_dev_fd P) s)) (m_replay c) (m_fs c) \<and>
     thread_ok (recorder_at malloc R (left (r_dev_fd R) s) (given (r_record_fd R) s)) (m_record c) (m_fs c) \<and>
     (m_at c = Create_replay \<longrightarrow> m_replay c = None) \<and>
     (m_at c \<in> {Create_replay, Sleep, Create_record} \<longrightarrow> m_record c = None) \<and>
     (m_at c \<in> {Join_replay, Returned 0} \<longrightarrow> joined (m_record c)) \<and>
     (m_at c = Returned 0 \<longrightarrow> joined (m_replay c)) \<and> (\<forall>r. m_at c = Returned r \<longrightarrow> r = 0)"

fun rank :: "place \<Rightarrow> nat" where
  "rank Create_replay = 5"
| "rank Sleep = 4"
| "rank Create_record = 3"
| "rank Join_record = 2"
| "rank Join_replay = 1"
| "rank (Returned r) = 0"

definition thread_work :: "bool \<Rightarrow> int \<Rightarrow> thread option \<Rightarrow> fs \<Rightarrow> nat" where
  "thread_work to_come src ot s = (case ot of None \<Rightarrow> if to_come then work src Begin s else 0 | Some t \<Rightarrow> work src t s)"

definition process_work :: "replay_params \<Rightarrow> record_params \<Rightarrow> process \<Rightarrow> nat" where
  "process_work P R c = rank (m_at c) +
     thread_work (m_at c = Create_replay) (p_replay_fd P) (m_replay c) (m_fs c) +
     thread_work (m_at c \<in> {Create_replay, Sleep, Create_record}) (r_dev_fd R) (m_record c) (m_fs c)"

lemma replay_runs_ok:
  assumes "process_ok malloc P R s c" and "m_replay c = Some t" and "busy t" and "play_step malloc P t (m_fs c) = (t', s')"
  shows "process_ok malloc P R s (c\<lparr>m_replay := Some t', m_fs := s'\<rparr>) \<and>
    process_work P R (c\<lparr>m_replay := Some t', m_fs := s'\<rparr>) < process_work P R c"
proof -
  let ?u = "case m_record c of None \<Rightarrow> Begin | Some u \<Rightarrow> u"
  have "shared P R (m_fs c)" "player_at malloc P (left (p_replay_fd P) s) (given (p_dev_fd P) s) t (m_fs c)"
    "recorder_at malloc R (left (r_dev_fd R) s) (given (r_record_fd R) s) ?u (m_fs c)"
    using assms(1,2) by (simp_all add: process_ok_def thread_ok_def)
  note M = duo.a_moves [OF this assms(3,4)]
  have "thread_work x (r_dev_fd R) (m_record c) s' = thread_work x (r_dev_fd R) (m_record c) (m_fs c)" for x
    using M by (cases "m_record c") (simp_all add: thread_work_def del: work.simps)
  then show ?thesis using M assms(1-3)
    by (auto simp: process_ok_def process_work_def thread_ok_def thread_work_def joined_def)
qed

lemma record_runs_ok:
  assumes "process_ok malloc P R s c" and "m_record c = Some t" and "busy t" and "record_step malloc R t (m_fs c) = (t', s')"
  shows "process_ok malloc P R s (c\<lparr>m_record := Some t', m_fs := s'\<rparr>) \<and>
    process_work P R (c\<lparr>m_record := Some t', m_fs := s'\<rparr>) < process_work P R c"
proof -
  let ?u = "case m_replay c of None \<Rightarrow> Begin | Some u \<Rightarrow> u"
  have "shared P R (m_fs c)" "player_at malloc P (left (p_replay_fd P) s) (given (p_dev_fd P) s) ?u (m_fs c)"
    "recorder_at malloc R (left (r_dev_fd R) s) (given (r_record_fd R) s) t (m_fs c)"
    using assms(1,2) by (simp_all add: process_ok_def thread_ok_def)
  note M = duo.b_moves [OF this assms(3,4)]
  have "thread_work x (p_replay_fd P) (m_replay c) s' = thread_work x (p_replay_fd P) (m_replay c) (m_fs c)" for x
    using M by (cases "m_replay c") (simp_all add: thread_work_def del: work.simps)
  then show ?thesis using M assms(1-3)
    by (auto simp: process_ok_def process_work_def thread_ok_def thread_work_def joined_def)
qed

lemma process_step_ok:
  assumes "process_step malloc (Some P) (Some R) c c'" and "process_ok malloc P R s c"
  shows "process_ok malloc P R s c' \<and> process_work P R c' < process_work P R c"
  using assms
proof (cases rule: process_step.cases)
  case (replay_runs t p t' s')
  then show ?thesis using replay_runs_ok [OF assms(2)] by simp
next
  case (record_runs t r t' s')
  then show ?thesis using record_runs_ok [OF assms(2)] by simp
qed (use assms(2) in \<open>auto simp: process_ok_def process_work_def thread_ok_def thread_work_def\<close>)


lemma process_start_ok:
  assumes "shared P R s" and "can_play malloc P" and "can_record malloc R (left (r_dev_fd R) s)"
  shows "process_ok malloc P R s (process_start s)"
  using assms
  by (simp add: process_ok_def process_start_def thread_ok_def player_at_def recorder_at_def place_ok_def copied_def)

lemma process_run_ok:
  assumes "process_run malloc (Some P) (Some R) s n c"
    and "shared P R s" and "can_play malloc P" and "can_record malloc R (left (r_dev_fd R) s)"
  shows "process_ok malloc P R s c \<and> n + process_work P R c \<le> process_work P R (process_start s)"
  using assms(1)
proof (induction rule: process_run.induct)
  case run_start
  then show ?case using process_start_ok [OF assms(2-4)] by simp
next
  case (run_step n c c')
  then show ?case using process_step_ok [OF run_step.hyps(2)] by fastforce
qed

text \<open>Nobody waits for something that does not come.\<close>

lemma process_progress:
  assumes "process_ok malloc P R s c" and "m_at c \<noteq> Returned 0"
  shows "\<exists>c'. process_step malloc (Some P) (Some R) c c'"
proof -
  have "\<not> stopped t" if "m_replay c = Some t \<or> m_record c = Some t" for t
    using that
  proof
    assume "m_replay c = Some t"
    then have "player_at malloc P (left (p_replay_fd P) s) (given (p_dev_fd P) s) t (m_fs c)"
      using assms(1) by (simp add: process_ok_def thread_ok_def)
    then show ?thesis by (rule not_stopped_at)
  next
    assume "m_record c = Some t"
    then have "recorder_at malloc R (left (r_dev_fd R) s) (given (r_record_fd R) s) t (m_fs c)"
      using assms(1) by (simp add: process_ok_def thread_ok_def)
    then show ?thesis by (rule not_stopped_at)
  qed
  moreover have "m_at c \<noteq> Returned r" for r using assms by (auto simp: process_ok_def)
  ultimately have a: "alive c" by (auto simp: alive_def split: place.splits option.splits)
  have play: ?thesis if "\<not> joined (m_replay c)"
  proof -
    obtain t where t: "m_replay c = Some t" "busy t" using \<open>\<not> joined (m_replay c)\<close> by (auto simp: joined_def split: option.splits)
    obtain t' s' where "play_step malloc P t (m_fs c) = (t', s')" by fastforce
    then show ?thesis using process_step.replay_runs a t by blast
  qed
  have rec: ?thesis if "\<not> joined (m_record c)"
  proof -
    obtain t where t: "m_record c = Some t" "busy t" using \<open>\<not> joined (m_record c)\<close> by (auto simp: joined_def split: option.splits)
    obtain t' s' where "record_step malloc R t (m_fs c) = (t', s')" by fastforce
    then show ?thesis using process_step.record_runs a t by blast
  qed
  show ?thesis
  proof (cases "m_at c")
    case (Returned r)
    then show ?thesis using \<open>\<And>r. m_at c \<noteq> Returned r\<close> by blast
  next
    case Create_replay
    then show ?thesis using process_step.no_replay a by blast
  next
    case Sleep
    then show ?thesis using process_step.slept a by blast
  next
    case Create_record
    then show ?thesis using process_step.no_record a by blast
  next
    case Join_record
    then show ?thesis using process_step.record_joined a rec by blast
  next
    case Join_replay
    then show ?thesis using process_step.replay_joined a play by blast
  qed
qed

lemma process_returned:
  assumes "process_ok malloc P R s c" and "m_at c = Returned 0"
  shows "\<not> process_step malloc (Some P) (Some R) c c'"
  using assms by (auto simp: alive_def elim: process_step.cases)

text \<open>Some run reaches the end, whatever order is taken.\<close>

lemma process_completes:
  assumes "process_run malloc (Some P) (Some R) s n c" and "process_ok malloc P R s c"
  shows "\<exists>m c'. process_run malloc (Some P) (Some R) s m c' \<and> m_at c' = Returned 0"
  using assms
proof (induction "process_work P R c" arbitrary: n c rule: less_induct)
  case less
  show ?case
  proof (cases "m_at c = Returned 0")
    case True
    then show ?thesis using less.prems(1) by blast
  next
    case False
    then obtain c' where "process_step malloc (Some P) (Some R) c c'" using process_progress less.prems(2) by blast
    then show ?thesis using less.hyps process_step_ok less.prems process_run.run_step by blast
  qed
qed

lemma place_prefix:
  assumes "place_ok src dst S0 D0 z counted finished t s" and "\<And>D. finished D \<Longrightarrow> \<exists>k. D = take k S0"
  shows "\<exists>k. given dst s = D0 @ take k S0"
proof (cases t)
  case Begin
  then show ?thesis using assms(1) by (auto simp: place_ok_def copied_def intro: exI [of _ "0::nat"])
next
  case (Top buff n)
  then show ?thesis using assms(1) by (auto simp: place_ok_def copied_def)
next
  case (Out buff pos len n)
  then show ?thesis using assms(1) by (auto simp: place_ok_def copied_def)
next
  case (Ended r)
  then obtain D where "given dst s = D0 @ D" "finished D" using assms(1) by (auto simp: place_ok_def)
  then show ?thesis using assms(2) [of D] by auto
next
  case (Stopped e)
  then show ?thesis using assms(1) by (simp add: place_ok_def)
qed

lemma place_ended:
  "place_ok src dst S0 D0 z counted finished t s \<Longrightarrow> \<not> busy t \<Longrightarrow> \<exists>D. given dst s = D0 @ D \<and> finished D"
  by (cases t) (auto simp: place_ok_def)

lemma process_prefixes:
  assumes "process_ok malloc P R s c"
  shows "\<exists>j k. given (p_dev_fd P) (m_fs c) = given (p_dev_fd P) s @ take k (left (p_replay_fd P) s) \<and>
    given (r_record_fd R) (m_fs c) = given (r_record_fd R) s @ take j (left (r_dev_fd R) s)"
proof -
  have "\<exists>k. given (p_dev_fd P) (m_fs c) = given (p_dev_fd P) s @ take k (left (p_replay_fd P) s)"
    using assms by (auto simp: process_ok_def thread_ok_def player_at_def played_out_def elim!: place_prefix)
  moreover have "\<exists>j. given (r_record_fd R) (m_fs c) = given (r_record_fd R) s @ take j (left (r_dev_fd R) s)"
    using assms by (auto simp: process_ok_def thread_ok_def recorder_at_def elim!: place_prefix)
  ultimately show ?thesis by blast
qed

lemma process_results:
  assumes "process_ok malloc P R s c" and "m_at c = Returned 0"
  shows "m_replay c \<noteq> None \<Longrightarrow> \<exists>k. given (p_dev_fd P) (m_fs c) = given (p_dev_fd P) s @ take k (left (p_replay_fd P) s) \<and>
      played (p_replay_data_len P = 0) (p_replay_data_len P) (p_buffer_size P) (length (left (p_replay_fd P) s)) k"
    and "m_record c \<noteq> None \<Longrightarrow> given (r_record_fd R) (m_fs c) =
      given (r_record_fd R) s @ take (nat (record_amount R)) (left (r_dev_fd R) s)"
proof -
  show "\<exists>k. given (p_dev_fd P) (m_fs c) = given (p_dev_fd P) s @ take k (left (p_replay_fd P) s) \<and>
      played (p_replay_data_len P = 0) (p_replay_data_len P) (p_buffer_size P) (length (left (p_replay_fd P) s)) k"
    if "m_replay c \<noteq> None"
    using that assms
    by (auto simp: process_ok_def thread_ok_def player_at_def joined_def played_out_def dest!: place_ended)
  show "given (r_record_fd R) (m_fs c) = given (r_record_fd R) s @ take (nat (record_amount R)) (left (r_dev_fd R) s)"
    if "m_record c \<noteq> None"
    using that assms
    by (auto simp: process_ok_def thread_ok_def recorder_at_def joined_def dest!: place_ended)
qed

text \<open>C5. Playing and recording at once on one device. In whatever order \<open>main\<close> and the two threads take their
  steps, however the system cuts the transfers and whether or not a thread can be created: at any moment the
  device has been given the bytes of the file, in order, up to some point, and the recording holds what the
  device delivered, in order, up to some point. When \<open>main\<close> returns, it returns 0 and both threads have
  ended; a player that was created has then played all it has to, and a recorder that was created has
  put exactly the bytes of the duration into the file.\<close>

theorem threads_share_device:
  assumes "process_run malloc (Some P) (Some R) s n c"
    and "shared P R s" and "can_play malloc P" and "can_record malloc R (left (r_dev_fd R) s)"
  shows "(\<exists>j k. given (p_dev_fd P) (m_fs c) = given (p_dev_fd P) s @ take k (left (p_replay_fd P) s) \<and>
      given (r_record_fd R) (m_fs c) = given (r_record_fd R) s @ take j (left (r_dev_fd R) s)) \<and>
    (m_at c = Returned r \<longrightarrow> r = 0 \<and> joined (m_replay c) \<and> joined (m_record c) \<and>
      (m_replay c \<noteq> None \<longrightarrow> (\<exists>k. given (p_dev_fd P) (m_fs c) = given (p_dev_fd P) s @ take k (left (p_replay_fd P) s) \<and>
         played (p_replay_data_len P = 0) (p_replay_data_len P) (p_buffer_size P) (length (left (p_replay_fd P) s)) k)) \<and>
      (m_record c \<noteq> None \<longrightarrow> given (r_record_fd R) (m_fs c) =
         given (r_record_fd R) s @ take (nat (record_amount R)) (left (r_dev_fd R) s)))"
proof -
  have ok: "process_ok malloc P R s c" using process_run_ok assms by blast
  then have "r = 0 \<and> joined (m_replay c) \<and> joined (m_record c)" if "m_at c = Returned r"
    using that by (auto simp: process_ok_def)
  then show ?thesis using process_prefixes [OF ok] process_results [OF ok] by blast
qed

definition headset :: "outcome list \<Rightarrow> fs" where
  "headset plan = \<lparr>fs_nodes = [''/song'' \<mapsto> Reg [1, 2, 3, 4, 5], ''/dev/snd/dsp'' \<mapsto> Dev (replicate 40 7) [], ''/rec'' \<mapsto> Reg []],
     fs_denied = (\<lambda>_. False), fs_fds = [3 \<mapsto> (''/dev/snd/dsp'', 0), 5 \<mapsto> (''/song'', 0), 4 \<mapsto> (''/rec'', 0)], fs_next = 6,
     fs_plan = plan, fs_driver = (\<lambda>_ v. Some v), fs_ctl = []\<rparr>"

definition headset_player :: replay_params where
  "headset_player = \<lparr>p_dev_fd = 3, p_replay_fd = 5, p_buffer_size = 2, p_replay_data_len = 0, p_format = FMT16BITS,
     p_channels = 1, p_speed = 8, p_file_type = FILE_TYPE_WAV\<rparr>"

lemma headset_shared: "Failed \<notin> set plan \<Longrightarrow> shared headset_player (record_params_of 10 FMT16BITS) (headset plan)"
  by (simp add: shared_def duplex_def headset_def headset_player_def record_params_of_def at_data_def)

lemma headset_can:
  "can_play (\<lambda>n. Some (replicate n 0)) headset_player"
  "can_record (\<lambda>n. Some (replicate n 0)) (record_params_of 10 FMT16BITS) (left 3 (headset plan))"
  "record_amount (record_params_of 10 FMT16BITS) = 32"
  by (simp_all add: can_play_def headset_player_def converts_def fmt_consts can_record_def record_params_of_def
      record_amount_def record_length_def format_bits_def i32_def signed_take_bit_int_eq_self sdiv_nonneg left_def headset_def)

theorem threads_share_device_witness:
  "\<exists>n c. process_run (\<lambda>n. Some (replicate n 0)) (Some headset_player) (Some (record_params_of 10 FMT16BITS))
      (headset [Short 1, Full, Short 3]) n c \<and> m_at c = Returned 0 \<and> joined (m_replay c) \<and> joined (m_record c) \<and>
      (m_record c \<noteq> None \<longrightarrow> given 4 (m_fs c) = replicate 32 7)"
proof -
  let ?m = "\<lambda>n. Some (replicate n 0 :: bytes)" and ?R = "record_params_of 10 FMT16BITS" and ?s = "headset [Short 1, Full, Short 3]"
  have sh: "shared headset_player ?R ?s" by (rule headset_shared) simp
  have r: "r_dev_fd ?R = 3" "r_record_fd ?R = 4" by (simp_all add: record_params_of_def)
  have v: "left 3 ?s = replicate 40 7" "given 4 ?s = []" by (simp_all add: headset_def left_def given_def)
  have can: "can_record ?m ?R (left (r_dev_fd ?R) ?s)" unfolding r by (rule headset_can)
  have "process_ok ?m headset_player ?R ?s (process_start ?s)" by (rule process_start_ok [OF sh headset_can(1) can])
  then obtain n c where c: "process_run ?m (Some headset_player) (Some ?R) ?s n c" "m_at c = Returned 0"
    using process_completes process_run.run_start by blast
  have "nat (record_amount ?R) = 32" by (simp add: headset_can(3))
  then show ?thesis
    using threads_share_device [OF c(1) sh headset_can(1) can, of 0] c unfolding r v by auto
qed

text \<open>C27. The process ends. Under the same conditions no order of the steps is longer than a bound that depends on
  the bytes of the file and of the device only, and a process that has no step left has returned 0 from \<open>main\<close>:
  joining the recorder before the player cannot deadlock.\<close>

theorem threads_end:
  assumes "process_run malloc (Some P) (Some R) s n c"
    and "shared P R s" and "can_play malloc P" and "can_record malloc R (left (r_dev_fd R) s)"
  shows "n \<le> 3 * (length (left (p_replay_fd P) s) + length (left (r_dev_fd R) s)) + 9 \<and>
    ((\<exists>c'. process_step malloc (Some P) (Some R) c c') \<longleftrightarrow> m_at c \<noteq> Returned 0)"
proof -
  have ok: "process_ok malloc P R s c" "n + process_work P R c \<le> process_work P R (process_start s)"
    using process_run_ok [OF assms] by simp_all
  then have "n \<le> process_work P R (process_start s)" by simp
  also have "\<dots> = 3 * (length (left (p_replay_fd P) s) + length (left (r_dev_fd R) s)) + 9"
    by (simp add: process_work_def process_start_def thread_work_def)
  finally show ?thesis using process_progress [OF ok(1)] process_returned [OF ok(1)] by blast
qed

theorem threads_end_witness:
  "\<exists>c. process_run (\<lambda>n. Some (replicate n 0)) (Some headset_player) (Some (record_params_of 10 FMT16BITS)) (headset []) 1 c \<and>
     m_at c = Sleep \<and> m_replay c = Some Begin \<and>
     (\<exists>c'. process_step (\<lambda>n. Some (replicate n 0)) (Some headset_player) (Some (record_params_of 10 FMT16BITS)) c c')"
proof -
  let ?m = "\<lambda>n. Some (replicate n 0 :: bytes)" and ?R = "record_params_of 10 FMT16BITS" and ?s = "headset []"
  let ?c = "(process_start ?s)\<lparr>m_at := Sleep, m_replay := Some Begin\<rparr>"
  have "process_run ?m (Some headset_player) (Some ?R) ?s (Suc 0) ?c"
    by (rule process_run.run_step [OF process_run.run_start process_step.replay_created])
      (simp_all add: process_start_def alive_def)
  then have run: "process_run ?m (Some headset_player) (Some ?R) ?s 1 ?c" by simp
  have can: "can_record ?m ?R (left (r_dev_fd ?R) ?s)"
    using headset_can(2) [of "[]"] by (simp add: record_params_of_def)
  have "m_at ?c = Sleep" "m_replay ?c = Some Begin" by simp_all
  then show ?thesis using threads_end [OF run headset_shared headset_can(1) can] run by auto
qed


section \<open>From the command line to both threads\<close>

text \<open>The mixer and the device with what it will deliver, a WAV file, a name that is still free; nothing fails.\<close>

definition duplex_system :: "fs \<Rightarrow> string \<Rightarrow> bytes \<Rightarrow> string \<Rightarrow> bytes \<Rightarrow> bool" where
  "duplex_system s name file out inp \<longleftrightarrow> fs_nodes s ''/dev/snd/mixer'' = Some (Dev [] []) \<and>
     fs_nodes s DEFAULT_SND_DEV = Some (Dev inp []) \<and> fs_nodes s name = Some (Reg file) \<and> fs_nodes s out = None \<and>
     (\<forall>p. \<not> fs_denied s p) \<and> fs_plan s = [] \<and> (\<forall>c v. fs_driver s c v = Some v)"

lemma write_loop_full:
  assumes "fs_plan s = []" and "fs_fds s fd = Some (path, length d)" and "fs_nodes s path = Some (Reg d)"
    and "0 < len" and "len \<le> length buff"
  shows "write_loop fd buff 0 (int len) s = Inr (True, s\<lparr>fs_nodes := (fs_nodes s)(path \<mapsto> Reg (d @ take len buff)),
    fs_fds := (fs_fds s)(fd \<mapsto> (path, length d + len))\<rparr>)"
proof -
  have "load_bytes buff 0 len = Inr (take len buff)" using assms(5) by (simp add: load_bytes_def)
  then show ?thesis using assms
    by (simp add: write_loop.simps [of fd buff 0] write_loop_done f_write_def next_outcome_def overwrite_def Let_def)
qed

text \<open>The system when everything is open and configured, and the recorder.\<close>

definition both_up :: "fs \<Rightarrow> string \<Rightarrow> string \<Rightarrow> bytes \<Rightarrow> int \<Rightarrow> int \<Rightarrow> int \<Rightarrow> fs" where
  "both_up s name out hdr fmt chn spd =
     (let k = int (fs_next s) in
      s\<lparr>fs_nodes := (fs_nodes s)(out \<mapsto> Reg hdr),
        fs_fds := (fs_fds s)(k \<mapsto> (''/dev/snd/mixer'', 0), k + 1 \<mapsto> (DEFAULT_SND_DEV, 0), k + 2 \<mapsto> (name, 44),
          k + 3 \<mapsto> (out, length hdr)),
        fs_next := Suc (Suc (Suc (Suc (fs_next s)))),
        fs_ctl := fs_ctl s @ [(k, SOUND_MIXER_WRITE_VOLUME, 0), (k, SOUND_MIXER_WRITE_MIC, 0),
          (k + 1, SNDCTL_DSP_SETFMT, fmt), (k + 1, SNDCTL_DSP_CHANNELS, chn), (k + 1, SNDCTL_DSP_SPEED, spd)]\<rparr>)"

definition wav_recorder :: "nat \<Rightarrow> int \<Rightarrow> int \<Rightarrow> int \<Rightarrow> record_params" where
  "wav_recorder k fmt chn spd = \<lparr>r_dev_fd = int k + 1, r_record_fd = int k + 3, r_buffer_size = DEFAULT_BUFF_SIZE,
     r_duration = DEFAULT_DURATION, r_format = fmt, r_channels = chn, r_speed = spd, r_file_type = FILE_TYPE_WAV\<rparr>"

lemma format_bits_wav: "b = 8 \<or> b = 16 \<Longrightarrow> format_bits (wav_format b) = uint b \<and> word_of_int (format_bits (wav_format b)) = b"
  by (auto simp: format_bits_def wav_format_def fmt_consts)

lemma prepare_record_wav:
  assumes "fs_nodes s out = None" and "\<not> fs_denied s out" and "fs_plan s = []" and "44 \<le> length hs"
    and "o_file_type opts = FILE_TYPE_WAV" "o_format opts = wav_format b" "o_channels opts = uint c" "o_speed opts = uint r"
    and b: "b = 8 \<or> b = 16" and n: "record_length (uint b) (uint c) (uint r) (o_duration opts) = int n"
  shows "prepare_record hs out opts s = Inr (int (fs_next s),
    s\<lparr>fs_nodes := (fs_nodes s)(out \<mapsto> Reg (wav_header (int n) c r b)),
      fs_fds := (fs_fds s)(int (fs_next s) \<mapsto> (out, 44)), fs_next := Suc (fs_next s)\<rparr>)"
proof -
  let ?s = "s\<lparr>fs_nodes := (fs_nodes s)(out \<mapsto> Reg []), fs_fds := (fs_fds s)(int (fs_next s) \<mapsto> (out, 0)), fs_next := Suc (fs_next s)\<rparr>"
  have "write_loop (int (fs_next s)) (wav_header (int n) c r b @ drop 44 hs) 0 (int 44) ?s = Inr (True,
      ?s\<lparr>fs_nodes := (fs_nodes ?s)(out \<mapsto> Reg ([] @ take 44 (wav_header (int n) c r b @ drop 44 hs))),
        fs_fds := (fs_fds ?s)(int (fs_next s) \<mapsto> (out, length ([] :: bytes) + 44))\<rparr>)"
    by (rule write_loop_full) (simp_all add: assms(3))
  then show ?thesis
    using assms(1,2,5-8) format_bits_wav [OF b] n f_open_create [OF assms(1,2)] init_wav_header_eq [OF assms(4)]
    by (simp add: prepare_record_def open_file_def WAV_HEAD_SIZE_def SIZEOF_FMT_def)
qed


lemma sndkit_sets_up_both:
  assumes sys: "duplex_system s name (wav_header (int (length d)) c r b @ d) out inp"
    and b: "b = 8 \<or> b = 16" "c < 65536" "r < 2147483648"
    and name: "NUL \<notin> set name" "length name \<le> 127" "name \<noteq> []" and out: "NUL \<notin> set out" "length out \<le> 127" "out \<noteq> []"
    and d: "212 \<le> length d" "length d < 2147483648" and st: "length stack = 128" "44 \<le> length hs"
    and n: "record_length (uint b) (uint c) (uint r) DEFAULT_DURATION = int n"
  shows "sndkit_main malloc stack hs [(CHR ''P'', []), (CHR ''p'', name), (CHR ''R'', []), (CHR ''w'', out)] s =
    Inr (Threads (Some (wav_player (fs_next s) (length d) (wav_format b) (uint c) (uint r)))
        (Some (wav_recorder (fs_next s) (wav_format b) (uint c) (uint r))),
      both_up s name out (wav_header (int n) c r b) (wav_format b) (uint c) (uint r))"
proof -
  define k where "k = fs_next s"
  define s1 where "s1 = s\<lparr>fs_fds := (fs_fds s)(int k \<mapsto> (''/dev/snd/mixer'', 0)), fs_next := Suc k,
    fs_ctl := fs_ctl s @ [(int k, SOUND_MIXER_WRITE_VOLUME, 0), (int k, SOUND_MIXER_WRITE_MIC, 0)]\<rparr>"
  define s2 where "s2 = s1\<lparr>fs_fds := (fs_fds s1)(int k + 1 \<mapsto> (DEFAULT_SND_DEV, 0)), fs_next := Suc (Suc k)\<rparr>"
  define s3 where "s3 = s2\<lparr>fs_fds := (fs_fds s2)(int k + 2 \<mapsto> (name, 0)), fs_next := Suc (Suc (Suc k))\<rparr>"
  define s4 where "s4 = s3\<lparr>fs_fds := (fs_fds s3)(int k + 2 \<mapsto> (name, 44))\<rparr>"
  define s5 where "s5 = s4\<lparr>fs_nodes := (fs_nodes s4)(out \<mapsto> Reg (wav_header (int n) c r b)),
    fs_fds := (fs_fds s4)(int k + 3 \<mapsto> (out, 44)), fs_next := Suc (Suc (Suc (Suc k)))\<rparr>"
  note S = sys [unfolded duplex_system_def]
  define opts where "opts = (init_options stack)\<lparr>o_replay_enable := True, o_replay_file := copy_into (replicate 128 NUL) name,
    o_record_enable := True, o_record_file := copy_into (replicate 128 NUL) out\<rparr>"
  have loop: "opt_loop [(CHR ''P'', []), (CHR ''p'', name), (CHR ''R'', []), (CHR ''w'', out)] (init_options stack) = Inr opts"
    using name(2) out(2) by (simp add: opt_step_def opts_def init_options_def)
  have vol: "set_volume opts s = (True, s1)"
    using S f_open_some [of s "''/dev/snd/mixer''"]
    by (simp add: set_volume_def opts_def init_options_def f_ioctl_def s1_def k_def)
  have dev: "open_device DEFAULT_SND_DEV O_RDWR s1 = (int k + 1, False, s2)"
    using S f_open_some [of s1 DEFAULT_SND_DEV] by (simp add: open_device_def f_size_def s1_def s2_def add.commute)
  have op: "f_open name O_RDONLY False s2 = (int k + 2, s3)"
    using S f_open_some [of s2 name] by (simp add: s1_def s2_def s3_def add.commute)
  let ?opts = "opts\<lparr>o_format := wav_format b, o_channels := uint c, o_speed := uint r\<rparr>"
  have head: "read_header (int k + 2) opts s3 = Inr (Some (?opts, int (length d)), s4)"
    unfolding s4_def
    by (rule read_header_wav [OF _ _ _ b d]) (use S in \<open>simp_all add: s1_def s2_def s3_def opts_def init_options_def\<close>)
  have nx: "int (fs_next s4) = int k + 3" "fs_next s4 = Suc (Suc (Suc k))" by (simp_all add: s4_def s3_def)
  have prep: "prepare_record hs out ?opts s4 = Inr (int k + 3, s5)"
    unfolding s5_def nx(1) [symmetric] nx(2) [symmetric]
    by (rule prepare_record_wav [OF _ _ _ st(2) _ _ _ _ b(1)])
      (use S n in \<open>simp_all add: s1_def s2_def s3_def s4_def opts_def init_options_def\<close>)
  have cfg: "config_device (int k + 1) (wav_format b) (uint c) (uint r) s5 =
      (0, both_up s name out (wav_header (int n) c r b) (wav_format b) (uint c) (uint r))"
    using S by (simp add: config_device_def set_param_def f_ioctl_def s1_def s2_def s3_def s4_def s5_def both_up_def k_def Let_def)
  have "text_of (copy_into stack (DEFAULT_SND_DEV @ [NUL])) = Inr DEFAULT_SND_DEV" "hd (copy_into stack (DEFAULT_SND_DEV @ [NUL])) \<noteq> NUL"
    by (simp_all add: copy_into_def text_of_def c_string_def DEFAULT_SND_DEV_def NUL_def)
  then show ?thesis
    using loop vol dev op head prep cfg open_option_step [OF name(1,2)] open_option_step [OF out(1,2)] name(3) out(3)
    by (simp add: sndkit_main_def start_threads_def opts_def init_options_def open_file_def wav_player_def wav_recorder_def k_def)
qed

lemma both_shared:
  fixes fmt chn spd :: int
  assumes sys: "duplex_system s name (wav_header (int (length d)) c r b @ d) out inp" and "length hdr = 44"
  defines "s1 \<equiv> both_up s name out hdr fmt chn spd" and "k \<equiv> fs_next s"
  shows "shared (wav_player k len fmt' chn' spd') (wav_recorder k fmt' chn' spd') s1"
    and "left (int k + 2) s1 = d" "given (int k + 1) s1 = []" "left (int k + 1) s1 = inp" "given (int k + 3) s1 = hdr"
proof -
  note S = sys [unfolded duplex_system_def]
  have "name \<noteq> DEFAULT_SND_DEV" "name \<noteq> out" "out \<noteq> DEFAULT_SND_DEV" using S by auto
  then show "shared (wav_player k len fmt' chn' spd') (wav_recorder k fmt' chn' spd') s1"
    "left (int k + 2) s1 = d" "given (int k + 1) s1 = []" "left (int k + 1) s1 = inp" "given (int k + 3) s1 = hdr"
    using S assms(2) by (simp_all add: shared_def duplex_def wav_player_def wav_recorder_def s1_def k_def both_up_def Let_def
        at_data_def left_def given_def)
qed

text \<open>C6. \<^verbatim>\<open>sndkit -P -p name -R -w out\<close> on a WAV file of 8 or 16 bits, on a system where nothing fails and no
  transfer of \<open>main\<close> is cut: \<open>main\<close> configures the device once, with the parameters of the file's header, writes a header for
  ten seconds into the new file and starts both threads on the device. If the device delivers at least that
  much, then, in whatever order the threads run, a process that has returned has played exactly the
  data of the file, if its player could be created, and recorded, behind the header, exactly what was
  delivered first, if its recorder could be created.\<close>

theorem sndkit_full_duplex:
  assumes sys: "duplex_system s name (wav_header (int (length d)) c r b @ d) out inp"
    and b: "b = 8 \<or> b = 16" "c < 65536" "r < 2147483648"
    and name: "NUL \<notin> set name" "length name \<le> 127" "name \<noteq> []" and out: "NUL \<notin> set out" "length out \<le> 127" "out \<noteq> []"
    and d: "212 \<le> length d" "length d < 2147483648" and st: "length stack = 128" "44 \<le> length hs"
    and n: "record_length (uint b) (uint c) (uint r) DEFAULT_DURATION = int n" "n \<le> length inp"
    and m: "\<And>n. \<exists>b. malloc n = Some b \<and> length b = n"
  shows "\<exists>P R s1. sndkit_main malloc stack hs [(CHR ''P'', []), (CHR ''p'', name), (CHR ''R'', []), (CHR ''w'', out)] s =
      Inr (Threads (Some P) (Some R), s1) \<and>
    fs_ctl s1 = fs_ctl s @ [(int (fs_next s), SOUND_MIXER_WRITE_VOLUME, 0), (int (fs_next s), SOUND_MIXER_WRITE_MIC, 0),
      (p_dev_fd P, SNDCTL_DSP_SETFMT, wav_format b), (p_dev_fd P, SNDCTL_DSP_CHANNELS, uint c),
      (p_dev_fd P, SNDCTL_DSP_SPEED, uint r)] \<and>
    (\<forall>j p. process_run malloc (Some P) (Some R) s1 j p \<and> m_at p = Returned 0 \<longrightarrow>
      (m_replay p \<noteq> None \<longrightarrow> given (p_dev_fd P) (m_fs p) = d) \<and>
      (m_record p \<noteq> None \<longrightarrow> given (r_record_fd R) (m_fs p) = wav_header (int n) c r b @ take n inp))"
proof -
  let ?P = "wav_player (fs_next s) (length d) (wav_format b) (uint c) (uint r)"
  let ?R = "wav_recorder (fs_next s) (wav_format b) (uint c) (uint r)"
  let ?s = "both_up s name out (wav_header (int n) c r b) (wav_format b) (uint c) (uint r)"
  note B = both_shared [OF sys length_wav_header, where fmt = "wav_format b" and chn = "uint c" and spd = "uint r"]
  have fd: "p_dev_fd ?P = int (fs_next s) + 1" "p_replay_fd ?P = int (fs_next s) + 2" "r_dev_fd ?R = int (fs_next s) + 1"
    "r_record_fd ?R = int (fs_next s) + 3" by (simp_all add: wav_player_def wav_recorder_def)
  have play: "can_play malloc ?P"
    using m by (auto simp: can_play_def converts_def wav_player_def wav_format_def fmt_consts DEFAULT_BUFF_SIZE_def)
  have amount: "record_amount ?R = int n"
    using format_bits_wav [OF b(1)] n(1) by (simp add: record_amount_def wav_recorder_def)
  have rec: "can_record malloc ?R (left (r_dev_fd ?R) ?s)"
    unfolding fd B(4)
    using m n(2) amount by (auto simp: can_record_def wav_recorder_def wav_format_def fmt_consts DEFAULT_BUFF_SIZE_def)
  have run: "(m_replay p \<noteq> None \<longrightarrow> given (p_dev_fd ?P) (m_fs p) = d) \<and>
      (m_record p \<noteq> None \<longrightarrow> given (r_record_fd ?R) (m_fs p) = wav_header (int n) c r b @ take n inp)"
    if p: "process_run malloc (Some ?P) (Some ?R) ?s j p" "m_at p = Returned 0" for j p
  proof -
    have ok: "process_ok malloc ?P ?R ?s p" using process_run_ok [OF p(1) B(1) play rec] by blast
    have "\<not> p_replay_data_len ?P = 0" "p_replay_data_len ?P = int (length d)" using d(1) by (auto simp: wav_player_def)
    then show ?thesis
      using process_results [OF ok p(2)] amount unfolding fd B by (auto dest!: played_all)
  qed
  have ctl: "fs_ctl ?s = fs_ctl s @ [(int (fs_next s), SOUND_MIXER_WRITE_VOLUME, 0), (int (fs_next s), SOUND_MIXER_WRITE_MIC, 0),
      (p_dev_fd ?P, SNDCTL_DSP_SETFMT, wav_format b), (p_dev_fd ?P, SNDCTL_DSP_CHANNELS, uint c),
      (p_dev_fd ?P, SNDCTL_DSP_SPEED, uint r)]"
    by (simp add: both_up_def fd Let_def)
  show ?thesis
    using sndkit_sets_up_both [OF sys b name out d st n(1)] ctl run
    by (intro exI [of _ ?P] exI [of _ ?R] exI [of _ ?s]) blast
qed


definition headphone :: fs where
  "headphone = \<lparr>fs_nodes = [''/dev/snd/mixer'' \<mapsto> Dev [] [], ''/dev/snd/dsp'' \<mapsto> Dev (replicate 200 9) [],
       ''a.wav'' \<mapsto> Reg (wav_header 300 1 8 16 @ replicate 300 7)],
     fs_denied = (\<lambda>_. False), fs_fds = Map.empty, fs_next = 3, fs_plan = [], fs_driver = (\<lambda>_ v. Some v), fs_ctl = []\<rparr>"

theorem sndkit_full_duplex_witness:
  "\<exists>P R s1. sndkit_main (\<lambda>n. Some (replicate n 0)) (replicate 128 CHR ''x'') (replicate 44 1)
      [(CHR ''P'', []), (CHR ''p'', ''a.wav''), (CHR ''R'', []), (CHR ''w'', ''b.wav'')] headphone =
      Inr (Threads (Some P) (Some R), s1) \<and>
    (\<forall>j p. process_run (\<lambda>n. Some (replicate n 0)) (Some P) (Some R) s1 j p \<and> m_at p = Returned 0 \<longrightarrow>
      (m_replay p \<noteq> None \<longrightarrow> given (p_dev_fd P) (m_fs p) = replicate 300 7) \<and>
      (m_record p \<noteq> None \<longrightarrow> given (r_record_fd R) (m_fs p) = wav_header 160 1 8 16 @ replicate 160 9))"
proof -
  have l: "int (length (replicate 300 (7 :: u8))) = 300" "int 160 = 160" by simp_all
  have s: "duplex_system headphone ''a.wav'' (wav_header (int (length (replicate 300 (7 :: u8)))) 1 8 16 @ replicate 300 7)
      ''b.wav'' (replicate 200 9)"
    by (simp add: duplex_system_def headphone_def DEFAULT_SND_DEV_def)
  have n: "record_length (uint (16 :: u32)) (uint (1 :: u32)) (uint (8 :: u32)) DEFAULT_DURATION = int 160"
    by (simp add: record_length_def i32_def signed_take_bit_int_eq_self sdiv_nonneg DEFAULT_DURATION_def)
  have t: "take 160 (replicate 200 (9 :: u8)) = replicate 160 9" by (simp add: take_replicate)
  obtain P R s1 where "sndkit_main (\<lambda>n. Some (replicate n 0)) (replicate 128 CHR ''x'') (replicate 44 1)
      [(CHR ''P'', []), (CHR ''p'', ''a.wav''), (CHR ''R'', []), (CHR ''w'', ''b.wav'')] headphone =
      Inr (Threads (Some P) (Some R), s1)"
    "\<forall>j p. process_run (\<lambda>n. Some (replicate n 0)) (Some P) (Some R) s1 j p \<and> m_at p = Returned 0 \<longrightarrow>
      (m_replay p \<noteq> None \<longrightarrow> given (p_dev_fd P) (m_fs p) = replicate 300 7) \<and>
      (m_record p \<noteq> None \<longrightarrow> given (r_record_fd R) (m_fs p) = wav_header (int 160) 1 8 16 @ take 160 (replicate 200 9))"
    using sndkit_full_duplex [OF s _ _ _ _ _ _ _ _ _ _ _ _ _ n, of "replicate 128 CHR ''x''" "replicate 44 1"
        "\<lambda>n. Some (replicate n 0)"]
    by (auto simp: NUL_def simp del: take_replicate)
  then show ?thesis unfolding t l by blast
qed

end
