(* ===== verification/Scan.thy ===== *)
theory Scan
  imports Files
begin

text \<open>
  Reading text: the bytes of a file as characters, and what \<open>sscanf\<close>, \<open>strtol\<close>, \<open>strstr\<close> and \<open>fgets\<close>
  do with them. A conversion returns the value and the text behind it, or nothing when it does not
  match. The last section shows that numbers written in hexadecimal are read back.
\<close>

section \<open>Characters\<close>

definition chars_of :: "bytes \<Rightarrow> string" where
  "chars_of b = map (\<lambda>x. char_of (unat x)) b"

definition bytes_of :: "string \<Rightarrow> bytes" where
  "bytes_of t = map (\<lambda>c. word_of_nat (of_char c)) t"

lemma chars_bytes [simp]: "chars_of (bytes_of t) = t"
proof -
  have "of_char c < (256 :: nat)" for c :: char
    using nat_of_char_less_256 by blast
  then show ?thesis by (simp add: chars_of_def bytes_of_def comp_def unat_of_nat take_bit_eq_mod map_idI)
qed

lemma length_chars_of [simp]: "length (chars_of b) = length b"
  by (simp add: chars_of_def)

lemma length_bytes_of [simp]: "length (bytes_of t) = length t"
  by (simp add: bytes_of_def)

definition digit_of :: "char \<Rightarrow> int" where
  "digit_of c =
     (let n = of_char c :: int
      in if 48 \<le> n \<and> n \<le> 57 then n - 48
         else if 97 \<le> n \<and> n \<le> 102 then n - 87
         else if 65 \<le> n \<and> n \<le> 70 then n - 55
         else 99)"

section \<open>Numbers\<close>

text \<open>Digits of a base, from the left.\<close>

fun scan_digits :: "int \<Rightarrow> string \<Rightarrow> int \<Rightarrow> int \<times> string" where
  "scan_digits base [] acc = (acc, [])"
| "scan_digits base (c # cs) acc =
     (if digit_of c < base then scan_digits base cs (acc * base + digit_of c) else (acc, c # cs))"

definition starts_digit :: "int \<Rightarrow> string \<Rightarrow> bool" where
  "starts_digit base t \<longleftrightarrow> (case t of [] \<Rightarrow> False | c # _ \<Rightarrow> digit_of c < base)"

text \<open>In base 16 the digits may follow \<^verbatim>\<open>0x\<close>.\<close>

definition skip_0x :: "int \<Rightarrow> string \<Rightarrow> string" where
  "skip_0x base t =
     (case t of
        c # d # r \<Rightarrow> if base = 16 \<and> c = CHR ''0'' \<and> (d = CHR ''x'' \<or> d = CHR ''X'') \<and> starts_digit 16 r then r else t
      | _ \<Rightarrow> t)"

definition split_sign :: "string \<Rightarrow> int \<times> string" where
  "split_sign t =
     (case t of [] \<Rightarrow> (1, [])
      | c # r \<Rightarrow> if c = CHR ''-'' then (-1, r) else if c = CHR ''+'' then (1, r) else (1, t))"

definition scan_int :: "int \<Rightarrow> string \<Rightarrow> (int \<times> string) option" where
  "scan_int base t =
     (let (sign, t) = split_sign (dropWhile is_space t); t = skip_0x base t
      in if starts_digit base t then let (n, r) = scan_digits base t 0 in Some (sign * n, r) else None)"

text \<open>\<open>strtol\<close> with a \<open>long\<close> of 32 bits: what does not fit becomes the nearest that does.\<close>

definition strtol :: "int \<Rightarrow> string \<Rightarrow> int" where
  "strtol base t = (case scan_int base t of None \<Rightarrow> 0 | Some (n, _) \<Rightarrow> max (- 2147483648) (min 2147483647 n))"

section \<open>Words and positions\<close>

text \<open>\<^verbatim>\<open>%s\<close>: what stands before the next white space.\<close>

definition scan_word :: "string \<Rightarrow> (string \<times> string) option" where
  "scan_word t =
     (let t = dropWhile is_space t; w = takeWhile (\<lambda>c. \<not> is_space c) t
      in if w = [] then None else Some (w, dropWhile (\<lambda>c. \<not> is_space c) t))"

text \<open>\<open>strstr\<close>: how far the first occurrence is from the beginning.\<close>

fun strstr :: "string \<Rightarrow> string \<Rightarrow> nat option" where
  "strstr t s = (if take (length s) t = s then Some 0
                 else (case t of [] \<Rightarrow> None | _ # r \<Rightarrow> map_option Suc (strstr r s)))"

declare strstr.simps [simp del]

text \<open>\<open>fgets (buf, n, fp)\<close> on the text that is left: the line with its newline, at most \<open>n - 1\<close> characters;
  the text behind it; whether the end of the file was met. At the end there is no line.\<close>

fun line_of :: "nat \<Rightarrow> string \<Rightarrow> string \<times> string \<times> bool" where
  "line_of 0 t = ([], t, False)"
| "line_of (Suc n) [] = ([], [], True)"
| "line_of (Suc n) (c # t) =
     (if c = CHR 0x0A then ([c], t, False) else let (l, r, e) = line_of n t in (c # l, r, e))"

definition fgets :: "nat \<Rightarrow> string \<Rightarrow> (string \<times> string \<times> bool) option" where
  "fgets n t = (if t = [] then None else Some (line_of (n - 1) t))"

lemma line_of_shorter: "0 < n \<Longrightarrow> t \<noteq> [] \<Longrightarrow> line_of n t = (l, r, e) \<Longrightarrow> length r < length t"
proof (induction n t arbitrary: l r e rule: line_of.induct)
  case (3 n c t)
  show ?case
  proof (cases "c = CHR 0x0A")
    case False
    obtain l' r' e' where l: "line_of n t = (l', r', e')" by (cases "line_of n t")
    then have "r = r'" using 3(4) False by simp
    moreover have "length r' \<le> length t"
      using 3(1) [OF False _ _ l] l by (cases "n = 0 \<or> t = []"; cases n; cases t) auto
    ultimately show ?thesis by simp
  qed (use 3(4) in simp)
qed simp_all

lemma line_of_newline:
  "length l \<le> n \<Longrightarrow> CHR 0x0A \<notin> set l \<Longrightarrow> line_of (Suc n) (l @ CHR 0x0A # t) = (l @ [CHR 0x0A], t, False)"
proof (induction l arbitrary: n)
  case (Cons c l)
  then obtain m where "n = Suc m" by (cases n) auto
  then show ?case using Cons by auto
qed simp

section \<open>Hexadecimal numbers\<close>

definition hex_char :: "nat \<Rightarrow> char" where
  "hex_char n = ''0123456789abcdef'' ! n"

fun show_hex :: "nat \<Rightarrow> nat \<Rightarrow> string" where
  "show_hex 0 n = []"
| "show_hex (Suc k) n = show_hex k (n div 16) @ [hex_char (n mod 16)]"

lemma digit_of_hex [simp]: "n < 16 \<Longrightarrow> digit_of (hex_char n) = int n"
proof -
  have "list_all (\<lambda>n. digit_of (hex_char n) = int n) [0..<16]" by code_simp
  then show "n < 16 \<Longrightarrow> digit_of (hex_char n) = int n" by (simp add: list_all_iff)
qed

lemma length_show_hex [simp]: "length (show_hex k n) = k"
  by (induction k n rule: show_hex.induct) simp_all

lemma scan_digits_append:
  "(\<And>c. c \<in> set ds \<Longrightarrow> digit_of c < base) \<Longrightarrow>
   scan_digits base (ds @ r) acc = scan_digits base r (fst (scan_digits base ds acc))"
  by (induction ds arbitrary: acc) simp_all

lemma show_hex_digits: "c \<in> set (show_hex k n) \<Longrightarrow> digit_of c < 16"
  by (induction k n rule: show_hex.induct) auto

lemma scan_show_hex: "fst (scan_digits 16 (show_hex k n) acc) = acc * 16 ^ k + int (n mod 16 ^ k)"
proof (induction k n arbitrary: acc rule: show_hex.induct)
  case (2 k n)
  have "n mod 16 ^ Suc k = 16 * (n div 16 mod 16 ^ k) + n mod 16"
    by (simp add: mod_mult2_eq)
  then show ?case
    using 2 by (simp add: scan_digits_append [OF show_hex_digits] algebra_simps)
qed simp

lemma starts_show_hex: "0 < k \<Longrightarrow> starts_digit 16 (show_hex k n @ r)"
proof (induction k n arbitrary: r rule: show_hex.induct)
  case (2 k n)
  then show ?case by (cases "k = 0") (simp_all add: starts_digit_def)
qed simp

section \<open>Reading numbers and strings back\<close>

lemma digit_char:
  assumes "digit_of c < 16"
  shows "\<not> is_space c \<and> c \<noteq> CHR ''-'' \<and> c \<noteq> CHR ''+'' \<and> c \<noteq> NUL \<and> c \<noteq> CHR 0x0A \<and> c \<noteq> CHR ''x'' \<and> c \<noteq> CHR ''X''"
proof -
  have "(of_char c :: int) = int (of_char c)" by (rule sym [OF of_nat_of_char])
  then have "of_char c \<ge> (48 :: nat)" using assms by (auto simp: digit_of_def Let_def split: if_splits)
  moreover have "digit_of (CHR ''x'') = 99" "digit_of (CHR ''X'') = 99" by code_simp+
  ultimately show ?thesis using assms by (auto simp: is_space_def NUL_def)
qed

lemma show_hex_plain: "NUL \<notin> set (show_hex k n)" "CHR 0x0A \<notin> set (show_hex k n)" "CHR '' '' \<notin> set (show_hex k n)"
proof -
  have "\<forall>c \<in> set (show_hex k n). c \<noteq> NUL \<and> c \<noteq> CHR 0x0A \<and> \<not> is_space c"
    using show_hex_digits digit_char by blast
  moreover have "is_space CHR '' ''" by (simp add: is_space_def)
  ultimately show "NUL \<notin> set (show_hex k n)" "CHR 0x0A \<notin> set (show_hex k n)" "CHR '' '' \<notin> set (show_hex k n)"
    by blast+
qed

lemma c_string_padded: "NUL \<notin> set t \<Longrightarrow> 0 < k \<Longrightarrow> c_string (t @ replicate k NUL) = Some t"
proof -
  assume t: "NUL \<notin> set t" "0 < k"
  have "takeWhile (\<lambda>c. c \<noteq> NUL) (t @ replicate k NUL) = t"
    using t by (cases k) (auto simp: takeWhile_tail)
  then show ?thesis using t by (simp add: c_string_def)
qed

lemma scan_digits_stop: "\<not> starts_digit base r \<Longrightarrow> scan_digits base r acc = (acc, r)"
  by (cases r) (simp_all add: starts_digit_def)

lemma scan_int_digits:
  assumes "ds \<noteq> []" and "\<And>c. c \<in> set ds \<Longrightarrow> digit_of c < base" and "base \<le> 16" and "\<not> starts_digit base r"
    and "base = 16 \<Longrightarrow> 2 \<le> length ds"
  shows "scan_int base (ds @ r) = Some (fst (scan_digits base ds 0), r)"
proof -
  obtain c cs where ds: "ds = c # cs" using assms(1) by (cases ds) auto
  have c: "digit_of c < base" using assms(2) ds by simp
  then have nc: "\<not> is_space c" "c \<noteq> CHR ''-''" "c \<noteq> CHR ''+''" using digit_char [of c] assms(3) by auto
  have drop: "dropWhile is_space (ds @ r) = ds @ r" using ds nc(1) by simp
  have sign: "split_sign (ds @ r) = (1, ds @ r)" using ds nc(2,3) by (simp add: split_sign_def)
  have "skip_0x base (ds @ r) = ds @ r"
  proof (cases "base = 16")
    case True
    then obtain d ds' where cs: "cs = d # ds'" using assms(5) ds by (cases cs) auto
    then have "d \<noteq> CHR ''x'' \<and> d \<noteq> CHR ''X''" using digit_char [of d] assms(2) [of d] ds True by simp
    then show ?thesis using ds cs by (simp add: skip_0x_def)
  next
    case False
    then show ?thesis by (auto simp: skip_0x_def split: list.split)
  qed
  moreover have "starts_digit base (ds @ r)" using ds c by (simp add: starts_digit_def)
  moreover have "scan_digits base (ds @ r) 0 = (fst (scan_digits base ds 0), r)"
    using scan_digits_append [OF assms(2)] scan_digits_stop [OF assms(4)] by simp
  ultimately show ?thesis using drop sign by (simp add: scan_int_def)
qed

lemma scan_int_space: "scan_int base (CHR '' '' # t) = scan_int base t"
  by (simp add: scan_int_def is_space_def)

lemma scan_int_field:
  assumes "ds \<noteq> []" and "\<And>c. c \<in> set ds \<Longrightarrow> digit_of c < base" and "base \<le> 16" and "\<not> starts_digit base r"
    and "base = 16 \<Longrightarrow> 2 \<le> length ds"
  shows "scan_int base (CHR '' '' # ds @ r) = Some (fst (scan_digits base ds 0), r)"
  using scan_int_digits [OF assms] by (simp only: scan_int_space)

end
