(* ===== verification/Vcom.thy ===== *)
theory Vcom
  imports Scan
begin

text \<open>
  \<^verbatim>\<open>test_write_vcom_vol/vcom.c\<close>: writes four characters, the voltage of the display, into the partition
  named battery. The globals are a record; \<open>pinfo\<close> is the list of the entries of the array that was
  allocated, and an access outside it stops the program with \<open>Fault\<close>. The block device is a file of
  the model of theory \<open>Files\<close>. \<open>errno\<close> after a failed call is an argument (a positive number), as are the success
  of the two \<open>malloc\<close> (of the table and of the text buffer) and the memory \<open>pinfo\<close> points to before it is cleared.
  \<open>property_set\<close> of libcutils is logged. Messages are left out.
\<close>

section \<open>Globals\<close>

record part_info =
  q_name :: string
  q_offset :: u32
  q_size :: u32
  q_type :: int

definition INAND_PINFO_FILENAME :: string where
  "INAND_PINFO_FILENAME = ''/sys/class/mmc_host/mmc0/device/partitions''"
definition BLOCK_DEV_NAME :: string where "BLOCK_DEV_NAME = ''/dev/block/mmcblk0''"
definition RECOVERY_CMD_FILE :: string where "RECOVERY_CMD_FILE = ''/cache/recovery/command''"
definition LARGE_BUF_LEN :: nat where "LARGE_BUF_LEN = 512"

definition PROP_BT_MAC :: string where "PROP_BT_MAC = ''ro.bt.mac''"
definition PROP_WIFI_MAC :: string where "PROP_WIFI_MAC = ''ro.wifi.mac''"
definition PROP_SERIAL_NO :: string where "PROP_SERIAL_NO = ''ro.serial.no''"

record vcom =
  v_parts_alloc :: int
  v_devid_bytes :: int
  v_wifimac_offset :: int
  v_wifimac_bytes :: int
  v_btmac_offset :: int
  v_btmac_bytes :: int
  v_pinfo :: "part_info list"
  v_props :: "(string \<times> string) list"
  v_fs :: fs

definition vcom_static :: "fs \<Rightarrow> vcom" where
  "vcom_static s = \<lparr>v_parts_alloc = 0, v_devid_bytes = 0, v_wifimac_offset = 0, v_wifimac_bytes = 0,
     v_btmac_offset = 0, v_btmac_bytes = 0, v_pinfo = [], v_props = [], v_fs = s\<rparr>"

definition EINVAL :: int where "EINVAL = 22"
definition ENOMEM :: int where "ENOMEM = 12"

text \<open>Access to an entry of the array, and \<open>strncmp(name, t, strlen(t)) == 0\<close> on its name.\<close>

definition entry :: "part_info list \<Rightarrow> int \<Rightarrow> stop + part_info" where
  "entry ps i = (if 0 \<le> i \<and> i < int (length ps) then Inr (ps ! nat i) else Inl Fault)"

definition set_entry :: "int \<Rightarrow> (part_info \<Rightarrow> part_info) \<Rightarrow> part_info list \<Rightarrow> stop + part_info list" where
  "set_entry i f ps = (if 0 \<le> i \<and> i < int (length ps) then Inr (ps[nat i := f (ps ! nat i)]) else Inl Fault)"

definition starts_with :: "string \<Rightarrow> string \<Rightarrow> bool" where
  "starts_with name t \<longleftrightarrow> take (length t) name = t"

section \<open>Reading and writing the block device\<close>

text \<open>The offset is unsigned, the argument of \<open>lseek\<close> a signed number of 32 bits. After a failed
  \<open>open\<close> the result is 0, the value \<open>ret\<close> starts with.\<close>

definition read_data_emmc :: "part_info \<Rightarrow> string \<Rightarrow> int \<Rightarrow> fs \<Rightarrow> stop + (int \<times> string \<times> fs)" where
  "read_data_emmc p buf n s =
     (let (fd, s) = f_open BLOCK_DEV_NAME O_RDONLY False s in
      if fd < 0 then Inr (0, buf, s)
      else
        let s = f_lseek fd (sint (q_offset p)) s; (r, s) = f_read fd (nat (n mod 4294967296)) s in
        (case r of
           None \<Rightarrow> Inl Fault
         | Some b \<Rightarrow>
             if length b < length buf
             then Inr (int (length b), chars_of b @ NUL # drop (Suc (length b)) buf, f_close fd s)
             else Inl Fault))"

definition write_data_emmc :: "part_info \<Rightarrow> string \<Rightarrow> nat \<Rightarrow> fs \<Rightarrow> int \<times> fs" where
  "write_data_emmc p buf n s =
     (let (fd, s) = f_open BLOCK_DEV_NAME O_WRONLY False s in
      if fd < 0 then (0, s)
      else
        let s = f_lseek fd (sint (q_offset p)) s; (r, s) = f_write fd (bytes_of (take n buf)) s in
        (case r of None \<Rightarrow> (-1, f_close fd s) | Some n \<Rightarrow> (int n, f_close fd s)))"

section \<open>The table of partitions\<close>

text \<open>\<^verbatim>\<open>sscanf (buf, "%s %x %x %d\n", \<dots>)\<close>: the four values when all match. The word goes into an array of
  32 characters; a number is cut to 32 bits.\<close>

definition parse_entry :: "string \<Rightarrow> stop + (string \<times> u32 \<times> u32 \<times> int) option" where
  "parse_entry t =
     (case scan_word t of
        None \<Rightarrow> Inr None
      | Some (part_name, t) \<Rightarrow>
          if 32 \<le> length part_name then Inl Fault
          else (case scan_int 16 t of
              None \<Rightarrow> Inr None
            | Some (saddr, t) \<Rightarrow>
                (case scan_int 16 t of
                   None \<Rightarrow> Inr None
                 | Some (sz, t) \<Rightarrow>
                     (case scan_int 10 t of
                        None \<Rightarrow> Inr None
                      | Some (ty, t) \<Rightarrow> Inr (Some (part_name, word_of_int saddr, word_of_int sz, ty))))))"

text \<open>\<open>strncpy (name, t, n)\<close> into the array of an entry.\<close>

definition name_entry :: "string \<Rightarrow> nat \<Rightarrow> u32 \<Rightarrow> int \<Rightarrow> part_info \<Rightarrow> part_info" where
  "name_entry t n off ty p = p\<lparr>q_name := strncpy t n @ drop n (q_name p), q_offset := off, q_type := ty\<rparr>"

definition store_entry :: "string \<times> u32 \<times> u32 \<times> int \<Rightarrow> vcom \<Rightarrow> stop + vcom" where
  "store_entry e v =
     (let (part_name, saddr, sz, ty) = e in
      if starts_with part_name ''device_id'' then
        bindE (set_entry 0 (name_entry part_name 10 saddr ty) (v_pinfo v)) (\<lambda>ps.
        bindE (set_entry 1 (name_entry ''wifi_mac'' 9 (saddr + word_of_int (v_wifimac_offset v)) ty) ps) (\<lambda>ps.
        bindE (set_entry 2 (name_entry ''bt_mac'' 7 (saddr + word_of_int (v_btmac_offset v)) ty) ps) (\<lambda>ps.
          Inr (v\<lparr>v_pinfo := ps\<rparr>))))
      else if starts_with part_name ''battery'' then
        bindE (set_entry (v_parts_alloc v - 1) (name_entry part_name 8 saddr ty) (v_pinfo v)) (\<lambda>ps.
          Inr (v\<lparr>v_pinfo := ps\<rparr>))
      else Inr v)"

text \<open>The loop over the text: what is left of the array and of the bytes that were read.\<close>

function scan_loop :: "string \<Rightarrow> nat \<Rightarrow> vcom \<Rightarrow> stop + vcom" where
  "scan_loop buf nbytes v =
     (if nbytes > 0 then
        (case c_string buf of
           None \<Rightarrow> Inl Fault
         | Some text \<Rightarrow>
             bindE (parse_entry text) (\<lambda>r.
             bindE (case r of None \<Rightarrow> Inr v | Some e \<Rightarrow> store_entry e v) (\<lambda>v.
               let k = length (takeWhile (\<lambda>c. c \<noteq> CHR 0x0A) (take nbytes buf));
                   k = (if k < nbytes then k + 1 else k)
               in scan_loop (drop k buf) (nbytes - k) v)))
      else Inr v)"
  by pat_completeness auto
termination
  by (relation "measure (\<lambda>(buf, nbytes, v). nbytes)") (auto split: if_splits)

declare scan_loop.simps [simp del]

definition scan_partition_info_emmc :: "bool \<Rightarrow> int \<Rightarrow> vcom \<Rightarrow> stop + (int \<times> vcom)" where
  "scan_partition_info_emmc memory errno v =
     (if \<not> memory then Inr (- ENOMEM, v)
      else
        let (fd, s) = f_open INAND_PINFO_FILENAME O_RDONLY False (v_fs v) in
        if fd < 0 then Inr (0, v\<lparr>v_fs := s\<rparr>)
        else
          let s = f_lseek fd 0 s; (r, s) = f_read fd LARGE_BUF_LEN s in
          (case r of
             None \<Rightarrow> Inr (errno, v\<lparr>v_fs := f_close fd s\<rparr>)
           | Some b \<Rightarrow>
               bindE (scan_loop (chars_of b @ replicate (LARGE_BUF_LEN - length b) NUL) (length b)
                        (v\<lparr>v_fs := f_close fd s\<rparr>)) (\<lambda>v. Inr (0, v))))"

section \<open>Identity numbers as properties\<close>

text \<open>The three routines differ in the name, the number of bytes, the property and in whether the loop
  goes on after the entry was found.\<close>

fun prop_loop :: "nat \<Rightarrow> int \<Rightarrow> string \<Rightarrow> int \<Rightarrow> string \<Rightarrow> bool \<Rightarrow> string \<Rightarrow> vcom \<Rightarrow> stop + (int \<times> vcom)" where
  "prop_loop 0 i name nbytes key again dev_prop v = Inr (0, v)"
| "prop_loop (Suc k) i name nbytes key again dev_prop v =
     bindE (entry (v_pinfo v) i) (\<lambda>p.
       if starts_with (q_name p) name then
         bindE (read_data_emmc p dev_prop nbytes (v_fs v)) (\<lambda>(ret, dev_prop, s).
           if ret < 0 then Inr (ret, v\<lparr>v_fs := s, v_props := v_props v @ [(key, ''UNKNOWN'')]\<rparr>)
           else
             (case c_string dev_prop of
                None \<Rightarrow> Inl Fault
              | Some t \<Rightarrow>
                  let v = v\<lparr>v_fs := s, v_props := v_props v @ [(key, t)]\<rparr>
                  in if again then prop_loop k (i + 1) name nbytes key again dev_prop v else Inr (0, v)))
       else prop_loop k (i + 1) name nbytes key again dev_prop v)"

definition set_devid_prop :: "vcom \<Rightarrow> stop + (int \<times> vcom)" where
  "set_devid_prop v =
     prop_loop (nat (v_parts_alloc v)) 0 ''device_id'' (v_devid_bytes v) PROP_SERIAL_NO False (replicate 64 NUL) v"

definition set_wifi_mac_prop :: "vcom \<Rightarrow> stop + (int \<times> vcom)" where
  "set_wifi_mac_prop v =
     prop_loop (nat (v_parts_alloc v)) 0 ''wifi_mac'' (v_wifimac_bytes v) PROP_WIFI_MAC False (replicate 64 NUL) v"

definition set_bt_mac_prop :: "vcom \<Rightarrow> stop + (int \<times> vcom)" where
  "set_bt_mac_prop v =
     prop_loop (nat (v_parts_alloc v)) 0 ''bt_mac'' (v_btmac_bytes v) PROP_BT_MAC True (replicate 64 NUL) v"

section \<open>Writing the voltage\<close>

text \<open>\<open>sizeof(buf)\<close> of the parameter is the size of a pointer.\<close>

fun vcom_loop :: "nat \<Rightarrow> int \<Rightarrow> string \<Rightarrow> vcom \<Rightarrow> stop + (int \<times> vcom)" where
  "vcom_loop 0 i buf v = Inr (0, v)"
| "vcom_loop (Suc k) i buf v =
     bindE (entry (v_pinfo v) i) (\<lambda>p.
       if starts_with (q_name p) ''battery'' then
         let (ret, s) = write_data_emmc p buf 4 (v_fs v)
         in if ret < 0 then Inr (ret, v\<lparr>v_fs := s\<rparr>) else vcom_loop k (i + 1) buf (v\<lparr>v_fs := s\<rparr>)
       else vcom_loop k (i + 1) buf v)"

definition write_vcom_voltage :: "string \<Rightarrow> vcom \<Rightarrow> stop + (int \<times> vcom)" where
  "write_vcom_voltage buf v = vcom_loop 5 0 buf v"

definition set_flag_recovery :: "int \<Rightarrow> fs \<Rightarrow> int \<times> fs" where
  "set_flag_recovery errno s =
     (let (fd, s) = f_open RECOVERY_CMD_FILE O_RDWR True s in
      if fd < 0 then (errno, s)
      else
        let s = (case fs_nodes s RECOVERY_CMD_FILE of
                   Some (Reg _) \<Rightarrow> s\<lparr>fs_nodes := (fs_nodes s)(RECOVERY_CMD_FILE \<mapsto> Reg [])\<rparr> | _ \<Rightarrow> s);
            (r, s) = f_write fd (bytes_of (''--wipe_data'' @ [CHR 0x0A, NUL])) s
        in (case r of None \<Rightarrow> -1 | Some n \<Rightarrow> int n, f_close fd s))"

section \<open>main\<close>


text \<open>\<open>main\<close> behind the allocation of the table.\<close>

definition vcom_run :: "bool \<Rightarrow> int \<Rightarrow> string \<Rightarrow> vcom \<Rightarrow> stop + (int \<times> vcom)" where
  "vcom_run memory errno buf v =
     bindE (scan_partition_info_emmc memory errno v) (\<lambda>(ret, v).
       if ret < 0 then Inr (ret, v) else write_vcom_voltage buf v)"

definition no_part :: part_info where
  "no_part = \<lparr>q_name = replicate 32 NUL, q_offset = 0, q_size = 0, q_type = 0\<rparr>"

text \<open>The result of the \<open>malloc\<close> is not looked at: when there is no memory for the table (\<open>table\<close> is false, or
  a negative number of entries is read as a huge size), \<open>memset\<close> writes through a null pointer.\<close>

definition vcom_alloc :: "bool \<Rightarrow> vcom \<Rightarrow> stop + vcom" where
  "vcom_alloc table v =
     (if v_parts_alloc v < 0 \<or> 0 < v_parts_alloc v \<and> \<not> table then Inl Fault
      else Inr (v\<lparr>v_pinfo := replicate (nat (v_parts_alloc v)) no_part\<rparr>))"


section \<open>The program as it is built\<close>






section \<open>Reading the table\<close>

definition table_line :: "string \<times> u32 \<times> u32 \<times> nat \<Rightarrow> string" where
  "table_line e = (let (name, saddr, sz, ty) = e
     in name @ CHR '' '' # show_hex 8 (unat saddr) @ CHR '' '' # show_hex 8 (unat sz) @ CHR '' '' # show_nat ty @ [CHR 0x0A])"

definition line_ok :: "string \<times> u32 \<times> u32 \<times> nat \<Rightarrow> bool" where
  "line_ok e \<longleftrightarrow> (let (name, saddr, sz, ty) = e
     in name \<noteq> [] \<and> length name < 32 \<and> (\<forall>c \<in> set name. \<not> is_space c \<and> c \<noteq> NUL))"

definition entry_of :: "string \<times> u32 \<times> u32 \<times> nat \<Rightarrow> string \<times> u32 \<times> u32 \<times> int" where
  "entry_of e = (let (name, saddr, sz, ty) = e in (name, saddr, sz, int ty))"

text \<open>The entries of a table stored one after the other.\<close>

fun store_all :: "(string \<times> u32 \<times> u32 \<times> nat) list \<Rightarrow> vcom \<Rightarrow> stop + vcom" where
  "store_all [] v = Inr v"
| "store_all (e # es) v = bindE (store_entry (entry_of e) v) (store_all es)"

lemma scan_hex_field:
  assumes "\<not> starts_digit 16 r"
  shows "scan_int 16 (CHR '' '' # show_hex 8 (unat (a :: u32)) @ r) = Some (uint a, r)"
proof -
  have "show_hex 8 (unat a) \<noteq> []" by (metis length_show_hex list.size(3) zero_neq_numeral)
  moreover have "fst (scan_digits 16 (show_hex 8 (unat a)) 0) = uint a"
    using unsigned_less [of a] by (simp add: scan_show_hex zmod_int)
  ultimately show ?thesis using scan_int_field [of "show_hex 8 (unat a)" 16 r] show_hex_digits assms by auto
qed

lemma digit_of_dec: "k < 10 \<Longrightarrow> digit_of (char_of (48 + k)) = int k"
proof -
  have "list_all (\<lambda>k :: nat. digit_of (char_of (48 + k)) = int k) [0..<10]" by code_simp
  then show "k < 10 \<Longrightarrow> digit_of (char_of (48 + k)) = int k" by (simp add: list_all_iff)
qed

lemma show_nat_digits: "c \<in> set (show_nat n) \<Longrightarrow> digit_of c < 10"
proof (induction n rule: less_induct)
  case (less n)
  show ?case
  proof (cases "n < 10")
    case True
    then have "show_nat n = [char_of (48 + n)]" by (simp add: show_nat.simps)
    then show ?thesis using less.prems digit_of_dec [OF True] True by simp
  next
    case False
    then have "show_nat n = show_nat (n div 10) @ [char_of (48 + n mod 10)]" by (simp add: show_nat.simps)
    then show ?thesis using less.prems less.IH [of "n div 10"] digit_of_dec [of "n mod 10"] False by auto
  qed
qed

lemma scan_show_nat: "fst (scan_digits 10 (show_nat n) 0) = int n"
proof (induction n rule: less_induct)
  case (less n)
  show ?case
  proof (cases "n < 10")
    case True
    then show ?thesis by (subst show_nat.simps) (simp add: digit_of_dec)
  next
    case False
    have "int n = int (n div 10) * 10 + int (n mod 10)" by (metis mult.commute of_nat_add of_nat_mult of_nat_numeral mult_div_mod_eq)
    then show ?thesis using less [of "n div 10"] False
      by (subst show_nat.simps) (simp add: scan_digits_append [OF show_nat_digits] digit_of_dec)
  qed
qed

lemma scan_dec_field: "scan_int 10 (CHR '' '' # show_nat n @ CHR 0x0A # r) = Some (int n, CHR 0x0A # r)"
proof -
  have "digit_of (CHR 0x0A) = 99" by code_simp
  then have "\<not> starts_digit 10 (CHR 0x0A # r)" by (simp add: starts_digit_def)
  then show ?thesis using scan_int_field [of "show_nat n" 10] show_nat_digits scan_show_nat by simp
qed

lemma parse_table_line:
  assumes "line_ok e"
  shows "parse_entry (table_line e @ rest) = Inr (Some (entry_of e))"
proof -
  obtain name saddr sz ty where e: "e = (name, saddr, sz, ty)" by (cases e)
  have n: "name \<noteq> []" "length name < 32" "\<And>c. c \<in> set name \<Longrightarrow> \<not> is_space c"
    using assms by (auto simp: e line_ok_def)
  have sp: "is_space CHR '' ''" "\<not> starts_digit 16 (CHR '' '' # x)" for x
  proof -
    have "digit_of (CHR '' '') = 99" by code_simp
    then show "\<not> starts_digit 16 (CHR '' '' # x)" by (simp add: starts_digit_def)
  qed (simp add: is_space_def)
  have w: "scan_word (name @ CHR '' '' # r) = Some (name, CHR '' '' # r)" for r
  proof -
    obtain c cs where c: "name = c # cs" using n(1) by (cases name) auto
    have "dropWhile is_space (name @ CHR '' '' # r) = name @ CHR '' '' # r" using n(3) c by simp
    moreover have "takeWhile (\<lambda>c. \<not> is_space c) (name @ CHR '' '' # r) = name"
      "dropWhile (\<lambda>c. \<not> is_space c) (name @ CHR '' '' # r) = CHR '' '' # r"
      using n(3) sp(1) by (simp_all add: takeWhile_append dropWhile_append)
    ultimately show ?thesis using n(1) by (simp add: scan_word_def)
  qed
  show ?thesis
    using n(2) by (simp add: e table_line_def parse_entry_def w scan_hex_field sp(2) scan_dec_field entry_of_def)
qed

lemma table_line_chars:
  assumes "line_ok e"
  shows "NUL \<notin> set (table_line e)" "\<exists>l. table_line e = l @ [CHR 0x0A] \<and> CHR 0x0A \<notin> set l"
proof -
  obtain name saddr sz ty where e: "e = (name, saddr, sz, ty)" by (cases e)
  have n: "\<And>c. c \<in> set name \<Longrightarrow> \<not> is_space c \<and> c \<noteq> NUL" using assms by (auto simp: e line_ok_def)
  note h = show_hex_plain
  have d: "NUL \<notin> set (show_nat k)" "CHR 0x0A \<notin> set (show_nat k)" for k
  proof -
    have "\<forall>c \<in> set (show_nat k). c \<noteq> NUL \<and> c \<noteq> CHR 0x0A"
    proof
      fix c assume "c \<in> set (show_nat k)"
      then have "digit_of c < 16" using show_nat_digits [of c k] by simp
      then show "c \<noteq> NUL \<and> c \<noteq> CHR 0x0A" using digit_char by blast
    qed
    then show "NUL \<notin> set (show_nat k)" "CHR 0x0A \<notin> set (show_nat k)" by blast+
  qed
  have nl: "CHR 0x0A \<notin> set name" "NUL \<notin> set name"
  proof -
    have "is_space (CHR 0x0A)" by (simp add: is_space_def)
    then show "CHR 0x0A \<notin> set name" "NUL \<notin> set name" using n by blast+
  qed
  have ne: "NUL \<noteq> CHR '' ''" "NUL \<noteq> CHR 0x0A" "CHR '' '' \<noteq> CHR 0x0A" by (simp_all add: NUL_def)
  show "NUL \<notin> set (table_line e)" using h(1) d(1) nl(2) ne by (simp add: e table_line_def)
  let ?l = "name @ CHR '' '' # show_hex 8 (unat saddr) @ CHR '' '' # show_hex 8 (unat sz) @ CHR '' '' # show_nat ty"
  have "table_line e = ?l @ [CHR 0x0A]" by (simp add: e table_line_def)
  moreover have "CHR 0x0A \<notin> set ?l" using h(2) d(2) nl(1) ne by simp
  ultimately show "\<exists>l. table_line e = l @ [CHR 0x0A] \<and> CHR 0x0A \<notin> set l" by blast
qed

lemma scan_loop_table:
  assumes "list_all line_ok es" and "0 < k"
  shows "scan_loop (concat (map table_line es) @ replicate k NUL) (length (concat (map table_line es))) v = store_all es v"
  using assms(1)
proof (induction es arbitrary: v)
  case Nil
  then show ?case by (simp add: scan_loop.simps)
next
  case (Cons e es)
  let ?t = "concat (map table_line es)"
  have ok: "line_ok e" "list_all line_ok es" using Cons.prems by simp_all
  obtain l where l: "table_line e = l @ [CHR 0x0A]" "CHR 0x0A \<notin> set l" using table_line_chars(2) [OF ok(1)] by blast
  have "NUL \<notin> set ?t" using ok(2) table_line_chars(1) by (auto simp: list_all_iff)
  then have c: "c_string ((table_line e @ ?t) @ replicate k NUL) = Some (table_line e @ ?t)"
    using table_line_chars(1) [OF ok(1)] assms(2) by (intro c_string_padded) auto
  have tw: "takeWhile (\<lambda>c. c \<noteq> CHR 0x0A) (take (length (table_line e @ ?t)) ((table_line e @ ?t) @ replicate k NUL)) = l"
    using l(2) by (simp add: l(1) takeWhile_tail) auto
  have "scan_loop ((table_line e @ ?t) @ replicate k NUL) (length (table_line e @ ?t)) v =
      bindE (store_entry (entry_of e) v) (\<lambda>v. scan_loop (?t @ replicate k NUL) (length ?t) v)"
    by (subst scan_loop.simps) (simp only: c option.case parse_table_line [OF ok(1)] tw bindE_simps Let_def, simp add: l(1))
  also have "\<dots> = bindE (store_entry (entry_of e) v) (store_all es)"
    by (simp add: Cons.IH [OF ok(2)])
  finally show ?case by simp
qed

lemma scan_table_state:
  assumes "list_all line_ok es" and "length (concat (map table_line es)) < 512"
    and "fs_nodes (v_fs v) INAND_PINFO_FILENAME = Some (Reg (bytes_of (concat (map table_line es))))"
    and "\<not> fs_denied (v_fs v) INAND_PINFO_FILENAME" and "fs_plan (v_fs v) = []"
  shows "\<exists>s. fs_nodes s = fs_nodes (v_fs v) \<and> fs_denied s = fs_denied (v_fs v) \<and> fs_plan s = [] \<and>
    scan_partition_info_emmc True errno v = bindE (store_all es (v\<lparr>v_fs := s\<rparr>)) (\<lambda>v. Inr (0, v))"
proof -
  let ?t = "concat (map table_line es)" and ?s = "v_fs v"
  let ?k = "int (fs_next ?s)"
  define s1 where "s1 = ?s\<lparr>fs_fds := (fs_fds ?s)(?k \<mapsto> (INAND_PINFO_FILENAME, 0)), fs_next := Suc (fs_next ?s)\<rparr>"
  have o1: "f_open INAND_PINFO_FILENAME O_RDONLY False ?s = (?k, s1)"
    using f_open_read [OF assms(3,4)] by (simp add: s1_def)
  have seek: "f_lseek ?k 0 s1 = s1" by (simp add: f_lseek_def s1_def)
  have all: "take 512 (bytes_of ?t) = bytes_of ?t" using assms(2) by simp
  define s2 where "s2 = s1\<lparr>fs_fds := (fs_fds s1)(?k \<mapsto> (INAND_PINFO_FILENAME, length ?t))\<rparr>"
  have r: "f_read ?k LARGE_BUF_LEN s1 = (Some (bytes_of ?t), s2)"
  proof -
    have "length ?t < 512" by (rule assms(2))
    then show ?thesis
      using assms(3,5) all by (simp add: f_read_def next_outcome_def LARGE_BUF_LEN_def s1_def s2_def Let_def min_absorb1)
  qed
  have "scan_loop (?t @ replicate (LARGE_BUF_LEN - length ?t) NUL) (length ?t) w = store_all es w" for w
    using scan_loop_table [OF assms(1)] assms(2) by (simp add: LARGE_BUF_LEN_def)
  then have "scan_partition_info_emmc True errno v = bindE (store_all es (v\<lparr>v_fs := f_close ?k s2\<rparr>)) (\<lambda>v. Inr (0, v))"
    using o1 seek r by (simp add: scan_partition_info_emmc_def)
  moreover have "fs_nodes (f_close ?k s2) = fs_nodes ?s" "fs_denied (f_close ?k s2) = fs_denied ?s" "fs_plan (f_close ?k s2) = []"
    using assms(5) by (simp_all add: f_close_def s2_def s1_def)
  ultimately show ?thesis by blast
qed

text \<open>The table of the kernel is read back: on a text of lines \<^verbatim>\<open>name start size type\<close>, the numbers in
  hexadecimal but for the type, and shorter than the buffer of 512 characters, \<open>sscanf\<close> and the search for
  the ends of the lines find the entries and store them one after the other.\<close>

theorem vcom_reads_table:
  assumes "list_all line_ok es" and "length (concat (map table_line es)) < 512"
    and "fs_nodes (v_fs v) INAND_PINFO_FILENAME = Some (Reg (bytes_of (concat (map table_line es))))"
    and "\<not> fs_denied (v_fs v) INAND_PINFO_FILENAME" and "fs_plan (v_fs v) = []"
  shows "\<exists>s. fs_nodes s = fs_nodes (v_fs v) \<and>
    scan_partition_info_emmc True errno v = bindE (store_all es (v\<lparr>v_fs := s\<rparr>)) (\<lambda>v. Inr (0, v))"
  using scan_table_state [OF assms] by blast

definition emmc_fs :: "string \<Rightarrow> bytes \<Rightarrow> fs" where
  "emmc_fs table d = \<lparr>fs_nodes = [INAND_PINFO_FILENAME \<mapsto> Reg (bytes_of table), BLOCK_DEV_NAME \<mapsto> Reg d],
     fs_denied = (\<lambda>_. False), fs_fds = Map.empty, fs_next = 3, fs_plan = [], fs_driver = (\<lambda>_ v. Some v), fs_ctl = []\<rparr>"

definition five_parts :: "fs \<Rightarrow> vcom" where
  "five_parts s = (vcom_static s)\<lparr>v_parts_alloc := 5\<rparr>"

definition sample_table :: "(string \<times> u32 \<times> u32 \<times> nat) list" where
  "sample_table = [(''device_id'', 0x100, 0x40, 1), (''battery'', 6, 4, 2)]"

lemma sample_table_ok: "list_all line_ok sample_table" "length (concat (map table_line sample_table)) < 512"
  by (simp_all add: sample_table_def line_ok_def is_space_def NUL_def table_line_def show_nat.simps)

lemma emmc_simps:
  "fs_nodes (emmc_fs t d) INAND_PINFO_FILENAME = Some (Reg (bytes_of t))" "fs_nodes (emmc_fs t d) BLOCK_DEV_NAME = Some (Reg d)"
  "\<not> fs_denied (emmc_fs t d) p" "fs_plan (emmc_fs t d) = []" "v_fs (five_parts s) = s" "v_parts_alloc (five_parts s) = 5"
  by (simp_all add: emmc_fs_def five_parts_def vcom_static_def INAND_PINFO_FILENAME_def BLOCK_DEV_NAME_def)

theorem vcom_reads_table_witness:
  "\<exists>s. scan_partition_info_emmc True 5 (five_parts (emmc_fs (concat (map table_line sample_table)) [])) =
    bindE (store_all sample_table ((five_parts (emmc_fs (concat (map table_line sample_table)) []))\<lparr>v_fs := s\<rparr>)) (\<lambda>v. Inr (0, v))"
  using vcom_reads_table [OF sample_table_ok, of "five_parts (emmc_fs (concat (map table_line sample_table)) [])" 5]
  by (auto simp: emmc_simps)

section \<open>The program with a table of five entries\<close>

definition is_battery :: "string \<times> u32 \<times> u32 \<times> nat \<Rightarrow> bool" where
  "is_battery e \<longleftrightarrow> starts_with (fst e) ''battery''"

text \<open>Where the last partition named battery starts.\<close>

fun battery_start :: "u32 option \<Rightarrow> (string \<times> u32 \<times> u32 \<times> nat) list \<Rightarrow> u32 option" where
  "battery_start b [] = b"
| "battery_start b (e # es) = battery_start (if is_battery e then Some (fst (snd e)) else b) es"

definition five_entries :: "u32 option \<Rightarrow> vcom \<Rightarrow> bool" where
  "five_entries b v \<longleftrightarrow> v_parts_alloc v = 5 \<and> length (v_pinfo v) = 5 \<and>
     (\<forall>i < 4. \<not> starts_with (q_name (v_pinfo v ! i)) ''battery'') \<and>
     (case b of None \<Rightarrow> \<not> starts_with (q_name (v_pinfo v ! 4)) ''battery''
      | Some a \<Rightarrow> starts_with (q_name (v_pinfo v ! 4)) ''battery'' \<and> q_offset (v_pinfo v ! 4) = a)"

lemma starts_name_entry:
  assumes "7 \<le> n"
  shows "starts_with (q_name (name_entry t n a ty p)) ''battery'' \<longleftrightarrow> take 7 (t @ replicate 7 NUL) = ''battery''"
proof -
  have "length ''battery'' = 7" by simp
  moreover have "take 7 (strncpy t n @ z) = take 7 (t @ replicate 7 NUL)" for z
  proof -
    have "length (strncpy t n) = n" by (simp add: strncpy_def)
    then have "take 7 (strncpy t n @ z) = take 7 (strncpy t n)" using assms by simp
    also have "\<dots> = take 7 (t @ replicate n NUL)" using assms by (simp only: strncpy_def take_take min_absorb1)
    finally show ?thesis using assms by (simp add: take_replicate min_absorb1 min_absorb2)
  qed
  ultimately show ?thesis by (simp only: starts_with_def) (simp add: name_entry_def)
qed

lemma prefix_seven: "starts_with name t \<Longrightarrow> 7 \<le> length t \<Longrightarrow> take 7 (name @ z) = take 7 t"
proof -
  assume a: "starts_with name t" "7 \<le> length t"
  then obtain r where "name = t @ r" by (metis append_take_drop_id starts_with_def)
  then show ?thesis using a(2) by simp
qed

lemma store_entry_five:
  assumes "five_entries b v"
  shows "\<exists>v'. store_entry (entry_of e) v = Inr v' \<and> v_fs v' = v_fs v \<and>
    five_entries (if is_battery e then Some (fst (snd e)) else b) v'"
proof -
  obtain name a z ty where e: "e = (name, a, z, ty)" by (cases e)
  have len: "length (v_pinfo v) = 5" "v_parts_alloc v = 5"
    and old: "\<And>i. i < 4 \<Longrightarrow> \<not> starts_with (q_name (v_pinfo v ! i)) ''battery''"
    using assms by (auto simp: five_entries_def)
  consider (device) "starts_with name ''device_id''" | (battery) "\<not> starts_with name ''device_id''" "starts_with name ''battery''"
    | (other) "\<not> starts_with name ''device_id''" "\<not> starts_with name ''battery''" by blast
  then show ?thesis
  proof cases
    case device
    have seven: "take 7 (name @ replicate 7 NUL) \<noteq> ''battery''" using prefix_seven [OF device, of "replicate 7 NUL"] by simp
    have "\<not> starts_with name ''battery''" using prefix_seven [OF device, of "[]"] by (auto simp: starts_with_def eval_nat_numeral)
    then have nb: "\<not> is_battery e" by (simp add: e is_battery_def)
    let ?f0 = "name_entry name 10 a (int ty)" and ?f1 = "name_entry ''wifi_mac'' 9 (a + word_of_int (v_wifimac_offset v)) (int ty)"
      and ?f2 = "name_entry ''bt_mac'' 7 (a + word_of_int (v_btmac_offset v)) (int ty)"
    define ps where "ps = (v_pinfo v)[0 := ?f0 (v_pinfo v ! 0), 1 := ?f1 (v_pinfo v ! 1), 2 := ?f2 (v_pinfo v ! 2)]"
    have "store_entry (entry_of e) v = Inr (v\<lparr>v_pinfo := ps\<rparr>)"
      using device len by (simp add: e entry_of_def store_entry_def set_entry_def ps_def)
    moreover have "\<not> starts_with (q_name (ps ! i)) ''battery''" if i: "i < 4" for i
    proof -
      consider "i = 0" | "i = 1" | "i = 2" | "i = 3" using i by linarith
      then show ?thesis using seven len old by cases (simp_all add: ps_def starts_name_entry)
    qed
    moreover have "length ps = 5" "ps ! 4 = v_pinfo v ! 4" using len by (simp_all add: ps_def)
    ultimately show ?thesis using assms nb by (auto simp: five_entries_def split: option.splits)
  next
    case battery
    then have isb: "is_battery e" by (simp add: e is_battery_def)
    define ps where "ps = (v_pinfo v)[4 := name_entry name 8 a (int ty) (v_pinfo v ! 4)]"
    have "store_entry (entry_of e) v = Inr (v\<lparr>v_pinfo := ps\<rparr>)"
      using battery len by (simp add: e entry_of_def store_entry_def set_entry_def ps_def)
    moreover have "length ps = 5" "\<And>i. i < 4 \<Longrightarrow> ps ! i = v_pinfo v ! i" using len by (simp_all add: ps_def)
    moreover have "starts_with (q_name (ps ! 4)) ''battery''"
      using len prefix_seven [OF battery(2), of "replicate 7 NUL"] by (simp add: ps_def starts_name_entry)
    moreover have "q_offset (ps ! 4) = a" using len by (simp add: ps_def name_entry_def)
    ultimately show ?thesis using assms isb by (auto simp: five_entries_def e)
  next
    case other
    then show ?thesis using assms by (auto simp: e is_battery_def entry_of_def store_entry_def)
  qed
qed

lemma store_all_five:
  "five_entries b v \<Longrightarrow> \<exists>v'. store_all es v = Inr v' \<and> v_fs v' = v_fs v \<and> five_entries (battery_start b es) v'"
proof (induction es arbitrary: b v)
  case (Cons e es)
  then show ?case using store_entry_five [OF Cons.prems, of e] by fastforce
qed simp

section \<open>What is written\<close>

lemma sint_below: "a < 0x80000000 \<Longrightarrow> sint (a :: u32) = uint a"
  and sint_above: "0x80000000 \<le> a \<Longrightarrow> sint (a :: u32) < 0"
proof -
  have u: "uint a < 4294967296" using unsigned_less [of a] by simp
  have s: "sint a = (uint a + 2147483648) mod 4294967296 - 2147483648"
    by (simp add: sint_uint signed_take_bit_eq_take_bit_shift take_bit_eq_mod)
  show "sint a = uint a" if "a < 0x80000000"
  proof -
    have "uint a < 2147483648" using that by (simp add: word_less_def)
    then show ?thesis using s by simp
  qed
  show "sint a < 0" if "0x80000000 \<le> a"
  proof -
    have "2147483648 \<le> uint a" using that by (simp add: word_le_def)
    then have "(uint a + 2147483648) mod 4294967296 = uint a - 2147483648"
    proof -
      have "uint a + 2147483648 = (uint a - 2147483648) + 4294967296" by simp
      then have "(uint a + 2147483648) mod 4294967296 = (uint a - 2147483648) mod 4294967296" by (simp only: mod_add_self2)
      then show ?thesis using \<open>2147483648 \<le> uint a\<close> u by simp
    qed
    then show ?thesis using s u by simp
  qed
qed

text \<open>The place of four bytes that are meant for offset \<open>a\<close>.\<close>

definition written_at :: "u32 option \<Rightarrow> bytes \<Rightarrow> bytes \<Rightarrow> bytes" where
  "written_at b four d = (case b of None \<Rightarrow> d
     | Some a \<Rightarrow> if a < 0x80000000 then overwrite d (unat a) four else overwrite d 0 four)"

lemma write_data_result:
  assumes "fs_nodes s BLOCK_DEV_NAME = Some (Reg d)" "\<not> fs_denied s BLOCK_DEV_NAME" "fs_plan s = []" "length four = 4"
  shows "\<exists>s'. write_data_emmc p (four @ pad) 4 s = (4, s') \<and>
    fs_nodes s' = (fs_nodes s)(BLOCK_DEV_NAME \<mapsto> Reg (written_at (Some (q_offset p)) (bytes_of four) d))"
proof -
  let ?k = "int (fs_next s)"
  define s1 where "s1 = s\<lparr>fs_fds := (fs_fds s)(?k \<mapsto> (BLOCK_DEV_NAME, 0)), fs_next := Suc (fs_next s)\<rparr>"
  have o1: "f_open BLOCK_DEV_NAME O_WRONLY False s = (?k, s1)"
    using f_open_read [OF assms(1,2)] by (simp add: s1_def)
  define pos where "pos = (if q_offset p < 0x80000000 then unat (q_offset p) else 0)"
  have l: "f_lseek ?k (sint (q_offset p)) s1 = s1\<lparr>fs_fds := (fs_fds s1)(?k \<mapsto> (BLOCK_DEV_NAME, pos))\<rparr>"
  proof (cases "q_offset p < 0x80000000")
    case True
    then show ?thesis using sint_below [OF True] by (simp add: f_lseek_def s1_def pos_def)
  next
    case False
    then have "sint (q_offset p) < 0" using sint_above by (simp add: not_less)
    then show ?thesis using False by (simp add: f_lseek_def s1_def pos_def)
  qed
  have "overwrite d pos (bytes_of four) = written_at (Some (q_offset p)) (bytes_of four) d"
    by (simp add: written_at_def pos_def)
  then show ?thesis
    using o1 l assms by (simp add: write_data_emmc_def f_write_def next_outcome_def s1_def f_close_def Let_def)
qed

text \<open>C10. With a table of five entries, as the hidden code would allocate it, the program does what it is for: after
  reading the table it writes the four characters, and nothing else of the block device changes, at the
  start of the (last) partition named battery; without one it writes nothing. It returns 0. The offset is
  passed to \<open>lseek\<close> as a signed number: for a partition that starts at \<^verbatim>\<open>0x80000000\<close> or behind, the call
  fails, which is not looked at, and the characters overwrite the beginning of the device.\<close>

theorem vcom_writes_voltage:
  assumes "v_parts_alloc v = 5" and "list_all line_ok es" and "length (concat (map table_line es)) < 512"
    and "fs_nodes (v_fs v) INAND_PINFO_FILENAME = Some (Reg (bytes_of (concat (map table_line es))))"
    and "fs_nodes (v_fs v) BLOCK_DEV_NAME = Some (Reg d)" and "\<And>p. \<not> fs_denied (v_fs v) p" and "fs_plan (v_fs v) = []"
    and "length four = 4"
  shows "\<exists>v'. bindE (vcom_alloc True v) (vcom_run True errno (four @ pad)) = Inr (0, v') \<and>
    fs_nodes (v_fs v') = (fs_nodes (v_fs v))(BLOCK_DEV_NAME \<mapsto> Reg (written_at (battery_start None es) (bytes_of four) d))"
proof -
  let ?v = "v\<lparr>v_pinfo := replicate 5 no_part\<rparr>"
  have alloc: "vcom_alloc True v = Inr ?v" using assms(1) by (simp add: vcom_alloc_def)
  have fs: "v_fs ?v = v_fs v" by simp
  obtain s where s: "fs_nodes s = fs_nodes (v_fs v)" "fs_denied s = fs_denied (v_fs v)" "fs_plan s = []"
    "scan_partition_info_emmc True errno ?v = bindE (store_all es (?v\<lparr>v_fs := s\<rparr>)) (\<lambda>v. Inr (0, v))"
    using scan_table_state [OF assms(2,3), of ?v errno] assms(4,6,7) fs by auto
  have pinfo: "v_pinfo ?v = replicate 5 no_part" "v_parts_alloc ?v = 5"
    using assms(1) by simp_all
  have "\<not> starts_with (q_name no_part) ''battery''" by (simp add: starts_with_def no_part_def numeral_eq_Suc NUL_def)
  then have "five_entries None (?v\<lparr>v_fs := s\<rparr>)"
    using pinfo by (simp add: five_entries_def)
  then obtain v1 where v1: "store_all es (?v\<lparr>v_fs := s\<rparr>) = Inr v1" "v_fs v1 = s" "five_entries (battery_start None es) v1"
    using store_all_five by fastforce
  have scan: "scan_partition_info_emmc True errno ?v = Inr (0, v1)" using s(4) v1(1) by simp
  have ent: "entry (v_pinfo v1) i = Inr (v_pinfo v1 ! nat i)" if "0 \<le> i" "i < 5" for i
    using v1(3) that by (simp add: entry_def five_entries_def)
  have skip: "\<not> starts_with (q_name (v_pinfo v1 ! i)) ''battery''" if "i < 4" for i
    using v1(3) that by (simp add: five_entries_def)
  have loop: "write_vcom_voltage buf v1 = vcom_loop 1 4 buf v1" for buf
    using skip by (simp add: write_vcom_voltage_def eval_nat_numeral ent)
  show ?thesis
  proof (cases "battery_start None es")
    case None
    then have "\<not> starts_with (q_name (v_pinfo v1 ! 4)) ''battery''" using v1(3) by (simp add: five_entries_def)
    then have "write_vcom_voltage buf v1 = Inr (0, v1)" for buf using loop ent by simp
    then show ?thesis using scan None v1(2) s(1) assms(5) alloc by (simp add: vcom_run_def written_at_def fun_upd_idem)
  next
    case (Some a)
    then have b: "starts_with (q_name (v_pinfo v1 ! 4)) ''battery''" "q_offset (v_pinfo v1 ! 4) = a"
      using v1(3) by (simp_all add: five_entries_def)
    obtain s' where s': "write_data_emmc (v_pinfo v1 ! 4) (four @ pad) 4 s = (4, s')"
      "fs_nodes s' = (fs_nodes s)(BLOCK_DEV_NAME \<mapsto> Reg (written_at (Some a) (bytes_of four) d))"
      using write_data_result [of s d four "v_pinfo v1 ! 4" pad] s assms(5,6,8) b(2) by auto
    then have "write_vcom_voltage (four @ pad) v1 = Inr (0, v1\<lparr>v_fs := s'\<rparr>)"
      using loop ent b(1) v1(2) by simp
    then show ?thesis using scan Some s' s(1) alloc by (simp add: vcom_run_def)
  qed
qed

theorem vcom_writes_voltage_witness:
  "\<exists>v'. bindE (vcom_alloc True (five_parts (emmc_fs (concat (map table_line sample_table)) (replicate 12 0))))
      (vcom_run True 5 (''2500'' @ replicate 508 NUL)) = Inr (0, v') \<and>
    fs_nodes (v_fs v') BLOCK_DEV_NAME = Some (Reg [0, 0, 0, 0, 0, 0, 0x32, 0x35, 0x30, 0x30, 0, 0])"
proof -
  have "battery_start None sample_table = Some 6"
    by (simp add: sample_table_def is_battery_def starts_with_def eval_nat_numeral)
  moreover have "bytes_of ''2500'' = [0x32, 0x35, 0x30, 0x30]" by (simp add: bytes_of_def)
  moreover have "overwrite (replicate 12 0) 6 [0x32, 0x35, 0x30, 0x30] = [0, 0, 0, 0, 0, 0, 0x32, 0x35, 0x30, 0x30, 0, 0 :: u8]"
    by (simp add: overwrite_def eval_nat_numeral)
  ultimately show ?thesis
    using vcom_writes_voltage [OF _ sample_table_ok, of "five_parts (emmc_fs (concat (map table_line sample_table)) (replicate 12 0))"
        "replicate 12 0" "''2500''" 5 "replicate 508 NUL"]
    by (auto simp: emmc_simps written_at_def)
qed

end
