(* ===== verification/Getevent.thy ===== *)
theory Getevent
  imports Scan "HOL-Library.Signed_Division"
begin

text \<open>
  The programs that read a log of \<^verbatim>\<open>getevent\<close>: \<^verbatim>\<open>get_select.c\<close> (which half of the bottom of the screen
  was touched), \<^verbatim>\<open>test_touchscreen/get_coordinate.c\<close> (the coordinates of a touch),
  \<^verbatim>\<open>test_pac7673/get_proximity.c\<close> (a distance) and \<^verbatim>\<open>test_eventnum.c\<close> (the number of a device). The first three
  share the loop over the lines, which is a function of its body here. The file (\<open>None\<close> when it cannot be opened), the environment variable \<^verbatim>\<open>F1\<close>, the answer of the
  frame buffer and the value of a variable that is not initialised are arguments. What is printed on
  standard output by the second and third is part of the result; other messages are left out.
\<close>

section \<open>The loop over the lines\<close>

text \<open>The buffer of 50 characters is cleared before each line is read into it.\<close>

definition line_buf :: "string \<Rightarrow> string" where
  "line_buf line = line @ replicate (50 - length line) NUL"

text \<open>The text 10 characters behind the beginning of the key, if the line holds the key.\<close>

definition field_after :: "string \<Rightarrow> string \<Rightarrow> stop + string option" where
  "field_after key buf =
     (case c_string buf of
        None \<Rightarrow> Inl Fault
      | Some str \<Rightarrow>
          (case strstr str key of
             None \<Rightarrow> Inr None
           | Some i \<Rightarrow> (case c_string (drop (i + 10) buf) of None \<Rightarrow> Inl Fault | Some t \<Rightarrow> Inr (Some t))))"

text \<open>At most \<open>rows\<close> lines: whether there were enough (or the last one ended with the file), and what the body
  made of the state.\<close>

fun log_loop :: "(string \<Rightarrow> 'st \<Rightarrow> stop + 'st) \<Rightarrow> nat \<Rightarrow> string \<Rightarrow> 'st \<Rightarrow> stop + (bool \<times> 'st)" where
  "log_loop body 0 t st = Inr (True, st)"
| "log_loop body (Suc rows) t st =
     (case fgets 50 t of
        None \<Rightarrow> Inr (False, st)
      | Some (line, t, eof) \<Rightarrow>
          bindE (body (line_buf line) st) (\<lambda>st. if eof then Inr (True, st) else log_loop body rows t st))"

definition x_co :: string where "x_co = ''0003 0035''"
definition y_co :: string where "y_co = ''0003 0036''"
definition proximity_co :: string where "proximity_co = ''0003 0009''"

section \<open>The choice of a button\<close>

text \<open>\<open>vi\<close>: the size of the screen, zeros when the frame buffer does not tell it.\<close>

definition get_screeninfo :: "(u32 \<times> u32) option \<Rightarrow> u32 \<times> u32" where
  "get_screeninfo answer = (case answer of None \<Rightarrow> (0, 0) | Some vi \<Rightarrow> vi)"

definition button_select :: "string option \<Rightarrow> u32 \<times> u32 \<Rightarrow> int \<Rightarrow> int \<Rightarrow> stop + int" where
  "button_select F1 vi x y =
     (let xres = sint (fst vi); yres = sint (snd vi) in
      case F1 of
        None \<Rightarrow> Inl Fault
      | Some p \<Rightarrow>
          if atoi p = 1 then
            (if y < yres sdiv 4 \<and> x > xres sdiv 2 then Inr 1
             else if y < yres sdiv 4 \<and> x < xres sdiv 2 then Inr 2
             else Inr 3)
          else
            (if y > signed_take_bit 31 (yres * 3) sdiv 4 \<and> x < xres sdiv 2 then Inr 1
             else if y > signed_take_bit 31 (yres * 3) sdiv 4 \<and> x > xres sdiv 2 then Inr 2
             else Inr 3))"

definition select_body :: "string \<Rightarrow> int \<times> int \<Rightarrow> stop + (int \<times> int)" where
  "select_body buf st =
     bindE (field_after x_co buf) (\<lambda>f.
     let x = (case f of None \<Rightarrow> fst st | Some t \<Rightarrow> strtol 16 t) in
     bindE (field_after y_co buf) (\<lambda>f.
     let y = (case f of None \<Rightarrow> snd st | Some t \<Rightarrow> strtol 16 t) in Inr (x, y)))"

definition select_main :: "string option \<Rightarrow> (u32 \<times> u32) option \<Rightarrow> string list \<Rightarrow> (string \<Rightarrow> string option) \<Rightarrow> stop + int" where
  "select_main F1 answer args files =
     (let vi = get_screeninfo answer in
      case args of
        [name] \<Rightarrow>
          (case files name of
             None \<Rightarrow> Inr (-1)
           | Some t \<Rightarrow> bindE (log_loop select_body 5 t (0, 0)) (\<lambda>(enough, x, y).
               if enough then button_select F1 vi x y else Inr 4))
      | _ \<Rightarrow> Inr (-1))"

section \<open>Coordinates and distances\<close>

text \<open>The state: the count and what was printed.\<close>

definition coordinate_body :: "string \<Rightarrow> int \<times> string \<Rightarrow> stop + (int \<times> string)" where
  "coordinate_body buf st =
     bindE (field_after x_co buf) (\<lambda>f.
     let (count, out) = (case f of None \<Rightarrow> st
                         | Some t \<Rightarrow> (signed_take_bit 31 (fst st + 1), snd st @ ''X:'' @ t)) in
     bindE (field_after y_co buf) (\<lambda>f.
     Inr (case f of None \<Rightarrow> (count, out)
          | Some t \<Rightarrow> (signed_take_bit 31 (count + 1), out @ ''Y:'' @ t @ [CHR 0x0A]))))"

definition coordinate_main :: "int \<Rightarrow> string list \<Rightarrow> (string \<Rightarrow> string option) \<Rightarrow> stop + (int \<times> string)" where
  "coordinate_main count args files =
     (case args of
        [name] \<Rightarrow>
          (case files name of
             None \<Rightarrow> Inr (-1, [])
           | Some t \<Rightarrow> bindE (log_loop coordinate_body 50 t (count, [])) (\<lambda>(enough, count, out).
               Inr (if \<not> enough then -1 else if count > 0 then 0 else 1, out)))
      | _ \<Rightarrow> Inr (-1, []))"

text \<open>Leading zeros are left out.\<close>

definition process_str :: "string \<Rightarrow> string" where
  "process_str str = dropWhile (\<lambda>c. c = CHR ''0'') str"

definition proximity_body :: "string \<Rightarrow> int \<times> string \<Rightarrow> stop + (int \<times> string)" where
  "proximity_body buf st =
     bindE (field_after proximity_co buf) (\<lambda>f.
       Inr (case f of None \<Rightarrow> st
            | Some t \<Rightarrow> (signed_take_bit 31 (fst st + 1), snd st @ ''proximity:'' @ process_str t)))"

definition proximity_main :: "int \<Rightarrow> string list \<Rightarrow> (string \<Rightarrow> string option) \<Rightarrow> stop + (int \<times> string)" where
  "proximity_main count args files =
     (case args of
        [name] \<Rightarrow>
          (case files name of
             None \<Rightarrow> Inr (-1, [])
           | Some t \<Rightarrow> bindE (log_loop proximity_body 50 t (count, [])) (\<lambda>(enough, count, out).
               Inr (if \<not> enough then -1 else if count > 0 then 0 else 1, out)))
      | _ \<Rightarrow> Inr (-1, []))"

section \<open>Events and their lines\<close>

text \<open>Type, code and value, printed as \<^verbatim>\<open>getevent\<close> prints them.\<close>

type_synonym input_event = "nat \<times> nat \<times> nat"

definition event_line :: "input_event \<Rightarrow> string" where
  "event_line e = (let (ty, code, v) = e
     in show_hex 4 ty @ CHR '' '' # show_hex 4 code @ CHR '' '' # show_hex 8 v @ [CHR 0x0A])"

text \<open>A code 3 with a value that begins with the digits of a code would be mistaken for that code.\<close>

definition event_ok :: "input_event \<Rightarrow> bool" where
  "event_ok e \<longleftrightarrow> (let (ty, code, v) = e
     in ty < 65536 \<and> code < 65536 \<and> v < 4294967296 \<and> (code = 3 \<longrightarrow> v < 0x90000))"

definition abs_event :: "nat \<Rightarrow> input_event \<Rightarrow> bool" where
  "abs_event c e \<longleftrightarrow> fst e = 3 \<and> fst (snd e) = c"

definition event_key :: "nat \<Rightarrow> string" where
  "event_key c = ''0003'' @ CHR '' '' # show_hex 4 c"

lemma event_keys: "x_co = event_key 0x35" "y_co = event_key 0x36" "proximity_co = event_key 9"
proof -
  have "show_hex 4 0x35 = ''0035''" "show_hex 4 0x36 = ''0036''" "show_hex 4 9 = ''0009''" by code_simp+
  then show "x_co = event_key 0x35" "y_co = event_key 0x36" "proximity_co = event_key 9"
    by (simp_all add: x_co_def y_co_def proximity_co_def event_key_def)
qed

lemma show_hex_inj: "n < 16 ^ k \<Longrightarrow> m < 16 ^ k \<Longrightarrow> show_hex k n = show_hex k m \<longleftrightarrow> n = m"
proof -
  assume "n < 16 ^ k" "m < 16 ^ k"
  then have "int n = fst (scan_digits 16 (show_hex k n) 0)" "int m = fst (scan_digits 16 (show_hex k m) 0)"
    by (simp_all add: scan_show_hex)
  then show ?thesis by (metis of_nat_eq_iff)
qed

lemma four_chars: "length l = 4 \<Longrightarrow> \<exists>a b c d. l = [a, b, c, d]"
  by (simp add: length_Suc_conv eval_nat_numeral) blast

lemma strstr_Cons:
  "strstr (c # t) s = (if take (length s) (c # t) = s then Some 0 else map_option Suc (strstr t s))"
  by (subst strstr.simps) simp

lemma strstr_short: "length t < length s \<Longrightarrow> strstr t s = None"
proof (induction t)
  case (Cons c t)
  then have "take (length s) (c # t) \<noteq> s" by auto
  then show ?case using Cons by (simp add: strstr_Cons)
qed (subst strstr.simps, simp)

text \<open>A word, a blank and a word are found where a word, a blank and a word stand.\<close>

lemma strstr_words:
  assumes A: "length A = 4" "CHR '' '' \<notin> set A" and B: "length B = 4" "CHR '' '' \<notin> set B"
    and C: "length C = 4" "CHR '' '' \<notin> set C" and r: "length r = 5" "CHR '' '' \<notin> set r"
    and K: "length K = 4" "CHR '' '' \<notin> set K" and L: "length L = 4" "CHR '' '' \<notin> set L"
    and not: "\<not> (B = K \<and> C = L)"
  shows "strstr (A @ CHR '' '' # B @ CHR '' '' # C @ r) (K @ CHR '' '' # L) = (if A = K \<and> B = L then Some 0 else None)"
proof -
  obtain a1 a2 a3 a4 where a: "A = [a1, a2, a3, a4]" using four_chars [OF A(1)] by blast
  obtain b1 b2 b3 b4 where b: "B = [b1, b2, b3, b4]" using four_chars [OF B(1)] by blast
  obtain c1 c2 c3 c4 where c: "C = [c1, c2, c3, c4]" using four_chars [OF C(1)] by blast
  obtain k1 k2 k3 k4 where k: "K = [k1, k2, k3, k4]" using four_chars [OF K(1)] by blast
  obtain l1 l2 l3 l4 where l: "L = [l1, l2, l3, l4]" using four_chars [OF L(1)] by blast
  have tail: "strstr t (K @ CHR '' '' # L) = None" if "length t < 9" for t
    using that by (intro strstr_short) (simp add: k l)
  have no: "x \<noteq> CHR '' ''" "CHR '' '' \<noteq> x" if "x \<in> set A \<union> set B \<union> set C \<union> set K \<union> set L" for x
    using that A(2) B(2) C(2) K(2) L(2) by auto
  have rest: "r \<noteq> x" if "CHR '' '' \<in> set x" for x using that r(2) by auto
  have "strstr (a2 # a3 # a4 # CHR '' '' # B @ CHR '' '' # C @ r) (K @ CHR '' '' # L) = None"
    using no not tail r(1) rest by (simp add: strstr_Cons a b c k l)
  then show ?thesis by (simp add: strstr_Cons [of a1] a b k l)
qed

lemma show_hex_add: "show_hex (j + k) n = show_hex j (n div 16 ^ k) @ show_hex k n"
  by (induction k arbitrary: n) (simp_all add: div_mult2_eq mult.commute)

lemma line_buf_event:
  assumes "event_ok e"
  shows "c_string (line_buf (event_line e)) = Some (event_line e)"
    and "c_string (drop 10 (line_buf (event_line e))) = Some (show_hex 8 (snd (snd e)) @ [CHR 0x0A])"
proof -
  obtain ty code v where e: "e = (ty, code, v)" by (cases e)
  have n: "NUL \<notin> set (event_line e)"
    using show_hex_plain(1) by (simp add: e event_line_def) (simp add: NUL_def)
  have l: "length (event_line e) = 19" by (simp add: e event_line_def)
  show "c_string (line_buf (event_line e)) = Some (event_line e)"
    using n l by (simp add: line_buf_def c_string_padded)
  have "drop 10 (line_buf (event_line e)) = drop 10 (event_line e) @ replicate 31 NUL"
    using l by (simp add: line_buf_def)
  moreover have "drop 10 (event_line e) = show_hex 8 v @ [CHR 0x0A]" by (simp add: e event_line_def)
  moreover have "NUL \<notin> set (show_hex 8 v @ [CHR 0x0A])"
    using show_hex_plain(1) by simp (simp add: NUL_def)
  ultimately show "c_string (drop 10 (line_buf (event_line e))) = Some (show_hex 8 (snd (snd e)) @ [CHR 0x0A])"
    using c_string_padded [of "show_hex 8 v @ [CHR 0x0A]" 31] by (simp add: e)
qed

lemma field_after_event:
  assumes "event_ok e" and "9 \<le> c" "c < 65536"
  shows "field_after (event_key c) (line_buf (event_line e)) =
    Inr (if abs_event c e then Some (show_hex 8 (snd (snd e)) @ [CHR 0x0A]) else None)"
proof -
  obtain ty code v where e: "e = (ty, code, v)" by (cases e)
  have ok: "ty < 16 ^ 4" "code < 16 ^ 4" "v < 4294967296" "code = 3 \<Longrightarrow> v < 0x90000" "c < 16 ^ 4"
    using assms by (auto simp: e event_ok_def)
  have k: "''0003'' = show_hex 4 3" by code_simp
  have split: "show_hex 8 v = show_hex 4 (v div 65536) @ show_hex 4 v" using show_hex_add [of 4 4 v] by simp
  have c: "\<not> (show_hex 4 code = show_hex 4 3 \<and> show_hex 4 (v div 65536) = show_hex 4 c)"
  proof
    assume a: "show_hex 4 code = show_hex 4 3 \<and> show_hex 4 (v div 65536) = show_hex 4 c"
    have "code = 3" using a show_hex_inj [OF ok(2), of 3] by simp
    moreover have "v div 65536 < 16 ^ 4" using ok(3) by simp
    then have "v div 65536 = c" using a show_hex_inj [OF _ ok(5)] by blast
    ultimately show False using ok(4) assms(2) by simp
  qed
  have "strstr (show_hex 4 ty @ CHR '' '' # show_hex 4 code @ CHR '' '' # show_hex 4 (v div 65536) @ (show_hex 4 v @ [CHR 0x0A]))
      (show_hex 4 3 @ CHR '' '' # show_hex 4 c) =
    (if show_hex 4 ty = show_hex 4 3 \<and> show_hex 4 code = show_hex 4 c then Some 0 else None)"
    using c by (intro strstr_words) (simp_all add: show_hex_plain)
  then have "strstr (event_line e) (event_key c) = (if abs_event c e then Some 0 else None)"
    using show_hex_inj [OF ok(1), of 3] show_hex_inj [OF ok(2,5)] k split
    by (simp add: e event_line_def event_key_def abs_event_def)
  then show ?thesis using line_buf_event [OF assms(1)] by (simp add: field_after_def)
qed

lemma fgets_event: "20 \<le> n \<Longrightarrow> fgets n (event_line e @ t) = Some (event_line e, t, False)"
proof -
  assume n: "20 \<le> n"
  obtain ty code v where e: "e = (ty, code, v)" by (cases e)
  define l where "l = show_hex 4 ty @ CHR '' '' # show_hex 4 code @ CHR '' '' # show_hex 8 v"
  have "event_line e = l @ [CHR 0x0A]" by (simp add: e event_line_def l_def)
  moreover have "line_of (Suc (n - 2)) (l @ CHR 0x0A # t) = (l @ [CHR 0x0A], t, False)"
    using n show_hex_plain(2) by (intro line_of_newline) (auto simp: l_def)
  moreover have "n - 1 = Suc (n - 2)" using n by simp
  ultimately show ?thesis by (simp add: fgets_def del: line_of.simps)
qed

section \<open>Reading a log\<close>

text \<open>A body that has some effect for each event; the loop has it for the first events of the log, as many as it
  looks at, and knows whether there were as many.\<close>

locale log_reader =
  fixes body :: "string \<Rightarrow> 'st \<Rightarrow> stop + 'st" and effect :: "input_event \<Rightarrow> 'st \<Rightarrow> 'st"
  assumes body_event: "event_ok e \<Longrightarrow> body (line_buf (event_line e)) st = Inr (effect e st)"
begin

lemma log_loop_events:
  "list_all event_ok es \<Longrightarrow>
   log_loop body rows (concat (map event_line es)) st = Inr (rows \<le> length es, fold effect (take rows es) st)"
proof (induction rows arbitrary: es st)
  case (Suc rows)
  show ?case
  proof (cases es)
    case (Cons e es')
    then show ?thesis using Suc by (simp add: fgets_event body_event)
  qed (simp add: fgets_def)
qed simp

end

definition axis_value :: "nat \<Rightarrow> int" where
  "axis_value v = min 2147483647 (int v)"

definition select_effect :: "input_event \<Rightarrow> int \<times> int \<Rightarrow> int \<times> int" where
  "select_effect e st =
     (if abs_event 0x35 e then axis_value (snd (snd e)) else fst st,
      if abs_event 0x36 e then axis_value (snd (snd e)) else snd st)"

definition coordinate_effect :: "input_event \<Rightarrow> int \<times> string \<Rightarrow> int \<times> string" where
  "coordinate_effect e st =
     (let t = show_hex 8 (snd (snd e)) @ [CHR 0x0A] in
      if abs_event 0x35 e then (signed_take_bit 31 (fst st + 1), snd st @ ''X:'' @ t)
      else if abs_event 0x36 e then (signed_take_bit 31 (fst st + 1), snd st @ ''Y:'' @ t @ [CHR 0x0A])
      else st)"

definition proximity_effect :: "input_event \<Rightarrow> int \<times> string \<Rightarrow> int \<times> string" where
  "proximity_effect e st =
     (if abs_event 9 e
      then (signed_take_bit 31 (fst st + 1), snd st @ ''proximity:'' @ process_str (show_hex 8 (snd (snd e)) @ [CHR 0x0A]))
      else st)"

lemma strtol_field: "v < 4294967296 \<Longrightarrow> strtol 16 (show_hex 8 v @ [CHR 0x0A]) = axis_value v"
proof -
  assume v: "v < 4294967296"
  have "digit_of CHR 0x0A = 99" by code_simp
  then have "\<not> starts_digit 16 [CHR 0x0A]" by (simp add: starts_digit_def)
  moreover have "show_hex 8 v \<noteq> []" by (metis length_show_hex list.size(3) zero_neq_numeral)
  ultimately have "scan_int 16 (show_hex 8 v @ [CHR 0x0A]) = Some (fst (scan_digits 16 (show_hex 8 v) 0), [CHR 0x0A])"
    using show_hex_digits by (intro scan_int_digits) auto
  then show ?thesis using v by (simp add: strtol_def scan_show_hex axis_value_def)
qed

interpretation sel: log_reader select_body select_effect
proof unfold_locales
  fix e st
  assume "event_ok e"
  moreover from this have "snd (snd e) < 4294967296" by (auto simp: event_ok_def)
  ultimately show "select_body (line_buf (event_line e)) st = Inr (select_effect e st)"
    by (simp add: select_body_def event_keys field_after_event select_effect_def strtol_field)
qed

interpretation coo: log_reader coordinate_body coordinate_effect
  by unfold_locales
    (auto simp: coordinate_body_def event_keys field_after_event coordinate_effect_def Let_def abs_event_def)

interpretation prox: log_reader proximity_body proximity_effect
  by unfold_locales (simp add: proximity_body_def event_keys field_after_event proximity_effect_def)

section \<open>What the programs answer\<close>

text \<open>The last value of an axis in a log, or what was there before.\<close>

definition touch_value :: "nat \<Rightarrow> int \<Rightarrow> input_event list \<Rightarrow> int" where
  "touch_value c d es = last (d # map (\<lambda>e. axis_value (snd (snd e))) (filter (abs_event c) es))"

lemma fold_select:
  "fold select_effect es st = (touch_value 0x35 (fst st) es, touch_value 0x36 (snd st) es)"
  by (induction es arbitrary: st) (auto simp: touch_value_def select_effect_def abs_event_def)

text \<open>\<^verbatim>\<open>get_select\<close> on a log of events: with fewer than five lines it returns 4 (the scripts try again);
  otherwise it returns the choice for the last X and the last Y of the first five lines, 0 for
  an axis that does not occur.\<close>

theorem select_reads_touch:
  assumes "list_all event_ok es" and "files name = Some (concat (map event_line es))"
  shows "select_main F1 answer [name] files =
    (if length es < 5 then Inr 4
     else button_select F1 (get_screeninfo answer) (touch_value 0x35 0 (take 5 es)) (touch_value 0x36 0 (take 5 es)))"
  using assms sel.log_loop_events [OF assms(1), of 5 "(0, 0)"]
  by (simp add: select_main_def fold_select not_less)

text \<open>The two layouts of the screen are each other turned by 180 degrees: with the variable F1 set to 1 a
  point means what the opposite point means without it, on every screen whose height is a multiple
  of 4 and whose width is even.\<close>

theorem select_rotated:
  assumes "atoi p = 1" and "atoi q \<noteq> 1" and "4 dvd uint h" "2 dvd uint w" and "uint h < 536870912" "uint w < 536870912"
  shows "button_select (Some p) (w, h) x y = button_select (Some q) (w, h) (uint w - x) (uint h - y)"
proof -
  obtain a b where a: "uint h = 4 * a" "uint w = 2 * b" using assms(3,4) unfolding dvd_def by blast
  have ab: "0 \<le> a" "0 \<le> b" using uint_ge_0 [of h] uint_ge_0 [of w] a by linarith+
  have s: "sint h = 4 * a" "sint w = 2 * b"
    using assms(5,6) a ab by (simp_all add: sint_uint signed_take_bit_int_eq_self)
  have "signed_take_bit 31 (4 * a * 3) = 12 * a"
    using assms(5) a ab by (subst signed_take_bit_int_eq_self) simp_all
  moreover have "12 * a sdiv 4 = 3 * a" "4 * a sdiv 4 = a" "2 * b sdiv 2 = b"
    using ab by (auto simp: signed_divide_int_def sgn_mult sgn_if)
  ultimately show ?thesis
    using assms(1,2) a by (auto simp: button_select_def s Let_def)
qed

theorem select_reads_touch_witness:
  "select_main (Some ''0'') (Some (480, 800)) [''log'']
     [''log'' \<mapsto> concat (map event_line [(3, 0x39, 7), (3, 0x35, 100), (3, 0x36, 700), (0, 0, 0), (0, 0, 0)])] = Inr 1"
proof -
  have "atoi ''0'' = 0" by (simp add: atoi_def atol_def is_space_def)
  then show ?thesis
    using select_reads_touch [of "[(3, 0x39, 7), (3, 0x35, 100), (3, 0x36, 700), (0, 0, 0), (0, 0, 0)]"
        "[''log'' \<mapsto> concat (map event_line [(3, 0x39, 7), (3, 0x35, 100), (3, 0x36, 700), (0, 0, 0), (0, 0, 0)])]" "''log''"
        "Some ''0''" "Some (480, 800)"]
    by (simp add: event_ok_def touch_value_def abs_event_def axis_value_def button_select_def get_screeninfo_def
        signed_divide_int_def signed_take_bit_int_eq_self)
qed

theorem select_rotated_witness:
  "button_select (Some ''1'') (480, 800) 400 100 = button_select (Some ''0'') (480, 800) 80 700"
proof -
  have "atoi ''1'' = 1" "atoi ''0'' = 0" by (simp_all add: atoi_def atol_def is_space_def)
  then show ?thesis using select_rotated [of "''1''" "''0''" 800 480 400 100] by simp
qed

text \<open>What is printed for an event.\<close>

definition coordinate_text :: "input_event \<Rightarrow> string" where
  "coordinate_text e =
     (if abs_event 0x35 e then ''X:'' @ show_hex 8 (snd (snd e)) @ [CHR 0x0A]
      else if abs_event 0x36 e then ''Y:'' @ show_hex 8 (snd (snd e)) @ [CHR 0x0A, CHR 0x0A]
      else [])"

definition proximity_text :: "input_event \<Rightarrow> string" where
  "proximity_text e =
     (if abs_event 9 e then ''proximity:'' @ process_str (show_hex 8 (snd (snd e))) @ [CHR 0x0A] else [])"

lemma count_up: "- 2147483648 \<le> c \<Longrightarrow> c < 2147483647 \<Longrightarrow> signed_take_bit 31 (c + 1) = (c + 1 :: int)"
  by (simp add: signed_take_bit_int_eq_self)

lemma fold_coordinate:
  "- 2147483648 \<le> fst st \<Longrightarrow> fst st + int (length es) < 2147483648 \<Longrightarrow>
   fold coordinate_effect es st =
     (fst st + int (length (filter (\<lambda>e. abs_event 0x35 e \<or> abs_event 0x36 e) es)), snd st @ concat (map coordinate_text es))"
  by (induction es arbitrary: st) (auto simp: coordinate_effect_def coordinate_text_def count_up)

lemma process_line: "process_str (t @ [CHR 0x0A]) = process_str t @ [CHR 0x0A]"
  by (induction t) (auto simp: process_str_def)

lemma fold_proximity:
  "- 2147483648 \<le> fst st \<Longrightarrow> fst st + int (length es) < 2147483648 \<Longrightarrow>
   fold proximity_effect es st =
     (fst st + int (length (filter (abs_event 9) es)), snd st @ concat (map proximity_text es))"
  by (induction es arbitrary: st) (auto simp: proximity_effect_def proximity_text_def count_up process_line)

text \<open>\<^verbatim>\<open>get_coordinate\<close> and \<^verbatim>\<open>get_proximity\<close> on a log of events: each prints the values of its axes among the
  first 50 events; but with fewer than 50 lines in the log the result is -1, whatever was found. With 50
  it is 0 when the number of values found, added to what the variable \<open>count\<close> held before, which nothing
  initialises, is positive, else 1. A distance of 0 is printed as an empty string.\<close>

theorem log_status:
  assumes "list_all event_ok es" and "files name = Some (concat (map event_line es))"
    and "- 2147483648 \<le> count" "count < 2147483500"
  shows "coordinate_main count [name] files =
      Inr (if length es < 50 then -1
           else if 0 < count + int (length (filter (\<lambda>e. abs_event 0x35 e \<or> abs_event 0x36 e) (take 50 es))) then 0 else 1,
           concat (map coordinate_text (take 50 es))) \<and>
    proximity_main count [name] files =
      Inr (if length es < 50 then -1
           else if 0 < count + int (length (filter (abs_event 9) (take 50 es))) then 0 else 1,
           concat (map proximity_text (take 50 es)))"
proof -
  have "count + int (length (take 50 es)) < 2147483648" using assms(4) by simp
  then show ?thesis
    using assms coo.log_loop_events [OF assms(1), of 50 "(count, [])"] prox.log_loop_events [OF assms(1), of 50 "(count, [])"]
      fold_coordinate [of "(count, [])" "take 50 es"] fold_proximity [of "(count, [])" "take 50 es"]
    by (simp add: coordinate_main_def proximity_main_def not_less)
qed

theorem log_status_witness:
  "coordinate_main 1 [''log''] [''log'' \<mapsto> concat (map event_line (replicate 50 (0, 0, 0)))] = Inr (0, []) \<and>
   coordinate_main 0 [''log''] [''log'' \<mapsto> concat (map event_line [(3, 0x35, 0x1F4)])] =
     Inr (-1, ''X:000001f4'' @ [CHR 0x0A])"
proof -
  have "event_ok (0, 0, 0)" "event_ok (3, 0x35, 0x1F4)" by (simp_all add: event_ok_def)
  moreover have "concat (map coordinate_text (replicate k (0, 0, 0))) = []" for k
    by (induction k) (simp_all add: coordinate_text_def abs_event_def)
  moreover have "filter (\<lambda>e. abs_event 53 e \<or> abs_event 54 e) (replicate 50 (0, 0, 0)) = []"
    by (simp add: abs_event_def)
  moreover have "show_hex 8 0x1F4 = ''000001f4''" by code_simp
  ultimately show ?thesis
    using log_status [of "replicate 50 (0, 0, 0)" "[''log'' \<mapsto> concat (map event_line (replicate 50 (0, 0, 0)))]" "''log''" 1]
      log_status [of "[(3, 0x35, 0x1F4)]" "[''log'' \<mapsto> concat (map event_line [(3, 0x35, 0x1F4)])]" "''log''" 0]
    by (simp add: list_all_iff) (simp add: coordinate_text_def abs_event_def)
qed

section \<open>The number of an input device\<close>

text \<open>\<^verbatim>\<open>test_eventnum.c\<close>: the log has two lines for each device, its path and its name. At most six pairs are read;
  the digits behind \<^verbatim>\<open>event\<close> in the path of the first device whose name holds the text are its number.\<close>

definition event_number :: "string \<Rightarrow> int" where
  "event_number path =
     (case strstr path ''event'' of
        None \<Rightarrow> -1
      | Some i \<Rightarrow> let event_num = atoi (drop (i + 5) path)
                  in if event_num < 0 \<or> event_num \<ge> 10 then -1 else event_num)"

fun pair_loop :: "nat \<Rightarrow> string \<Rightarrow> string \<Rightarrow> stop + int" where
  "pair_loop 0 dev t = Inr (-1)"
| "pair_loop (Suc pairs) dev t =
     (case fgets 50 t of
        None \<Rightarrow> Inr (-1)
      | Some (l1, t, _) \<Rightarrow>
          (case fgets 50 t of
             None \<Rightarrow> Inr (-1)
           | Some (l2, t, eof) \<Rightarrow>
               (case (c_string (line_buf l1), c_string (line_buf l2)) of
                  (Some path, Some name) \<Rightarrow>
                    if strstr name dev \<noteq> None then Inr (event_number path)
                    else if eof then Inr (-1) else pair_loop pairs dev t
                | _ \<Rightarrow> Inl Fault)))"

definition eventnum_main :: "string list \<Rightarrow> (string \<Rightarrow> string option) \<Rightarrow> stop + int" where
  "eventnum_main args files =
     (case args of
        [log, dev] \<Rightarrow> (case files log of None \<Rightarrow> Inr (-1) | Some t \<Rightarrow> pair_loop 6 dev t)
      | _ \<Rightarrow> Inr (-1))"

definition plain_line :: "string \<Rightarrow> bool" where
  "plain_line l \<longleftrightarrow> length l < 49 \<and> CHR 0x0A \<notin> set l \<and> NUL \<notin> set l"

definition with_newline :: "string \<Rightarrow> string" where
  "with_newline l = l @ [CHR 0x0A]"

lemma fgets_plain: "plain_line l \<Longrightarrow> fgets 50 (with_newline l @ t) = Some (with_newline l, t, False)"
  using line_of_newline [of l 48 t] by (auto simp: plain_line_def with_newline_def fgets_def eval_nat_numeral)

lemma plain_string: "plain_line l \<Longrightarrow> c_string (line_buf (with_newline l)) = Some (with_newline l)"
  unfolding line_buf_def
  by (rule c_string_padded) (auto simp: plain_line_def with_newline_def NUL_def)

text \<open>On a log of short lines the loop is a search in the list of pairs.\<close>

theorem eventnum_finds:
  assumes "list_all (\<lambda>(p, n). plain_line p \<and> plain_line n) ds"
    and "files log = Some (concat (map (\<lambda>(p, n). with_newline p @ with_newline n) ds))"
  shows "eventnum_main [log, dev] files =
    Inr (case find (\<lambda>(p, n). strstr (with_newline n) dev \<noteq> None) (take 6 ds) of
           None \<Rightarrow> -1 | Some (p, n) \<Rightarrow> event_number (with_newline p))"
proof -
  have "pair_loop k dev (concat (map (\<lambda>(p, n). with_newline p @ with_newline n) ds)) =
    Inr (case find (\<lambda>(p, n). strstr (with_newline n) dev \<noteq> None) (take k ds) of
           None \<Rightarrow> -1 | Some (p, n) \<Rightarrow> event_number (with_newline p))" for k
    using assms(1)
  proof (induction k arbitrary: ds)
    case (Suc k)
    show ?case
    proof (cases ds)
      case Nil
      then show ?thesis by (simp add: fgets_def)
    next
      case (Cons d ds')
      obtain p n where "d = (p, n)" by fastforce
      then show ?thesis using Suc Cons by (simp add: fgets_plain plain_string)
    qed
  qed simp
  then show ?thesis using assms(2) by (simp add: eventnum_main_def)
qed

end
