(* ===== verification/Motor.thy ===== *)
theory Motor
  imports Scan
begin

text \<open>
  \<^verbatim>\<open>test_vibrator/test_drv2605\<close>: sends its arguments as bytes to the driver of the vibration motor. The block
  \<open>new\<close> returns lies in memory behind other bytes (\<open>before\<close>, those of the allocator), so that a store
  in front of the block has a place; with none in front it stops the program. The destructor closes the
  descriptor that \<open>main\<close> has closed. Log messages are left out.
\<close>

definition DEVICE_PATH :: string where "DEVICE_PATH = ''/dev/drv2605''"

text \<open>\<^verbatim>\<open>struct motor_data\<close>: the descriptor, and where the block of the parameters begins.\<close>

record motor_data =
  m_fd :: int
  m_param :: int

definition Motors :: motor_data where
  "Motors = \<lparr>m_fd = -1, m_param = 0\<rparr>"

definition motor_open :: "motor_data \<Rightarrow> fs \<Rightarrow> int \<times> motor_data \<times> fs" where
  "motor_open m s =
     (let (fd, s) = f_open DEVICE_PATH O_RDWR False s; m = m\<lparr>m_fd := fd\<rparr>
      in (if fd < 0 then -1 else fd, m, s))"

text \<open>The loop from argument \<open>i\<close> on: it begins with argument 0, whose place is -1.\<close>

fun param_loop :: "string list \<Rightarrow> int \<Rightarrow> int \<Rightarrow> bytes \<Rightarrow> stop + bytes" where
  "param_loop [] i param mem = Inr mem"
| "param_loop (arg # args) i param mem =
     bindE (store mem (param + (i - 1)) [word_of_int (strtol 16 arg)]) (param_loop args (i + 1) param)"

definition motor_exec :: "bytes \<Rightarrow> bytes \<Rightarrow> string list \<Rightarrow> motor_data \<Rightarrow> fs \<Rightarrow> stop + (int \<times> bytes \<times> fs)" where
  "motor_exec before block argv m s =
     (if length argv < 2 then Inr (-1, before @ block, s)
      else
        let m = m\<lparr>m_param := int (length before)\<rparr>; len = length argv - 1 in
        bindE (param_loop argv 0 (m_param m) (before @ block)) (\<lambda>mem.
        bindE (load_bytes mem (m_param m) len) (\<lambda>b.
          let (r, s) = f_write (m_fd m) b s in
          Inr (if r = Some len then 0 else -1, mem, s))))"

text \<open>\<open>main\<close>; the result of \<open>motor_exec\<close> is not looked at.\<close>

definition motor_main :: "bytes \<Rightarrow> bytes \<Rightarrow> string list \<Rightarrow> fs \<Rightarrow> stop + (int \<times> bytes \<times> fs)" where
  "motor_main before block argv s =
     (let (fd, m, s) = motor_open Motors s in
      if fd < 0 then Inr (-1, before @ block, s)
      else bindE (motor_exec before block argv m s) (\<lambda>(r, mem, s).
        Inr (0, mem, f_close (m_fd m) (f_close fd s))))"

section \<open>What is sent\<close>

definition param_byte :: "string \<Rightarrow> u8" where
  "param_byte arg = word_of_int (strtol 16 arg)"

lemma store_at: "length b = length y \<Longrightarrow> store (x @ y @ z) (int (length x)) b = Inr (x @ b @ z)"
  by (simp add: store_past store_here)

lemma param_loop_stores:
  "length y = length args \<Longrightarrow>
   param_loop args i (int (length x) - (i - 1)) (x @ y @ z) = Inr (x @ map param_byte args @ z)"
proof (induction args arbitrary: i x y)
  case (Cons a args)
  then obtain c cs where y: "y = c # cs" "length cs = length args" by (cases y) auto
  have s: "store (x @ y @ z) (int (length x)) [param_byte a] = Inr (x @ [param_byte a] @ cs @ z)"
    using store_at [of "[param_byte a]" "[c]" x "cs @ z"] by (simp add: y(1))
  have "param_loop args (i + 1) (int (length (x @ [param_byte a])) - (i + 1 - 1)) ((x @ [param_byte a]) @ cs @ z) =
      Inr ((x @ [param_byte a]) @ map param_byte args @ z)"
    by (rule Cons.IH [OF y(2)])
  moreover have "int (length (x @ [param_byte a])) - (i + 1 - 1) = int (length x) - (i - 1)" by simp
  ultimately show ?case using s by (simp add: param_byte_def algebra_simps)
qed simp

text \<open>The motor is sent one byte for each argument, its value in base 16 cut to 8 bits. But the loop begins with
  the name of the program: its value is stored in front of the block that was allocated, over the
  last byte of what precedes it. The exit status is 0 whether or not the write succeeds.\<close>

theorem motor_sends:
  assumes "fs_nodes s DEVICE_PATH = Some (Dev i e)" and "\<not> fs_denied s DEVICE_PATH" and "args \<noteq> []"
    and "length block = length args"
  shows "\<exists>s'. motor_main (before @ [x]) block (name # args) s = Inr (0, before @ [param_byte name] @ map param_byte args, s') \<and>
    (fs_plan s = [] \<longrightarrow> fs_nodes s' DEVICE_PATH = Some (Dev i (e @ map param_byte args))) \<and>
    (fs_plan s = [Failed] \<longrightarrow> fs_nodes s' DEVICE_PATH = Some (Dev i e))"
proof -
  let ?k = "int (fs_next s)"
  define s1 where "s1 = s\<lparr>fs_fds := (fs_fds s)(?k \<mapsto> (DEVICE_PATH, 0)), fs_next := Suc (fs_next s)\<rparr>"
  have o1: "f_open DEVICE_PATH O_RDWR False s = (?k, s1)"
    using assms(1,2) by (simp add: f_open_def s1_def fun_upd_idem)
  let ?b = "map param_byte args"
  have l: "param_loop (name # args) 0 (int (length (before @ [x]))) ((before @ [x]) @ block) =
      Inr (before @ map param_byte (name # args) @ [])"
    using param_loop_stores [of "x # block" "name # args" 0 before "[]"] assms(4) by (simp del: param_loop.simps add: add.commute)
  have b: "load_bytes (before @ param_byte name # ?b) (int (length (before @ [x]))) (length args) = Inr ?b"
    using load_bytes_past [of "before @ [param_byte name]" "int (length (before @ [x]))" ?b "length args"]
    by (simp add: load_bytes_def)
  obtain r s2 where w: "f_write ?k ?b s1 = (r, s2)" by fastforce
  have "motor_main (before @ [x]) block (name # args) s =
      Inr (0, before @ [param_byte name] @ map param_byte args, f_close ?k (f_close ?k s2))"
    using o1 l b w assms(3) by (cases args) (simp_all add: motor_main_def motor_open_def motor_exec_def Motors_def Let_def del: param_loop.simps)
  moreover have "fs_nodes s2 DEVICE_PATH = Some (Dev i (e @ ?b))" if "fs_plan s = []"
    using w that assms(1) by (auto simp: f_write_def next_outcome_def s1_def Let_def)
  moreover have "fs_nodes s2 DEVICE_PATH = Some (Dev i e)" if "fs_plan s = [Failed]"
    using w that assms(1) by (auto simp: f_write_def next_outcome_def s1_def Let_def)
  ultimately show ?thesis by (auto simp: f_close_def)
qed

definition motor_fs :: fs where
  "motor_fs = \<lparr>fs_nodes = [DEVICE_PATH \<mapsto> Dev [] []], fs_denied = (\<lambda>_. False), fs_fds = Map.empty, fs_next = 3,
     fs_plan = [], fs_driver = (\<lambda>_ v. Some v), fs_ctl = []\<rparr>"

theorem motor_sends_witness:
  "\<exists>s'. motor_main [9, 9] [0, 0] [''test_drv2605'', ''0x01'', ''0x60''] motor_fs = Inr (0, [9, 0, 1, 0x60], s') \<and>
    fs_nodes s' DEVICE_PATH = Some (Dev [] [1, 0x60])"
proof -
  have "strtol 16 ''test_drv2605'' = 0" "strtol 16 ''0x01'' = 1" "strtol 16 ''0x60'' = 0x60" by code_simp+
  then have p: "param_byte ''test_drv2605'' = 0" "param_byte ''0x01'' = 1" "param_byte ''0x60'' = 0x60"
    by (simp_all add: param_byte_def)
  have s: "fs_nodes motor_fs DEVICE_PATH = Some (Dev [] [])" "\<not> fs_denied motor_fs DEVICE_PATH" "fs_plan motor_fs = []"
    by (simp_all add: motor_fs_def)
  show ?thesis
    using motor_sends [OF s(1,2), of "[''0x01'', ''0x60'']" "[0, 0]" "[9]" 9 "''test_drv2605''"] s(3)
    by (auto simp: p)
qed

end
