(* ===== verification/Bluetooth.thy ===== *)
theory Bluetooth
  imports Scan
begin

unbundle bit_operations_syntax

text \<open>
  \<^verbatim>\<open>test_bluetooth/test_bluetooth.c\<close>: Broadcom's loader \<^verbatim>\<open>brcm_patchram_plus\<close>, cut down to a test. It sends five
  HCI commands over a serial line and compares the events that answer them. The globals are the record
  \<open>bt\<close>. A routine returns \<open>None\<close> when it does not return, \<open>Inl\<close> when an access leaves \<open>buffer\<close>, else its
  value and the new state. What comes from outside is part of the state: the files and the line
  (\<open>Files\<close>), how often the alarm rings while each \<open>read\<close> waits (\<open>g_rings\<close>), and how many bytes
  stand in the queue of the line when it is flushed (\<open>g_stale\<close>). Debug output is left out, and \<open>usleep\<close>.
\<close>

section \<open>The globals\<close>

record termios =
  c_iflag :: u32
  c_oflag :: u32
  c_cflag :: u32
  c_lflag :: u32

record bt =
  g_uart_fd :: int
  g_hcdfile_fd :: int
  g_termios_baudrate :: u32
  g_bdaddr_flag :: int
  g_enable_lpm :: int
  g_enable_hci :: int
  g_use_baudrate_for_download :: int
  g_debug :: int
  g_scopcm :: int
  g_i2s :: int
  g_no2bytes :: int
  g_tosleep :: int
  g_termios :: termios
  g_buffer :: bytes
  g_update_baud_rate :: bytes
  g_write_bd_addr :: bytes
  g_write_sco_pcm_int :: bytes
  g_write_pcm_data_format :: bytes
  g_write_i2spcm_interface_param :: bytes
  \<comment> \<open>the system\<close>
  g_fs :: fs
  g_tty :: termios
  g_armed :: bool
  g_rings :: "nat list"
  g_stale :: "nat list"

definition hci_reset :: bytes where "hci_reset = [0x01, 0x03, 0x0c, 0x00]"
definition hci_download_minidriver :: bytes where "hci_download_minidriver = [0x01, 0x2e, 0xfc, 0x00]"
definition hci_update_baud_rate :: bytes where
  "hci_update_baud_rate = [0x01, 0x18, 0xfc, 0x06, 0x00, 0x00, 0x00, 0x00, 0x00, 0x00]"
definition hci_write_bd_addr :: bytes where
  "hci_write_bd_addr = [0x01, 0x01, 0xfc, 0x06, 0x00, 0x00, 0x00, 0x00, 0x00, 0x00]"
definition hci_write_sleep_mode :: bytes where
  "hci_write_sleep_mode = [0x01, 0x27, 0xfc, 0x0c, 0x01, 0x01, 0x01, 0x01, 0x01, 0x01, 0x01, 0x00, 0x00, 0x00, 0x00, 0x00]"
definition hci_write_sco_pcm_int :: bytes where
  "hci_write_sco_pcm_int = [0x01, 0x1C, 0xFC, 0x05, 0x00, 0x00, 0x00, 0x00, 0x00]"
definition hci_write_pcm_data_format :: bytes where
  "hci_write_pcm_data_format = [0x01, 0x1e, 0xFC, 0x05, 0x00, 0x00, 0x00, 0x00, 0x00]"
definition hci_write_i2spcm_interface_param :: bytes where
  "hci_write_i2spcm_interface_param = [0x01, 0x6d, 0xFC, 0x04, 0x00, 0x00, 0x00, 0x00]"
definition hci_read_bd_addr :: bytes where "hci_read_bd_addr = [0x01, 0x09, 0x10, 0x00]"
definition hci_set_event_filter :: bytes where
  "hci_set_event_filter = [0x01, 0x05, 0x0C, 0x03, 0x02, 0x00, 0x02]"
definition hci_write_scan_enable :: bytes where "hci_write_scan_enable = [0x01, 0x1A, 0x0C, 0x01, 0x03]"
definition hci_enable_device_under_test_mode :: bytes where
  "hci_enable_device_under_test_mode = [0x01, 0x03, 0x18, 0x00]"

definition success_hci_reset_recevied :: bytes where
  "success_hci_reset_recevied = [0x04, 0x0e, 0x04, 0x01, 0x03, 0x0c, 0x00]"
definition success_hci_set_event_filter_recevied :: bytes where
  "success_hci_set_event_filter_recevied = [0x04, 0x0e, 0x04, 0x01, 0x05, 0x0c, 0x00]"
definition success_hci_write_scan_enable_recevied :: bytes where
  "success_hci_write_scan_enable_recevied = [0x04, 0x0e, 0x04, 0x01, 0x1a, 0x0c, 0x00]"
definition success_hci_enable_device_under_test_mode_recevied :: bytes where
  "success_hci_enable_device_under_test_mode_recevied = [0x04, 0x0e, 0x04, 0x01, 0x03, 0x18, 0x00]"

text \<open>The values before \<open>main\<close>, over a system.\<close>

definition bt_init :: "fs \<Rightarrow> termios \<Rightarrow> nat list \<Rightarrow> nat list \<Rightarrow> bt" where
  "bt_init s tty rings stale =
     \<lparr>g_uart_fd = -1, g_hcdfile_fd = -1, g_termios_baudrate = 0, g_bdaddr_flag = 0, g_enable_lpm = 0,
      g_enable_hci = 0, g_use_baudrate_for_download = 0, g_debug = 0, g_scopcm = 0, g_i2s = 0,
      g_no2bytes = 0, g_tosleep = 0, g_termios = \<lparr>c_iflag = 0, c_oflag = 0, c_cflag = 0, c_lflag = 0\<rparr>,
      g_buffer = replicate 1024 0, g_update_baud_rate = hci_update_baud_rate,
      g_write_bd_addr = hci_write_bd_addr, g_write_sco_pcm_int = hci_write_sco_pcm_int,
      g_write_pcm_data_format = hci_write_pcm_data_format,
      g_write_i2spcm_interface_param = hci_write_i2spcm_interface_param,
      g_fs = s, g_tty = tty, g_armed = False, g_rings = rings, g_stale = stale\<rparr>"

section \<open>Options\<close>

text \<open>A routine that may end the program: \<open>Inl\<close> is its exit status.\<close>

type_synonym parse_result = "int + (int \<times> bt)"

definition after_last :: "char \<Rightarrow> string \<Rightarrow> string option" where
  "after_last c t = (if c \<in> set t then Some (rev (takeWhile (\<lambda>d. d \<noteq> c) (rev t))) else None)"

definition to_lower :: "char \<Rightarrow> char" where
  "to_lower c = (let n = of_char c :: nat in if 65 \<le> n \<and> n \<le> 90 then char_of (n + 32) else c)"

definition strcasecmp_eq :: "string \<Rightarrow> string \<Rightarrow> bool" where
  "strcasecmp_eq t u \<longleftrightarrow> map to_lower t = map to_lower u"

definition parse_patchram :: "string \<Rightarrow> bt \<Rightarrow> parse_result" where
  "parse_patchram optarg g = (case after_last (CHR ''.'') optarg of
       None \<Rightarrow> Inl 3
     | Some p \<Rightarrow>
         if \<not> strcasecmp_eq ''hcd'' p then Inl 4
         else
           let (fd, s) = f_open optarg O_RDONLY False (g_fs g); g = g\<lparr>g_hcdfile_fd := fd, g_fs := s\<rparr>
           in if fd = -1 then Inl 5 else Inr (0, g))"

definition BRCM_encode_baud_rate :: "u32 \<Rightarrow> bytes \<Rightarrow> nat \<Rightarrow> bytes" where
  "BRCM_encode_baud_rate baud_rate arr p =
     (if baud_rate = 0 then arr
      else arr[p + 3 := ucast (drop_bit 24 baud_rate), p + 2 := ucast (drop_bit 16 baud_rate),
               p + 1 := ucast (drop_bit 8 baud_rate), p := ucast (baud_rate AND 0xFF)])"

text \<open>The rates, with the codes \<^verbatim>\<open>B115200\<close> and so on of the system's \<^verbatim>\<open>termios.h\<close>.\<close>

definition baud_rates :: "(int \<times> u32) list" where
  "baud_rates =
     [(115200, 0x1002), (230400, 0x1003), (460800, 0x1004), (500000, 0x1005), (576000, 0x1006), (921600, 0x1007),
      (1000000, 0x1008), (1152000, 0x1009), (1500000, 0x100a), (2000000, 0x100b), (2500000, 0x100c),
      (3000000, 0x100d), (3500000, 0x100e), (4000000, 0x100f)]"

definition validate_baudrate :: "int \<Rightarrow> u32 option" where
  "validate_baudrate baud_rate = map_of baud_rates baud_rate"

definition parse_baudrate :: "string \<Rightarrow> bt \<Rightarrow> parse_result" where
  "parse_baudrate optarg g =
     (let baudrate = atoi optarg in
      case validate_baudrate baudrate of
        Some v \<Rightarrow> Inr (0, g\<lparr>g_termios_baudrate := v,
                      g_update_baud_rate := BRCM_encode_baud_rate (word_of_int baudrate) (g_update_baud_rate g) 6\<rparr>)
      | None \<Rightarrow> Inr (0, g))"

text \<open>
  \<open>sscanf\<close> with a conversion and a separator in turn: the values converted, at most \<open>n\<close>. A \<^verbatim>\<open>%02X\<close> takes at
  most two characters; a \<^verbatim>\<open>%d\<close> goes through a 64-bit integer.
\<close>

fun scan_fields :: "(string \<Rightarrow> (int \<times> string) option) \<Rightarrow> char \<Rightarrow> nat \<Rightarrow> string \<Rightarrow> int list" where
  "scan_fields conv sep 0 t = []"
| "scan_fields conv sep (Suc n) t =
     (case conv t of
        None \<Rightarrow> []
      | Some (v, r) \<Rightarrow>
          v # (case r of [] \<Rightarrow> [] | c # r \<Rightarrow> if c = sep then scan_fields conv sep n r else []))"

definition scan_2hex :: "string \<Rightarrow> (int \<times> string) option" where
  "scan_2hex t =
     (let t = dropWhile is_space t
      in map_option (\<lambda>(v, r). (v, r @ drop 2 t)) (scan_int 16 (take 2 t)))"

definition scan_d :: "string \<Rightarrow> (int \<times> string) option" where
  "scan_d t = map_option (\<lambda>(v, r). (max (- (2 ^ 63)) (min (2 ^ 63 - 1) v), r)) (scan_int 10 t)"

text \<open>\<open>parse_bdaddr\<close>; \<open>junk\<close> is what the array \<open>bd_addr\<close> holds before: \<open>sscanf\<close> fills it from its end, and
  what it does not reach is used as it is.\<close>

definition parse_bdaddr :: "bytes \<Rightarrow> string \<Rightarrow> bt \<Rightarrow> parse_result" where
  "parse_bdaddr junk optarg g =
     (let vs = map word_of_int (scan_fields scan_2hex (CHR '':'') 6 optarg);
          bd_addr = take (6 - length vs) junk @ rev vs
      in Inr (0, g\<lparr>g_write_bd_addr := memcpy_at (g_write_bd_addr g) 4 bd_addr, g_bdaddr_flag := 1\<rparr>))"

definition parse_enable_lpm :: "string \<Rightarrow> bt \<Rightarrow> parse_result" where
  "parse_enable_lpm optarg g = Inr (0, g\<lparr>g_enable_lpm := 1\<rparr>)"

definition parse_use_baudrate_for_download :: "string \<Rightarrow> bt \<Rightarrow> parse_result" where
  "parse_use_baudrate_for_download optarg g = Inr (0, g\<lparr>g_use_baudrate_for_download := 1\<rparr>)"

definition parse_enable_hci :: "string \<Rightarrow> bt \<Rightarrow> parse_result" where
  "parse_enable_hci optarg g = Inr (0, g\<lparr>g_enable_hci := 1\<rparr>)"

definition parse_scopcm :: "string \<Rightarrow> bt \<Rightarrow> parse_result" where
  "parse_scopcm optarg g =
     (let param = map word_of_int (scan_fields scan_d (CHR '','') 10 optarg)
      in if length param \<noteq> 10 then Inr (1, g)
         else Inr (0, g\<lparr>g_scopcm := 1,
           g_write_sco_pcm_int := memcpy_at (g_write_sco_pcm_int g) 4 (take 5 param),
           g_write_pcm_data_format := memcpy_at (g_write_pcm_data_format g) 4 (drop 5 param)\<rparr>))"

definition parse_i2s :: "string \<Rightarrow> bt \<Rightarrow> parse_result" where
  "parse_i2s optarg g =
     (let param = map word_of_int (scan_fields scan_d (CHR '','') 4 optarg)
      in if length param \<noteq> 4 then Inr (1, g)
         else Inr (0, g\<lparr>g_i2s := 1,
           g_write_i2spcm_interface_param := memcpy_at (g_write_i2spcm_interface_param g) 4 param\<rparr>))"

definition parse_no2bytes :: "string \<Rightarrow> bt \<Rightarrow> parse_result" where
  "parse_no2bytes optarg g = Inr (0, g\<lparr>g_no2bytes := 1\<rparr>)"

definition parse_tosleep :: "string \<Rightarrow> bt \<Rightarrow> parse_result" where
  "parse_tosleep optarg g =
     (let g = g\<lparr>g_tosleep := atoi optarg\<rparr> in if g_tosleep g \<le> 0 then Inr (1, g) else Inr (0, g))"

text \<open>What \<open>getopt_long_only\<close> finds: the long option with an index into the table, \<^verbatim>\<open>-d\<close>, or something else.
  With each comes what the stack holds.\<close>

datatype bt_opt = Long nat string | Debug | Wrong

definition parse_table :: "(bytes \<Rightarrow> string \<Rightarrow> bt \<Rightarrow> parse_result) list" where
  "parse_table = [\<lambda>_. parse_patchram, \<lambda>_. parse_baudrate, parse_bdaddr, \<lambda>_. parse_enable_lpm, \<lambda>_. parse_enable_hci,
     \<lambda>_. parse_use_baudrate_for_download, \<lambda>_. parse_scopcm, \<lambda>_. parse_i2s, \<lambda>_. parse_no2bytes, \<lambda>_. parse_tosleep]"

fun bt_opt_loop :: "(bytes \<times> bt_opt) list \<Rightarrow> bt \<Rightarrow> parse_result" where
  "bt_opt_loop [] g = Inr (0, g)"
| "bt_opt_loop ((junk, c) # cs) g =
     (case c of
        Long i optarg \<Rightarrow>
          (case (parse_table ! i) junk optarg g of
             Inl code \<Rightarrow> Inl code
           | Inr (r, g) \<Rightarrow> if r \<noteq> 0 then Inr (r, g) else bt_opt_loop cs g)
      | Debug \<Rightarrow> bt_opt_loop cs (g\<lparr>g_debug := 1\<rparr>)
      | Wrong \<Rightarrow> bt_opt_loop cs g)"

definition parse_cmd_line :: "(bytes \<times> bt_opt) list \<Rightarrow> string list \<Rightarrow> bt \<Rightarrow> parse_result" where
  "parse_cmd_line opts operands g = (case bt_opt_loop opts g of
       Inl code \<Rightarrow> Inl code
     | Inr (r, g) \<Rightarrow>
         if r \<noteq> 0 then Inr (1, g)
         else (case operands of
             [] \<Rightarrow> Inr (0, g)
           | port # _ \<Rightarrow>
               let (fd, s) = f_open port O_RDWR False (g_fs g)
               in Inr (0, g\<lparr>g_uart_fd := fd, g_fs := s\<rparr>)))"

text \<open>\<open>read_default_bdaddr\<close>; \<open>prop\<close> is the value of the property with the path. A file that is read is not
  closed.\<close>

definition read_default_bdaddr :: "string \<Rightarrow> bytes \<Rightarrow> bt \<Rightarrow> bt" where
  "read_default_bdaddr path junk g =
     (if path = '''' then g
      else
        let (fd, s) = f_open path O_RDONLY False (g_fs g) in
        if fd < 0 then g\<lparr>g_fs := s\<rparr>
        else (case f_read fd 17 s of
            (None, s) \<Rightarrow> g\<lparr>g_fs := f_close fd s\<rparr>
          | (Some b, s) \<Rightarrow>
              if length b \<noteq> 17 then g\<lparr>g_fs := f_close fd s\<rparr>
              else
                let bdaddr = takeWhile (\<lambda>c. c \<noteq> NUL) (chars_of b @ [NUL]) in
                (case parse_bdaddr junk bdaddr (g\<lparr>g_fs := s\<rparr>) of Inl _ \<Rightarrow> g\<lparr>g_fs := s\<rparr> | Inr (_, g) \<Rightarrow> g)))"

section \<open>The serial line\<close>

text \<open>The flags of the system's \<^verbatim>\<open>termios.h\<close> for this processor.\<close>

definition raw_iflag :: u32 where "raw_iflag = 0x5eb" \<comment> \<open>\<^verbatim>\<open>IGNBRK | BRKINT | PARMRK | ISTRIP | INLCR | IGNCR | ICRNL | IXON\<close>\<close>
definition OPOST :: u32 where "OPOST = 0x1"
definition raw_lflag :: u32 where "raw_lflag = 0x14b" \<comment> \<open>\<^verbatim>\<open>ECHO | ECHONL | ICANON | ISIG | IEXTEN\<close>\<close>
definition CSIZE :: u32 where "CSIZE = 0x30"
definition CS8 :: u32 where "CS8 = 0x30"
definition PARENB :: u32 where "PARENB = 0x100"
definition CRTSCTS :: u32 where "CRTSCTS = 0x80000000"
definition CBAUD :: u32 where "CBAUD = 0x100f"
definition B115200 :: u32 where "B115200 = 0x1002"

definition cfmakeraw :: "termios \<Rightarrow> termios" where
  "cfmakeraw t = t\<lparr>c_iflag := c_iflag t AND NOT raw_iflag, c_oflag := c_oflag t AND NOT OPOST,
     c_lflag := c_lflag t AND NOT raw_lflag, c_cflag := (c_cflag t AND NOT (CSIZE OR PARENB)) OR CS8\<rparr>"

text \<open>The system keeps one speed for both directions.\<close>

definition cfsetspeed :: "u32 \<Rightarrow> termios \<Rightarrow> termios" where
  "cfsetspeed v t = t\<lparr>c_cflag := (c_cflag t AND NOT CBAUD) OR (v AND CBAUD)\<rparr>"

text \<open>The next entry of a plan of numbers.\<close>

fun next_nat :: "nat list \<Rightarrow> nat \<times> nat list" where
  "next_nat [] = (0, [])"
| "next_nat (n # ns) = (n, ns)"

text \<open>\<open>tcflush\<close> throws away what stands in the queue.\<close>

definition discard :: "int \<Rightarrow> nat \<Rightarrow> fs \<Rightarrow> fs" where
  "discard fd n s = (case fs_fds s fd of
       Some (path, _) \<Rightarrow>
         (case fs_nodes s path of
            Some (Dev i e) \<Rightarrow> s\<lparr>fs_nodes := (fs_nodes s)(path \<mapsto> Dev (drop n i) e)\<rparr>
          | _ \<Rightarrow> s)
     | None \<Rightarrow> s)"

definition tcflush :: "bt \<Rightarrow> bt" where
  "tcflush g = (let (n, ns) = next_nat (g_stale g) in g\<lparr>g_stale := ns, g_fs := discard (g_uart_fd g) n (g_fs g)\<rparr>)"

definition tcgetattr :: "bt \<Rightarrow> bt" where
  "tcgetattr g = g\<lparr>g_termios := g_tty g\<rparr>"

definition tcsetattr :: "bt \<Rightarrow> bt" where
  "tcsetattr g = g\<lparr>g_tty := g_termios g\<rparr>"

definition init_uart :: "bt \<Rightarrow> bt" where
  "init_uart g =
     (let g = tcflush g; g = tcgetattr g;
          g = g\<lparr>g_termios := cfmakeraw (g_termios g)\<rparr>;
          g = g\<lparr>g_termios := (g_termios g)\<lparr>c_cflag := c_cflag (g_termios g) OR CRTSCTS\<rparr>\<rparr>;
          g = tcsetattr g; g = tcflush g; g = tcsetattr g; g = tcflush g; g = tcflush g;
          g = g\<lparr>g_termios := cfsetspeed B115200 (g_termios g)\<rparr>
      in tcsetattr g)"

section \<open>Commands and events\<close>

type_synonym 'a outcome_of = "(stop + ('a \<times> bt)) option"

definition bindP :: "'a outcome_of \<Rightarrow> ('a \<Rightarrow> bt \<Rightarrow> 'b outcome_of) \<Rightarrow> 'b outcome_of" where
  "bindP m f = (case m of None \<Rightarrow> None | Some (Inl e) \<Rightarrow> Some (Inl e) | Some (Inr (x, g)) \<Rightarrow> f x g)"

definition pureP :: "'a \<Rightarrow> bt \<Rightarrow> 'a outcome_of" where
  "pureP x g = Some (Inr (x, g))"

lemma bindP_simps [simp]: "bindP None f = None" "bindP (Some (Inl e)) f = Some (Inl e)" "bindP (Some (Inr (x, g))) f = f x g"
  "bindP (pureP x g) f = f x g"
  by (simp_all add: bindP_def pureP_def)

definition hci_send_cmd :: "bytes \<Rightarrow> bt \<Rightarrow> bt" where
  "hci_send_cmd buf g = g\<lparr>g_fs := snd (f_write (g_uart_fd g) buf (g_fs g))\<rparr>"

text \<open>The handler of the alarm; it sets the next one.\<close>

definition expired :: "bt \<Rightarrow> bt" where
  "expired g = (hci_send_cmd hci_reset g)\<lparr>g_armed := True\<rparr>"

definition ring :: "bt \<Rightarrow> bt" where
  "ring g = (if g_armed g then let (n, ns) = next_nat (g_rings g) in (expired ^^ n) (g\<lparr>g_rings := ns\<rparr>) else g)"

text \<open>\<open>read (fd, &buffer[i], len)\<close>: -1 when it fails. The alarm rings while it waits, and the call goes on.\<close>

definition read_at :: "int \<Rightarrow> int \<Rightarrow> int \<Rightarrow> bt \<Rightarrow> stop + (int \<times> bt)" where
  "read_at fd i len g =
     (let g = ring g in
      case f_read fd (nat len) (g_fs g) of
        (None, s) \<Rightarrow> Inr (-1, g\<lparr>g_fs := s\<rparr>)
      | (Some b, s) \<Rightarrow>
          if b = [] then Inr (0, g\<lparr>g_fs := s\<rparr>)
          else bindE (store (g_buffer g) i b) (\<lambda>m. Inr (int (length b), g\<lparr>g_fs := s, g_buffer := m\<rparr>)))"

text \<open>The loop of \<open>read_event\<close>: the last \<open>count\<close>, and \<open>i\<close>.\<close>

partial_function (option) read_loop :: "int \<Rightarrow> int \<Rightarrow> int \<Rightarrow> bt \<Rightarrow> (int \<times> int) outcome_of" where
  "read_loop fd i len g =
     (case read_at fd i len g of
        Inl e \<Rightarrow> Some (Inl e)
      | Inr (count, g) \<Rightarrow>
          if count < len then read_loop fd (i + count) (len - count) g
          else Some (Inr ((count, i), g)))"

definition read_event :: "int \<Rightarrow> bt \<Rightarrow> int outcome_of" where
  "read_event fd g =
     bindP (read_loop fd 0 3 g) (\<lambda>(count, i) g.
     let i = i + count; len = uint (g_buffer g ! 2) in
     bindP (read_loop fd i len g) (\<lambda>(count, i) g. pureP (count + i) g))"

text \<open>\<open>memcmp\<close>: only whether it is 0 matters.\<close>

definition memcmp :: "bytes \<Rightarrow> bytes \<Rightarrow> nat \<Rightarrow> int" where
  "memcmp a b n = (if take n a = take n b then 0 else 1)"

definition proc_reset :: "bt \<Rightarrow> int outcome_of" where
  "proc_reset g =
     (let g = hci_send_cmd hci_reset g; g = g\<lparr>g_armed := True\<rparr> in
      bindP (read_event (g_uart_fd g) g) (\<lambda>count g.
      let g = g\<lparr>g_armed := False\<rparr> in
      if count = 7 then pureP (memcmp (g_buffer g) success_hci_reset_recevied (nat count)) g else pureP 1 g))"

definition proc_read_bd_addr :: "bt \<Rightarrow> int outcome_of" where
  "proc_read_bd_addr g =
     (let g = hci_send_cmd hci_read_bd_addr g in
      bindP (read_event (g_uart_fd g) g) (\<lambda>count g.
      if count = 13 then pureP (memcmp (drop 6 (g_buffer g)) [0x00] 1) g else pureP 1 g))"

definition proc_set_event_filter :: "bt \<Rightarrow> int outcome_of" where
  "proc_set_event_filter g =
     (let g = hci_send_cmd hci_set_event_filter g in
      bindP (read_event (g_uart_fd g) g) (\<lambda>count g.
      if count = 7 then pureP (memcmp (g_buffer g) success_hci_set_event_filter_recevied (nat count)) g else pureP 1 g))"

definition proc_write_scan_enable :: "bt \<Rightarrow> int outcome_of" where
  "proc_write_scan_enable g =
     (let g = hci_send_cmd hci_write_scan_enable g in
      bindP (read_event (g_uart_fd g) g) (\<lambda>count g.
      if count = 7 then pureP (memcmp (g_buffer g) success_hci_write_scan_enable_recevied (nat count)) g else pureP 1 g))"

definition proc_enable_device_under_test_mode :: "bt \<Rightarrow> int outcome_of" where
  "proc_enable_device_under_test_mode g =
     (let g = hci_send_cmd hci_enable_device_under_test_mode g in
      bindP (read_event (g_uart_fd g) g) (\<lambda>count g.
      if count = 7 then pureP (memcmp (g_buffer g) success_hci_enable_device_under_test_mode_recevied (nat count)) g
      else pureP 1 g))"

text \<open>The five steps of \<open>main\<close>; the value is the exit status.\<close>

definition bt_test :: "bt \<Rightarrow> int outcome_of" where
  "bt_test g =
     bindP (proc_reset g) (\<lambda>r g. if r \<noteq> 0 then pureP 3 g else
     bindP (proc_read_bd_addr g) (\<lambda>r g. if r \<noteq> 0 then pureP 4 g else
     bindP (proc_set_event_filter g) (\<lambda>r g. if r \<noteq> 0 then pureP 5 g else
     bindP (proc_write_scan_enable g) (\<lambda>r g. if r \<noteq> 0 then pureP 6 g else
     bindP (proc_enable_device_under_test_mode g) (\<lambda>r g. if r \<noteq> 0 then pureP 7 g else
     pureP 0 g)))))"

text \<open>\<open>main\<close>: the exit status and the state.\<close>

definition bt_main :: "string \<Rightarrow> bytes \<Rightarrow> (bytes \<times> bt_opt) list \<Rightarrow> string list \<Rightarrow> bt \<Rightarrow> (stop + (int \<times> bt option)) option" where
  "bt_main path junk opts operands g =
     (case parse_cmd_line opts operands (read_default_bdaddr path junk g) of
        Inl code \<Rightarrow> Some (Inr (code, None))
      | Inr (r, g) \<Rightarrow>
          if r \<noteq> 0 then Some (Inr (1, Some g))
          else if g_uart_fd g < 0 then Some (Inr (2, Some g))
          else map_option (map_sum id (map_prod id Some))
            (bt_test (init_uart g)))"

section \<open>A line that works\<close>

text \<open>The line on \<open>p\<close> will deliver \<open>i\<close>, and no call on it fails. When \<open>e\<close> is known, every transfer is whole and
  \<open>e\<close> is what was sent.\<close>

definition on_line :: "string \<Rightarrow> bytes \<Rightarrow> bytes option \<Rightarrow> bt \<Rightarrow> bool" where
  "on_line p i e g \<longleftrightarrow> (\<exists>pos d. fs_fds (g_fs g) (g_uart_fd g) = Some (p, pos) \<and> fs_nodes (g_fs g) p = Some (Dev i d) \<and>
     (case e of None \<Rightarrow> Failed \<notin> set (fs_plan (g_fs g)) | Some x \<Rightarrow> fs_plan (g_fs g) = [] \<and> d = x)) \<and>
   length (g_buffer g) = 1024"

definition sends :: "bytes option \<Rightarrow> bytes \<Rightarrow> bytes option" where
  "sends e b = map_option (\<lambda>x. x @ b) e"

lemma sends_simps [simp]: "sends None b = None" "sends (Some x) b = Some (x @ b)" "sends e [] = e"
  "sends (sends e a) b = sends e (a @ b)" "sends e b = None \<longleftrightarrow> e = None"
  by (cases e; simp add: sends_def)+

lemma on_line_frame [simp]:
  "on_line p i e (g\<lparr>g_armed := a\<rparr>) = on_line p i e g" "on_line p i e (g\<lparr>g_rings := r\<rparr>) = on_line p i e g"
  by (cases e; simp add: on_line_def)+

lemma on_line_buffer [simp]: "length m = 1024 \<Longrightarrow> length (g_buffer g) = 1024 \<Longrightarrow> on_line p i e (g\<lparr>g_buffer := m\<rparr>) = on_line p i e g"
  by (cases e) (simp_all add: on_line_def)

lemma on_line_length: "on_line p i e g \<Longrightarrow> length (g_buffer g) = 1024"
  by (simp add: on_line_def)

text \<open>What a routine on the line leaves alone.\<close>

definition settings :: "bt \<Rightarrow> _" where
  "settings g = (g_uart_fd g, g_hcdfile_fd g, g_armed g, g_use_baudrate_for_download g, g_no2bytes g, g_tosleep g, g_termios g, g_tty g,
     g_termios_baudrate g, g_update_baud_rate g, g_write_bd_addr g, g_write_sco_pcm_int g, g_write_pcm_data_format g,
     g_write_i2spcm_interface_param g)"

definition keeps :: "bt \<Rightarrow> bt \<Rightarrow> bool" where
  "keeps g g' \<longleftrightarrow> settings g' = settings g \<and> fs_fds (g_fs g') = fs_fds (g_fs g) \<and>
     (\<forall>q. (\<forall>pos. fs_fds (g_fs g) (g_uart_fd g) \<noteq> Some (q, pos)) \<longrightarrow> fs_nodes (g_fs g') q = fs_nodes (g_fs g) q)"

lemma keeps_fields: "keeps g g' \<Longrightarrow> g_uart_fd g' = g_uart_fd g \<and> g_armed g' = g_armed g"
  by (simp add: keeps_def settings_def)

lemma keeps_refl [simp]: "keeps g g"
  by (simp add: keeps_def)

lemma keeps_trans: "keeps g g' \<Longrightarrow> keeps g' g'' \<Longrightarrow> keeps g g''"
  by (auto simp: keeps_def settings_def)

lemma send_on_line:
  assumes "on_line p i e g"
  shows "on_line p i (sends e b) (hci_send_cmd b g) \<and> keeps g (hci_send_cmd b g) \<and>
    g_buffer (hci_send_cmd b g) = g_buffer g \<and> g_rings (hci_send_cmd b g) = g_rings g"
proof -
  obtain c s1 where c: "next_outcome (g_fs g) = (c, s1)" by fastforce
  have calm: "Failed \<notin> set (fs_plan (g_fs g))" using assms by (cases e) (auto simp: on_line_def)
  then obtain cs where s1: "s1 = g_fs g\<lparr>fs_plan := cs\<rparr>" "c \<noteq> Failed" "Failed \<notin> set cs"
    "fs_plan (g_fs g) = [] \<longrightarrow> c = Full \<and> cs = []"
    using next_outcome_calm [OF c calm] by auto
  then show ?thesis
    using assms c by (cases e) (auto simp: on_line_def hci_send_cmd_def f_write_def keeps_def settings_def Let_def)
qed

lemma expired_on_line:
  assumes "on_line p i e g"
  shows "on_line p i (sends e (concat (replicate n hci_reset))) ((expired ^^ n) g) \<and>
    (g_armed g \<longrightarrow> keeps g ((expired ^^ n) g)) \<and>
    g_buffer ((expired ^^ n) g) = g_buffer g \<and> g_rings ((expired ^^ n) g) = g_rings g"
proof (induction n)
  case (Suc n)
  let ?g = "(expired ^^ n) g"
  have "concat (replicate (Suc n) hci_reset) = concat (replicate n hci_reset) @ hci_reset"
    by (simp only: replicate_append_same [symmetric] replicate_Suc concat_append concat.simps append_Nil2)
  moreover have "expired ?g = (hci_send_cmd hci_reset ?g)\<lparr>g_armed := True\<rparr>" by (simp add: expired_def)
  moreover have "keeps g ((hci_send_cmd hci_reset ?g)\<lparr>g_armed := True\<rparr>)" if "g_armed g"
    using keeps_trans [of g ?g "hci_send_cmd hci_reset ?g"] Suc that
      send_on_line [of p i "sends e (concat (replicate n hci_reset))" ?g hci_reset]
    by (auto simp: keeps_def settings_def)
  ultimately show ?case
    using Suc send_on_line [of p i "sends e (concat (replicate n hci_reset))" ?g hci_reset] by auto
qed (simp add: assms)

text \<open>What the handler sends while the next \<open>read\<close> waits.\<close>

definition wake :: "bt \<Rightarrow> bytes" where
  "wake g = (if g_armed g then concat (replicate (fst (next_nat (g_rings g))) hci_reset) else [])"

definition rings_left :: "bt \<Rightarrow> nat list" where
  "rings_left g = (if g_armed g then tl (g_rings g) else g_rings g)"

lemma ring_on_line:
  assumes "on_line p i e g"
  shows "on_line p i (sends e (wake g)) (ring g) \<and> keeps g (ring g) \<and> g_buffer (ring g) = g_buffer g \<and>
    g_rings (ring g) = rings_left g"
  using assms expired_on_line [of p i e "g\<lparr>g_rings := snd (next_nat (g_rings g))\<rparr>"]
  by (cases "g_rings g") (auto simp: ring_def wake_def rings_left_def keeps_def settings_def split: prod.splits)

lemma store_memcpy: "0 \<le> p \<Longrightarrow> p + int (length b) \<le> int (length m) \<Longrightarrow> store m p b = Inr (memcpy_at m (nat p) b)"
  by (simp add: store_def)

lemma read_on_line:
  assumes "on_line p i e g" and "0 \<le> q" and "0 \<le> len" and "q + len \<le> 1024"
  obtains k g' where "read_at (g_uart_fd g) q len g = Inr (int k, g')" "int k \<le> len"
    "k = 0 \<longleftrightarrow> len = 0 \<or> i = []" "k \<le> length i" "on_line p (drop k i) (sends e (wake g)) g'" "keeps g g'"
    "g_buffer g' = memcpy_at (g_buffer g) (nat q) (take k i)" "g_rings g' = rings_left g"
    "e \<noteq> None \<longrightarrow> k = min (nat len) (length i)"
proof -
  let ?g = "ring g"
  note r = ring_on_line [OF assms(1)]
  obtain c s1 where c: "next_outcome (g_fs ?g) = (c, s1)" by fastforce
  have calm: "Failed \<notin> set (fs_plan (g_fs ?g))" using r by (cases e) (auto simp: on_line_def)
  then obtain cs where s1: "s1 = g_fs ?g\<lparr>fs_plan := cs\<rparr>" "c \<noteq> Failed" "Failed \<notin> set cs"
    "fs_plan (g_fs ?g) = [] \<longrightarrow> c = Full \<and> cs = []"
    using next_outcome_calm [OF c calm] by auto
  define k where "k = min (portion c (nat len)) (length i)"
  obtain pos d where line: "fs_fds (g_fs ?g) (g_uart_fd ?g) = Some (p, pos)" "fs_nodes (g_fs ?g) p = Some (Dev i d)"
    using r by (auto simp: on_line_def)
  have uart: "g_uart_fd ?g = g_uart_fd g" using r by (simp add: keeps_def settings_def)
  define s2 where "s2 = s1\<lparr>fs_nodes := (fs_nodes s1)(p \<mapsto> Dev (drop k i) d)\<rparr>"
  have dk: "drop (portion c (nat len)) i = drop k i" "take (portion c (nat len)) i = take k i"
    by (auto simp: k_def min_def)
  have rd: "f_read (g_uart_fd g) (nat len) (g_fs ?g) = (Some (take k i), s2)"
    using c s1(1,2) line uart by (simp add: f_read_def dk s2_def)
  have len: "length (take k i) = k" "portion c (nat len) \<le> nat len" by (simp_all add: k_def portion_le)
  have L: "length (g_buffer g) = 1024" using assms(1) by (rule on_line_length)
  have st: "store (g_buffer ?g) q (take k i) = Inr (memcpy_at (g_buffer g) (nat q) (take k i))"
    using r assms(2-4) len L by (intro trans [OF store_memcpy]) (simp_all add: k_def)
  define g' where "g' = ?g\<lparr>g_fs := s2, g_buffer := memcpy_at (g_buffer g) (nat q) (take k i)\<rparr>"
  have lm: "length (memcpy_at (g_buffer g) (nat q) (take k i)) = 1024"
    using L assms(2-4) len by (intro trans [OF length_memcpy_at]) (simp_all add: k_def)
  have 1: "read_at (g_uart_fd g) q len g = Inr (int k, g')"
  proof (cases "take k i = []")
    case True
    have "k = 0" using len(1) unfolding True by simp
    then show ?thesis using rd r L by (simp add: read_at_def g'_def memcpy_at_def)
  next
    case False
    then show ?thesis using rd st len(1) by (simp add: read_at_def g'_def)
  qed
  have 2: "int k \<le> len" "k \<le> length i" using len(2) assms(3) by (auto simp: k_def)
  have 3: "k = 0 \<longleftrightarrow> len = 0 \<or> i = []"
    using portion_pos [of "nat len" c] assms(3) len(2) by (cases "len = 0") (auto simp: k_def min_def split: if_splits)
  have 4: "on_line p (drop k i) (sends e (wake g)) g'"
    using r s1 line L lm by (cases e) (auto simp: on_line_def g'_def s2_def)
  have 5: "keeps g g'" "g_buffer g' = memcpy_at (g_buffer g) (nat q) (take k i)" "g_rings g' = rings_left g"
    using r s1(1) line by (auto simp: g'_def s2_def keeps_def settings_def)
  have 6: "e \<noteq> None \<longrightarrow> k = min (nat len) (length i)"
    using r s1(4) by (auto simp: on_line_def k_def)
  show thesis by (rule that [OF 1 2(1) 3 2(2) 4 5 6])
qed

lemma memcpy_at_append:
  "a + length x \<le> length m \<Longrightarrow> memcpy_at (memcpy_at m a x) (a + length x) y = memcpy_at m a (x @ y)"
  by (simp add: memcpy_at_def ac_simps)

text \<open>The loop collects exactly what it asks for, however it comes, and returns when it has it.\<close>

lemma read_loop_on_line:
  assumes "on_line p i e g" and "0 \<le> q" and "0 \<le> len" and "q + len \<le> 1024" and "nat len \<le> length i"
  shows "\<exists>count j g'. read_loop (g_uart_fd g) q len g = Some (Inr ((count, j), g')) \<and> j + count = q + len \<and>
    on_line p (drop (nat len) i) (sends e (wake g)) g' \<and> keeps g g' \<and>
    g_buffer g' = memcpy_at (g_buffer g) (nat q) (take (nat len) i) \<and> (e \<noteq> None \<longrightarrow> g_rings g' = rings_left g)"
  using assms
proof (induction "nat len" arbitrary: i e g q len rule: less_induct)
  case less
  obtain k g1 where r: "read_at (g_uart_fd g) q len g = Inr (int k, g1)" "int k \<le> len"
    "k = 0 \<longleftrightarrow> len = 0 \<or> i = []" "k \<le> length i" "on_line p (drop k i) (sends e (wake g)) g1" "keeps g g1"
    "g_buffer g1 = memcpy_at (g_buffer g) (nat q) (take k i)" "g_rings g1 = rings_left g"
    "e \<noteq> None \<longrightarrow> k = min (nat len) (length i)"
    by (rule read_on_line [OF less.prems(1-4)]) (rule that)
  show ?case
  proof (cases "int k < len")
    case False
    then have k: "k = nat len" "int k = len" using r(2) less.prems(3) by simp_all
    then have "read_loop (g_uart_fd g) q len g = Some (Inr ((int k, q), g1))"
      using r(1) by (subst read_loop.simps) simp
    then show ?thesis using r(5-8) k by auto
  next
    case True
    then have "0 < k" using r(3) less.prems(5) by auto
    have "e = None" using True r(9) less.prems(3,5) by (auto simp: min_def split: if_splits)
    have uart: "g_uart_fd g1 = g_uart_fd g" using r(6) by (simp add: keeps_def settings_def)
    have en: "nat (len - int k) \<le> length (drop k i)" using less.prems(5) r(4) by simp
    obtain count j g2 where l: "read_loop (g_uart_fd g1) (q + int k) (len - int k) g1 = Some (Inr ((count, j), g2))"
      "j + count = q + int k + (len - int k)" "on_line p (drop (nat (len - int k)) (drop k i)) (sends (sends e (wake g)) (wake g1)) g2"
      "keeps g1 g2" "g_buffer g2 = memcpy_at (g_buffer g1) (nat (q + int k)) (take (nat (len - int k)) (drop k i))"
      using less.hyps [of "len - int k" "drop k i" "sends e (wake g)" g1 "q + int k"] r(5) less.prems \<open>0 < k\<close> True en by auto
    have n: "nat (q + int k) = nat q + k" "nat (len - int k) = nat len - k" "nat len = k + (nat len - k)"
      using less.prems(2) True by auto
    have "take (nat len) i = take k i @ take (nat len - k) (drop k i)"
      by (subst n(3)) (rule take_add)
    then have "g_buffer g2 = memcpy_at (g_buffer g) (nat q) (take (nat len) i)"
      using memcpy_at_append [of "nat q" "take k i" "g_buffer g" "take (nat len - k) (drop k i)"]
        l(5) r(4,7) n(1,2) on_line_length [OF less.prems(1)] less.prems(2,4) True by simp
    moreover have "drop (nat (len - int k)) (drop k i) = drop (nat len) i" using n(2,3) by simp
    moreover have "read_loop (g_uart_fd g) q len g = Some (Inr ((count, j), g2))"
      using l(1) r(1) True uart by (subst read_loop.simps) simp
    ultimately show ?thesis
      using l(2-4) keeps_trans [OF r(6) l(4)] \<open>e = None\<close> by auto
  qed
qed

text \<open>When less is left than it needs it does not return.\<close>

definition has_enough :: "int \<Rightarrow> int \<Rightarrow> int \<Rightarrow> bt \<Rightarrow> bool" where
  "has_enough fd q len g \<longleftrightarrow> (\<forall>p i e.
     on_line p i e g \<and> fd = g_uart_fd g \<and> 0 \<le> q \<and> 0 \<le> len \<and> q + len \<le> 1024 \<longrightarrow> nat len \<le> length i)"

lemma has_enoughD:
  "has_enough fd q len g \<Longrightarrow> on_line p i e g \<Longrightarrow> fd = g_uart_fd g \<Longrightarrow> 0 \<le> q \<Longrightarrow> 0 \<le> len \<Longrightarrow> q + len \<le> 1024 \<Longrightarrow>
   nat len \<le> length i"
  by (auto simp: has_enough_def)

lemma read_loop_enough:
  assumes "read_loop fd q len g = Some y"
  shows "has_enough fd q len g"
proof (rule read_loop.raw_induct [where P = "\<lambda>fd q len g _. has_enough fd q len g", OF _ assms])
  fix rl fd q len g y
  assume 1: "\<And>fd q len g y. rl fd q len g = Some y \<Longrightarrow> has_enough fd q len g"
    and 2: "(case read_at fd q len g of
        Inl e \<Rightarrow> Some (Inl e)
      | Inr (count, g) \<Rightarrow>
          if count < len then rl fd (q + count) (len - count) g
          else Some (Inr ((count, q), g))) = Some y"
  have "nat len \<le> length i" if a: "on_line p i e g" "fd = g_uart_fd g" "0 \<le> q" "0 \<le> len" "q + len \<le> 1024" for p i e
  proof -
    obtain k g1 where r: "read_at (g_uart_fd g) q len g = Inr (int k, g1)" "int k \<le> len"
      "k = 0 \<longleftrightarrow> len = 0 \<or> i = []" "k \<le> length i" "on_line p (drop k i) (sends e (wake g)) g1" "keeps g g1"
      by (rule read_on_line [OF a(1,3-5)]) (rule that)
    show ?thesis
    proof (cases "int k < len")
      case False
      then show ?thesis using r(2,4) by linarith
    next
      case True
      then have "rl fd (q + int k) (len - int k) g1 = Some y" using 2 a(2) r(1) by simp
      from has_enoughD [OF 1 [OF this] r(5)] have "nat (len - int k) \<le> length (drop k i)"
        using r(6) a True by (simp add: keeps_def settings_def)
      then show ?thesis using r(4) True by simp
    qed
  qed
  then show "has_enough fd q len g" by (auto simp: has_enough_def)
qed

lemma read_loop_starves:
  assumes "on_line p i e g" and "0 \<le> q" and "0 \<le> len" and "q + len \<le> 1024" and "length i < nat len"
  shows "read_loop (g_uart_fd g) q len g = None"
proof (cases "read_loop (g_uart_fd g) q len g")
  case (Some y)
  from has_enoughD [OF read_loop_enough [OF this] assms(1)] have "nat len \<le> length i" using assms(2-4) by simp
  then show ?thesis using assms(5) by simp
qed

section \<open>Events\<close>

text \<open>The next event on the line and what follows it: three bytes, the third with the number of those that
  follow.\<close>

fun next_ev :: "bytes \<Rightarrow> (bytes \<times> bytes) option" where
  "next_ev (a # b # n # i) =
     (if unat n \<le> length i then Some (a # b # n # take (unat n) i, drop (unat n) i) else None)"
| "next_ev _ = None"

lemma take_memcpy: "length x \<le> length m \<Longrightarrow> take (length x) (memcpy_at m 0 x) = x"
  by (simp add: memcpy_at_def)

text \<open>What the handler of the alarm sends during the two reads of an event.\<close>

definition wakes :: "bt \<Rightarrow> bytes" where
  "wakes g = (if g_armed g then concat (replicate (sum_list (take 2 (g_rings g))) hci_reset) else [])"

lemma wakes_two:
  assumes "keeps g g'" and "g_rings g' = rings_left g"
  shows "wake g @ wake g' = wakes g"
proof (cases "g_rings g")
  case (Cons n ns)
  then show ?thesis using assms
    by (cases ns) (simp_all add: wake_def wakes_def rings_left_def keeps_def settings_def replicate_add)
qed (use assms in \<open>auto simp: wake_def wakes_def rings_left_def keeps_def settings_def\<close>)

lemma read_event_on_line:
  assumes "on_line p i e g"
  shows "case next_ev i of
      None \<Rightarrow> read_event (g_uart_fd g) g = None
    | Some (ev, r) \<Rightarrow> \<exists>g'. read_event (g_uart_fd g) g = Some (Inr (int (length ev), g')) \<and>
        on_line p r (sends e (wakes g)) g' \<and> keeps g g' \<and> take (length ev) (g_buffer g') = ev"
proof (cases "3 \<le> length i")
  case False
  then have "next_ev i = None" by (cases i rule: next_ev.cases) auto
  moreover have "read_loop (g_uart_fd g) 0 3 g = None"
    using read_loop_starves [OF assms, of 0 3] False by simp
  ultimately show ?thesis by (simp add: read_event_def)
next
  case True
  then obtain a b n j where i: "i = a # b # n # j"
    by (cases i rule: next_ev.cases) auto
  note L = on_line_length [OF assms]
  obtain count q g1 where l1: "read_loop (g_uart_fd g) 0 3 g = Some (Inr ((count, q), g1))" "q + count = 3"
    "on_line p j (sends e (wake g)) g1" "keeps g g1" "g_buffer g1 = memcpy_at (g_buffer g) 0 [a, b, n]"
    "e \<noteq> None \<longrightarrow> g_rings g1 = rings_left g"
    using read_loop_on_line [OF assms, of 0 3] by (auto simp: i eval_nat_numeral)
  have b2: "g_buffer g1 ! 2 = n" using l1(5) L by (simp add: memcpy_at_def nth_append)
  have uart: "g_uart_fd g1 = g_uart_fd g" using l1(4) by (simp add: keeps_def settings_def)
  have le: "3 + uint n \<le> 1024" "nat (uint n) = unat n" using uint_lt2p [of n] by simp_all
  show ?thesis
  proof (cases "unat n \<le> length j")
    case False
    then have "read_loop (g_uart_fd g1) 3 (uint n) g1 = None"
      using read_loop_starves [OF l1(3), of 3 "uint n"] le by simp
    then show ?thesis using l1(1,2) b2 uart False by (simp add: i read_event_def Let_def)
  next
    case True
    obtain count2 q2 g2 where l2: "read_loop (g_uart_fd g1) 3 (uint n) g1 = Some (Inr ((count2, q2), g2))" "q2 + count2 = 3 + uint n"
      "on_line p (drop (unat n) j) (sends (sends e (wake g)) (wake g1)) g2" "keeps g1 g2"
      "g_buffer g2 = memcpy_at (g_buffer g1) 3 (take (unat n) j)"
      using read_loop_on_line [OF l1(3), of 3 "uint n"] le True by auto
    have len: "length (a # b # n # take (unat n) j) = 3 + unat n" using True by simp
    have "g_buffer g2 = memcpy_at (g_buffer g) 0 (a # b # n # take (unat n) j)"
      using memcpy_at_append [of 0 "[a, b, n]" "g_buffer g" "take (unat n) j"] l2(5) l1(5) L
      by (simp add: numeral_3_eq_3)
    moreover have "length (a # b # n # take (unat n) j) \<le> length (g_buffer g)" using len L le by linarith
    ultimately have "take (length (a # b # n # take (unat n) j)) (g_buffer g2) = a # b # n # take (unat n) j"
      using take_memcpy by metis
    moreover have "on_line p (drop (unat n) j) (sends e (wakes g)) g2"
    proof (cases e)
      case None
      then show ?thesis using l2(3) by simp
    next
      case (Some x)
      then show ?thesis using l2(3) wakes_two [OF l1(4)] l1(6) by simp
    qed
    ultimately show ?thesis
      using l1(1,2) l2(1,2) b2 uart True keeps_trans [OF l1(4) l2(4)]
      by (simp add: i read_event_def Let_def pureP_def add.commute)
  qed
qed

section \<open>The test\<close>

text \<open>A command is sent and the event that follows is judged by what lies in the buffer.\<close>

lemma ask_on_line:
  fixes f :: "int \<Rightarrow> bt \<Rightarrow> int outcome_of"
  assumes "on_line p i e g" and "\<not> g_armed g"
    and f: "\<And>ev g'. take (length ev) (g_buffer g') = ev \<Longrightarrow> f (int (length ev)) g' = pureP (if ok ev then 0 else 1) g'"
  shows "case next_ev i of
      None \<Rightarrow> bindP (read_event (g_uart_fd g) (hci_send_cmd cmd g)) f = None
    | Some (ev, r) \<Rightarrow> \<exists>g'. bindP (read_event (g_uart_fd g) (hci_send_cmd cmd g)) f = Some (Inr (if ok ev then 0 else 1, g')) \<and>
        on_line p r (sends e cmd) g' \<and> \<not> g_armed g'"
proof -
  let ?g = "hci_send_cmd cmd g"
  note s = send_on_line [OF assms(1), of cmd]
  have a: "wakes ?g = []" "g_uart_fd ?g = g_uart_fd g" "\<not> g_armed ?g" using s assms(2) by (auto simp: wakes_def keeps_def settings_def)
  from read_event_on_line [of p i "sends e cmd" ?g] s a f show ?thesis
    by (fastforce simp: keeps_def settings_def pureP_def split: option.splits)
qed

lemma memcmp_ok: "length x = 7 \<Longrightarrow> take (length ev) m = ev \<Longrightarrow>
  (if int (length ev) = 7 then pureP (memcmp m x (nat (int (length ev)))) g else pureP 1 g) = pureP (if ev = x then 0 else 1) g"
  by (auto simp: memcmp_def)

text \<open>The commands of the test, each with the events that pass; \<open>again\<close> is what the alarm adds to the first.\<close>

definition hci_test :: "bytes \<Rightarrow> (bytes \<times> (bytes \<Rightarrow> bool)) list" where
  "hci_test again =
     [(hci_reset @ again, \<lambda>ev. ev = [4, 0x0e, 4, 1, 3, 0x0c, 0]),
      (hci_read_bd_addr, \<lambda>ev. length ev = 13 \<and> ev ! 6 = 0),
      (hci_set_event_filter, \<lambda>ev. ev = [4, 0x0e, 4, 1, 5, 0x0c, 0]),
      (hci_write_scan_enable, \<lambda>ev. ev = [4, 0x0e, 4, 1, 0x1a, 0x0c, 0]),
      (hci_enable_device_under_test_mode, \<lambda>ev. ev = [4, 0x0e, 4, 1, 3, 0x18, 0])]"

text \<open>The exit status and the bytes sent, from the events alone: the first command that is not passed ends it with
  its number. Without an event there is no end.\<close>

fun dialogue :: "(bytes \<times> (bytes \<Rightarrow> bool)) list \<Rightarrow> int \<Rightarrow> bytes \<Rightarrow> (int \<times> bytes) option" where
  "dialogue [] code i = Some (0, [])"
| "dialogue ((cmd, ok) # tests) code i =
     (case next_ev i of
        None \<Rightarrow> None
      | Some (ev, r) \<Rightarrow>
          if ok ev then map_option (\<lambda>(c, b). (c, cmd @ b)) (dialogue tests (code + 1) r) else Some (code, cmd))"

definition performs :: "string \<Rightarrow> bytes option \<Rightarrow> (int \<times> bytes) option \<Rightarrow> int outcome_of \<Rightarrow> bool" where
  "performs p e d m \<longleftrightarrow> (case d of
       None \<Rightarrow> m = None
     | Some (code, b) \<Rightarrow> \<exists>g' r. m = Some (Inr (code, g')) \<and> on_line p r (sends e b) g')"

lemma performs_step:
  fixes m :: "int outcome_of"
  assumes m: "case next_ev i of
      None \<Rightarrow> m = None
    | Some (ev, r) \<Rightarrow> \<exists>g'. m = Some (Inr (if ok ev then 0 else 1, g')) \<and> on_line p r (sends e cmd) g' \<and> \<not> g_armed g'"
    and k: "\<And>r g'. on_line p r (sends e cmd) g' \<Longrightarrow> \<not> g_armed g' \<Longrightarrow> performs p (sends e cmd) (dialogue tests (code + 1) r) (k g')"
  shows "performs p e (dialogue ((cmd, ok) # tests) code i) (bindP m (\<lambda>r g. if r \<noteq> 0 then pureP code g else k g))"
proof (cases "next_ev i")
  case None
  then show ?thesis using m by (simp add: performs_def)
next
  case (Some x)
  obtain ev r where x: "x = (ev, r)" by fastforce
  obtain g' where g': "m = Some (Inr (if ok ev then 0 else 1, g'))" "on_line p r (sends e cmd) g'" "\<not> g_armed g'"
    using m Some x by auto
  show ?thesis
  proof (cases "ok ev")
    case True
    then show ?thesis
      using k [OF g'(2,3)] Some x g'(1) by (cases "dialogue tests (code + 1) r") (auto simp: performs_def)
  next
    case False
    then show ?thesis using Some x g' by (auto simp: performs_def pureP_def)
  qed
qed

lemma success_length: "length success_hci_reset_recevied = 7"
  by (simp add: success_hci_reset_recevied_def)

lemma proc_reset_on_line:
  assumes "on_line p i e g" and "\<not> g_armed g"
  shows "case next_ev i of
      None \<Rightarrow> proc_reset g = None
    | Some (ev, r) \<Rightarrow> \<exists>g'. proc_reset g = Some (Inr (if ev = [4, 0x0e, 4, 1, 3, 0x0c, 0] then 0 else 1, g')) \<and>
        on_line p r (sends e (hci_reset @ concat (replicate (sum_list (take 2 (g_rings g))) hci_reset))) g' \<and> \<not> g_armed g'"
proof -
  let ?g = "(hci_send_cmd hci_reset g)\<lparr>g_armed := True\<rparr>"
  note s = send_on_line [OF assms(1), of hci_reset]
  have a: "wakes ?g = concat (replicate (sum_list (take 2 (g_rings g))) hci_reset)"
    "g_uart_fd (hci_send_cmd hci_reset g) = g_uart_fd g" using s by (auto simp: wakes_def keeps_def settings_def)
  have "on_line p i (sends e hci_reset) ?g" using s by simp
  note ev = read_event_on_line [OF this]
  show ?thesis
  proof (cases "next_ev i")
    case None
    then show ?thesis using ev a by (simp add: proc_reset_def)
  next
    case (Some x)
    obtain ev r where x: "x = (ev, r)" by fastforce
    obtain g' where g': "read_event (g_uart_fd g) ?g = Some (Inr (int (length ev), g'))"
      "on_line p r (sends (sends e hci_reset) (wakes ?g)) g'" "take (length ev) (g_buffer g') = ev"
      using ev Some x a(2) by auto
    have "proc_reset g = (if int (length ev) = 7
        then pureP (memcmp (g_buffer g') success_hci_reset_recevied (nat (int (length ev)))) (g'\<lparr>g_armed := False\<rparr>)
        else pureP 1 (g'\<lparr>g_armed := False\<rparr>))"
      using g'(1) a(2) by (simp add: proc_reset_def Let_def)
    also have "\<dots> = pureP (if ev = [4, 0x0e, 4, 1, 3, 0x0c, 0] then 0 else 1) (g'\<lparr>g_armed := False\<rparr>)"
      unfolding memcmp_ok [OF success_length g'(3)] by (simp add: success_hci_reset_recevied_def)
    finally have "proc_reset g = pureP (if ev = [4, 0x0e, 4, 1, 3, 0x0c, 0] then 0 else 1) (g'\<lparr>g_armed := False\<rparr>)" .
    then show ?thesis using Some x g'(2) a(1) by (auto simp: pureP_def)
  qed
qed

lemma procs_on_line:
  assumes "on_line p i e g" and "\<not> g_armed g"
  shows "case next_ev i of None \<Rightarrow> proc_read_bd_addr g = None
    | Some (ev, r) \<Rightarrow> \<exists>g'. proc_read_bd_addr g = Some (Inr (if length ev = 13 \<and> ev ! 6 = 0 then 0 else 1, g')) \<and>
        on_line p r (sends e hci_read_bd_addr) g' \<and> \<not> g_armed g'"
    and "case next_ev i of None \<Rightarrow> proc_set_event_filter g = None
    | Some (ev, r) \<Rightarrow> \<exists>g'. proc_set_event_filter g = Some (Inr (if ev = [4, 0x0e, 4, 1, 5, 0x0c, 0] then 0 else 1, g')) \<and>
        on_line p r (sends e hci_set_event_filter) g' \<and> \<not> g_armed g'"
    and "case next_ev i of None \<Rightarrow> proc_write_scan_enable g = None
    | Some (ev, r) \<Rightarrow> \<exists>g'. proc_write_scan_enable g = Some (Inr (if ev = [4, 0x0e, 4, 1, 0x1a, 0x0c, 0] then 0 else 1, g')) \<and>
        on_line p r (sends e hci_write_scan_enable) g' \<and> \<not> g_armed g'"
    and "case next_ev i of None \<Rightarrow> proc_enable_device_under_test_mode g = None
    | Some (ev, r) \<Rightarrow> \<exists>g'. proc_enable_device_under_test_mode g = Some (Inr (if ev = [4, 0x0e, 4, 1, 3, 0x18, 0] then 0 else 1, g')) \<and>
        on_line p r (sends e hci_enable_device_under_test_mode) g' \<and> \<not> g_armed g'"
proof -
  have u: "g_uart_fd (hci_send_cmd c g) = g_uart_fd g" for c by (simp add: hci_send_cmd_def)
  have bd: "take (length ev) m = ev \<Longrightarrow> (if int (length ev) = 13 then pureP (memcmp (drop 6 m) [0] 1) g' else pureP 1 g') =
      pureP (if length ev = 13 \<and> ev ! 6 = 0 then 0 else 1) g'" for ev m and g' :: bt
  proof (cases "length ev = 13")
    case True
    moreover assume "take (length ev) m = ev"
    ultimately have "ev ! 6 = m ! 6" "6 < length m" by (auto simp: nth_take [of 6 13 m, symmetric] dest: arg_cong [of _ _ length])
    then show ?thesis using True by (simp add: memcmp_def take_Suc hd_drop_conv_nth)
  qed simp
  show "case next_ev i of None \<Rightarrow> proc_read_bd_addr g = None
    | Some (ev, r) \<Rightarrow> \<exists>g'. proc_read_bd_addr g = Some (Inr (if length ev = 13 \<and> ev ! 6 = 0 then 0 else 1, g')) \<and>
        on_line p r (sends e hci_read_bd_addr) g' \<and> \<not> g_armed g'"
    unfolding proc_read_bd_addr_def Let_def u by (rule ask_on_line [OF assms]) (rule bd)
  show "case next_ev i of None \<Rightarrow> proc_set_event_filter g = None
    | Some (ev, r) \<Rightarrow> \<exists>g'. proc_set_event_filter g = Some (Inr (if ev = [4, 0x0e, 4, 1, 5, 0x0c, 0] then 0 else 1, g')) \<and>
        on_line p r (sends e hci_set_event_filter) g' \<and> \<not> g_armed g'"
    unfolding proc_set_event_filter_def success_hci_set_event_filter_recevied_def Let_def u
    by (rule ask_on_line [OF assms]) (rule memcmp_ok, simp)
  show "case next_ev i of None \<Rightarrow> proc_write_scan_enable g = None
    | Some (ev, r) \<Rightarrow> \<exists>g'. proc_write_scan_enable g = Some (Inr (if ev = [4, 0x0e, 4, 1, 0x1a, 0x0c, 0] then 0 else 1, g')) \<and>
        on_line p r (sends e hci_write_scan_enable) g' \<and> \<not> g_armed g'"
    unfolding proc_write_scan_enable_def success_hci_write_scan_enable_recevied_def Let_def u
    by (rule ask_on_line [OF assms]) (rule memcmp_ok, simp)
  show "case next_ev i of None \<Rightarrow> proc_enable_device_under_test_mode g = None
    | Some (ev, r) \<Rightarrow> \<exists>g'. proc_enable_device_under_test_mode g = Some (Inr (if ev = [4, 0x0e, 4, 1, 3, 0x18, 0] then 0 else 1, g')) \<and>
        on_line p r (sends e hci_enable_device_under_test_mode) g' \<and> \<not> g_armed g'"
    unfolding proc_enable_device_under_test_mode_def success_hci_enable_device_under_test_mode_recevied_def Let_def u
    by (rule ask_on_line [OF assms]) (rule memcmp_ok, simp)
qed

text \<open>What the set-up of the line does to it.\<close>

definition quiet :: "bt \<Rightarrow> bt \<Rightarrow> bool" where
  "quiet g g' \<longleftrightarrow> g_uart_fd g' = g_uart_fd g \<and> g_armed g' = g_armed g \<and> g_rings g' = g_rings g \<and> g_buffer g' = g_buffer g"

lemma next_nat_eq: "next_nat ns = (if ns = [] then 0 else hd ns, tl ns)"
  by (cases ns) simp_all

lemma tcflush_on_line:
  assumes "on_line p i e g"
  shows "on_line p (drop (fst (next_nat (g_stale g))) i) e (tcflush g) \<and> quiet g (tcflush g) \<and> g_stale (tcflush g) = tl (g_stale g)"
  using assms by (cases e) (auto simp: on_line_def tcflush_def discard_def quiet_def next_nat_eq Let_def)

lemma tc_on_line:
  "on_line p i e (tcsetattr g) = on_line p i e g" "on_line p i e (tcgetattr g) = on_line p i e g"
  "on_line p i e (g\<lparr>g_termios := t\<rparr>) = on_line p i e g"
  by (cases e; simp add: on_line_def tcsetattr_def tcgetattr_def)+

lemma sum_stale: "sum_list (take 4 ns) = fst (next_nat ns) + fst (next_nat (tl ns)) + fst (next_nat (tl (tl ns))) +
  fst (next_nat (tl (tl (tl ns))))"
  by (cases ns; cases "tl ns"; cases "tl (tl ns)"; cases "tl (tl (tl ns))") (auto simp: eval_nat_numeral)

lemma init_uart_on_line:
  assumes "on_line p i e g"
  shows "on_line p (drop (sum_list (take 4 (g_stale g))) i) e (init_uart g) \<and> quiet g (init_uart g)"
proof -
  define g1 where "g1 = tcflush g"
  define g2 where "g2 = (let g = tcgetattr g1; g = g\<lparr>g_termios := cfmakeraw (g_termios g)\<rparr>;
    g = g\<lparr>g_termios := (g_termios g)\<lparr>c_cflag := c_cflag (g_termios g) OR CRTSCTS\<rparr>\<rparr> in tcsetattr g)"
  define g3 where "g3 = tcflush g2"
  define g4 where "g4 = tcsetattr g3"
  define g5 where "g5 = tcflush g4"
  define g6 where "g6 = tcflush g5"
  note f1 = tcflush_on_line [OF assms, folded g1_def]
  have f2: "on_line p (drop (fst (next_nat (g_stale g))) i) e g2" "quiet g1 g2" "g_stale g2 = g_stale g1"
    using f1 by (simp_all add: g2_def Let_def tc_on_line) (simp_all add: quiet_def tcsetattr_def tcgetattr_def)
  note f3 = tcflush_on_line [OF f2(1), folded g3_def]
  have f4: "on_line p (drop (fst (next_nat (g_stale g2))) (drop (fst (next_nat (g_stale g))) i)) e g4" "quiet g3 g4" "g_stale g4 = g_stale g3"
    using f3 by (simp_all add: g4_def tc_on_line) (simp_all add: quiet_def tcsetattr_def)
  note f5 = tcflush_on_line [OF f4(1), folded g5_def]
  note f6 = tcflush_on_line [OF conjunct1 [OF f5], folded g6_def]
  have i: "init_uart g = tcsetattr (g6\<lparr>g_termios := cfsetspeed B115200 (g_termios g6)\<rparr>)"
    by (simp add: init_uart_def g1_def g2_def g3_def g4_def g5_def g6_def Let_def)
  have "on_line p (drop (sum_list (take 4 (g_stale g))) i) e g6"
    using f1 f2 f3 f4 f5 f6 by (simp add: sum_stale add.commute add.left_commute)
  moreover have "quiet g g6" using f1 f2 f3 f4 f5 f6 by (simp add: quiet_def)
  ultimately show ?thesis unfolding i tc_on_line by (simp add: quiet_def tcsetattr_def)
qed

text \<open>Parsing does not touch the line's buffer and the alarm.\<close>

definition parsed :: "bt \<Rightarrow> bt \<Rightarrow> bool" where
  "parsed g g' \<longleftrightarrow> g_armed g' = g_armed g \<and> g_buffer g' = g_buffer g \<and> g_rings g' = g_rings g \<and> g_stale g' = g_stale g"

definition known_opts :: "(bytes \<times> bt_opt) list \<Rightarrow> bool" where
  "known_opts opts \<longleftrightarrow> (\<forall>(junk, c) \<in> set opts. case c of Long i _ \<Rightarrow> i < length parse_table | _ \<Rightarrow> True)"

lemmas parse_defs = parse_patchram_def parse_baudrate_def parse_bdaddr_def parse_enable_lpm_def
  parse_enable_hci_def parse_use_baudrate_for_download_def parse_scopcm_def parse_i2s_def parse_no2bytes_def
  parse_tosleep_def

lemma parse_parsed: "f \<in> set parse_table \<Longrightarrow> f junk optarg g = Inr (r, g') \<Longrightarrow> parsed g g'"
  by (auto simp: parse_table_def parse_defs parsed_def Let_def split: option.splits if_splits prod.splits)

lemma opt_loop_parsed: "known_opts opts \<Longrightarrow> bt_opt_loop opts g = Inr (r, g') \<Longrightarrow> parsed g g'"
proof (induction opts g rule: bt_opt_loop.induct)
  case (2 junk c cs g)
  have cs: "known_opts cs" using 2(4) by (simp add: known_opts_def)
  show ?case
  proof (cases c)
    case (Long i optarg)
    then have "parse_table ! i \<in> set parse_table" using 2(4) by (simp add: known_opts_def)
    from parse_parsed [OF this] show ?thesis
      using 2(1) [OF Long] 2(5) cs Long by (fastforce simp: parsed_def split: sum.splits if_splits)
  qed (use 2(2,3,5) cs in \<open>simp_all add: parsed_def\<close>)
qed (simp add: parsed_def)

lemma start_parsed:
  assumes "known_opts opts" and "parse_cmd_line opts operands (read_default_bdaddr path junk g) = Inr (r, g')"
  shows "parsed g g'"
proof -
  have "parsed g (read_default_bdaddr path junk g)"
    by (auto simp: read_default_bdaddr_def parse_bdaddr_def parsed_def Let_def split: option.splits prod.splits)
  moreover have "parsed (read_default_bdaddr path junk g) g'"
    using assms(2) opt_loop_parsed [OF assms(1), of "read_default_bdaddr path junk g"]
    by (auto simp: parse_cmd_line_def parsed_def split: sum.splits if_splits list.splits prod.splits)
  ultimately show ?thesis by (simp add: parsed_def)
qed

lemma bt_test_performs:
  assumes "on_line p i e g" and "\<not> g_armed g"
  shows "performs p e (dialogue (hci_test (concat (replicate (sum_list (take 2 (g_rings g))) hci_reset))) 3 i) (bt_test g)"
proof -
  have nil: "performs p e' (dialogue [] c r) (pureP 0 g')" if "on_line p r e' g'" for r e' g' c
    using that by (auto simp: performs_def pureP_def)
  have n: "(3 :: int) + 1 = 4" "(4 :: int) + 1 = 5" "(5 :: int) + 1 = 6" "(6 :: int) + 1 = 7" by simp_all
  show ?thesis
    unfolding bt_test_def hci_test_def
    apply (rule performs_step [OF proc_reset_on_line [OF assms]], unfold n)
    apply (rule performs_step [OF procs_on_line(1)], assumption+, unfold n)
    apply (rule performs_step [OF procs_on_line(2)], assumption+, unfold n)
    apply (rule performs_step [OF procs_on_line(3)], assumption+, unfold n)
    apply (rule performs_step [OF procs_on_line(4)], assumption+)
    apply (erule nil)
    done
qed

text \<open>C13. The exit status and what is sent. For any options that are accepted, any way the line cuts the transfers
  and any number of times the alarm rings, the program compares the events that come after the queue was
  flushed with those it expects, command by command: it ends with 0 when all five pass, with 3 to 7 for the
  first that does not, and not at all when the events stop. When the writes are whole, it sent the commands up to
  that one, the reset once more for each time the alarm rang.\<close>

theorem bt_dialogue:
  assumes "parse_cmd_line opts operands (read_default_bdaddr path junk (bt_init s tty rings stale)) = Inr (0, g)"
    and "known_opts opts" and "0 \<le> g_uart_fd g"
    and "fs_fds (g_fs g) (g_uart_fd g) = Some (port, pos)" and "fs_nodes (g_fs g) port = Some (Dev i d)"
    and "Failed \<notin> set (fs_plan (g_fs g))"
  shows "case dialogue (hci_test (concat (replicate (sum_list (take 2 rings)) hci_reset))) 3 (drop (sum_list (take 4 stale)) i) of
      None \<Rightarrow> bt_main path junk opts operands (bt_init s tty rings stale) = None
    | Some (code, b) \<Rightarrow> \<exists>g' r. bt_main path junk opts operands (bt_init s tty rings stale) = Some (Inr (code, Some g')) \<and>
        (fs_plan (g_fs g) = [] \<longrightarrow> fs_nodes (g_fs g') port = Some (Dev r (d @ b)))"
proof -
  let ?i = "drop (sum_list (take 4 stale)) i"
  define e where "e = (if fs_plan (g_fs g) = [] then Some d else None)"
  have g: "g_armed g = False" "length (g_buffer g) = 1024" "g_rings g = rings" "g_stale g = stale"
    using start_parsed [OF assms(2,1)] by (auto simp: parsed_def bt_init_def)
  have "on_line port i e g" using assms(4-6) g by (auto simp: on_line_def e_def)
  then have u: "on_line port ?i e (init_uart g)" "quiet g (init_uart g)" using init_uart_on_line g(4) by auto
  then have t: "performs port e (dialogue (hci_test (concat (replicate (sum_list (take 2 rings)) hci_reset))) 3 ?i) (bt_test (init_uart g))"
    using bt_test_performs [OF u(1)] g by (simp add: quiet_def)
  have m: "bt_main path junk opts operands (bt_init s tty rings stale) = map_option (map_sum id (map_prod id Some)) (bt_test (init_uart g))"
    using assms(1,3) by (simp add: bt_main_def)
  show ?thesis using t by (auto simp: m performs_def on_line_def e_def split: option.splits)
qed

definition bt_fs :: "bytes \<Rightarrow> fs" where
  "bt_fs i = \<lparr>fs_nodes = [''/dev/ttyS1'' \<mapsto> Dev i []], fs_denied = (\<lambda>_. False), fs_fds = Map.empty, fs_next = 3,
     fs_plan = [], fs_driver = (\<lambda>_ v. Some v), fs_ctl = []\<rparr>"

theorem bt_dialogue_witness:
  "let answers = [4, 0x0e, 4, 1, 3, 0x0c, 0] @ [4, 0x0e, 10, 1, 9, 0x10, 0, 1, 2, 3, 4, 5, 6] @ [4, 0x0e, 4, 1, 5, 0x0c, 1];
       tty = \<lparr>c_iflag = 0, c_oflag = 0, c_cflag = 0, c_lflag = 0\<rparr>
   in \<exists>g' r. bt_main '''' [] [([], Debug), ([], Long 4 ''''), ([], Long 1 ''3000000'')] [''/dev/ttyS1'']
        (bt_init (bt_fs (7 # answers)) tty [2] [1]) = Some (Inr (5, Some g')) \<and>
      fs_nodes (g_fs g') ''/dev/ttyS1'' = Some (Dev r (hci_reset @ hci_reset @ hci_reset @ hci_read_bd_addr @ hci_set_event_filter))"
proof -
  let ?answers = "[4, 0x0e, 4, 1, 3, 0x0c, 0] @ [4, 0x0e, 10, 1, 9, 0x10, 0, 1, 2, 3, 4, 5, 6] @ [4, 0x0e, 4, 1, 5, 0x0c, 1] :: bytes"
  let ?tty = "\<lparr>c_iflag = 0, c_oflag = 0, c_cflag = 0, c_lflag = 0\<rparr>"
  let ?opts = "[([] :: bytes, Debug), ([], Long 4 ''''), ([], Long 1 ''3000000'')]"
  have a: "atoi ''3000000'' = 3000000" by code_simp
  have "map_of baud_rates 3000000 = Some 0x100d" by (simp add: baud_rates_def)
  then obtain g where g: "parse_cmd_line ?opts [''/dev/ttyS1''] (read_default_bdaddr '''' [] (bt_init (bt_fs (7 # ?answers)) ?tty [2] [1])) = Inr (0, g)"
    "g_uart_fd g = 3" "fs_fds (g_fs g) 3 = Some (''/dev/ttyS1'', 0)" "fs_nodes (g_fs g) ''/dev/ttyS1'' = Some (Dev (7 # ?answers) [])"
    "fs_plan (g_fs g) = []"
    by (simp add: parse_cmd_line_def read_default_bdaddr_def bt_init_def bt_fs_def parse_table_def parse_enable_hci_def
        parse_baudrate_def a validate_baudrate_def f_open_def eval_nat_numeral)
  have k: "known_opts ?opts" by (simp add: known_opts_def parse_table_def)
  have d: "dialogue (hci_test (hci_reset @ hci_reset)) 3 ?answers =
      Some (5, hci_reset @ hci_reset @ hci_reset @ hci_read_bd_addr @ hci_set_event_filter)"
    by code_simp
  have r: "concat (replicate (sum_list (take 2 [2])) hci_reset) = hci_reset @ hci_reset" by (simp add: eval_nat_numeral)
  show ?thesis
    using bt_dialogue [OF g(1) k, of "''/dev/ttyS1''" 0 "7 # ?answers" "[]"] g(2-5) d unfolding r by simp
qed

text \<open>One failed \<open>read\<close> is not an error for \<open>read_event\<close>: its -1 is added to the index, and what comes next is
  stored in front of the buffer.\<close>

theorem read_error_underrun:
  assumes "fs_fds (g_fs g) fd = Some (port, pos)" and "fs_nodes (g_fs g) port = Some (Dev (x # i) d)"
    and "fs_plan (g_fs g) = [Failed]" and "\<not> g_armed g"
  shows "read_event fd g = Some (Inl Fault)"
proof -
  have "read_at fd 0 3 g = Inr (-1, g\<lparr>g_fs := (g_fs g)\<lparr>fs_plan := []\<rparr>\<rparr>)"
    using assms by (simp add: read_at_def ring_def f_read_def next_outcome_def)
  moreover have "read_at fd (-1) 4 (g\<lparr>g_fs := (g_fs g)\<lparr>fs_plan := []\<rparr>\<rparr>) = Inl Fault"
    using assms by (simp add: read_at_def ring_def f_read_def next_outcome_def store_def)
  ultimately have "read_loop fd 0 3 g = Some (Inl Fault)"
    by (simp add: read_loop.simps)
  then show ?thesis by (simp add: read_event_def)
qed

theorem read_error_underrun_witness:
  "let s = (bt_fs [4, 0x0e, 0])\<lparr>fs_fds := [3 \<mapsto> (''/dev/ttyS1'', 0)], fs_plan := [Failed]\<rparr>;
       tty = \<lparr>c_iflag = 0, c_oflag = 0, c_cflag = 0, c_lflag = 0\<rparr>
   in read_event 3 (bt_init s tty [] []) = Some (Inl Fault)"
  using read_error_underrun [of "bt_init ((bt_fs [4, 0x0e, 0])\<lparr>fs_fds := [3 \<mapsto> (''/dev/ttyS1'', 0)], fs_plan := [Failed]\<rparr>)
      \<lparr>c_iflag = 0, c_oflag = 0, c_cflag = 0, c_lflag = 0\<rparr> [] []" 3 "''/dev/ttyS1''" 0 4 "[0x0e, 0]" "[]"]
  by (simp add: bt_init_def bt_fs_def)

text \<open>The line is set up raw, with eight bits, hardware flow control and 115200 baud, whatever it was before.\<close>

lemma flag_laws:
  fixes m :: u32
  shows "(x AND NOT m) AND m = 0" "((x AND NOT m) OR v) AND m = v AND m"
    "c AND m = 0 \<Longrightarrow> (((x OR c) AND NOT m) OR v) AND c = c"
proof -
  show "(x AND NOT m) AND m = 0" "((x AND NOT m) OR v) AND m = v AND m"
    by (rule bit_word_eqI; auto simp: bit_simps)+
  assume "c AND m = 0"
  then have "bit c n \<Longrightarrow> \<not> bit m n" for n by (metis bit_and_iff bit_0_eq bot_apply bot_bool_def)
  then show "(((x OR c) AND NOT m) OR v) AND c = c" by (intro bit_word_eqI) (auto simp: bit_simps)
qed

lemma init_uart_raw:
  "g_tty (init_uart g) = g_termios (init_uart g)"
  "c_iflag (g_tty (init_uart g)) AND raw_iflag = 0" "c_lflag (g_tty (init_uart g)) AND raw_lflag = 0"
  "c_cflag (g_tty (init_uart g)) AND CBAUD = B115200" "c_cflag (g_tty (init_uart g)) AND CRTSCTS = CRTSCTS"
proof -
  have t: "g_tty (init_uart g) = cfsetspeed B115200 ((cfmakeraw (g_tty g))\<lparr>c_cflag := c_cflag (cfmakeraw (g_tty g)) OR CRTSCTS\<rparr>)"
    by (simp add: init_uart_def tcflush_def tcgetattr_def tcsetattr_def Let_def split_def)
  have "B115200 AND CBAUD = B115200" "CRTSCTS AND CBAUD = 0" by (simp_all add: B115200_def CBAUD_def CRTSCTS_def)
  then show "c_cflag (g_tty (init_uart g)) AND CBAUD = B115200" "c_cflag (g_tty (init_uart g)) AND CRTSCTS = CRTSCTS"
    unfolding t by (simp_all add: cfsetspeed_def flag_laws)
  show "c_iflag (g_tty (init_uart g)) AND raw_iflag = 0" "c_lflag (g_tty (init_uart g)) AND raw_lflag = 0"
    unfolding t by (simp_all add: cfsetspeed_def cfmakeraw_def flag_laws)
qed (simp add: init_uart_def tcsetattr_def Let_def)

end
