(* ===== verification/Firmware.thy ===== *)
theory Firmware
  imports Bluetooth
begin

text \<open>
  \<^verbatim>\<open>test_bluetooth/test_bluetooth.c\<close>, the routines that \<open>main\<close> of the test no longer calls: the download of the
  controller's program from an HCD file, and the commands for the settings of the command line. The
  file and the line are those of \<open>Bluetooth\<close>.
\<close>

section \<open>The routines\<close>

text \<open>The records of the HCD file, until \<open>read\<close> returns 0; a failed \<open>read\<close> does not end it.\<close>

partial_function (option) patch_loop :: "bt \<Rightarrow> unit outcome_of" where
  "patch_loop g =
     (case read_at (g_hcdfile_fd g) 1 3 g of
        Inl e \<Rightarrow> Some (Inl e)
      | Inr (r, g) \<Rightarrow>
          if r \<noteq> 0 then
            (let g = g\<lparr>g_buffer := (g_buffer g)[0 := 0x01]\<rparr>;
                 len = uint (g_buffer g ! 3)
             in case read_at (g_hcdfile_fd g) 4 len g of
                  Inl e \<Rightarrow> Some (Inl e)
                | Inr (_, g) \<Rightarrow>
                    (let g = hci_send_cmd (take (nat len + 4) (g_buffer g)) g
                     in case read_event (g_uart_fd g) g of
                          None \<Rightarrow> None
                        | Some (Inl e) \<Rightarrow> Some (Inl e)
                        | Some (Inr (_, g)) \<Rightarrow> patch_loop g))
          else Some (Inr ((), g)))"

definition proc_patchram :: "bt \<Rightarrow> unit outcome_of" where
  "proc_patchram g =
     (let g = hci_send_cmd hci_download_minidriver g in
      bindP (read_event (g_uart_fd g) g) (\<lambda>_ g.
      bindP (if g_no2bytes g = 0 then Some (map_sum id (apfst (\<lambda>_. ())) (read_at (g_uart_fd g) 0 2 g)) else pureP () g) (\<lambda>_ g.
      bindP (patch_loop g) (\<lambda>_ g.
        let g = (if g_use_baudrate_for_download g \<noteq> 0
                 then tcsetattr (g\<lparr>g_termios := cfsetspeed B115200 (g_termios g)\<rparr>) else g)
        in bindP (proc_reset g) (\<lambda>_ g. pureP () g)))))"

definition proc_baudrate :: "bt \<Rightarrow> unit outcome_of" where
  "proc_baudrate g =
     (let g = hci_send_cmd (g_update_baud_rate g) g in
      bindP (read_event (g_uart_fd g) g) (\<lambda>_ g.
        pureP () (tcsetattr (g\<lparr>g_termios := cfsetspeed (g_termios_baudrate g) (g_termios g)\<rparr>))))"

definition proc_bdaddr :: "bt \<Rightarrow> unit outcome_of" where
  "proc_bdaddr g =
     (let g = hci_send_cmd (g_write_bd_addr g) g in bindP (read_event (g_uart_fd g) g) (\<lambda>_ g. pureP () g))"

definition proc_enable_lpm :: "bt \<Rightarrow> unit outcome_of" where
  "proc_enable_lpm g =
     (let g = hci_send_cmd hci_write_sleep_mode g in bindP (read_event (g_uart_fd g) g) (\<lambda>_ g. pureP () g))"

definition proc_scopcm :: "bt \<Rightarrow> unit outcome_of" where
  "proc_scopcm g =
     (let g = hci_send_cmd (g_write_sco_pcm_int g) g in
      bindP (read_event (g_uart_fd g) g) (\<lambda>_ g.
      let g = hci_send_cmd (g_write_pcm_data_format g) g in
      bindP (read_event (g_uart_fd g) g) (\<lambda>_ g. pureP () g)))"

definition proc_i2s :: "bt \<Rightarrow> unit outcome_of" where
  "proc_i2s g =
     (let g = hci_send_cmd (g_write_i2spcm_interface_param g) g in
      bindP (read_event (g_uart_fd g) g) (\<lambda>_ g. pureP () g))"

definition N_HCI :: int where "N_HCI = 15"
definition HCI_UART_H4 :: int where "HCI_UART_H4 = 0"

text \<open>The protocol is only chosen when the line discipline could be set.\<close>

definition proc_enable_hci :: "bt \<Rightarrow> bt" where
  "proc_enable_hci g =
     (let (r, s) = f_ioctl (g_uart_fd g) TIOCSETD N_HCI (g_fs g); g = g\<lparr>g_fs := s\<rparr>
      in if r = None then g
         else let (_, s) = f_ioctl (g_uart_fd g) HCIUARTSETPROTO HCI_UART_H4 (g_fs g) in g\<lparr>g_fs := s\<rparr>)"

section \<open>The file\<close>

text \<open>What is left of the HCD file.\<close>

definition hcd_left :: "bytes \<Rightarrow> bt \<Rightarrow> bool" where
  "hcd_left f g \<longleftrightarrow> (\<exists>path pos port pos' d. fs_fds (g_fs g) (g_hcdfile_fd g) = Some (path, pos) \<and>
     fs_nodes (g_fs g) path = Some (Reg d) \<and> drop pos d = f \<and>
     fs_fds (g_fs g) (g_uart_fd g) = Some (port, pos') \<and> path \<noteq> port) \<and> \<not> g_armed g"

lemma hcd_left_keeps: "hcd_left f g \<Longrightarrow> keeps g g' \<Longrightarrow> hcd_left f g'"
  by (fastforce simp: hcd_left_def keeps_def settings_def)

lemma read_hcd:
  assumes "hcd_left f g" and "on_line p i (Some d) g" and "0 \<le> q" and "0 \<le> len" and "q + len \<le> 1024"
  obtains g' where "read_at (g_hcdfile_fd g) q len g = Inr (int (min (nat len) (length f)), g')"
    "hcd_left (drop (nat len) f) g'" "on_line p i (Some d) g'" "settings g' = settings g"
    "g_buffer g' = memcpy_at (g_buffer g) (nat q) (take (nat len) f)"
proof -
  let ?fd = "g_hcdfile_fd g"
  obtain path pos port pos' c where h: "fs_fds (g_fs g) ?fd = Some (path, pos)" "fs_nodes (g_fs g) path = Some (Reg c)"
    "drop pos c = f" "fs_fds (g_fs g) (g_uart_fd g) = Some (port, pos')" "path \<noteq> port" "\<not> g_armed g"
    using assms(1) by (auto simp: hcd_left_def)
  have plan: "fs_plan (g_fs g) = []" using assms(2) by (simp add: on_line_def)
  have L: "length (g_buffer g) = 1024" using assms(2) by (rule on_line_length)
  let ?b = "take (nat len) f"
  let ?s = "(g_fs g)\<lparr>fs_fds := (fs_fds (g_fs g))(?fd \<mapsto> (path, pos + length ?b))\<rparr>"
  let ?g = "g\<lparr>g_fs := ?s, g_buffer := memcpy_at (g_buffer g) (nat q) ?b\<rparr>"
  have rd: "f_read ?fd (nat len) (g_fs g) = (Some ?b, ?s)"
    using h(1,2) plan by (simp add: f_read_def next_outcome_def h(3) [symmetric])
  have lb: "length ?b = min (nat len) (length f)" by simp
  have lm: "length (memcpy_at (g_buffer g) (nat q) ?b) = 1024"
    using L assms(3-5) by (intro trans [OF length_memcpy_at]) auto
  have st: "store (g_buffer g) q ?b = Inr (memcpy_at (g_buffer g) (nat q) ?b)"
    using L assms(3-5) by (intro store_memcpy) auto
  have "read_at ?fd q len g = Inr (int (min (nat len) (length f)), ?g)"
  proof (cases "?b = []")
    case True
    then have k: "min (nat len) (length f) = 0" using lb by (metis list.size(3))
    show ?thesis using rd h(6) unfolding True k by (simp add: read_at_def ring_def memcpy_at_def)
  next
    case False
    then show ?thesis using rd h(6) st lb by (simp add: read_at_def ring_def min.commute)
  qed
  moreover have "drop (pos + length ?b) c = drop (nat len) f"
    using h(3) by (auto simp: min_def add.commute)
  then have "hcd_left (drop (nat len) f) ?g" using h by (auto simp: hcd_left_def)
  moreover have "on_line p i (Some d) ?g"
    using assms(2) h plan lm by (auto simp: on_line_def)
  ultimately show thesis using that [of ?g] by (simp add: settings_def)
qed

section \<open>The download\<close>

text \<open>A record of the file: the command, and its parameters with their number in front.\<close>

fun hcd_record :: "u8 \<times> u8 \<times> bytes \<Rightarrow> bytes" where
  "hcd_record (lo, hi, ps) = lo # hi # of_nat (length ps) # ps"

fun skip_events :: "nat \<Rightarrow> bytes \<Rightarrow> bytes option" where
  "skip_events 0 i = Some i"
| "skip_events (Suc n) i = (case next_ev i of None \<Rightarrow> None | Some (_, r) \<Rightarrow> skip_events n r)"

lemma event_skipped:
  assumes "on_line p i e g" and "next_ev i = Some (ev, r)" and "\<not> g_armed g"
  obtains g' n where "read_event (g_uart_fd g) g = Some (Inr (n, g'))" "on_line p r e g'" "keeps g g'"
  using read_event_on_line [OF assms(1)] assms(2,3) by (auto simp: wakes_def)

lemma settings_fields:
  assumes "settings g' = settings g"
  shows "g_uart_fd g' = g_uart_fd g \<and> g_hcdfile_fd g' = g_hcdfile_fd g \<and> g_armed g' = g_armed g \<and>
    g_no2bytes g' = g_no2bytes g \<and> g_use_baudrate_for_download g' = g_use_baudrate_for_download g"
  using assms by (simp add: settings_def)

lemma patch_loop_sends:
  assumes "hcd_left (concat (map hcd_record recs)) g" and "on_line p i (Some d) g"
    and "\<forall>(lo, hi, ps) \<in> set recs. length ps < 256" and "skip_events (length recs) i = Some i'"
  shows "\<exists>g'. patch_loop g = Some (Inr ((), g')) \<and>
    on_line p i' (Some (d @ concat (map (\<lambda>r. 0x01 # hcd_record r) recs))) g' \<and> settings g' = settings g"
  using assms
proof (induction recs arbitrary: g i d)
  case Nil
  obtain g' where "read_at (g_hcdfile_fd g) 1 3 g = Inr (0, g')" "on_line p i (Some d) g'" "settings g' = settings g"
    using read_hcd [OF Nil(1,2), of 1 3] by auto
  then show ?case using Nil(4) by (subst patch_loop.simps) auto
next
  case (Cons r recs)
  obtain lo hi ps where r: "r = (lo, hi, ps)" by (cases r)
  define n :: u8 where "n = of_nat (length ps)"
  define f where "f = concat (map hcd_record recs)"
  have un: "nat (uint n) = length ps" "uint n = int (length ps)"
    using Cons.prems(3) r by (simp_all add: n_def unat_of_nat uint_nat take_bit_nat_eq_self)
  have f: "concat (map hcd_record (r # recs)) = lo # hi # n # ps @ f" by (simp add: r f_def n_def)
  obtain ev j where ev: "next_ev i = Some (ev, j)" "skip_events (length recs) j = Some i'"
    using Cons.prems(4) by (auto split: option.splits)
  have L: "length (g_buffer g) = 1024" using Cons.prems(2) by (rule on_line_length)
  obtain g1 where g1: "read_at (g_hcdfile_fd g) 1 3 g = Inr (3, g1)" "hcd_left (ps @ f) g1" "on_line p i (Some d) g1"
    "settings g1 = settings g" "g_buffer g1 = memcpy_at (g_buffer g) 1 [lo, hi, n]"
  proof -
    have "min (nat 3) (length (lo # hi # n # ps @ f)) = 3" "drop (nat 3) (lo # hi # n # ps @ f) = ps @ f"
      "take (nat 3) (lo # hi # n # ps @ f) = [lo, hi, n]" by simp_all
    then show thesis using read_hcd [OF Cons.prems(1,2) [unfolded f], of 1 3] that by fastforce
  qed
  define g2 where "g2 = g1\<lparr>g_buffer := (g_buffer g1)[0 := 0x01]\<rparr>"
  have b2: "g_buffer g2 = [0x01, lo, hi, n] @ drop 4 (g_buffer g)"
    using L g1(5) by (cases "g_buffer g") (simp_all add: g2_def memcpy_at_def eval_nat_numeral)
  have h2: "hcd_left (ps @ f) g2" "on_line p i (Some d) g2" "settings g2 = settings g1"
    using g1(2,3) b2 L on_line_length [OF g1(3)] by (auto simp: g2_def hcd_left_def settings_def)
  have n3: "g_buffer g2 ! 3 = n" using b2 by (simp add: eval_nat_numeral)
  have lim: "4 + uint n \<le> 1024" using un(2) Cons.prems(3) r by simp
  obtain g3 where g3: "read_at (g_hcdfile_fd g2) 4 (uint n) g2 = Inr (int (length ps), g3)" "hcd_left f g3" "on_line p i (Some d) g3"
    "settings g3 = settings g2" "g_buffer g3 = memcpy_at (g_buffer g2) 4 ps"
    using read_hcd [OF h2(1,2), of 4 "uint n"] lim un by auto
  have t: "take (nat (uint n) + 4) (g_buffer g3) = 0x01 # hcd_record r"
    unfolding un(1) using g3(5) b2 by (simp add: memcpy_at_def r n_def eval_nat_numeral)
  define g4 where "g4 = hci_send_cmd (0x01 # hcd_record r) g3"
  have g4: "on_line p i (Some (d @ 0x01 # hcd_record r)) g4" "keeps g3 g4" "hcd_left f g4"
    using send_on_line [OF g3(3), of "0x01 # hcd_record r"] hcd_left_keeps [OF g3(2)] by (auto simp: g4_def)
  have "\<not> g_armed g4" using g4(3) by (simp add: hcd_left_def)
  then obtain g5 m where g5: "read_event (g_uart_fd g4) g4 = Some (Inr (m, g5))" "on_line p j (Some (d @ 0x01 # hcd_record r)) g5" "keeps g4 g5"
    by (rule event_skipped [OF g4(1) ev(1)]) (assumption | rule that)+
  have "g_hcdfile_fd g1 = g_hcdfile_fd g2" "g_buffer g1 ! 3 = n" using n3 by (simp_all add: g2_def)
  then have "patch_loop g = patch_loop g5"
    using g1(1) n3 g3(1) t g5(1)
    by (subst patch_loop.simps) (simp add: Let_def g2_def [symmetric] g4_def [symmetric])
  moreover obtain g' where g': "patch_loop g5 = Some (Inr ((), g'))"
    "on_line p i' (Some ((d @ 0x01 # hcd_record r) @ concat (map (\<lambda>r. 0x01 # hcd_record r) recs))) g'" "settings g' = settings g5"
    using Cons.IH [OF _ g5(2) _ ev(2)] hcd_left_keeps [OF g4(3) g5(3)] Cons.prems(3) by (auto simp: f_def)
  moreover have "settings g5 = settings g"
    using g5(3) g4(2) g3(4) h2(3) g1(4) by (simp add: keeps_def)
  ultimately show ?case by simp
qed

text \<open>The two bytes that the chip sends on its own are read away when the options do not say that there are none.\<close>

lemma two_bytes_read:
  assumes "on_line p i (Some d) g" and "\<not> g_armed g"
  obtains g' where "(if g_no2bytes g = 0 then Some (map_sum id (apfst (\<lambda>_. ())) (read_at (g_uart_fd g) 0 2 g)) else pureP () g) =
      pureP () g'" "on_line p (if g_no2bytes g = 0 then drop 2 i else i) (Some d) g'" "keeps g g'"
proof (cases "g_no2bytes g = 0")
  case True
  obtain m g' where r: "read_at (g_uart_fd g) 0 2 g = Inr (int m, g')" "m \<le> length i"
    "on_line p (drop m i) (sends (Some d) (wake g)) g'" "keeps g g'" "Some d \<noteq> None \<longrightarrow> m = min (nat 2) (length i)"
    by (rule read_on_line [OF assms(1), of 0 2]) (simp, simp, simp, rule that)
  have "drop m i = drop 2 i" using r(5) by (auto simp: min_def)
  then show thesis using that [of g'] r True assms(2) by (simp add: wake_def pureP_def)
next
  case False
  then show thesis using that [of g] assms(1) by simp
qed

text \<open>C29. The download: the command that makes the controller take a program, then every record of the HCD file in its
  order, each behind the byte that marks a command, one event awaited after each; then the reset.\<close>

theorem patchram_sends:
  assumes "hcd_left (concat (map hcd_record recs)) g" and "on_line p i (Some d) g"
    and "\<forall>(lo, hi, ps) \<in> set recs. length ps < 256"
    and "next_ev i = Some (ev, i1)" and "skip_events (length recs) (if g_no2bytes g = 0 then drop 2 i1 else i1) = Some i2"
    and "next_ev i2 \<noteq> None"
  shows "\<exists>g' k r. proc_patchram g = Some (Inr ((), g')) \<and>
    fs_nodes (g_fs g') p = Some (Dev r (d @ hci_download_minidriver @ concat (map (\<lambda>r. 0x01 # hcd_record r) recs) @
      concat (replicate (Suc k) hci_reset)))"
proof -
  let ?g = "hci_send_cmd hci_download_minidriver g"
  let ?d = "d @ hci_download_minidriver"
  note s = send_on_line [OF assms(2), of hci_download_minidriver]
  have h: "hcd_left (concat (map hcd_record recs)) ?g" using hcd_left_keeps [OF assms(1)] s by blast
  then have na: "\<not> g_armed ?g" by (simp add: hcd_left_def)
  obtain g1 n where g1: "read_event (g_uart_fd ?g) ?g = Some (Inr (n, g1))" "on_line p i1 (Some ?d) g1" "keeps ?g g1"
    by (rule event_skipped [OF _ assms(4), of p "Some ?d" ?g]) (use s na in simp, rule na, rule that)
  have k1: "settings g1 = settings g" using g1(3) s by (simp add: keeps_def)
  obtain g2 where g2: "(if g_no2bytes g1 = 0 then Some (map_sum id (apfst (\<lambda>_. ())) (read_at (g_uart_fd g1) 0 2 g1)) else pureP () g1) =
      pureP () g2" "on_line p (if g_no2bytes g1 = 0 then drop 2 i1 else i1) (Some ?d) g2" "keeps g1 g2"
    by (rule two_bytes_read [OF g1(2)]) (use na g1(3) in \<open>simp add: keeps_def settings_def\<close>, rule that)
  then have l2: "on_line p (if g_no2bytes g = 0 then drop 2 i1 else i1) (Some ?d) g2" by (simp only: settings_fields [OF k1])
  have h2: "hcd_left (concat (map hcd_record recs)) g2" using hcd_left_keeps h g1(3) g2(3) by blast
  obtain g3 where g3: "patch_loop g2 = Some (Inr ((), g3))"
    "on_line p i2 (Some (?d @ concat (map (\<lambda>r. 0x01 # hcd_record r) recs))) g3" "settings g3 = settings g2"
    using patch_loop_sends [OF h2 l2 assms(3,5)] by auto
  define g4 where "g4 = (if g_use_baudrate_for_download g3 \<noteq> 0
    then tcsetattr (g3\<lparr>g_termios := cfsetspeed B115200 (g_termios g3)\<rparr>) else g3)"
  have g4: "on_line p i2 (Some (?d @ concat (map (\<lambda>r. 0x01 # hcd_record r) recs))) g4"
    using g3(2) by (simp add: g4_def tc_on_line)
  have "g_armed g4 = g_armed g2" using settings_fields [OF g3(3)] by (simp add: g4_def tcsetattr_def)
  then have a4: "\<not> g_armed g4" using h2 by (simp add: hcd_left_def)
  obtain x where "next_ev i2 = Some x" using assms(6) by auto
  then obtain n5 g5 r k where g5: "proc_reset g4 = Some (Inr (n5, g5))"
    "on_line p r (Some ((?d @ concat (map (\<lambda>r. 0x01 # hcd_record r) recs)) @ hci_reset @ concat (replicate k hci_reset))) g5"
    using proc_reset_on_line [OF g4 a4] by (cases x) auto
  have "proc_patchram g = Some (Inr ((), g5))"
    using g1(1) g2(1) g3(1) g5(1) by (simp add: proc_patchram_def Let_def g4_def pureP_def)
  then show ?thesis using g5(2) by (auto simp: on_line_def)
qed

definition fw_fs :: "bytes \<Rightarrow> bytes \<Rightarrow> fs" where
  "fw_fs f i = \<lparr>fs_nodes = [''/dev/ttyS1'' \<mapsto> Dev i [], ''/f.hcd'' \<mapsto> Reg f], fs_denied = (\<lambda>_. False),
     fs_fds = [3 \<mapsto> (''/f.hcd'', 0), 4 \<mapsto> (''/dev/ttyS1'', 0)], fs_next = 5, fs_plan = [], fs_driver = (\<lambda>_ v. Some v), fs_ctl = []\<rparr>"

theorem patchram_sends_witness:
  "let f = [0x4c, 0xfc, 2, 8, 9] @ [0x4e, 0xfc, 0]; ok = [4, 0x0e, 1, 0];
       g = (bt_init (fw_fs f (ok @ [0, 0] @ ok @ ok @ ok)) \<lparr>c_iflag = 0, c_oflag = 0, c_cflag = 0, c_lflag = 0\<rparr> [] [])
             \<lparr>g_hcdfile_fd := 3, g_uart_fd := 4\<rparr>
   in \<exists>g' k r. proc_patchram g = Some (Inr ((), g')) \<and>
     fs_nodes (g_fs g') ''/dev/ttyS1'' = Some (Dev r ([1, 0x2e, 0xfc, 0] @ [1, 0x4c, 0xfc, 2, 8, 9] @ [1, 0x4e, 0xfc, 0] @
       concat (replicate (Suc k) hci_reset)))"
proof -
  let ?ok = "[4, 0x0e, 1, 0] :: bytes"
  let ?recs = "[(0x4c, 0xfc, [8, 9]), (0x4e, 0xfc, [])]"
  let ?i = "?ok @ [0, 0] @ ?ok @ ?ok @ ?ok"
  let ?g = "(bt_init (fw_fs (concat (map hcd_record ?recs)) ?i) \<lparr>c_iflag = 0, c_oflag = 0, c_cflag = 0, c_lflag = 0\<rparr> [] [])
    \<lparr>g_hcdfile_fd := 3, g_uart_fd := 4\<rparr>"
  have h: "hcd_left (concat (map hcd_record ?recs)) ?g" "on_line ''/dev/ttyS1'' ?i (Some []) ?g" "g_no2bytes ?g = 0"
    by (simp_all add: hcd_left_def on_line_def bt_init_def fw_fs_def)
  have e: "next_ev ?i = Some (?ok, [0, 0] @ ?ok @ ?ok @ ?ok)" "skip_events 2 (drop 2 ([0, 0] @ ?ok @ ?ok @ ?ok)) = Some ?ok"
    "next_ev ?ok = Some (?ok, [])" by code_simp+
  show ?thesis
    using patchram_sends [OF h(1,2) _ e(1), of ?ok] e(2,3) h(3) by (simp add: hci_download_minidriver_def numeral_2_eq_2)
qed

section \<open>The address of the device\<close>

fun bdaddr_text :: "bytes \<Rightarrow> string" where
  "bdaddr_text [] = []"
| "bdaddr_text [b] = show_hex 2 (unat b)"
| "bdaddr_text (b # bs) = show_hex 2 (unat b) @ CHR '':'' # bdaddr_text bs"

lemma scan_2hex_show: "scan_2hex (show_hex 2 (unat (b :: u8)) @ r) = Some (uint b, r)"
proof -
  define ds where "ds = show_hex 2 (unat b)"
  have d: "\<And>c. c \<in> set ds \<Longrightarrow> digit_of c < 16" unfolding ds_def by (rule show_hex_digits)
  have l: "length ds = 2" by (simp add: ds_def)
  have "unat b < 256" using unsigned_less [of b, where ?'a = nat] by simp
  then have "int (unat b) = uint b" "unat b mod 256 = unat b" by simp_all
  then have v: "fst (scan_digits 16 ds 0) = uint b" unfolding ds_def scan_show_hex by simp
  have "\<not> is_space (hd ds)" using d [of "hd ds"] digit_char [of "hd ds"] l by (cases ds) auto
  then have "dropWhile is_space (ds @ r) = ds @ r" using l by (cases ds) auto
  moreover have "scan_int 16 (ds @ []) = Some (fst (scan_digits 16 ds 0), [])"
  proof (rule scan_int_digits)
    show "ds \<noteq> []" using l by auto
  qed (use d l in \<open>simp_all add: starts_digit_def\<close>)
  ultimately show ?thesis unfolding ds_def [symmetric] using l v by (simp add: scan_2hex_def Let_def)
qed

lemma scan_bdaddr: "scan_fields scan_2hex (CHR '':'') (length bs) (bdaddr_text bs) = map uint bs"
proof (induction bs rule: bdaddr_text.induct)
  case (2 b)
  then show ?case using scan_2hex_show [of b "[]"] by simp
next
  case (3 b c bs)
  then show ?case by (simp add: scan_2hex_show)
qed simp

lemma length_bdaddr_text: "bs \<noteq> [] \<Longrightarrow> length (bdaddr_text bs) = 3 * length bs - 1"
  by (induction bs rule: bdaddr_text.induct) auto

lemma bdaddr_text_plain: "NUL \<notin> set (bdaddr_text bs)"
  by (induction bs rule: bdaddr_text.induct) (auto simp: show_hex_plain, simp_all add: NUL_def)

text \<open>The address in the file that the property names, written the usual way with its last byte first, is the
  one in the command that would set it, its bytes turned round; nothing of the stack's contents is left in it.\<close>

theorem default_bdaddr_read:
  assumes "path \<noteq> ''''" and "fs_nodes (g_fs g) path = Some (Reg (bytes_of (bdaddr_text (rev addr)) @ rest))"
    and "\<not> fs_denied (g_fs g) path" and "fs_plan (g_fs g) = []" and "length addr = 6" and "g_write_bd_addr g = hci_write_bd_addr"
  shows "let g' = read_default_bdaddr path junk g in
    g_write_bd_addr g' = [0x01, 0x01, 0xfc, 0x06] @ addr \<and> g_bdaddr_flag g' = 1"
proof -
  let ?t = "bdaddr_text (rev addr)"
  have "rev addr \<noteq> []" using assms(5) by auto
  then have t: "length ?t = 17" using length_bdaddr_text [of "rev addr"] assms(5) by simp
  let ?n = "fs_next (g_fs g)"
  let ?s = "(g_fs g)\<lparr>fs_fds := (fs_fds (g_fs g))(int ?n \<mapsto> (path, 0)), fs_next := Suc ?n\<rparr>"
  have op: "f_open path O_RDONLY False (g_fs g) = (int ?n, ?s)" by (rule f_open_read [OF assms(2,3)])
  obtain s' where rd: "f_read (int ?n) 17 ?s = (Some (bytes_of ?t), s')"
    using assms(2,4) t by (simp add: f_read_def next_outcome_def)
  have cs: "takeWhile (\<lambda>c. c \<noteq> NUL) (?t @ [NUL]) = ?t"
    using bdaddr_text_plain by (subst takeWhile_append2) auto
  have vs: "scan_fields scan_2hex (CHR '':'') 6 ?t = map uint (rev addr)"
    using scan_bdaddr [of "rev addr"] assms(5) by simp
  have "memcpy_at hci_write_bd_addr 4 addr = [0x01, 0x01, 0xfc, 0x06] @ addr"
    using assms(5) by (simp add: memcpy_at_def hci_write_bd_addr_def)
  then show ?thesis
    using assms(1,5,6) op rd t cs vs
    by (simp add: read_default_bdaddr_def parse_bdaddr_def Let_def rev_map comp_def)
qed

theorem default_bdaddr_read_witness:
  "let s = (fw_fs [] [])\<lparr>fs_nodes := [''/bd'' \<mapsto> Reg (bytes_of ''43:29:b1:55:00:01'')]\<rparr>;
       tty = \<lparr>c_iflag = 0, c_oflag = 0, c_cflag = 0, c_lflag = 0\<rparr>
   in g_write_bd_addr (read_default_bdaddr ''/bd'' [7, 7, 7, 7, 7, 7] (bt_init s tty [] [])) =
        [0x01, 0x01, 0xfc, 0x06, 0x01, 0x00, 0x55, 0xb1, 0x29, 0x43]"
proof -
  let ?addr = "[0x01, 0x00, 0x55, 0xb1, 0x29, 0x43] :: bytes"
  have t: "bdaddr_text (rev ?addr) = ''43:29:b1:55:00:01''" by code_simp
  let ?s = "(fw_fs [] [])\<lparr>fs_nodes := [''/bd'' \<mapsto> Reg (bytes_of ''43:29:b1:55:00:01'')]\<rparr>"
  let ?g = "bt_init ?s \<lparr>c_iflag = 0, c_oflag = 0, c_cflag = 0, c_lflag = 0\<rparr> [] []"
  have g: "fs_nodes (g_fs ?g) ''/bd'' = Some (Reg (bytes_of (bdaddr_text (rev ?addr)) @ []))" "\<not> fs_denied (g_fs ?g) ''/bd''"
    "fs_plan (g_fs ?g) = []" "g_write_bd_addr ?g = hci_write_bd_addr"
    unfolding t by (simp_all add: bt_init_def fw_fs_def)
  show ?thesis using default_bdaddr_read [OF _ g(1-3) _ g(4), of "[7, 7, 7, 7, 7, 7]"] by (simp add: Let_def)
qed

end
