(* ===== verification/Lcd.thy ===== *)
theory Lcd
  imports Buffer "HOL-Library.Signed_Division"
begin

text \<open>
  \<^verbatim>\<open>test_lcd/test_lcd.c\<close>: paints the frame buffer and shows its two halves in turn. The memory that is mapped
  is an array of bytes; a store of a pixel outside it, or a division by zero, is \<open>Fault\<close>. What the
  system answers is a record; each request to show a half is logged with the memory at that time. The
  messages and \<open>usleep\<close> are left out.
\<close>

section \<open>State\<close>

record fb_var_screeninfo =
  vi_xres :: u32
  vi_yres :: u32
  vi_yres_virtual :: u32
  vi_yoffset :: u32
  vi_bits_per_pixel :: u32

record fb_fix_screeninfo =
  fi_smem_len :: u32
  fi_line_length :: u32

record ggl_surface =
  sf_width :: u32
  sf_height :: u32
  sf_stride :: u32
  sf_data :: int

text \<open>The globals; \<open>l_mem\<close> is the mapping, \<open>l_shown\<close> the requests so far.\<close>

record lcd =
  l_vi :: fb_var_screeninfo
  l_fi :: fb_fix_screeninfo
  l_framebuffer0 :: ggl_surface
  l_framebuffer1 :: ggl_surface
  l_active_fb :: nat
  l_fb_fd :: int
  l_vt_fd :: int
  l_buffercount :: int
  l_mem :: bytes
  l_shown :: "(u32 \<times> bytes) list"

definition lcd_init :: lcd where
  "lcd_init = \<lparr>l_vi = \<lparr>vi_xres = 0, vi_yres = 0, vi_yres_virtual = 0, vi_yoffset = 0, vi_bits_per_pixel = 0\<rparr>,
     l_fi = \<lparr>fi_smem_len = 0, fi_line_length = 0\<rparr>,
     l_framebuffer0 = \<lparr>sf_width = 0, sf_height = 0, sf_stride = 0, sf_data = 0\<rparr>,
     l_framebuffer1 = \<lparr>sf_width = 0, sf_height = 0, sf_stride = 0, sf_data = 0\<rparr>,
     l_active_fb = 0, l_fb_fd = -1, l_vt_fd = -1, l_buffercount = 0, l_mem = [], l_shown = []\<rparr>"

text \<open>What the system answers: whether there is a console, its descriptor and what \<open>KDSETMODE\<close> returns; the descriptor of
  the frame buffer; the two structures; the memory.\<close>

record lcd_sys =
  y_tty0 :: bool
  y_open_tty0 :: int
  y_kdsetmode :: int
  y_open_fb :: "string \<Rightarrow> int"
  y_fscreeninfo :: "fb_fix_screeninfo option"
  y_vscreeninfo :: "fb_var_screeninfo option"
  y_mmap :: "u32 \<Rightarrow> bytes option"

section \<open>The frame buffer\<close>

text \<open>\<open>line_length / (bits_per_pixel >> 3)\<close>.\<close>

definition stride_of :: "fb_fix_screeninfo \<Rightarrow> fb_var_screeninfo \<Rightarrow> stop + u32" where
  "stride_of fi vi =
     (let b = drop_bit 3 (vi_bits_per_pixel vi) in if b = 0 then Inl Fault else Inr (fi_line_length fi div b))"

definition get_framebuffer :: "lcd_sys \<Rightarrow> lcd \<Rightarrow> stop + (int \<times> lcd)" where
  "get_framebuffer y g =
     (let fd = y_open_fb y ''/dev/graphics/fb0''; fd = (if fd < 0 then y_open_fb y ''/dev/fb0'' else fd) in
      if fd < 0 then Inr (-1, g)
      else case y_fscreeninfo y of
        None \<Rightarrow> Inr (-1, g)
      | Some fi \<Rightarrow>
          let g = g\<lparr>l_fi := fi\<rparr> in
          (case y_vscreeninfo y of
             None \<Rightarrow> Inr (-1, g)
           | Some vi \<Rightarrow>
               let g = g\<lparr>l_vi := vi\<rparr> in
               (case y_mmap y (fi_smem_len fi) of
                  None \<Rightarrow> Inr (-1, g)
                | Some bits \<Rightarrow>
                    bindE (stride_of fi vi) (\<lambda>stride.
                      let fb = \<lparr>sf_width = vi_xres vi, sf_height = vi_yres vi, sf_stride = stride, sf_data = 0\<rparr>
                      in Inr (fd, g\<lparr>l_mem := bits, l_framebuffer0 := fb,
                           l_framebuffer1 := fb\<lparr>sf_data := uint (vi_yres vi * vi_xres vi * drop_bit 3 (vi_bits_per_pixel vi))\<rparr>\<rparr>)))))"

definition set_active_framebuffer :: "nat \<Rightarrow> lcd \<Rightarrow> lcd" where
  "set_active_framebuffer n g =
     (if n > 1 then g
      else
        let g = g\<lparr>l_vi := (l_vi g)\<lparr>vi_yres_virtual := vi_yres (l_vi g) * 2, vi_yoffset := of_nat n * vi_yres (l_vi g)\<rparr>\<rparr>
        in g\<lparr>l_shown := l_shown g @ [(vi_yoffset (l_vi g), l_mem g)]\<rparr>)"

definition gr_init :: "lcd_sys \<Rightarrow> lcd \<Rightarrow> stop + (int \<times> lcd)" where
  "gr_init y g =
     (let fd = (if y_tty0 y then y_open_tty0 y else -1) in
      if y_tty0 y \<and> fd < 0 then Inr (-1, g)
      else if y_tty0 y \<and> y_kdsetmode y \<noteq> 0 then Inr (-1, g)
      else
        bindE (get_framebuffer y g) (\<lambda>(r, g).
        let g = g\<lparr>l_fb_fd := r\<rparr> in
        if r < 0 then Inr (-1, g)
        else
          let g = g\<lparr>l_vt_fd := fd\<rparr>; g = g\<lparr>l_active_fb := 0\<rparr>
          in Inr (0, set_active_framebuffer 0 g)))"

definition gr_exit :: "lcd \<Rightarrow> lcd" where
  "gr_exit g =
     (let g = g\<lparr>l_fb_fd := -1\<rparr> in if l_vt_fd g \<ge> 0 then g\<lparr>l_vt_fd := -1\<rparr> else g)"

definition gr_fb_width :: "lcd \<Rightarrow> u32" where
  "gr_fb_width g = sf_width (l_framebuffer0 g)"

definition gr_fb_height :: "lcd \<Rightarrow> u32" where
  "gr_fb_height g = sf_height (l_framebuffer0 g)"

section \<open>Painting\<close>

definition red :: u32 where "red = 0xff0000"
definition green :: u32 where "green = 0x00ff00"
definition blue :: u32 where "blue = 0x0000ff"
definition black :: u32 where "black = 0x0"
definition white :: u32 where "white = 0xffffff"

text \<open>The inner loop from \<open>i\<close> on: the pixels at \<open>loc[i + k]\<close>.\<close>

function paint_row :: "int \<Rightarrow> int \<Rightarrow> int \<Rightarrow> int \<Rightarrow> u32 \<Rightarrow> bytes \<Rightarrow> stop + bytes" where
  "paint_row i w loc k color m =
     (if i < w then bindE (store m (loc + 4 * (i + k)) (bytes32 color)) (paint_row (i + 1) w loc k color)
      else Inr m)"
  by pat_completeness auto
termination by (relation "measure (\<lambda>(i, w, _). nat (w - i))") auto

text \<open>The outer loop from \<open>j\<close> on: row \<open>j\<close> begins \<open>j * stride\<close> behind \<open>loc\<close>.\<close>

function paint_rows :: "int \<Rightarrow> int \<Rightarrow> int \<Rightarrow> int \<Rightarrow> int \<Rightarrow> u32 \<Rightarrow> bytes \<Rightarrow> stop + bytes" where
  "paint_rows j h w loc stride color m =
     (if j < h then bindE (paint_row 0 w loc (j * stride) color m) (paint_rows (j + 1) h w loc stride color)
      else Inr m)"
  by pat_completeness auto
termination by (relation "measure (\<lambda>(j, h, _). nat (h - j))") auto

text \<open>\<open>clear_screen\<close> computes the stride, too, and packs the rows.\<close>

definition clear_screen :: "int \<Rightarrow> int \<Rightarrow> int \<Rightarrow> lcd \<Rightarrow> stop + lcd" where
  "clear_screen w h loc g =
     bindE (stride_of (l_fi g) (l_vi g)) (\<lambda>stride.
     bindE (paint_rows 0 h w loc w 0 (l_mem g)) (\<lambda>m. Inr (g\<lparr>l_mem := m\<rparr>)))"

definition framebuffer_set_color :: "int \<Rightarrow> int \<Rightarrow> int \<Rightarrow> u32 \<Rightarrow> lcd \<Rightarrow> stop + lcd" where
  "framebuffer_set_color w h loc color g =
     bindE (stride_of (l_fi g) (l_vi g)) (\<lambda>stride.
     bindE (paint_rows 0 h w loc (sint stride) color (l_mem g)) (\<lambda>m. Inr (g\<lparr>l_mem := m\<rparr>)))"

definition fb_data :: "int \<Rightarrow> lcd \<Rightarrow> int" where
  "fb_data bn g = sf_data (if bn = 0 then l_framebuffer0 g else l_framebuffer1 g)"

definition next_buffer :: "lcd \<Rightarrow> int \<times> lcd" where
  "next_buffer g = (let g = g\<lparr>l_buffercount := l_buffercount g + 1\<rparr> in (l_buffercount g mod 2, g))"

section \<open>The pictures\<close>

fun show_colors :: "int \<Rightarrow> int \<Rightarrow> u32 list \<Rightarrow> lcd \<Rightarrow> stop + lcd" where
  "show_colors w h [] g = Inr g"
| "show_colors w h (c # cs) g =
     (let (bn, g) = next_buffer g in
      bindE (framebuffer_set_color w h (fb_data bn g) c g) (\<lambda>g.
      show_colors w h cs (set_active_framebuffer (nat bn) g)))"

definition set_full_screen :: "lcd \<Rightarrow> stop + lcd" where
  "set_full_screen g =
     (let w = sint (vi_xres (l_vi g)); h = sint (vi_yres (l_vi g)) in
      bindE (clear_screen w h (fb_data 1 g) g) (show_colors w h [red, green, blue, black, white]))"

definition set_three_color :: "lcd \<Rightarrow> stop + lcd" where
  "set_three_color g =
     (let w = sint (vi_xres (l_vi g)); h = sint (vi_yres (l_vi g)); (bn, g) = next_buffer g in
      bindE (framebuffer_set_color w (h sdiv 3) (fb_data bn g) red g) (\<lambda>g.
      bindE (framebuffer_set_color w (h sdiv 3) (fb_data bn g + 4 * ((h sdiv 3) * w)) green g) (\<lambda>g.
      bindE (framebuffer_set_color w (h sdiv 3) (fb_data bn g + 4 * ((2 * h sdiv 3) * w)) blue g) (\<lambda>g.
      Inr (set_active_framebuffer (nat bn) g)))))"

text \<open>\<open>loc\<close> is computed with unsigned numbers.\<close>

definition rectangle :: "int \<Rightarrow> int \<Rightarrow> int \<Rightarrow> int \<Rightarrow> u32 \<Rightarrow> int \<Rightarrow> lcd \<Rightarrow> stop + lcd" where
  "rectangle x y w h color bn g =
     framebuffer_set_color w h (fb_data bn g + 4 * uint (vi_xres (l_vi g) * word_of_int y + word_of_int x)) color g"

text \<open>A row of rectangles of two colours in turn, from \<open>i\<close> on.\<close>

function rect_row :: "int \<Rightarrow> int \<Rightarrow> int \<Rightarrow> int \<Rightarrow> int \<Rightarrow> u32 \<Rightarrow> u32 \<Rightarrow> int \<Rightarrow> lcd \<Rightarrow> stop + lcd" where
  "rect_row i n j rec_w rec_h c d bn g =
     (if i < n then
        bindE (rectangle (i * rec_w) (j * rec_h) rec_w rec_h c bn g) (\<lambda>g.
        bindE (rectangle ((i + 1) * rec_w) (j * rec_h) rec_w rec_h d bn g)
          (rect_row (i + 2) n j rec_w rec_h c d bn))
      else Inr g)"
  by pat_completeness auto
termination by (relation "measure (\<lambda>(i, n, _). nat (n - i))") auto

function rect_rows :: "int \<Rightarrow> int \<Rightarrow> int \<Rightarrow> int \<Rightarrow> int \<Rightarrow> int \<Rightarrow> int \<Rightarrow> lcd \<Rightarrow> stop + lcd" where
  "rect_rows j y k l rec_w rec_h bn g =
     (if j < y then
        bindE (rect_row 0 l j rec_w rec_h white black bn g) (\<lambda>g.
        bindE (rect_row 0 k (j + 1) rec_w rec_h black white bn g)
          (rect_rows (j + 2) y k l rec_w rec_h bn))
      else Inr g)"
  by pat_completeness auto
termination by (relation "measure (\<lambda>(j, y, _). nat (y - j))") auto

definition set_rectangle :: "int \<Rightarrow> int \<Rightarrow> lcd \<Rightarrow> stop + lcd" where
  "set_rectangle x y g =
     (let k = x; l = y; w = sint (vi_xres (l_vi g)); h = sint (vi_yres (l_vi g)) in
      if k = 0 \<or> l = 0 then Inl Fault
      else
        let rec_w = w sdiv k; rec_h = h sdiv l in
        bindE (clear_screen w h (fb_data 0 g) g) (\<lambda>g.
        bindE (clear_screen w h (fb_data 1 g) g) (\<lambda>g.
        let (bn, g) = next_buffer g in
        bindE (rect_rows 0 y k l rec_w rec_h bn g) (\<lambda>g.
        Inr (set_active_framebuffer (nat bn) g)))))"

text \<open>The turns of the bar, which is \<open>red\<close> whatever \<open>fill_color\<close> is; nothing calls \<open>progress_bar\<close>.\<close>

function bar_loop :: "int \<Rightarrow> int \<Rightarrow> int \<Rightarrow> int \<Rightarrow> int \<Rightarrow> int \<Rightarrow> lcd \<Rightarrow> stop + lcd" where
  "bar_loop count n bar_x bar_y bar_w bar_h g =
     (if count < n then
        let bn = l_buffercount g mod 2 in
        bindE (rectangle bar_x bar_y bar_w bar_h red bn g) (\<lambda>g.
        let g = set_active_framebuffer (nat bn) g
        in bar_loop (count + 1) n bar_x bar_y (bar_w + 1) bar_h (g\<lparr>l_buffercount := l_buffercount g + 1\<rparr>))
      else Inr g)"
  by pat_completeness auto
termination by (relation "measure (\<lambda>(count, n, _). nat (n - count))") auto

definition progress_bar :: "int \<Rightarrow> int \<Rightarrow> int \<Rightarrow> int \<Rightarrow> u32 \<Rightarrow> u32 \<Rightarrow> lcd \<Rightarrow> stop + lcd" where
  "progress_bar x y w h frame_color fill_color g =
     bindE (clear_screen w h (fb_data 0 g) g) (\<lambda>g.
     bindE (clear_screen w h (fb_data 1 g) g) (\<lambda>g.
     let bn = l_buffercount g mod 2 in
     bindE (rectangle x y w 1 frame_color bn g) (\<lambda>g.
     bindE (rectangle x (y + h - 1) w 1 frame_color bn g) (\<lambda>g.
     bindE (rectangle x y 1 h frame_color bn g) (\<lambda>g.
     bindE (rectangle (x + w - 1) y 1 h frame_color bn g) (\<lambda>g.
     let g = set_active_framebuffer (nat bn) g; g = g\<lparr>l_buffercount := l_buffercount g + 1\<rparr> in
     bindE (bar_loop 0 (w - 2) (x + 1) (y + 1) 1 (h - 2) g) (\<lambda>g.
     bindE (clear_screen w h (fb_data 0 g) g) (\<lambda>g.
     clear_screen w h (fb_data 1 g) g))))))))"

text \<open>\<open>main\<close> does not look at what \<open>gr_init\<close> returns.\<close>

definition lcd_main :: "lcd_sys \<Rightarrow> stop + lcd" where
  "lcd_main y =
     bindE (gr_init y lcd_init) (\<lambda>(_, g).
     let g = set_active_framebuffer 0 g in
     bindE (set_full_screen g) (\<lambda>g.
     bindE (set_three_color g) (set_rectangle 20 20)))"

section \<open>Pixels\<close>

declare paint_row.simps [simp del] paint_rows.simps [simp del] rect_row.simps [simp del] rect_rows.simps [simp del]
  bar_loop.simps [simp del]

definition wd :: "bytes \<Rightarrow> int \<Rightarrow> u32" where
  "wd m n = get32 m (4 * nat n)"

lemma get32_memcpy_at:
  assumes "p + 4 \<le> length m" and "q + 4 \<le> length m" and "4 dvd p" and "4 dvd q"
  shows "get32 (memcpy_at m p (bytes32 c)) q = (if q = p then c else get32 m q)"
proof -
  have l: "length (bytes32 c) = 4" by (simp add: bytes32_def)
  show ?thesis
  proof (cases "q = p")
    case True
    have "get32 (bytes32 c) 0 = c" using c32.dec_enc [of c] by simp
    then show ?thesis using True assms(1) l by (simp add: get32_def memcpy_at_def nth_append numeral_2_eq_2)
  next
    case False
    then have "q + 4 \<le> p \<or> p + 4 \<le> q" using assms(3,4) by (auto simp: dvd_def)
    then show ?thesis using False assms(1,2) l by (auto simp: get32_def memcpy_at_def nth_append add.commute)
  qed
qed

lemma store_wd:
  assumes "0 \<le> n" and "4 * n + 4 \<le> int (length m)"
  obtains m' where "store m (4 * n) (bytes32 c) = Inr m'" "length m' = length m"
    "\<And>k. 0 \<le> k \<Longrightarrow> 4 * k + 4 \<le> int (length m) \<Longrightarrow> wd m' k = (if k = n then c else wd m k)"
proof -
  have l: "length (bytes32 c) = 4" by (simp add: bytes32_def)
  have b: "4 * nat n + 4 \<le> length m" using assms by linarith
  have n4: "nat (4 * n) = 4 * nat n" using assms(1) by simp
  show thesis
  proof (rule that [of "memcpy_at m (4 * nat n) (bytes32 c)"])
    show "store m (4 * n) (bytes32 c) = Inr (memcpy_at m (4 * nat n) (bytes32 c))"
      using assms l n4 by (simp add: store_def)
    show "length (memcpy_at m (4 * nat n) (bytes32 c)) = length m" using b l by simp
    show "wd (memcpy_at m (4 * nat n) (bytes32 c)) k = (if k = n then c else wd m k)"
      if "0 \<le> k" "4 * k + 4 \<le> int (length m)" for k
    proof -
      have "4 * nat k + 4 \<le> length m" using that by linarith
      then show ?thesis
        using get32_memcpy_at [OF b, of "4 * nat k" c] assms(1) that(1) by (auto simp: wd_def)
    qed
  qed
qed

lemma paint_row_wd:
  assumes "0 \<le> b + k + i" and "i \<le> w" and "4 * (b + k + w) \<le> int (length m)"
  shows "\<exists>m'. paint_row i w (4 * b) k c m = Inr m' \<and> length m' = length m \<and>
    (\<forall>n. 0 \<le> n \<and> 4 * n + 4 \<le> int (length m) \<longrightarrow>
      wd m' n = (if b + k + i \<le> n \<and> n < b + k + w then c else wd m n))"
  using assms
proof (induction "nat (w - i)" arbitrary: i m)
  case 0
  then show ?case by (subst paint_row.simps) auto
next
  case (Suc d)
  then have i: "i < w" by simp
  have e: "4 * b + 4 * (i + k) = 4 * (b + k + i)" by simp
  obtain m1 where m1: "store m (4 * (b + k + i)) (bytes32 c) = Inr m1" "length m1 = length m"
    "\<And>n. 0 \<le> n \<Longrightarrow> 4 * n + 4 \<le> int (length m) \<Longrightarrow> wd m1 n = (if n = b + k + i then c else wd m n)"
    using store_wd [of "b + k + i" m c] Suc.prems i by auto
  obtain m' where m': "paint_row (i + 1) w (4 * b) k c m1 = Inr m'" "length m' = length m1"
    "\<forall>n. 0 \<le> n \<and> 4 * n + 4 \<le> int (length m1) \<longrightarrow>
      wd m' n = (if b + k + (i + 1) \<le> n \<and> n < b + k + w then c else wd m1 n)"
  proof -
    have "d = nat (w - (i + 1))" using Suc.hyps(2) by simp
    then show thesis using Suc.hyps(1) [of "i + 1" m1] Suc.prems i m1(2) that by auto
  qed
  have "paint_row i w (4 * b) k c m = Inr m'"
    using m1(1) m'(1) i by (subst paint_row.simps) (simp only: e if_True bindE_simps)
  then show ?case using m1(2,3) m'(2,3) i by auto
qed

lemma paint_rows_wd:
  assumes "0 \<le> b" and "0 \<le> j" and "0 \<le> w" and "0 \<le> stride"
    and "j < h \<Longrightarrow> 4 * (b + (h - 1) * stride + w) \<le> int (length m)"
  shows "\<exists>m'. paint_rows j h w (4 * b) stride c m = Inr m' \<and> length m' = length m \<and>
    (\<forall>n. 0 \<le> n \<and> 4 * n + 4 \<le> int (length m) \<longrightarrow>
      wd m' n = (if \<exists>r. j \<le> r \<and> r < h \<and> b + r * stride \<le> n \<and> n < b + r * stride + w then c else wd m n))"
  using assms
proof (induction "nat (h - j)" arbitrary: j m)
  case 0
  then show ?case by (subst paint_rows.simps) auto
next
  case (Suc d)
  then have j: "j < h" by simp
  have js: "j * stride \<le> (h - 1) * stride" "0 \<le> j * stride" using j Suc.prems(2,4) by (simp_all add: mult_right_mono)
  obtain m1 where m1: "paint_row 0 w (4 * b) (j * stride) c m = Inr m1" "length m1 = length m"
    "\<forall>n. 0 \<le> n \<and> 4 * n + 4 \<le> int (length m) \<longrightarrow>
      wd m1 n = (if b + j * stride + 0 \<le> n \<and> n < b + j * stride + w then c else wd m n)"
    using paint_row_wd [of b "j * stride" 0 w m c] Suc.prems j js by auto
  obtain m' where m': "paint_rows (j + 1) h w (4 * b) stride c m1 = Inr m'" "length m' = length m1"
    "\<forall>n. 0 \<le> n \<and> 4 * n + 4 \<le> int (length m1) \<longrightarrow>
      wd m' n = (if \<exists>r. j + 1 \<le> r \<and> r < h \<and> b + r * stride \<le> n \<and> n < b + r * stride + w then c else wd m1 n)"
  proof -
    have "d = nat (h - (j + 1))" using Suc.hyps(2) by simp
    then show thesis using Suc.hyps(1) [of "j + 1" m1] Suc.prems j m1(2) that by auto
  qed
  have "(\<exists>r. j \<le> r \<and> r < h \<and> Q r) \<longleftrightarrow> Q j \<or> (\<exists>r. j + 1 \<le> r \<and> r < h \<and> Q r)" for Q
    using j by (metis add1_zle_eq order_le_less zle_add1_eq_le order_refl)
  then have "wd m' n = (if \<exists>r. j \<le> r \<and> r < h \<and> b + r * stride \<le> n \<and> n < b + r * stride + w then c else wd m n)"
    if "0 \<le> n" "4 * n + 4 \<le> int (length m)" for n
    using m1(2,3) m'(3) that by auto
  moreover have "paint_rows j h w (4 * b) stride c m = Inr m'"
    using m1(1) m'(1) j by (subst paint_rows.simps) (simp only: if_True bindE_simps)
  ultimately show ?case using m1(2) m'(2) by auto
qed

section \<open>A screen with 32 bits per pixel\<close>

text \<open>\<open>W\<close> times \<open>H\<close> pixels, rows without gaps, and room for both halves.\<close>

definition screen :: "int \<Rightarrow> int \<Rightarrow> lcd \<Rightarrow> bool" where
  "screen W H g \<longleftrightarrow> 0 < W \<and> 0 < H \<and> W * H < 2 ^ 27 \<and> uint (vi_xres (l_vi g)) = W \<and> uint (vi_yres (l_vi g)) = H \<and>
     vi_bits_per_pixel (l_vi g) = 32 \<and> uint (fi_line_length (l_fi g)) = 4 * W \<and>
     sf_data (l_framebuffer0 g) = 0 \<and> sf_data (l_framebuffer1 g) = 4 * (W * H) \<and> 8 * (W * H) \<le> int (length (l_mem g))"

text \<open>The pixel in column \<open>px\<close> and row \<open>py\<close> of the half \<open>bn\<close>.\<close>

definition pix :: "int \<Rightarrow> int \<Rightarrow> bytes \<Rightarrow> int \<Rightarrow> int \<Rightarrow> int \<Rightarrow> u32" where
  "pix W H m bn px py = wd m (bn * (W * H) + (py * W + px))"

lemma factor_less:
  fixes a b :: int
  assumes "0 < a" and "0 < b" and "a * b < n"
  shows "a < n" "b < n"
proof -
  have "a * 1 \<le> a * b" "1 * b \<le> a * b" using assms(1,2) by (intro mult_left_mono mult_right_mono; simp)+
  then show "a < n" "b < n" using assms(3) by simp_all
qed

lemma screen_sides: "screen W H g \<Longrightarrow> W < 2 ^ 27 \<and> H < 2 ^ 27"
  by (simp only: screen_def) (blast intro: factor_less)

lemma sint_small: "uint (v :: u32) = n \<Longrightarrow> n < 2 ^ 31 \<Longrightarrow> sint v = n"
proof -
  assume n: "uint v = n" "n < 2 ^ 31"
  have "0 \<le> uint v" by simp
  then have "- (2 ^ 31) \<le> uint v" by (rule order_trans [rotated]) simp
  then show "sint v = n" using signed_take_bit_int_eq_self [of 31 "uint v"] n by (simp add: sint_uint)
qed

lemma screen_stride: "screen W H g \<Longrightarrow> \<exists>stride. stride_of (l_fi g) (l_vi g) = Inr stride \<and> sint stride = W"
proof -
  assume s: "screen W H g"
  let ?v = "fi_line_length (l_fi g) div 4"
  have "uint ?v = W" using s by (simp add: uint_div screen_def)
  then have "sint ?v = W" using sint_small screen_sides [OF s] by simp
  moreover have "stride_of (l_fi g) (l_vi g) = Inr ?v" using s by (simp add: stride_of_def screen_def)
  ultimately show ?thesis by blast
qed

lemma screen_size: "screen W H g \<Longrightarrow> sint (vi_xres (l_vi g)) = W \<and> sint (vi_yres (l_vi g)) = H"
  using screen_sides [of W H g] by (auto simp: screen_def intro!: sint_small)

lemma screen_mem: "screen W H g \<Longrightarrow> length m = length (l_mem g) \<Longrightarrow> screen W H (g\<lparr>l_mem := m\<rparr>)"
  by (simp add: screen_def)

lemma screen_data: "screen W H g \<Longrightarrow> bn \<in> {0, 1} \<Longrightarrow> fb_data bn g = 4 * (bn * (W * H))"
  by (auto simp: screen_def fb_data_def)

text \<open>A pixel lies in a rectangle of memory exactly when it lies in the rectangle on the screen.\<close>

lemma rect_rows_iff:
  fixes W :: int
  assumes "0 \<le> x" and "x + w \<le> W" and "0 \<le> px" and "px < W"
  shows "(\<exists>r. 0 \<le> r \<and> r < h \<and> y * W + x + r * W \<le> py * W + px \<and> py * W + px < y * W + x + r * W + w) \<longleftrightarrow>
    x \<le> px \<and> px < x + w \<and> y \<le> py \<and> py < y + h"
proof
  assume "\<exists>r. 0 \<le> r \<and> r < h \<and> y * W + x + r * W \<le> py * W + px \<and> py * W + px < y * W + x + r * W + w"
  then obtain r where r: "0 \<le> r" "r < h" "(y + r) * W + x \<le> py * W + px" "py * W + px < (y + r) * W + x + w"
    by (auto simp: algebra_simps)
  have "py = y + r"
  proof (rule ccontr)
    assume "py \<noteq> y + r"
    then consider "py \<le> y + r - 1" | "y + r + 1 \<le> py" by linarith
    then show False
    proof cases
      case 1
      then have "py * W \<le> (y + r - 1) * W" using assms by (intro mult_right_mono) simp_all
      then show False using r(3) assms by (simp add: algebra_simps)
    next
      case 2
      then have "(y + r + 1) * W \<le> py * W" using assms by (intro mult_right_mono) simp_all
      then show False using r(4) assms by (simp add: algebra_simps)
    qed
  qed
  then show "x \<le> px \<and> px < x + w \<and> y \<le> py \<and> py < y + h" using r by simp
next
  assume "x \<le> px \<and> px < x + w \<and> y \<le> py \<and> py < y + h"
  then show "\<exists>r. 0 \<le> r \<and> r < h \<and> y * W + x + r * W \<le> py * W + px \<and> py * W + px < y * W + x + r * W + w"
    by (intro exI [of _ "py - y"]) (auto simp: algebra_simps)
qed

lemma set_color_screen:
  assumes s: "screen W H g" and bn: "bn \<in> {0, 1}" and x: "0 \<le> x" "0 \<le> w" "x + w \<le> W" and y: "0 \<le> y" "0 \<le> h" "y + h \<le> H"
    and loc: "loc = fb_data bn g + 4 * (y * W + x)"
  obtains m' where "framebuffer_set_color w h loc c g = Inr (g\<lparr>l_mem := m'\<rparr>)" "length m' = length (l_mem g)"
    "\<And>px py. 0 \<le> px \<Longrightarrow> px < W \<Longrightarrow> 0 \<le> py \<Longrightarrow> py < H \<Longrightarrow>
      pix W H m' bn px py = (if x \<le> px \<and> px < x + w \<and> y \<le> py \<and> py < y + h then c else pix W H (l_mem g) bn px py)"
proof -
  let ?m = "l_mem g"
  define b where "b = bn * (W * H) + (y * W + x)"
  have pos: "0 < W" "0 < H" using s by (auto simp: screen_def)
  have b0: "0 \<le> b" using bn x y pos by (auto simp: b_def)
  have bnm: "bn * (W * H) + W * H \<le> 2 * (W * H)" using bn pos by auto
  have room: "8 * (W * H) \<le> int (length ?m)" using s by (simp add: screen_def)
  have last: "b + (h - 1) * W + w \<le> 2 * (W * H)" if "0 < h"
  proof -
    have "(y + h) * W \<le> H * W" using y(3) pos by (intro mult_right_mono) simp_all
    then have "(y * W + x) + (h - 1) * W + w \<le> W * H" using x(3) by (simp add: algebra_simps)
    then show ?thesis using bnm unfolding b_def by linarith
  qed
  obtain stride where st: "stride_of (l_fi g) (l_vi g) = Inr stride" "sint stride = W" using screen_stride [OF s] by blast
  have l: "loc = 4 * b" using loc screen_data [OF s bn] by (simp add: b_def)
  obtain m' where m': "paint_rows 0 h w (4 * b) W c ?m = Inr m'" "length m' = length ?m"
    "\<forall>n. 0 \<le> n \<and> 4 * n + 4 \<le> int (length ?m) \<longrightarrow>
      wd m' n = (if \<exists>r. 0 \<le> r \<and> r < h \<and> b + r * W \<le> n \<and> n < b + r * W + w then c else wd ?m n)"
  proof -
    have "4 * (b + (h - 1) * W + w) \<le> int (length ?m)" if "0 < h"
    proof -
      have "4 * (b + (h - 1) * W + w) \<le> 4 * (2 * (W * H))" using last [OF that] by (intro mult_left_mono) simp_all
      then show ?thesis using room by simp
    qed
    then show thesis using paint_rows_wd [of b 0 w W h ?m c] b0 x(2) pos that by auto
  qed
  show thesis
  proof (rule that)
    show "framebuffer_set_color w h loc c g = Inr (g\<lparr>l_mem := m'\<rparr>)"
      using st m'(1) l by (simp add: framebuffer_set_color_def)
    show "length m' = length ?m" by (rule m'(2))
    fix px py assume p: "0 \<le> px" "px < W" "0 \<le> py" "py < H"
    let ?n = "bn * (W * H) + (py * W + px)"
    have "py * W \<le> (H - 1) * W" using p(4) pos by (intro mult_right_mono) simp_all
    then have n1: "py * W + px + 1 \<le> W * H" using p(2) by (simp add: algebra_simps)
    have "0 \<le> ?n" using bn p pos by auto
    moreover have "4 * ?n + 4 \<le> int (length ?m)"
    proof -
      have "?n + 1 \<le> bn * (W * H) + W * H" using n1 by simp
      then have "?n + 1 \<le> 2 * (W * H)" using bnm by (rule order_trans)
      then have "4 * (?n + 1) \<le> 4 * (2 * (W * H))" by (intro mult_left_mono) simp_all
      then show ?thesis using room by simp
    qed
    ultimately have "wd m' ?n = (if \<exists>r. 0 \<le> r \<and> r < h \<and> b + r * W \<le> ?n \<and> ?n < b + r * W + w then c else wd ?m ?n)"
      using m'(3) by blast
    then show "pix W H m' bn px py = (if x \<le> px \<and> px < x + w \<and> y \<le> py \<and> py < y + h then c else pix W H ?m bn px py)"
      using rect_rows_iff [OF x(1,3) p(1,2), of h y py] by (simp add: pix_def b_def add.assoc)
  qed
qed

section \<open>The board\<close>

lemma uint_loc:
  assumes "screen W H g" and "0 \<le> x" and "x \<le> W" and "0 \<le> y" and "y \<le> H"
  shows "uint (vi_xres (l_vi g) * word_of_int y + word_of_int x) = y * W + x"
proof -
  have s: "0 < W" "W * H < 2 ^ 27" "uint (vi_xres (l_vi g)) = W" using assms(1) by (auto simp: screen_def)
  have v: "vi_xres (l_vi g) = word_of_int W" using s(3) by (metis word_of_int_uint)
  have "y * W \<le> H * W" using assms(5) s(1) by (intro mult_right_mono) simp_all
  then have "y * W + x < 2 ^ 32" using s(2) assms(3) screen_sides [OF assms(1)] by (simp add: mult.commute)
  moreover have "0 \<le> y * W + x" using assms(2,4) s(1) by simp
  moreover have "vi_xres (l_vi g) * word_of_int y + word_of_int x = word_of_int (y * W + x)" by (simp add: v mult.commute)
  ultimately show ?thesis by (simp only: uint_word_of_int) simp
qed

lemma rectangle_screen:
  assumes "screen W H g" and "bn \<in> {0, 1}" and "0 \<le> x" "0 \<le> w" "x + w \<le> W" and "0 \<le> y" "0 \<le> h" "y + h \<le> H"
  obtains m' where "rectangle x y w h c bn g = Inr (g\<lparr>l_mem := m'\<rparr>)" "length m' = length (l_mem g)"
    "\<And>px py. 0 \<le> px \<Longrightarrow> px < W \<Longrightarrow> 0 \<le> py \<Longrightarrow> py < H \<Longrightarrow>
      pix W H m' bn px py = (if x \<le> px \<and> px < x + w \<and> y \<le> py \<and> py < y + h then c else pix W H (l_mem g) bn px py)"
proof -
  have "uint (vi_xres (l_vi g) * word_of_int y + word_of_int x) = y * W + x"
    by (rule uint_loc) (use assms in auto)
  then show thesis
    using set_color_screen [OF assms refl] that unfolding rectangle_def by metis
qed

lemma in_cell: "0 < (d :: int) \<Longrightarrow> a * d \<le> p \<and> p < a * d + d \<longleftrightarrow> p div d = a"
proof
  assume d: "0 < d" and "a * d \<le> p \<and> p < a * d + d"
  then show "p div d = a" by (intro int_div_pos_eq [where r = "p - a * d"]) (auto simp: mult.commute)
next
  assume d: "0 < d" and "p div d = a"
  moreover have "p = p div d * d + p mod d" by simp
  moreover have "0 \<le> p mod d" "p mod d < d" using d by simp_all
  ultimately show "a * d \<le> p \<and> p < a * d + d" by auto
qed

lemma cell_screen:
  assumes "screen W H g" and "bn \<in> {0, 1}" and "0 \<le> a" "0 < rw" "(a + 1) * rw \<le> W" and "0 \<le> j" "0 < rh" "(j + 1) * rh \<le> H"
  obtains m' where "rectangle (a * rw) (j * rh) rw rh c bn g = Inr (g\<lparr>l_mem := m'\<rparr>)" "length m' = length (l_mem g)"
    "\<And>px py. 0 \<le> px \<Longrightarrow> px < W \<Longrightarrow> 0 \<le> py \<Longrightarrow> py < H \<Longrightarrow>
      pix W H m' bn px py = (if px div rw = a \<and> py div rh = j then c else pix W H (l_mem g) bn px py)"
proof -
  obtain m' where m': "rectangle (a * rw) (j * rh) rw rh c bn g = Inr (g\<lparr>l_mem := m'\<rparr>)" "length m' = length (l_mem g)"
    "\<And>px py. 0 \<le> px \<Longrightarrow> px < W \<Longrightarrow> 0 \<le> py \<Longrightarrow> py < H \<Longrightarrow> pix W H m' bn px py =
      (if a * rw \<le> px \<and> px < a * rw + rw \<and> j * rh \<le> py \<and> py < j * rh + rh then c else pix W H (l_mem g) bn px py)"
    by (rule rectangle_screen [OF assms(1,2), of "a * rw" rw "j * rh" rh c])
      (use assms in \<open>auto simp: algebra_simps\<close>)
  show thesis
    by (rule that [OF m'(1,2)]) (use m'(3) in_cell [OF assms(4), of a] in_cell [OF assms(7), of j] in auto)
qed

lemma rect_row_screen:
  assumes "screen W H g" and "bn \<in> {0, 1}" and "0 \<le> i" "even (n - i)" "i \<le> n" "0 < rw" "n * rw \<le> W"
    and "0 \<le> j" "0 < rh" "(j + 1) * rh \<le> H"
  shows "\<exists>m'. rect_row i n j rw rh c d bn g = Inr (g\<lparr>l_mem := m'\<rparr>) \<and> length m' = length (l_mem g) \<and>
    (\<forall>px py. 0 \<le> px \<longrightarrow> px < W \<longrightarrow> 0 \<le> py \<longrightarrow> py < H \<longrightarrow>
      pix W H m' bn px py = (if i \<le> px div rw \<and> px div rw < n \<and> py div rh = j
        then (if even (px div rw - i) then c else d) else pix W H (l_mem g) bn px py))"
  using assms(1,3-5)
proof (induction "nat (n - i)" arbitrary: i g rule: less_induct)
  case less
  show ?case
  proof (cases "i < n")
    case False
    then show ?thesis by (subst rect_row.simps) (auto intro!: exI [of _ "l_mem g"])
  next
    case True
    then have i2: "i + 2 \<le> n" using less.prems(3) by presburger
    have w: "(i + 1) * rw \<le> W" "(i + 1 + 1) * rw \<le> W"
      by (rule order_trans [OF mult_right_mono [of _ n] assms(7)]; use i2 assms(6) in simp)+
    obtain m1 where m1: "rectangle (i * rw) (j * rh) rw rh c bn g = Inr (g\<lparr>l_mem := m1\<rparr>)" "length m1 = length (l_mem g)"
      "\<And>px py. 0 \<le> px \<Longrightarrow> px < W \<Longrightarrow> 0 \<le> py \<Longrightarrow> py < H \<Longrightarrow>
        pix W H m1 bn px py = (if px div rw = i \<and> py div rh = j then c else pix W H (l_mem g) bn px py)"
      by (rule cell_screen [OF less.prems(1) assms(2) less.prems(2) assms(6) w(1) assms(8-10)]) (rule that)
    let ?g1 = "g\<lparr>l_mem := m1\<rparr>"
    have s1: "screen W H ?g1" by (rule screen_mem [OF less.prems(1) m1(2)])
    obtain m2 where m2: "rectangle ((i + 1) * rw) (j * rh) rw rh d bn ?g1 = Inr (?g1\<lparr>l_mem := m2\<rparr>)" "length m2 = length (l_mem ?g1)"
      "\<And>px py. 0 \<le> px \<Longrightarrow> px < W \<Longrightarrow> 0 \<le> py \<Longrightarrow> py < H \<Longrightarrow>
        pix W H m2 bn px py = (if px div rw = i + 1 \<and> py div rh = j then d else pix W H (l_mem ?g1) bn px py)"
      by (rule cell_screen [OF s1 assms(2) _ assms(6) w(2) assms(8-10)]) (use less.prems(2) in simp, rule that)
    let ?g2 = "g\<lparr>l_mem := m2\<rparr>"
    have s2: "screen W H ?g2" using screen_mem [OF less.prems(1), of m2] m1(2) m2(2) by simp
    obtain m' where m': "rect_row (i + 2) n j rw rh c d bn ?g2 = Inr (?g2\<lparr>l_mem := m'\<rparr>)" "length m' = length (l_mem ?g2)"
      "\<forall>px py. 0 \<le> px \<longrightarrow> px < W \<longrightarrow> 0 \<le> py \<longrightarrow> py < H \<longrightarrow>
        pix W H m' bn px py = (if i + 2 \<le> px div rw \<and> px div rw < n \<and> py div rh = j
          then (if even (px div rw - (i + 2)) then c else d) else pix W H (l_mem ?g2) bn px py)"
      using less.hyps [of "i + 2" ?g2] s2 less.prems(2,3) i2 True by auto
    have "rect_row i n j rw rh c d bn g = Inr (g\<lparr>l_mem := m'\<rparr>)"
      using True m1(1) m2(1) m'(1) by (subst rect_row.simps) simp
    moreover have "pix W H m' bn px py = (if i \<le> px div rw \<and> px div rw < n \<and> py div rh = j
        then (if even (px div rw - i) then c else d) else pix W H (l_mem g) bn px py)"
      if p: "0 \<le> px" "px < W" "0 \<le> py" "py < H" for px py
    proof -
      have "px div rw = i \<or> px div rw = i + 1 \<or> px div rw < i \<or> i + 2 \<le> px div rw" by linarith
      then show ?thesis
        using m'(3) p m1(3) [OF p] m2(3) [OF p] i2 by (elim disjE) auto
    qed
    ultimately show ?thesis using m1(2) m2(2) m'(2) by auto
  qed
qed

definition board :: "int \<Rightarrow> int \<Rightarrow> int \<Rightarrow> int \<Rightarrow> u32" where
  "board rw rh px py = (if even (px div rw + py div rh) then white else black)"

lemma rect_rows_screen:
  assumes "screen W H g" and "bn \<in> {0, 1}" and "0 \<le> j" "even j" "even y" "j \<le> y" "0 < rw" "0 \<le> n" "even n" "n * rw \<le> W"
    and "0 < rh" "y * rh \<le> H"
  shows "\<exists>m'. rect_rows j y n n rw rh bn g = Inr (g\<lparr>l_mem := m'\<rparr>) \<and> length m' = length (l_mem g) \<and>
    (\<forall>px py. 0 \<le> px \<longrightarrow> px < W \<longrightarrow> 0 \<le> py \<longrightarrow> py < H \<longrightarrow> px div rw < n \<longrightarrow> py div rh < y \<longrightarrow>
      pix W H m' bn px py = (if j \<le> py div rh then board rw rh px py else pix W H (l_mem g) bn px py))"
  using assms(1,3,4,6)
proof (induction "nat (y - j)" arbitrary: j g rule: less_induct)
  case less
  show ?case
  proof (cases "j < y")
    case False
    then show ?thesis by (subst rect_rows.simps) (auto intro!: exI [of _ "l_mem g"])
  next
    case True
    then have j2: "j + 2 \<le> y" using less.prems(3) assms(5) by presburger
    have h: "(j + 1) * rh \<le> H" "(j + 1 + 1) * rh \<le> H"
      by (rule order_trans [OF mult_right_mono [of _ y] assms(12)]; use j2 assms(11) in simp)+
    obtain m1 where m1: "rect_row 0 n j rw rh white black bn g = Inr (g\<lparr>l_mem := m1\<rparr>)" "length m1 = length (l_mem g)"
      "\<forall>px py. 0 \<le> px \<longrightarrow> px < W \<longrightarrow> 0 \<le> py \<longrightarrow> py < H \<longrightarrow>
        pix W H m1 bn px py = (if 0 \<le> px div rw \<and> px div rw < n \<and> py div rh = j
          then (if even (px div rw - 0) then white else black) else pix W H (l_mem g) bn px py)"
      using rect_row_screen [OF less.prems(1) assms(2), of 0 n rw j rh white black] less.prems(2) assms(7-11) h by auto
    let ?g1 = "g\<lparr>l_mem := m1\<rparr>"
    have s1: "screen W H ?g1" by (rule screen_mem [OF less.prems(1) m1(2)])
    obtain m2 where m2: "rect_row 0 n (j + 1) rw rh black white bn ?g1 = Inr (?g1\<lparr>l_mem := m2\<rparr>)" "length m2 = length (l_mem ?g1)"
      "\<forall>px py. 0 \<le> px \<longrightarrow> px < W \<longrightarrow> 0 \<le> py \<longrightarrow> py < H \<longrightarrow>
        pix W H m2 bn px py = (if 0 \<le> px div rw \<and> px div rw < n \<and> py div rh = j + 1
          then (if even (px div rw - 0) then black else white) else pix W H (l_mem ?g1) bn px py)"
      using rect_row_screen [OF s1 assms(2), of 0 n rw "j + 1" rh black white] less.prems(2) assms(7-11) h by auto
    let ?g2 = "g\<lparr>l_mem := m2\<rparr>"
    have s2: "screen W H ?g2" using screen_mem [OF less.prems(1), of m2] m1(2) m2(2) by simp
    obtain m' where m': "rect_rows (j + 2) y n n rw rh bn ?g2 = Inr (?g2\<lparr>l_mem := m'\<rparr>)" "length m' = length (l_mem ?g2)"
      "\<forall>px py. 0 \<le> px \<longrightarrow> px < W \<longrightarrow> 0 \<le> py \<longrightarrow> py < H \<longrightarrow> px div rw < n \<longrightarrow> py div rh < y \<longrightarrow>
        pix W H m' bn px py = (if j + 2 \<le> py div rh then board rw rh px py else pix W H (l_mem ?g2) bn px py)"
      using less.hyps [of "j + 2" ?g2] s2 less.prems(2,3) j2 True by auto
    have "rect_rows j y n n rw rh bn g = Inr (g\<lparr>l_mem := m'\<rparr>)"
      using True m1(1) m2(1) m'(1) by (subst rect_rows.simps) simp
    moreover have "pix W H m' bn px py = (if j \<le> py div rh then board rw rh px py else pix W H (l_mem g) bn px py)"
      if p: "0 \<le> px" "px < W" "0 \<le> py" "py < H" and q: "px div rw < n" "py div rh < y" for px py
    proof -
      have "0 \<le> px div rw" using p(1) assms(7) by (simp add: pos_imp_zdiv_nonneg_iff)
      moreover have "py div rh = j \<or> py div rh = j + 1 \<or> py div rh < j \<or> j + 2 \<le> py div rh" by linarith
      ultimately show ?thesis
        using m'(3) p q m1(3) m2(3) less.prems(3) by (elim disjE) (auto simp: board_def)
    qed
    ultimately show ?thesis using m1(2) m2(2) m'(2) by auto
  qed
qed

section \<open>What is shown\<close>

text \<open>A pixel of a request: the memory from the row \<open>yoffset\<close> on.\<close>

definition shown_pixel :: "int \<Rightarrow> u32 \<times> bytes \<Rightarrow> int \<Rightarrow> int \<Rightarrow> u32" where
  "shown_pixel W f px py = wd (snd f) ((uint (fst f) + py) * W + px)"

text \<open>A picture gives the colour of a pixel, or leaves it open.\<close>

type_synonym picture = "int \<Rightarrow> int \<Rightarrow> u32 option"

definition frame_ok :: "int \<Rightarrow> int \<Rightarrow> u32 \<times> bytes \<Rightarrow> picture \<Rightarrow> bool" where
  "frame_ok W H f c \<longleftrightarrow> (\<forall>px py v. 0 \<le> px \<and> px < W \<and> 0 \<le> py \<and> py < H \<and> c px py = Some v \<longrightarrow> shown_pixel W f px py = v)"

definition displays :: "int \<Rightarrow> int \<Rightarrow> lcd \<Rightarrow> lcd \<Rightarrow> picture list \<Rightarrow> bool" where
  "displays W H g g' cs \<longleftrightarrow> screen W H g' \<and> (\<exists>fs. l_shown g' = l_shown g @ fs \<and> list_all2 (frame_ok W H) fs cs)"

lemma displays_trans: "displays W H g g' cs \<Longrightarrow> displays W H g' g'' ds \<Longrightarrow> displays W H g g'' (cs @ ds)"
  by (auto simp: displays_def intro: list_all2_appendI)

lemma displays_mem: "displays W H (g\<lparr>l_mem := m\<rparr>) g' cs = displays W H g g' cs"
  "displays W H (g\<lparr>l_buffercount := b\<rparr>) g' cs = displays W H g g' cs"
  by (simp_all add: displays_def)

lemma active_displays:
  assumes "screen W H g" and "bn \<in> {0, 1}"
    and "\<And>px py v. 0 \<le> px \<Longrightarrow> px < W \<Longrightarrow> 0 \<le> py \<Longrightarrow> py < H \<Longrightarrow> c px py = Some v \<Longrightarrow> pix W H (l_mem g) bn px py = v"
  shows "displays W H g (set_active_framebuffer (nat bn) g) [c]"
proof -
  let ?g = "set_active_framebuffer (nat bn) g"
  have s: "screen W H ?g" using assms(1,2) by (auto simp: screen_def set_active_framebuffer_def Let_def)
  have "uint (of_nat (nat bn) * vi_yres (l_vi g)) = bn * H" using assms(1,2) by (auto simp: screen_def)
  then have "frame_ok W H (of_nat (nat bn) * vi_yres (l_vi g), l_mem g) c"
    using assms(3) by (auto simp: frame_ok_def shown_pixel_def pix_def algebra_simps)
  moreover have "l_shown ?g = l_shown g @ [(of_nat (nat bn) * vi_yres (l_vi g), l_mem g)]"
    using assms(2) by (auto simp: set_active_framebuffer_def Let_def)
  ultimately show ?thesis using s by (simp add: displays_def)
qed

lemma next_buffer_screen:
  assumes "screen W H g"
  obtains bn where "next_buffer g = (bn, g\<lparr>l_buffercount := l_buffercount g + 1\<rparr>)" "bn \<in> {0, 1}"
    "screen W H (g\<lparr>l_buffercount := l_buffercount g + 1\<rparr>)"
proof -
  have "(l_buffercount g + 1) mod 2 \<in> {0, 1}" by auto
  then show thesis using that assms by (simp add: next_buffer_def Let_def screen_def)
qed

definition plain :: "u32 \<Rightarrow> picture" where
  "plain c = (\<lambda>_ _. Some c)"

lemma show_colors_displays:
  "screen W H g \<Longrightarrow> \<exists>g'. show_colors W H cs g = Inr g' \<and> displays W H g g' (map plain cs)"
proof (induction cs arbitrary: g)
  case Nil
  then show ?case by (simp add: displays_def)
next
  case (Cons c cs)
  obtain bn where bn: "next_buffer g = (bn, g\<lparr>l_buffercount := l_buffercount g + 1\<rparr>)" "bn \<in> {0, 1}"
    "screen W H (g\<lparr>l_buffercount := l_buffercount g + 1\<rparr>)" by (rule next_buffer_screen [OF Cons.prems])
  let ?g = "g\<lparr>l_buffercount := l_buffercount g + 1\<rparr>"
  have pos: "0 \<le> W" "0 \<le> H" using Cons.prems by (auto simp: screen_def)
  obtain m where m: "framebuffer_set_color W H (fb_data bn ?g) c ?g = Inr (?g\<lparr>l_mem := m\<rparr>)" "length m = length (l_mem ?g)"
    "\<And>px py. 0 \<le> px \<Longrightarrow> px < W \<Longrightarrow> 0 \<le> py \<Longrightarrow> py < H \<Longrightarrow>
      pix W H m bn px py = (if 0 \<le> px \<and> px < 0 + W \<and> 0 \<le> py \<and> py < 0 + H then c else pix W H (l_mem ?g) bn px py)"
    by (rule set_color_screen [OF bn(3,2), of 0 W 0 H "fb_data bn ?g" c]) (use pos in \<open>simp_all\<close>)
  let ?h = "?g\<lparr>l_mem := m\<rparr>"
  have s: "screen W H ?h" by (rule screen_mem [OF bn(3) m(2)])
  have d: "displays W H ?h (set_active_framebuffer (nat bn) ?h) [plain c]"
    by (rule active_displays [OF s bn(2)]) (use m(3) in \<open>auto simp: plain_def\<close>)
  then have "screen W H (set_active_framebuffer (nat bn) ?h)" by (simp add: displays_def)
  from Cons.IH [OF this] obtain g' where g': "show_colors W H cs (set_active_framebuffer (nat bn) ?h) = Inr g'"
    "displays W H (set_active_framebuffer (nat bn) ?h) g' (map plain cs)" by blast
  show ?case using bn(1) m(1) g'(1) displays_trans [OF d g'(2)] by (simp add: displays_mem)
qed

text \<open>The first clearing of each half.\<close>

lemma clear_screen_ok:
  assumes "screen W H g" and "bn \<in> {0, 1}"
  obtains m' where "clear_screen W H (fb_data bn g) g = Inr (g\<lparr>l_mem := m'\<rparr>)" "length m' = length (l_mem g)"
proof -
  have pos: "0 \<le> W" "0 \<le> H" using assms(1) by (auto simp: screen_def)
  obtain m' where m': "framebuffer_set_color W H (fb_data bn g) 0 g = Inr (g\<lparr>l_mem := m'\<rparr>)" "length m' = length (l_mem g)"
    by (rule set_color_screen [OF assms, of 0 W 0 H "fb_data bn g" 0]) (use pos in \<open>simp_all\<close>)
  obtain stride where "stride_of (l_fi g) (l_vi g) = Inr stride" "sint stride = W" using screen_stride [OF assms(1)] by blast
  then have "clear_screen W H (fb_data bn g) g = framebuffer_set_color W H (fb_data bn g) 0 g"
    by (simp add: clear_screen_def framebuffer_set_color_def)
  then show thesis using that m' by simp
qed

lemma full_screen_displays:
  assumes "screen W H g"
  obtains g' where "set_full_screen g = Inr g'" "displays W H g g' (map plain [red, green, blue, black, white])"
proof -
  obtain m where m: "clear_screen W H (fb_data 1 g) g = Inr (g\<lparr>l_mem := m\<rparr>)" "length m = length (l_mem g)"
    by (rule clear_screen_ok [OF assms, of 1]) simp_all
  obtain g' where g': "show_colors W H [red, green, blue, black, white] (g\<lparr>l_mem := m\<rparr>) = Inr g'"
    "displays W H (g\<lparr>l_mem := m\<rparr>) g' (map plain [red, green, blue, black, white])"
    using show_colors_displays [OF screen_mem [OF assms m(2)]] by blast
  have "set_full_screen g = Inr g'"
    using m(1) g'(1) screen_size [OF assms] by (simp add: set_full_screen_def del: show_colors.simps)
  then show thesis by (rule that) (use g'(2) in \<open>simp only: displays_mem\<close>)
qed

definition bands :: "int \<Rightarrow> picture" where
  "bands H = (\<lambda>px py. if py < H div 3 then Some red else if py < 2 * (H div 3) then Some green
     else if 2 * H div 3 \<le> py \<and> py < 2 * H div 3 + H div 3 then Some blue else None)"

lemma three_color_displays:
  assumes "screen W H g"
  obtains g' where "set_three_color g = Inr g'" "displays W H g g' [bands H]"
proof -
  obtain bn where bn: "next_buffer g = (bn, g\<lparr>l_buffercount := l_buffercount g + 1\<rparr>)" "bn \<in> {0, 1}"
    "screen W H (g\<lparr>l_buffercount := l_buffercount g + 1\<rparr>)" by (rule next_buffer_screen [OF assms])
  let ?g = "g\<lparr>l_buffercount := l_buffercount g + 1\<rparr>"
  define t where "t = H div 3"
  define u where "u = 2 * H div 3"
  have pos: "0 \<le> W" "0 < H" using assms by (auto simp: screen_def)
  have tu: "0 \<le> t" "t \<le> H" "t + t \<le> u" "0 \<le> u" "u + t \<le> H" using pos(2) by (simp_all add: t_def u_def)
  have z: "0 \<le> (0::int)" "0 + W \<le> W" "0 + t \<le> H" "t + t \<le> H" using tu by simp_all
  have sd: "H sdiv 3 = t" "2 * H sdiv 3 = u" using pos(2) by (simp_all add: t_def u_def signed_divide_int_def)
  obtain m1 where m1: "framebuffer_set_color W t (fb_data bn ?g + 4 * (0 * W + 0)) red ?g = Inr (?g\<lparr>l_mem := m1\<rparr>)" "length m1 = length (l_mem ?g)"
    "\<And>px py. 0 \<le> px \<Longrightarrow> px < W \<Longrightarrow> 0 \<le> py \<Longrightarrow> py < H \<Longrightarrow>
      pix W H m1 bn px py = (if 0 \<le> px \<and> px < 0 + W \<and> 0 \<le> py \<and> py < 0 + t then red else pix W H (l_mem ?g) bn px py)"
    by (rule set_color_screen [OF bn(3,2) z(1) pos(1) z(2) z(1) tu(1) z(3) refl]) (rule that)
  let ?g1 = "?g\<lparr>l_mem := m1\<rparr>"
  have s1: "screen W H ?g1" by (rule screen_mem [OF bn(3) m1(2)])
  obtain m2 where m2: "framebuffer_set_color W t (fb_data bn ?g1 + 4 * (t * W + 0)) green ?g1 = Inr (?g1\<lparr>l_mem := m2\<rparr>)"
    "length m2 = length (l_mem ?g1)"
    "\<And>px py. 0 \<le> px \<Longrightarrow> px < W \<Longrightarrow> 0 \<le> py \<Longrightarrow> py < H \<Longrightarrow>
      pix W H m2 bn px py = (if 0 \<le> px \<and> px < 0 + W \<and> t \<le> py \<and> py < t + t then green else pix W H (l_mem ?g1) bn px py)"
    by (rule set_color_screen [OF s1 bn(2) z(1) pos(1) z(2) tu(1) tu(1) z(4) refl]) (rule that)
  let ?g2 = "?g\<lparr>l_mem := m2\<rparr>"
  have s2: "screen W H ?g2" using screen_mem [OF bn(3), of m2] m1(2) m2(2) by simp
  obtain m3 where m3: "framebuffer_set_color W t (fb_data bn ?g2 + 4 * (u * W + 0)) blue ?g2 = Inr (?g2\<lparr>l_mem := m3\<rparr>)"
    "length m3 = length (l_mem ?g2)"
    "\<And>px py. 0 \<le> px \<Longrightarrow> px < W \<Longrightarrow> 0 \<le> py \<Longrightarrow> py < H \<Longrightarrow>
      pix W H m3 bn px py = (if 0 \<le> px \<and> px < 0 + W \<and> u \<le> py \<and> py < u + t then blue else pix W H (l_mem ?g2) bn px py)"
    by (rule set_color_screen [OF s2 bn(2) z(1) pos(1) z(2) tu(4) tu(1) tu(5) refl]) (rule that)
  let ?g3 = "?g\<lparr>l_mem := m3\<rparr>"
  have s3: "screen W H ?g3" using screen_mem [OF bn(3), of m3] m1(2) m2(2) m3(2) by simp
  have "displays W H ?g3 (set_active_framebuffer (nat bn) ?g3) [bands H]"
  proof (rule active_displays [OF s3 bn(2)])
    fix px py v assume p: "0 \<le> px" "px < W" "0 \<le> py" "py < H" and v: "bands H px py = Some v"
    note e = m1(3) [OF p] m2(3) [OF p] m3(3) [OF p]
    have b: "bands H px py = (if py < t then Some red else if py < 2 * t then Some green
        else if u \<le> py \<and> py < u + t then Some blue else None)" by (simp add: bands_def t_def u_def)
    consider "py < t" | "t \<le> py" "py < t + t" | "t + t \<le> py" "u \<le> py" "py < u + t"
      using v b by (metis mult_2 not_less option.distinct(1))
    then show "pix W H (l_mem ?g3) bn px py = v"
    proof cases
      case 1
      then show ?thesis using e p v b tu by simp
    next
      case 2
      then show ?thesis using e p v b tu by simp
    next
      case 3
      then show ?thesis using e p v b tu by simp
    qed
  qed
  moreover have "set_three_color g = Inr (set_active_framebuffer (nat bn) ?g3)"
    using m1(1) m2(1) m3(1) bn(1) screen_size [OF assms] sd by (simp add: set_three_color_def Let_def)
  ultimately show thesis using that by (simp only: displays_mem)
qed

lemma cell_less:
  fixes d :: int
  assumes "0 < d" and "p < n * d"
  shows "p div d < n"
proof (rule ccontr)
  assume "\<not> p div d < n"
  then have "n * d \<le> p div d * d" using assms(1) by (intro mult_right_mono) simp_all
  also have "\<dots> \<le> p" using in_cell [OF assms(1), of "p div d" p] by simp
  finally show False using assms(2) by simp
qed

lemma set_rectangle_displays:
  assumes "screen (20 * rw) (20 * rh) g"
  obtains g' where "set_rectangle 20 20 g = Inr g'"
    "displays (20 * rw) (20 * rh) g g' [\<lambda>px py. Some (board rw rh px py)]"
proof -
  let ?W = "20 * rw" and ?H = "20 * rh"
  have pos: "0 < rw" "0 < rh" using assms by (auto simp: screen_def)
  obtain m0 where m0: "clear_screen ?W ?H (fb_data 0 g) g = Inr (g\<lparr>l_mem := m0\<rparr>)" "length m0 = length (l_mem g)"
    by (rule clear_screen_ok [OF assms, of 0]) simp_all
  have s0: "screen ?W ?H (g\<lparr>l_mem := m0\<rparr>)" by (rule screen_mem [OF assms m0(2)])
  obtain m1 where m1: "clear_screen ?W ?H (fb_data 1 (g\<lparr>l_mem := m0\<rparr>)) (g\<lparr>l_mem := m0\<rparr>) = Inr (g\<lparr>l_mem := m1\<rparr>)"
    "length m1 = length (l_mem g)"
    using clear_screen_ok [OF s0, of 1] m0(2) by auto
  have s1: "screen ?W ?H (g\<lparr>l_mem := m1\<rparr>)" by (rule screen_mem [OF assms m1(2)])
  obtain bn where bn: "next_buffer (g\<lparr>l_mem := m1\<rparr>) = (bn, g\<lparr>l_mem := m1, l_buffercount := l_buffercount g + 1\<rparr>)" "bn \<in> {0, 1}"
    "screen ?W ?H (g\<lparr>l_mem := m1, l_buffercount := l_buffercount g + 1\<rparr>)"
    using next_buffer_screen [OF s1] by auto
  let ?g = "g\<lparr>l_mem := m1, l_buffercount := l_buffercount g + 1\<rparr>"
  obtain m where m: "rect_rows 0 20 20 20 rw rh bn ?g = Inr (?g\<lparr>l_mem := m\<rparr>)" "length m = length (l_mem ?g)"
    "\<forall>px py. 0 \<le> px \<longrightarrow> px < ?W \<longrightarrow> 0 \<le> py \<longrightarrow> py < ?H \<longrightarrow> px div rw < 20 \<longrightarrow> py div rh < 20 \<longrightarrow>
      pix ?W ?H m bn px py = (if 0 \<le> py div rh then board rw rh px py else pix ?W ?H (l_mem ?g) bn px py)"
    using rect_rows_screen [OF bn(3,2), of 0 20 rw 20 rh] pos by auto
  let ?h = "?g\<lparr>l_mem := m\<rparr>"
  have s: "screen ?W ?H ?h" by (rule screen_mem [OF bn(3) m(2)])
  have cells: "px div rw < 20" if "px < ?W" for px using cell_less [OF pos(1)] that by simp
  have rows: "py div rh < 20 \<and> (0 \<le> py \<longrightarrow> 0 \<le> py div rh)" if "py < ?H" for py
    using cell_less [OF pos(2)] that pos(2) by (simp add: pos_imp_zdiv_nonneg_iff)
  have "displays ?W ?H ?h (set_active_framebuffer (nat bn) ?h) [\<lambda>px py. Some (board rw rh px py)]"
    by (rule active_displays [OF s bn(2)]) (use m(3) cells rows in auto)
  moreover have sd: "?W sdiv 20 = rw" "?H sdiv 20 = rh" using pos by (simp_all add: signed_divide_int_def)
  have "set_rectangle 20 20 g = Inr (set_active_framebuffer (nat bn) ?h)"
    using m0(1) m1(1) bn(1) m(1) screen_size [OF assms] sd by (simp add: set_rectangle_def Let_def)
  ultimately show thesis using that [of "set_active_framebuffer (nat bn) ?h"] by (simp add: displays_def)
qed

section \<open>The program\<close>

text \<open>What the system must answer for the test to work: a mapped frame buffer with room for two pictures.\<close>

definition good_display :: "int \<Rightarrow> int \<Rightarrow> lcd_sys \<Rightarrow> bool" where
  "good_display W H y \<longleftrightarrow> 0 < W \<and> 0 < H \<and> W * H < 2 ^ 27 \<and> (y_tty0 y \<longrightarrow> 0 \<le> y_open_tty0 y \<and> y_kdsetmode y = 0) \<and>
     0 \<le> y_open_fb y ''/dev/graphics/fb0'' \<and>
     (\<exists>fi m. y_fscreeninfo y = Some fi \<and> uint (fi_line_length fi) = 4 * W \<and>
        y_mmap y (fi_smem_len fi) = Some m \<and> 8 * (W * H) \<le> int (length m)) \<and>
     (\<exists>vi. y_vscreeninfo y = Some vi \<and> uint (vi_xres vi) = W \<and> uint (vi_yres vi) = H \<and> vi_bits_per_pixel vi = 32)"

lemma gr_init_screen:
  assumes "good_display W H y"
  obtains g where "gr_init y lcd_init = Inr (0, g)" "screen W H g" "length (l_shown g) = 1"
proof -
  obtain fi vi m where y: "y_fscreeninfo y = Some fi" "uint (fi_line_length fi) = 4 * W" "y_vscreeninfo y = Some vi"
    "uint (vi_xres vi) = W" "uint (vi_yres vi) = H" "vi_bits_per_pixel vi = 32" "y_mmap y (fi_smem_len fi) = Some m" "8 * (W * H) \<le> int (length m)"
    "0 < W" "0 < H" "W * H < 2 ^ 27" "0 \<le> y_open_fb y ''/dev/graphics/fb0''"
    and tty: "y_tty0 y \<longrightarrow> 0 \<le> y_open_tty0 y \<and> y_kdsetmode y = 0"
    using assms by (auto simp: good_display_def)
  have v: "vi_xres vi = word_of_int W" "vi_yres vi = word_of_int H" using y(4,5) by (metis word_of_int_uint)+
  have "vi_yres vi * vi_xres vi * 4 = word_of_int (4 * (W * H))" by (simp add: v mult.commute mult.left_commute)
  then have "uint (vi_yres vi * vi_xres vi * 4) = 4 * (W * H) mod 2 ^ 32" by (simp only: uint_word_of_int) simp
  also have "\<dots> = 4 * (W * H)"
  proof (rule mod_pos_pos_trivial)
    show "0 \<le> 4 * (W * H)" using y(9,10) by simp
    have "4 * (W * H) < 4 * 2 ^ 27" using y(11) by (rule mult_strict_left_mono) simp
    then show "4 * (W * H) < 2 ^ 32" by simp
  qed
  finally have "uint (vi_yres vi * vi_xres vi * 4) = 4 * (W * H)" .
  then show thesis
    using that y tty
    by (auto simp: gr_init_def get_framebuffer_def stride_of_def screen_def set_active_framebuffer_def lcd_init_def Let_def)
qed

text \<open>C11. On a display with 32 bits per pixel whose sides are multiples of 20 the program asks, after the two requests
  that only choose the first half, for seven pictures to be shown, each complete when it is asked for: red, green, blue, black,
  white, three bands, and a board of 20 by 20 white and black rectangles. No store leaves the
  memory that is mapped.\<close>

theorem lcd_pictures:
  assumes "good_display (20 * rw) (20 * rh) y"
  shows "\<exists>g. lcd_main y = Inr g \<and> list_all2 (frame_ok (20 * rw) (20 * rh)) (drop 2 (l_shown g))
    (map plain [red, green, blue, black, white] @ [bands (20 * rh), \<lambda>px py. Some (board rw rh px py)])"
proof -
  let ?W = "20 * rw" and ?H = "20 * rh"
  obtain g0 where g0: "gr_init y lcd_init = Inr (0, g0)" "screen ?W ?H g0" "length (l_shown g0) = 1"
    by (rule gr_init_screen [OF assms])
  let ?g = "set_active_framebuffer 0 g0"
  have g: "screen ?W ?H ?g" "length (l_shown ?g) = 2"
    using g0(2,3) by (auto simp: set_active_framebuffer_def screen_def Let_def)
  obtain g1 where g1: "set_full_screen ?g = Inr g1" "displays ?W ?H ?g g1 (map plain [red, green, blue, black, white])"
    by (rule full_screen_displays [OF g(1)])
  then have s1: "screen ?W ?H g1" by (simp add: displays_def)
  obtain g2 where g2: "set_three_color g1 = Inr g2" "displays ?W ?H g1 g2 [bands ?H]" by (rule three_color_displays [OF s1])
  then have s2: "screen ?W ?H g2" by (simp add: displays_def)
  obtain g3 where g3: "set_rectangle 20 20 g2 = Inr g3" "displays ?W ?H g2 g3 [\<lambda>px py. Some (board rw rh px py)]"
    by (rule set_rectangle_displays [OF s2])
  have "displays ?W ?H ?g g3 (map plain [red, green, blue, black, white] @ [bands ?H] @ [\<lambda>px py. Some (board rw rh px py)])"
    by (rule displays_trans [OF g1(2) displays_trans [OF g2(2) g3(2)]])
  moreover have "lcd_main y = Inr g3" using g0(1) g1(1) g2(1) g3(1) by (simp add: lcd_main_def)
  ultimately show ?thesis using g(2) by (auto simp: displays_def)
qed

definition demo_display :: lcd_sys where
  "demo_display = \<lparr>y_tty0 = False, y_open_tty0 = -1, y_kdsetmode = 0, y_open_fb = (\<lambda>_. 3),
     y_fscreeninfo = Some \<lparr>fi_smem_len = 3200, fi_line_length = 80\<rparr>,
     y_vscreeninfo = Some \<lparr>vi_xres = 20, vi_yres = 20, vi_yres_virtual = 40, vi_yoffset = 0, vi_bits_per_pixel = 32\<rparr>,
     y_mmap = (\<lambda>n. Some (replicate (unat n) 0))\<rparr>"

theorem lcd_pictures_witness:
  "\<exists>g. lcd_main demo_display = Inr g \<and> list_all2 (frame_ok 20 20) (drop 2 (l_shown g))
    (map plain [red, green, blue, black, white] @ [bands 20, \<lambda>px py. Some (board 1 1 px py)])"
proof -
  have "good_display (20 * 1) (20 * 1) demo_display" by (simp add: good_display_def demo_display_def)
  from lcd_pictures [OF this] show ?thesis by simp
qed

section \<open>Other pixel sizes and failures\<close>











text \<open>When the frame buffer cannot be opened the program goes on, and divides by the number of bits per pixel it has
  not read.\<close>

lemma lcd_ignores_failure:
  assumes "\<And>p. y_open_fb y p < 0"
  shows "lcd_main y = Inl Fault"
proof -
  have "get_framebuffer y lcd_init = Inr (-1, lcd_init)" using assms by (simp add: get_framebuffer_def)
  then have "\<exists>r g. gr_init y lcd_init = Inr (r, g) \<and> l_vi g = l_vi lcd_init" by (simp add: gr_init_def Let_def)
  then obtain r g where g: "gr_init y lcd_init = Inr (r, g)" "l_vi g = l_vi lcd_init" by blast
  then have "vi_bits_per_pixel (l_vi (set_active_framebuffer 0 g)) = 0"
    by (simp add: set_active_framebuffer_def lcd_init_def Let_def)
  then show ?thesis using g(1) by (simp add: lcd_main_def set_full_screen_def clear_screen_def stride_of_def Let_def)
qed

end
