(* ===== verification/Pages.thy ===== *)
theory Pages
  imports Widget "HOL-Library.Signed_Division"
begin

text \<open>
  Two more programs over the widgets: \<^verbatim>\<open>test_touchscreen/test_touchbutton.c\<close>, a grid of 25 squares each of which
  must be touched, and \<^verbatim>\<open>test_current/test_current.c\<close>, a page that waits for the charging current. As in
  \<^verbatim>\<open>Widget\<close>, the result \<open>None\<close> of a program is a null pointer followed, \<open>Some (None, \<dots>)\<close> a program that is still
  running. The value of the environment variable \<^verbatim>\<open>F1\<close>, the blocks that \<open>malloc\<close> returns for the widgets and the screen before
  the start are arguments; the nodes of the list of buttons are always allocated.
\<close>

section \<open>The grid of squares\<close>

definition BUTTON_WIDTH_NUMBER :: nat where "BUTTON_WIDTH_NUMBER = 5"
definition BUTTON_HEIGHT_NUMBER :: nat where "BUTTON_HEIGHT_NUMBER = 5"
definition RED :: u32 where "RED = 0x0000ffff"
definition GREEN :: u32 where "GREEN = 0x00ff00ff"

text \<open>Pointers to buttons are positions in the list of buttons, a pointer to an element of \<open>mpara\<close> is its index.\<close>

record para =
  p_this_bt :: nat
  p_bt_list :: "nat list"
  p_len :: nat

definition check_bt :: "para \<Rightarrow> screen \<Rightarrow> screen" where
  "check_bt mpara s =
     (if list_ex (\<lambda>i. b_result (button_list s ! (p_bt_list mpara ! i)) = 0) [0..<p_len mpara] then s
      else snd (set_button_mode (Some (p_this_bt mpara)) ECS_LISTEN s))"

text \<open>The address of \<open>check_bt\<close>, and what the pointers \<open>func\<close> and \<open>param\<close> of a button make happen.\<close>

definition CHECK_BT :: nat where "CHECK_BT = 0"

definition touch_callbacks :: "para list \<Rightarrow> callbacks" where
  "touch_callbacks mpara f p s = (case p of Some k \<Rightarrow> if f = CHECK_BT then check_bt (mpara ! k) s else s | None \<Rightarrow> s)"

text \<open>The body of the two loops: the button at column \<open>i\<close> and row \<open>j\<close>.\<close>

definition grid_button :: "(nat \<Rightarrow> button option) \<Rightarrow> int \<Rightarrow> int \<Rightarrow> nat \<Rightarrow> nat \<Rightarrow> screen \<Rightarrow> (nat \<times> eff list \<times> screen) option" where
  "grid_button blocks width height i j s =
     Option.bind (init_default_button (blocks (i + j * 5)) True (int i * width) (int j * height) width height GREEN RED s)
       (\<lambda>(_, es, s).
         let p = length (button_list s) - 1;
             b = button_list s ! p;
             b = b\<lparr>b_Draw_Button_In_End := DISABLE\<rparr>;
             b = b\<lparr>b_Fast_Touch := ENABLE\<rparr>;
             b = b\<lparr>b_func := Some CHECK_BT\<rparr>;
             b = b\<lparr>b_param := Some (i + j * 5)\<rparr>
         in Some (p, es, s\<lparr>button_list := (button_list s)[p := b]\<rparr>))"

text \<open>The loops, over the pairs of \<open>i\<close> and \<open>j\<close> in their order; \<open>bt_pass\<close> grows by one element each time.\<close>

fun grid_loop :: "(nat \<Rightarrow> button option) \<Rightarrow> int \<Rightarrow> int \<Rightarrow> (nat \<times> nat) list \<Rightarrow> nat list \<Rightarrow> screen \<Rightarrow>
    (nat list \<times> eff list \<times> screen) option" where
  "grid_loop blocks width height [] bt_pass s = Some (bt_pass, [], s)"
| "grid_loop blocks width height ((i, j) # ps) bt_pass s =
     Option.bind (grid_button blocks width height i j s) (\<lambda>(p, e1, s).
     Option.bind (grid_loop blocks width height ps (bt_pass @ [p]) s) (\<lambda>(bt_pass, e2, s).
     Some (bt_pass, e1 @ e2, s)))"

definition swap_if :: "string \<Rightarrow> screen \<Rightarrow> screen" where
  "swap_if F1 s = (if atoi F1 = 1 then set_swap s else s)"

definition touchbutton_main :: "graphics \<Rightarrow> environment \<Rightarrow> string option \<Rightarrow> (nat \<Rightarrow> button option) \<Rightarrow> screen \<Rightarrow>
    (int option \<times> eff list) option" where
  "touchbutton_main G E F1 blocks s =
     (let s = init_param G s in
      Option.bind F1 (\<lambda>p.
      let s = swap_if p s;
          width = get_screen_width G sdiv 5;
          height = get_screen_height G sdiv 5
      in Option.bind (grid_loop blocks width height
           [(i, j). j \<leftarrow> [0..<BUTTON_HEIGHT_NUMBER], i \<leftarrow> [0..<BUTTON_WIDTH_NUMBER]] [] s) (\<lambda>(bt_pass, e1, s).
         let bt_num = BUTTON_WIDTH_NUMBER * BUTTON_HEIGHT_NUMBER;
             mpara = map (\<lambda>k. \<lparr>p_this_bt = bt_pass ! k, p_bt_list = bt_pass, p_len = bt_num\<rparr>) [0..<bt_num]
         in Option.bind (start_listen (E\<lparr>en_func := touch_callbacks mpara\<rparr>) s) (\<lambda>(r, e2, s).
            Some (map_option (\<lambda>_. 0) r, e1 @ e2)))))"

section \<open>Touching a square\<close>

text \<open>The square that a point lies in; the lines between the squares belong to none.\<close>

definition in_square :: "int \<Rightarrow> int \<Rightarrow> int \<times> int \<Rightarrow> nat \<Rightarrow> bool" where
  "in_square w h p n \<longleftrightarrow> int (n mod 5) * w < fst p \<and> fst p < int (n mod 5) * w + w \<and>
     int (n div 5) * h < snd p \<and> snd p < int (n div 5) * h + h"

definition square_at :: "int \<Rightarrow> int \<Rightarrow> int \<times> int \<Rightarrow> nat option" where
  "square_at w h p = find (in_square w h p) [0..<25]"

text \<open>The buttons of the grid, those of \<open>T\<close> touched.\<close>

definition square_button :: "int \<Rightarrow> int \<Rightarrow> nat set \<Rightarrow> nat \<Rightarrow> button \<Rightarrow> bool" where
  "square_button w h T n b \<longleftrightarrow> b_id b = int n + 1 \<and>
     b_ps b = \<lparr>f_position_x = word_of_int (int (n mod 5) * w), f_position_y = word_of_int (int (n div 5) * h),
       iconWidth = w, iconHeight = h\<rparr> \<and>
     b_Fast_Touch b = ENABLE \<and> b_func b = Some CHECK_BT \<and> b_param b = Some n \<and> b_mode b = NORMAL \<and>
     b_result b = (if n \<in> T then 1 else 0)"

definition grid_screen :: "int \<Rightarrow> int \<Rightarrow> nat set \<Rightarrow> screen \<Rightarrow> bool" where
  "grid_screen w h T s \<longleftrightarrow> length (button_list s) = 25 \<and> (\<forall>n < 25. square_button w h T n (button_list s ! n))"

lemma square_button_shape: "shape a = shape b \<Longrightarrow> square_button w h T n b \<Longrightarrow> square_button w h T n a"
  by (cases a; cases b) (simp add: shape_def square_button_def)

lemma grid_screen_nth: "grid_screen w h T s \<Longrightarrow> n < 25 \<Longrightarrow> square_button w h T n (button_list s ! n)"
  by (simp only: grid_screen_def)

lemma grid_same: "same_screen s s' \<Longrightarrow> grid_screen w h T s \<Longrightarrow> grid_screen w h T s'"
proof -
  assume ss: "same_screen s s'" "grid_screen w h T s"
  have m: "map shape (button_list s') = map shape (button_list s)" using ss(1) by (simp add: same_screen_def)
  have l: "length (button_list s') = length (button_list s)" "length (button_list s) = 25"
    using arg_cong [OF m, of length] ss(2) by (simp_all add: grid_screen_def)
  have "shape (button_list s' ! n) = shape (button_list s ! n)" if "n < 25" for n
    using arg_cong [OF m, of "\<lambda>l. l ! n"] that l by simp
  then have "square_button w h T n (button_list s' ! n)" if "n < 25" for n
    using square_button_shape grid_screen_nth [OF ss(2)] that by blast
  then show ?thesis using l by (simp add: grid_screen_def)
qed

lemma find_Cons_upt: "find P [0..<Suc n] = (if P 0 then Some 0 else map_option Suc (find (\<lambda>k. P (Suc k)) [0..<n]))"
proof -
  have "find P (map Suc ns) = map_option Suc (find (\<lambda>n. P (Suc n)) ns)" for ns by (induction ns) simp_all
  moreover have "[0..<Suc n] = 0 # map Suc [0..<n]" by (simp only: map_Suc_upt upt_conv_Cons [of 0 "Suc n"])
  ultimately show ?thesis by simp
qed

lemma find_position_nth: "find_button_by_position t bs = find (\<lambda>n. istouchingbutton (bs ! n) t = 1) [0..<length bs]"
  by (induction bs) (simp_all add: find_Cons_upt del: upt_Suc)

lemma find_id_nth: "find_button_by_id i bs = find (\<lambda>n. b_id (bs ! n) = i) [0..<length bs]"
  by (induction bs) (simp_all add: find_Cons_upt del: upt_Suc)

lemma find_upt_Some: "k < n \<Longrightarrow> P k \<Longrightarrow> (\<And>j. j < n \<Longrightarrow> P j \<Longrightarrow> j = k) \<Longrightarrow> find P [0..<n] = Some k"
proof -
  assume k: "k < n" "P k" and u: "\<And>j. j < n \<Longrightarrow> P j \<Longrightarrow> j = k"
  have "\<not> P j" if "j < k" for j using u [of j] that k(1) by force
  then show ?thesis using k by (simp add: find_Some_iff exI [of _ k])
qed

lemma find_upt_None: "(\<And>j. j < n \<Longrightarrow> \<not> P j) \<Longrightarrow> find P [0..<n] = None"
  by (simp add: find_None_iff)

lemma grid_find_id:
  assumes "grid_screen w h T s"
  shows "n < 25 \<Longrightarrow> find_button_by_id (int n + 1) (button_list s) = Some n"
    and "find_button_by_id 0 (button_list s) = None"
proof -
  have i: "b_id (button_list s ! k) = int k + 1" if "k < 25" for k
    using grid_screen_nth [OF assms that] by (simp only: square_button_def)
  have l: "length (button_list s) = 25" using assms by (simp add: grid_screen_def)
  show "find_button_by_id (int n + 1) (button_list s) = Some n" if "n < 25"
    unfolding find_id_nth
  proof (rule find_upt_Some)
    show "j = n" if "j < length (button_list s)" "b_id (button_list s ! j) = int n + 1" for j
      using that i [of j] l by simp
  qed (use that i l in simp_all)
  show "find_button_by_id 0 (button_list s) = None"
    unfolding find_id_nth by (rule find_upt_None) (simp add: i l)
qed

lemma word_point: "0 \<le> i \<Longrightarrow> i < 4294967296 \<Longrightarrow> uint (word_of_int i :: u32) = i"
  by (simp add: uint_word_of_int)

lemma grid_square_at:
  assumes g: "grid_screen w h T s" and t: "t_x t = word_of_int x" "t_y t = word_of_int y"
    and x: "0 \<le> x" "x < 2147483648" and y: "0 \<le> y" "y < 2147483648"
    and w: "0 \<le> w" "5 * w < 2147483648" and h: "0 \<le> h" "5 * h < 2147483648"
  shows "find_button_by_position t (button_list s) = square_at w h (x, y)"
proof -
  have l: "length (button_list s) = 25" using g by (simp add: grid_screen_def)
  have "(istouchingbutton (button_list s ! n) t = 1) = in_square w h (x, y) n" if n: "n < 25" for n
  proof -
    define a where "a = int (n mod 5) * w"
    define b where "b = int (n div 5) * h"
    have "int (n mod 5) \<le> 4" "int (n div 5) \<le> 4" using n by simp_all
    then have "a \<le> 4 * w" "b \<le> 4 * h" using w(1) h(1) by (auto simp: a_def b_def intro: mult_right_mono)
    moreover have "0 \<le> a" "0 \<le> b" using w(1) h(1) by (simp_all add: a_def b_def)
    ultimately have u: "uint (word_of_int a :: u32) = a" "uint (word_of_int b :: u32) = b"
      "uint (word_of_int (a + w) :: u32) = a + w" "uint (word_of_int (b + h) :: u32) = b + h"
      "uint (word_of_int x :: u32) = x" "uint (word_of_int y :: u32) = y"
      using x y w h by (intro word_point; simp)+
    have s: "(word_of_int a :: u32) + word_of_int w = word_of_int (a + w)"
      "(word_of_int b :: u32) + word_of_int h = word_of_int (b + h)" by simp_all
    have "b_ps (button_list s ! n) = \<lparr>f_position_x = word_of_int a, f_position_y = word_of_int b, iconWidth = w, iconHeight = h\<rparr>"
      using grid_screen_nth [OF g n] by (simp only: square_button_def a_def b_def)
    then show ?thesis
      using t u by (simp add: istouchingbutton_def in_square_def word_less_def s a_def [symmetric] b_def [symmetric]
          del: of_int_add)
  qed
  then have "find (\<lambda>n. istouchingbutton (button_list s ! n) t = 1) [0..<25] = find (in_square w h (x, y)) [0..<25]"
    by (rule find_cong [OF refl]) (simp only: set_upt atLeastLessThan_iff)
  then show ?thesis by (simp only: find_position_nth l square_at_def)
qed

lemma on_touch_grid:
  assumes "t_state (rec_touch s) = KEEP_TOUCH" and "\<And>m. m < length (button_list s) \<Longrightarrow> b_Fast_Touch (button_list s ! m) = ENABLE"
  shows "\<exists>es s'. on_touch s = (map_option (\<lambda>m. b_id (button_list s ! m)) (find_button_by_position (rec_touch s) (button_list s)), es, s') \<and>
    same_screen s s'"
proof (cases "find_button_by_position (rec_touch s) (button_list s)")
  case None
  then show ?thesis using assms(1) by (auto simp: on_touch_def Let_def split: option.split)
next
  case (Some m)
  then have "b_Fast_Touch (button_list s ! m) = ENABLE" using assms(2) find_position_bound [OF Some] by simp
  then show ?thesis using Some assms(1)
    by (auto simp: on_touch_def Let_def intro!: same_screen_puts split: option.split)
qed

text \<open>A report of a point is taken for a touch of the square it lies in.\<close>

lemma catch_grid:
  assumes g: "grid_screen w h T s" and p: "point s p = (word_of_int x, word_of_int y)"
    and x: "0 \<le> x" "x < 2147483648" and y: "0 \<le> y" "y < 2147483648"
    and w: "0 \<le> w" "5 * w < 2147483648" and h: "0 \<le> h" "5 * h < 2147483648"
  shows "\<exists>es s'. catch_action_for_button (report p) s =
      (case square_at w h (x, y) of None \<Rightarrow> 0 | Some n \<Rightarrow> int n + 1, es, s', []) \<and> same_screen s s'"
proof -
  define t where "t = (rec_touch s)\<lparr>t_state := KEEP_TOUCH, t_x := fst (point s p), t_y := snd (point s p)\<rparr>"
  define u where "u = s\<lparr>rec_touch := t\<rparr>"
  have gu: "grid_screen w h T u" using g by (simp add: u_def grid_screen_def)
  have l: "length (button_list u) = 25" using gu by (simp add: grid_screen_def)
  have f: "find_button_by_position (rec_touch u) (button_list u) = square_at w h (x, y)"
    by (rule grid_square_at [OF gu _ _ x y w h]) (simp_all add: u_def t_def p)
  have fast: "b_Fast_Touch (button_list u ! m) = ENABLE" if "m < length (button_list u)" for m
    using grid_screen_nth [OF gu, of m] that l by (simp add: square_button_def)
  have "t_state (rec_touch u) = KEEP_TOUCH" by (simp add: u_def t_def)
  from on_touch_grid [OF this fast] obtain es s' where o: "on_touch u =
      (map_option (\<lambda>m. b_id (button_list u ! m)) (square_at w h (x, y)), es, s')" "same_screen u s'"
    unfolding f by blast
  have "(rec_touch s)\<lparr>t_x := fst (point s p), t_y := snd (point s p), t_state := KEEP_TOUCH\<rparr> = t" by (simp add: t_def)
  then have e: "s\<lparr>rec_touch := (rec_touch s)\<lparr>t_x := fst (point s p), t_y := snd (point s p), t_state := KEEP_TOUCH\<rparr>\<rparr> = u"
    by (simp add: u_def)
  have ss: "same_screen s s'" using o(2) by (simp add: u_def same_screen_def)
  have c: "catch_action_for_button (report p) s = (case on_touch u of
      (Some i, es, s) \<Rightarrow> (i, es, s, []) | (None, es, s) \<Rightarrow> (0, es, s, []))"
    using e by (cases "swap s = 0")
      (simp_all add: report_def get_touch_def ev_consts Let_def point_def split: prod.splits option.splits)
  show ?thesis
  proof (cases "square_at w h (x, y)")
    case None
    then show ?thesis using c o(1) ss by simp
  next
    case (Some n)
    then have "n < 25" by (auto simp: square_at_def find_Some_iff simp del: upt_Suc)
    then have "b_id (button_list u ! n) = int n + 1" using grid_screen_nth [OF gu, of n] by (simp add: square_button_def)
    then show ?thesis using c o(1) ss Some by simp
  qed
qed

definition grid_paras :: "para list" where
  "grid_paras = map (\<lambda>k. \<lparr>p_this_bt = k, p_bt_list = [0..<25], p_len = 25\<rparr>) [0..<25]"

lemma grid_paras_nth: "n < 25 \<Longrightarrow> grid_paras ! n = \<lparr>p_this_bt = n, p_bt_list = [0..<25], p_len = 25\<rparr>"
  unfolding grid_paras_def by (simp del: upt_Suc)

lemma check_bt_grid:
  "n < 25 \<Longrightarrow> check_bt (grid_paras ! n) s =
     (if \<exists>i < 25. b_result (button_list s ! i) = 0 then s
      else s\<lparr>button_list := (button_list s)[n := (button_list s ! n)\<lparr>b_mode := ECS_LISTEN\<rparr>]\<rparr>)"
  by (auto simp: grid_paras_nth check_bt_def set_button_mode_def list_ex_iff simp del: upt_Suc)

text \<open>The square touched last ends the program, the others do not.\<close>

lemma on_button_grid:
  assumes g: "grid_screen w h T s" and n: "n < 25"
  shows "\<exists>es s'. on_button (touch_callbacks grid_paras) (int n + 1) s = (es, s', {..<25} \<subseteq> insert n T) \<and>
    (\<not> {..<25} \<subseteq> insert n T \<longrightarrow> grid_screen w h (insert n T) s') \<and>
    swap s' = swap s \<and> width_limit s' = width_limit s \<and> height_limit s' = height_limit s"
proof -
  let ?s = "s\<lparr>button_list := (button_list s)[n := (button_list s ! n)\<lparr>b_result := 1\<rparr>]\<rparr>"
  have l: "length (button_list s) = 25" using g by (simp add: grid_screen_def)
  have b: "square_button w h (insert n T) k (button_list ?s ! k)" if "k < 25" for k
    using grid_screen_nth [OF g that] l n by (simp add: square_button_def nth_list_update)
  have gs: "grid_screen w h (insert n T) ?s" using l b by (simp add: grid_screen_def)
  have r: "b_result (button_list ?s ! k) = (if k \<in> insert n T then 1 else 0)" if "k < 25" for k
    using b [OF that] by (simp only: square_button_def)
  then have z: "(\<exists>k < 25. b_result (button_list ?s ! k) = 0) \<longleftrightarrow> \<not> {..<25} \<subseteq> insert n T" by (auto split: if_splits)
  have fn: "b_func (button_list ?s ! n) = Some CHECK_BT" "b_param (button_list ?s ! n) = Some n"
    "b_mode (button_list ?s ! n) = NORMAL" using b [OF n] by (simp_all only: square_button_def)
  have "on_button (touch_callbacks grid_paras) (int n + 1) s = (let s' = check_bt (grid_paras ! n) ?s in
      ([Call CHECK_BT (Some n)], s', b_mode (button_list s' ! n) = ECS_LISTEN))"
    using fn(1,2) by (simp add: on_button_def grid_find_id(1) [OF g n] touch_callbacks_def Let_def)
  then show ?thesis
    using z gs fn(3) l n by (cases "{..<25} \<subseteq> insert n T") (auto simp: check_bt_grid [OF n] Let_def)
qed

section \<open>Touching all of them\<close>

text \<open>Where a report of the touch screen points to, and the squares that some reports touch.\<close>

definition aim :: "bool \<Rightarrow> int \<Rightarrow> int \<Rightarrow> int \<times> int \<Rightarrow> int \<times> int" where
  "aim swapped W H p = (if swapped then (W - fst p, H - snd p) else p)"

definition squares :: "bool \<Rightarrow> int \<Rightarrow> int \<Rightarrow> (int \<times> int) list \<Rightarrow> nat set" where
  "squares swapped W H ps = set (List.map_filter (\<lambda>p. square_at (W sdiv 5) (H sdiv 5) (aim swapped W H p)) ps)"

definition on_screen :: "int \<Rightarrow> int \<Rightarrow> int \<times> int \<Rightarrow> bool" where
  "on_screen W H p \<longleftrightarrow> 0 \<le> fst p \<and> fst p \<le> W \<and> 0 \<le> snd p \<and> snd p \<le> H"

lemma fifth: "0 \<le> (W :: int) \<Longrightarrow> W < 2147483648 \<Longrightarrow> 0 \<le> W sdiv 5 \<and> 5 * (W sdiv 5) < 2147483648"
proof -
  assume W: "0 \<le> W" "W < 2147483648"
  then have "W sdiv 5 = W div 5" by (cases "W = 0") (simp_all add: signed_divide_int_def)
  moreover have "0 \<le> W div 5 \<and> 5 * (W div 5) < 2147483648" using W by presburger
  ultimately show ?thesis by simp
qed

lemma square_at_less: "square_at w h p = Some n \<Longrightarrow> n < 25"
  by (auto simp: square_at_def find_Some_iff simp del: upt_Suc)

lemma squares_Cons: "squares sw W H (p # ps) =
    (case square_at (W sdiv 5) (H sdiv 5) (aim sw W H p) of None \<Rightarrow> {} | Some n \<Rightarrow> {n}) \<union> squares sw W H ps"
  by (simp add: squares_def map_filter_simps split: option.split)

lemma listen_grid:
  assumes "0 \<le> W" "W < 2147483648" "0 \<le> H" "H < 2147483648"
    and "grid_screen (W sdiv 5) (H sdiv 5) T s" and "swap s = (if sw then 1 else 0)" "width_limit s = W" "height_limit s = H"
    and "\<forall>p \<in> set ps. on_screen W H p" and "\<not> {..<25} \<subseteq> T"
  shows "\<exists>es s'. listen_loop (touch_callbacks grid_paras) bt_fd key_fd (map (\<lambda>p. Ready [(bt_fd, report p)]) ps) [] s =
    (if {..<25} \<subseteq> T \<union> squares sw W H ps then Some 0 else None, es, s')"
  using assms(5-)
proof (induction ps arbitrary: T s)
  case Nil
  then show ?case by (simp add: squares_def map_filter_simps)
next
  case (Cons p ps)
  let ?w = "W sdiv 5" and ?h = "H sdiv 5"
  obtain x y where q: "aim sw W H p = (x, y)" by fastforce
  have xy: "0 \<le> x" "x < 2147483648" "0 \<le> y" "y < 2147483648"
    using Cons.prems(5) q assms(2,4) by (auto simp: on_screen_def aim_def split: if_splits)
  have pt: "point s p = (word_of_int x, word_of_int y)" using Cons.prems(2-4) q by (auto simp: point_def aim_def split: if_splits)
  obtain es s1 where c: "catch_action_for_button (report p) s =
      (case square_at ?w ?h (x, y) of None \<Rightarrow> 0 | Some n \<Rightarrow> int n + 1, es, s1, [])" "same_screen s s1"
    using catch_grid [OF Cons.prems(1) pt xy] fifth assms(1-4) by blast
  have g1: "grid_screen ?w ?h T s1" by (rule grid_same [OF c(2) Cons.prems(1)])
  have s1: "swap s1 = (if sw then 1 else 0)" "width_limit s1 = W" "height_limit s1 = H"
    using c(2) Cons.prems(2-4) by (simp_all add: same_screen_def)
  have ps: "\<forall>p \<in> set ps. on_screen W H p" using Cons.prems(5) by simp
  show ?case
  proof (cases "square_at ?w ?h (x, y)")
    case None
    have "on_button (touch_callbacks grid_paras) 0 s1 = ([], s1, False)"
      by (simp add: on_button_def grid_find_id(2) [OF g1])
    moreover obtain e2 s2 where "listen_loop (touch_callbacks grid_paras) bt_fd key_fd (map (\<lambda>p. Ready [(bt_fd, report p)]) ps) [] s1 =
      (if {..<25} \<subseteq> T \<union> squares sw W H ps then Some 0 else None, e2, s2)"
      using Cons.IH [OF g1 s1 ps Cons.prems(6)] by blast
    ultimately show ?thesis using c(1) None q by (simp add: squares_Cons)
  next
    case (Some n)
    obtain e2 s2 where b: "on_button (touch_callbacks grid_paras) (int n + 1) s1 = (e2, s2, {..<25} \<subseteq> insert n T)"
      "\<not> {..<25} \<subseteq> insert n T \<longrightarrow> grid_screen ?w ?h (insert n T) s2"
      "swap s2 = swap s1" "width_limit s2 = width_limit s1" "height_limit s2 = height_limit s1"
      using on_button_grid [OF g1 square_at_less [OF Some]] by blast
    have u: "T \<union> squares sw W H (p # ps) = insert n T \<union> squares sw W H ps" using Some q by (simp add: squares_Cons)
    show ?thesis
    proof (cases "{..<25} \<subseteq> insert n T")
      case True
      then have "{..<25} \<subseteq> T \<union> squares sw W H (p # ps)" unfolding u by blast
      then show ?thesis using c(1) Some b(1) True by simp
    next
      case False
      have "swap s2 = (if sw then 1 else 0)" "width_limit s2 = W" "height_limit s2 = H" using b(3-5) s1 by simp_all
      from Cons.IH [OF b(2) [rule_format, OF False] this ps False] obtain e3 s3 where
        "listen_loop (touch_callbacks grid_paras) bt_fd key_fd (map (\<lambda>p. Ready [(bt_fd, report p)]) ps) [] s2 =
          (if {..<25} \<subseteq> insert n T \<union> squares sw W H ps then Some 0 else None, e3, s3)" by blast
      then show ?thesis using c(1) Some b(1) False unfolding u by simp
    qed
  qed
qed

section \<open>Setting the grid up\<close>

lemma small_word: "k < 25 \<Longrightarrow> sint (word_of_int (int k + 1) :: u32) = int k + 1"
proof -
  assume "k < 25"
  then have "signed_take_bit 31 (int k + 1) = int k + 1" by (intro signed_take_bit_int_eq_self) simp_all
  then show ?thesis by (simp only: sint_sbintrunc') simp
qed

lemma grid_button_step:
  assumes "blocks k = Some b" and "length (button_list s) = k" and "widget_id s = word_of_int (int k + 1)" and "k < 25"
  shows "\<exists>es c. grid_button blocks w h (k mod 5) (k div 5) s =
      Some (k, es, s\<lparr>widget_id := word_of_int (int (Suc k) + 1), button_list := button_list s @ [c]\<rparr>) \<and>
    square_button w h {} k c"
proof -
  have k: "k mod 5 + k div 5 * 5 = k" by simp
  have id1: "sint (widget_id s) = int k + 1" using small_word [OF assms(4)] assms(3) by simp
  have w: "widget_id s + 1 = word_of_int (int (Suc k) + 1)" by (simp add: assms(3))
  have app: "(button_list s @ [c]) ! k = c" "(button_list s @ [c])[k := d] = button_list s @ [d]" for c d
    using assms(2) by (auto simp: nth_append)
  show ?thesis
    using assms(1,2) by (auto simp: grid_button_def init_default_button_def Let_def k add_to_def id1 w app
        square_button_def of_nat_mod of_nat_div)
qed

lemma grid_loop_screen:
  assumes "\<And>k. blocks k = Some (blk k)"
  shows "k \<le> 25 \<Longrightarrow> length (button_list s) = k \<Longrightarrow> widget_id s = word_of_int (int k + 1) \<Longrightarrow>
    (\<And>n. n < k \<Longrightarrow> square_button w h {} n (button_list s ! n)) \<Longrightarrow>
    \<exists>es s'. grid_loop blocks w h (map (\<lambda>n. (n mod 5, n div 5)) [k..<25]) [0..<k] s = Some ([0..<25], es, s') \<and>
      grid_screen w h {} s' \<and> swap s' = swap s \<and> width_limit s' = width_limit s \<and> height_limit s' = height_limit s"
proof (induction "25 - k" arbitrary: k s)
  case 0
  then have k: "k = 25" by simp
  then have "length (button_list s) = 25" "\<forall>n<25. square_button w h {} n (button_list s ! n)" using 0 by blast+
  then show ?case unfolding k by (simp add: grid_screen_def del: upt_Suc)
next
  case (Suc d)
  then have k: "k < 25" by simp
  obtain es c where g: "grid_button blocks w h (k mod 5) (k div 5) s =
      Some (k, es, s\<lparr>widget_id := word_of_int (int (Suc k) + 1), button_list := button_list s @ [c]\<rparr>)"
    "square_button w h {} k c"
    using grid_button_step [where blocks = blocks and s = s and w = w and h = h, OF assms Suc.prems(2,3) k] by blast
  let ?s = "s\<lparr>widget_id := word_of_int (int (Suc k) + 1), button_list := button_list s @ [c]\<rparr>"
  have "square_button w h {} n (button_list ?s ! n)" if "n < Suc k" for n
    using that Suc.prems(2,4) g(2) by (cases "n = k") (simp_all add: nth_append)
  then obtain e2 s2 where l: "grid_loop blocks w h (map (\<lambda>n. (n mod 5, n div 5)) [Suc k..<25]) [0..<Suc k] ?s = Some ([0..<25], e2, s2)"
    "grid_screen w h {} s2" "swap s2 = swap ?s" "width_limit s2 = width_limit ?s" "height_limit s2 = height_limit ?s"
    using Suc.hyps(1) [of "Suc k" ?s] Suc.hyps(2) Suc.prems(2) k by force
  have "[k..<25] = k # [Suc k..<25]" using k by (rule upt_conv_Cons)
  moreover have "[0..<Suc k] = [0..<k] @ [k]" by simp
  ultimately show ?case using g(1) l by (simp del: upt_Suc)
qed

text \<open>The two loops count the squares row by row.\<close>

lemma grid_pairs: "[(i, j). j \<leftarrow> [0..<BUTTON_HEIGHT_NUMBER], i \<leftarrow> [0..<BUTTON_WIDTH_NUMBER]] = map (\<lambda>n. (n mod 5, n div 5)) [0..<25]"
  unfolding BUTTON_HEIGHT_NUMBER_def BUTTON_WIDTH_NUMBER_def by code_simp

lemma grid_mpara:
  "map (\<lambda>k. \<lparr>p_this_bt = [0..<25] ! k, p_bt_list = [0..<25], p_len = BUTTON_WIDTH_NUMBER * BUTTON_HEIGHT_NUMBER\<rparr>)
     [0..<BUTTON_WIDTH_NUMBER * BUTTON_HEIGHT_NUMBER] = grid_paras"
proof -
  have n: "BUTTON_WIDTH_NUMBER * BUTTON_HEIGHT_NUMBER = 25" by (simp add: BUTTON_WIDTH_NUMBER_def BUTTON_HEIGHT_NUMBER_def)
  show ?thesis unfolding n grid_paras_def by (rule map_cong [OF refl]) (simp del: upt_Suc)
qed

text \<open>C12. The test of the touch screen from end to end: whatever points are touched, in whatever order and
  however often, it ends, with status 0, as soon as a point inside each of the 25 squares has been touched, and
  waits on as long as there is a square that has not. (With \<^verbatim>\<open>F1=1\<close> the touch screen is turned by half a turn.)\<close>

theorem touchbutton_ends:
  assumes "\<And>k. blocks k = Some (blk k)" and "button_list s0 = []"
    and "0 \<le> gr_fb_width G" "gr_fb_width G < 2147483648" "0 \<le> gr_fb_height G" "gr_fb_height G < 2147483648"
    and "open_keyboard_fd (en_open E) (en_devices E) = Some key_fd"
    and "open_button_fd (en_open E) (en_devices E) = Some bt_fd"
    and "0 \<le> en_epoll_ctl E bt_fd" and "0 \<le> en_epoll_ctl E key_fd"
    and "en_waits E = map (\<lambda>p. Ready [(bt_fd, report p)]) ps"
    and "\<forall>p \<in> set ps. on_screen (gr_fb_width G) (gr_fb_height G) p"
  shows "\<exists>es. touchbutton_main G E (Some F1) blocks s0 =
    Some (if {..<25} \<subseteq> squares (atoi F1 = 1) (gr_fb_width G) (gr_fb_height G) ps then Some 0 else None, es)"
proof -
  let ?W = "gr_fb_width G" and ?H = "gr_fb_height G"
  let ?s = "swap_if F1 (init_param G s0)"
  have s: "button_list ?s = []" "widget_id ?s = 1" "swap ?s = (if atoi F1 = 1 then 1 else 0)" "width_limit ?s = ?W" "height_limit ?s = ?H"
    using assms(2) by (simp_all add: swap_if_def set_swap_def init_param_def get_screen_width_def get_screen_height_def)
  obtain e1 s1 where l: "grid_loop blocks (?W sdiv 5) (?H sdiv 5) (map (\<lambda>n. (n mod 5, n div 5)) [0..<25]) [0..<0] ?s = Some ([0..<25], e1, s1)"
    "grid_screen (?W sdiv 5) (?H sdiv 5) {} s1" "swap s1 = swap ?s" "width_limit s1 = width_limit ?s" "height_limit s1 = height_limit ?s"
    using grid_loop_screen [where k = 0 and s = ?s and w = "?W sdiv 5" and h = "?H sdiv 5" and blocks = blocks, OF assms(1)] s(1,2) by auto
  have "swap s1 = (if atoi F1 = 1 then 1 else 0)" "width_limit s1 = ?W" "height_limit s1 = ?H" using l(3-5) s by simp_all
  moreover have "\<not> {..<25 :: nat} \<subseteq> {}" by (simp add: lessThan_empty_iff)
  ultimately obtain e2 s2 where n: "listen_loop (touch_callbacks grid_paras) bt_fd key_fd (en_waits E) [] s1 =
      (if {..<25} \<subseteq> squares (atoi F1 = 1) ?W ?H ps then Some 0 else None, e2, s2)"
    using listen_grid [OF assms(3-6) l(2) _ _ _ assms(12), of "atoi F1 = 1" bt_fd key_fd] unfolding assms(11) by auto
  have "start_listen (E\<lparr>en_func := touch_callbacks grid_paras\<rparr>) s1 =
      Some (if {..<25} \<subseteq> squares (atoi F1 = 1) ?W ?H ps then Some 0 else None, e2, s2)"
    using assms(7-10) n by (simp add: start_listen_def)
  then show ?thesis
    unfolding touchbutton_main_def Let_def grid_pairs get_screen_width_def get_screen_height_def
    using l(1) by (simp add: grid_mpara del: upt_Suc)
qed

definition touch_all :: "(int \<times> int) list" where
  "touch_all = (0, 0) # map (\<lambda>n. (64 * int (n mod 5) + 10, 80 * int (n div 5) + 20)) (rev [0..<25])"

theorem touchbutton_ends_witness:
  "\<exists>es. touchbutton_main flat_graphics \<lparr>en_open = (\<lambda>p. 5), en_devices = Some [], en_epoll_ctl = (\<lambda>_. 0),
      en_waits = map (\<lambda>p. Ready [(5, report p)]) touch_all, en_func = (\<lambda>_ _ s. s)\<rparr>
    (Some ''0'') (\<lambda>_. Some (plain_button 0 0)) (two_buttons\<lparr>button_list := []\<rparr>) = Some (Some 0, es)"
proof -
  have f: "atoi ''0'' \<noteq> 1" by code_simp
  have c: "{..<25} \<subseteq> squares False 320 400 touch_all" by code_simp
  have o: "\<forall>p \<in> set touch_all. on_screen 320 400 p" by code_simp
  show ?thesis
    using touchbutton_ends [of "\<lambda>_. Some (plain_button 0 0)" "\<lambda>_. plain_button 0 0" "two_buttons\<lparr>button_list := []\<rparr>" flat_graphics
      "\<lparr>en_open = (\<lambda>p. 5), en_devices = Some [], en_epoll_ctl = (\<lambda>_. 0),
      en_waits = map (\<lambda>p. Ready [(5, report p)]) touch_all, en_func = (\<lambda>_ _ s. s)\<rparr>" 5 5 touch_all "''0''"] f c o
    by (simp add: flat_graphics_def open_keyboard_fd_def open_button_fd_def find_dev_path_def)
qed

section \<open>The page that waits for a current\<close>

definition STANDARD_CURRENT :: int where "STANDARD_CURRENT = 100"
definition CURRENT_PATH :: string where "CURRENT_PATH = ''/sys/class/power_supply/battery/current_now''"

text \<open>What \<open>read(fd, buff, 5)\<close> does to the memory from \<open>buff\<close> on: a read fails, or delivers at most five characters of the
  text of the file. Nothing puts a NUL behind them.\<close>

definition read_buff :: "string option \<Rightarrow> string \<Rightarrow> string" where
  "read_buff r buff = (case r of None \<Rightarrow> buff | Some t \<Rightarrow> take 5 t @ drop (length (take 5 t)) buff)"

text \<open>The endless loop over the reads of a run: the value of \<open>flag\<close>, \<open>None\<close> when it is still reading.\<close>

fun current_loop :: "graphics \<Rightarrow> int \<Rightarrow> string option list \<Rightarrow> string \<Rightarrow> int \<Rightarrow> int option \<times> eff list" where
  "current_loop G x [] buff charge_flag = (None, [])"
| "current_loop G x (r # rs) buff charge_flag =
     (let buff = read_buff r buff;
          ret = atoi buff;
          (charge_flag, e1) =
            (if ret \<le> 0 \<and> charge_flag = 0
             then (-1, init_backguound G ''/system/pretest/stopcharge'' (word_of_int ((x - 242) sdiv 2)) 130)
             else (charge_flag, []))
      in if ret > 0 \<and> ret < STANDARD_CURRENT then (Some 0, e1)
         else if ret > STANDARD_CURRENT then (Some 1, e1)
         else let (flag, e2) = current_loop G x rs buff charge_flag in (flag, e1 @ e2))"

text \<open>\<open>reads fd\<close> are the results of the reads from a descriptor, \<open>buff\<close> the memory of the array before them. That the file
  could not be opened is only printed.\<close>

definition current_main :: "graphics \<Rightarrow> environment \<Rightarrow> string option \<Rightarrow> button option \<Rightarrow> (int \<Rightarrow> string option list) \<Rightarrow>
    string \<Rightarrow> screen \<Rightarrow> (int option \<times> eff list) option" where
  "current_main G E F1 block reads buff s =
     (let s = init_param G s in
      Option.bind F1 (\<lambda>p.
      let s = swap_if p s;
          x = get_screen_width G;
          e0 = init_backguound G ''/system/pretest/currenttest'' (word_of_int ((x - 242) sdiv 2)) 30
      in Option.bind (init_button G block True ''/system/pretest/rnextitem'' ''/system/pretest/pnextitem''
           (word_of_int ((x - 142) sdiv 2)) 240 s) (\<lambda>(_, e1, s).
         let bt_next = length (button_list s) - 1;
             (_, s) = set_button_mode (Some bt_next) ECS_LISTEN s;
             fd = en_open E CURRENT_PATH;
             (flag, e2) = current_loop G x (reads fd) buff 0
         in case flag of
              None \<Rightarrow> Some (None, e0 @ e1 @ e2)
            | Some flag \<Rightarrow>
                let e3 = (if flag = 0 then init_backguound G ''/system/pretest/currentsuccess'' (word_of_int ((x - 242) sdiv 2)) 130
                          else init_backguound G ''/system/pretest/currentfail'' (word_of_int ((x - 242) sdiv 2)) 130)
                in Option.bind (start_listen E s) (\<lambda>(r, e4, s).
                     Some (map_option (\<lambda>_. flag) r, e0 @ e1 @ e2 @ e3 @ e4)))))"

section \<open>Decimal numbers in the buffer\<close>

lemma decimal_char:
  assumes "d < 10"
  shows "(of_char (char_of (48 + d)) :: nat) = 48 + d" "(of_char (char_of (48 + d)) :: int) = 48 + int d"
proof -
  show n: "(of_char (char_of (48 + d)) :: nat) = 48 + d" using assms by simp
  have "(of_char (char_of (48 + d)) :: int) = int (of_char (char_of (48 + d)))" by (rule of_nat_of_char [symmetric])
  then show "(of_char (char_of (48 + d)) :: int) = 48 + int d" unfolding n by simp
qed

lemma atol_digits_show: "atol_digits (show_nat n @ t) acc = atol_digits t (acc * 10 ^ length (show_nat n) + int n)"
proof (induction n arbitrary: t acc rule: show_nat.induct)
  case (1 n)
  show ?case
  proof (cases "n < 10")
    case True
    then show ?thesis by (simp add: show_nat.simps [of n] decimal_char)
  next
    case False
    define q where "q = n div 10"
    define m where "m = n mod 10"
    have m: "m < 10" "int n = int q * 10 + int m" by (simp_all add: m_def q_def) presburger
    have s: "show_nat n = show_nat q @ [char_of (48 + m)]" using False by (simp add: show_nat.simps q_def m_def)
    have IH: "atol_digits (show_nat q @ t) acc = atol_digits t (acc * 10 ^ length (show_nat q) + int q)" for t acc
      unfolding q_def by (rule "1.IH" [OF False])
    have "atol_digits (char_of (48 + m) # t) a = atol_digits t (a * 10 + int m)" for a
      using decimal_char [OF m(1)] m(1) by simp
    then show ?thesis unfolding s append_assoc IH m(2) by (simp add: algebra_simps)
  qed
qed

lemma show_nat_hd: "\<exists>c cs. show_nat n = c # cs \<and> 48 \<le> (of_char c :: nat) \<and> (of_char c :: nat) \<le> 57"
proof (induction n rule: show_nat.induct)
  case (1 n)
  show ?case
  proof (cases "n < 10")
    case True
    then show ?thesis by (simp add: show_nat.simps)
  next
    case False
    then show ?thesis using "1.IH" [OF False] by (auto simp: show_nat.simps [of n])
  qed
qed

lemma length_show_nat: "n < 10 ^ Suc k \<Longrightarrow> length (show_nat n) \<le> Suc k"
proof (induction k arbitrary: n)
  case (Suc k)
  then have "n div 10 < 10 ^ Suc k" by (simp add: less_mult_imp_div_less)
  then show ?case using Suc.IH [of "n div 10"] by (subst show_nat.simps) simp
qed (simp add: show_nat.simps)

text \<open>A number as the kernel prints it. Only its first five characters are read; what was in the buffer
  before follows them.\<close>

definition reading :: "int \<Rightarrow> string" where
  "reading i = (if i < 0 then CHR ''-'' # show_nat (nat (- i)) else show_nat (nat i)) @ [CHR 0x0A]"

lemma atol_digits_mono: "0 \<le> acc \<Longrightarrow> acc \<le> atol_digits xs acc"
proof (induction xs arbitrary: acc)
  case (Cons c xs)
  show ?case
  proof (cases "48 \<le> (of_char c :: nat) \<and> (of_char c :: nat) \<le> 57")
    case True
    have "(of_char c :: int) = int (of_char c)" by (rule of_nat_of_char [symmetric])
    then have "0 \<le> acc * 10 + (of_char c - 48) \<and> acc \<le> acc * 10 + (of_char c - 48)" using True Cons.prems by auto
    then show ?thesis using Cons.IH [of "acc * 10 + (of_char c - 48)"] True by auto
  next
    case False
    then show ?thesis by (simp only: atol_digits.simps if_False order_refl)
  qed
qed simp

lemma atol_show: "atol (show_nat n @ r) = atol_digits r (int n)"
proof -
  obtain c cs where c: "show_nat n = c # cs" "48 \<le> (of_char c :: nat)" "(of_char c :: nat) \<le> 57" using show_nat_hd by blast
  then have d: "\<not> is_space c" "c \<noteq> CHR ''-''" "c \<noteq> CHR ''+''" by (auto simp: is_space_def)
  have "atol (show_nat n @ r) = atol_digits (show_nat n @ r) 0" using d by (simp add: atol_def c(1))
  then show ?thesis by (simp add: atol_digits_show)
qed

lemma atoi_small: "n < 10000 \<Longrightarrow> atoi (read_buff (Some (reading (int n))) buff) = int n"
proof -
  assume n: "n < 10000"
  then have "length (reading (int n)) \<le> 5" using length_show_nat [of n 3] by (simp add: reading_def)
  then obtain r where "read_buff (Some (reading (int n))) buff = show_nat n @ CHR 0x0A # r"
    by (simp add: read_buff_def reading_def)
  then show ?thesis using n by (simp add: atoi_def atol_show)
qed

lemma show_nat_prefix: "1000 \<le> n \<Longrightarrow> \<exists>q t. show_nat n = show_nat q @ t \<and> 1000 \<le> q \<and> q < 10000"
proof (induction n rule: show_nat.induct)
  case (1 n)
  show ?case
  proof (cases "n < 10000")
    case True
    then show ?thesis using "1.prems" by (intro exI [of _ n] exI [of _ "[]"]) simp
  next
    case False
    then have "\<not> n < 10" "1000 \<le> n div 10" by simp_all
    from "1.IH" [OF this] obtain q t where "show_nat (n div 10) = show_nat q @ t" "1000 \<le> q" "q < 10000" by blast
    moreover have "show_nat n = show_nat (n div 10) @ [char_of (48 + n mod 10)]"
      using False by (simp add: show_nat.simps [of n])
    ultimately show ?thesis by (intro exI [of _ q] exI [of _ "t @ [char_of (48 + n mod 10)]"]) simp
  qed
qed

lemma atoi_large: "1000 \<le> n \<Longrightarrow> 100 < atoi (read_buff (Some (reading (int n))) buff)"
proof -
  assume "1000 \<le> n"
  then obtain q t where q: "show_nat n = show_nat q @ t" "1000 \<le> q" "q < 10000" using show_nat_prefix by blast
  have "length (show_nat q) \<le> 5" using length_show_nat [of q 3] q(3) by simp
  then obtain r where "read_buff (Some (reading (int n))) buff = show_nat q @ r"
    by (simp add: read_buff_def reading_def q(1))
  then show ?thesis using atol_digits_mono [of "int q" r] q(2) by (simp add: atoi_def atol_show)
qed

lemma atoi_negative: "i < 0 \<Longrightarrow> atoi (read_buff (Some (reading i)) buff) \<le> 0"
proof -
  assume "i < 0"
  then obtain r where "read_buff (Some (reading i)) buff = CHR ''-'' # r"
    by (simp add: read_buff_def reading_def)
  moreover have "\<not> is_space (CHR ''-'')" by (simp add: is_space_def)
  ultimately show ?thesis using atol_digits_mono [of 0 r] by (simp add: atoi_def atol_def)
qed

text \<open>So every reading is taken for what it is, although it may be cut.\<close>

lemma atoi_reading:
  defines "v \<equiv> \<lambda>i buff. atoi (read_buff (Some (reading i)) buff)"
  shows "i \<le> 0 \<Longrightarrow> v i buff \<le> 0" "0 < i \<Longrightarrow> i < 100 \<Longrightarrow> 0 < v i buff \<and> v i buff < 100"
    "v 100 buff = 100" "100 < i \<Longrightarrow> 100 < v i buff"
proof -
  show "v i buff \<le> 0" if "i \<le> 0"
    using atoi_negative [of i buff] atoi_small [of 0 buff] that by (cases "i = 0") (auto simp: v_def)
  show "0 < v i buff \<and> v i buff < 100" if "0 < i" "i < 100"
    using atoi_small [of "nat i" buff] that by (simp add: v_def)
  show "v 100 buff = 100" using atoi_small [of 100 buff] by (simp add: v_def)
  show "100 < v i buff" if "100 < i"
    using atoi_small [of "nat i" buff] atoi_large [of "nat i" buff] that by (cases "i < 10000") (auto simp: v_def)
qed

section \<open>What the page answers\<close>

definition verdict :: "int list \<Rightarrow> int option" where
  "verdict is = (case dropWhile (\<lambda>i. i \<le> 0 \<or> i = 100) is of [] \<Rightarrow> None | i # _ \<Rightarrow> Some (if i < 100 then 0 else 1))"

lemma current_loop_verdict:
  "\<exists>es. current_loop G x (map (\<lambda>i. Some (reading i)) is) buff cf = (verdict is, es)"
proof (induction "is" arbitrary: buff cf)
  case (Cons i "is")
  note v = atoi_reading(1,2) [of i buff] atoi_reading(3) [of buff] atoi_reading(4) [of i buff]
  consider "i \<le> 0" | "i = 100" | "0 < i" "i < 100" | "100 < i" by linarith
  then show ?case
  proof cases
    case 1
    obtain es where "current_loop G x (map (\<lambda>i. Some (reading i)) is) (read_buff (Some (reading i)) buff)
      (if cf = 0 then -1 else cf) = (verdict is, es)" using Cons.IH by blast
    then show ?thesis using 1 v(1) by (auto simp: STANDARD_CURRENT_def verdict_def Let_def split: if_splits)
  next
    case 2
    obtain es where "current_loop G x (map (\<lambda>i. Some (reading i)) is) (read_buff (Some (reading i)) buff) cf = (verdict is, es)"
      using Cons.IH by blast
    then show ?thesis using 2 v(3) by (simp add: STANDARD_CURRENT_def verdict_def Let_def)
  next
    case 3
    then show ?thesis using v(2) by (simp add: STANDARD_CURRENT_def verdict_def Let_def)
  next
    case 4
    then show ?thesis using v(4) by (simp add: STANDARD_CURRENT_def verdict_def Let_def)
  qed
qed (simp add: verdict_def)

text \<open>A page with one button that ends the program: a touch that ends on it does.\<close>

lemma one_button_ends:
  assumes s: "button_list s = [b]" "swap s = 0" and b: "0 < b_id b" "b_mode b = ECS_LISTEN" "b_func b = None" "b_Fast_Touch b = DISABLE"
    and p: "b_ps b = \<lparr>f_position_x = word_of_int x, f_position_y = word_of_int y, iconWidth = w, iconHeight = h\<rparr>"
    and x: "0 \<le> x" "x < px" "px < x + w" "x + w < 4294967296" and y: "0 \<le> y" "y < py" "py < y + h" "y + h < 4294967296"
    and ps: "ps \<noteq> []" "last ps = (px, py)"
  shows "\<exists>es s'. listen_loop cb bt_fd key_fd (Ready [(bt_fd, concat (map report ps) @ [release])] # ws) [] s = (Some 0, es, s')"
proof -
  have "slow s" using s(1) b(4) by (simp add: slow_def)
  moreover have i: "id_under s (last ps) = b_id b"
    using inside [OF x] inside [OF y] s p ps(2) by (simp add: id_under_def id_at_def point_def istouchingbutton_def)
  ultimately obtain es s1 where c: "catch_action_for_button (concat (map report ps) @ [release]) s = (b_id b, es, s1, [])"
    "same_screen s s1"
    using catch_touch [of s ps "[]"] ps(1) by auto
  obtain b1 where b1: "button_list s1 = [b1]" "shape b1 = shape b"
    using c(2) s(1) by (auto simp: same_screen_def Cons_eq_map_conv)
  then have "\<exists>e2 s2. on_button cb (b_id b) s1 = (e2, s2, True)"
    using b shape_all [OF b1(2)] by (auto simp: on_button_def Let_def)
  then show ?thesis using c(1) by auto
qed

text \<open>C35. The page decides with the first current that is positive and not exactly 100: below 100 the status is 0,
  above it 1, given when the button is touched. While the battery reports 100, 0 or less, there is no decision. So it is for
  every sequence of readings, also for those of more than five characters, of which the page reads only the first five in front
  of what was in the buffer before.\<close>

theorem current_verdict:
  assumes "reads (en_open E CURRENT_PATH) = map (\<lambda>i. Some (reading i)) is"
    and "\<And>surf. gr_get_width G surf = w" and "\<And>surf. gr_get_height G surf = h" and "button_list s0 = []" and "atoi F1 \<noteq> 1"
    and "142 \<le> gr_fb_width G" "gr_fb_width G < 2147483648" and "0 < w" "w \<le> 1000" and "0 < h" "h \<le> 1000"
    and "open_keyboard_fd (en_open E) (en_devices E) = Some key_fd"
    and "open_button_fd (en_open E) (en_devices E) = Some bt_fd"
    and "0 \<le> en_epoll_ctl E bt_fd" and "0 \<le> en_epoll_ctl E key_fd"
    and "en_waits E = Ready [(bt_fd, concat (map report ps) @ [release])] # ws"
    and "ps \<noteq> []" and "last ps = (px, py)" and "(gr_fb_width G - 142) div 2 < px" "px < (gr_fb_width G - 142) div 2 + w"
    and "240 < py" "py < 240 + h"
  shows "\<exists>es. current_main G E (Some F1) (Some b) reads buff s0 = Some (verdict is, es)"
proof -
  let ?W = "gr_fb_width G"
  let ?x = "(?W - 142) div 2"
  have x: "(?W - 142) sdiv 2 = ?x" using assms(6) by (cases "?W = 142") (simp_all add: signed_divide_int_def)
  let ?s = "swap_if F1 (init_param G s0)"
  have s: "button_list ?s = []" "widget_id ?s = 1" "swap ?s = 0"
    using assms(4,5) by (simp_all add: swap_if_def init_param_def)
  obtain b1 e1 s1 where b: "init_button G (Some b) True ''/system/pretest/rnextitem'' ''/system/pretest/pnextitem''
      (word_of_int ?x) 240 ?s = Some (b1, e1, s1)" using init_button_some by blast
  note B = init_button_result [OF b]
  let ?s1 = "s1\<lparr>button_list := [b1\<lparr>b_mode := ECS_LISTEN\<rparr>]\<rparr>"
  obtain e2 where l: "current_loop G ?W (map (\<lambda>i. Some (reading i)) is) buff 0 = (verdict is, e2)"
    using current_loop_verdict by blast
  have "b_ps b1 = \<lparr>f_position_x = word_of_int ?x, f_position_y = word_of_int 240, iconWidth = w, iconHeight = h\<rparr>"
    using B assms(2,3) by simp
  moreover have "0 \<le> ?x" "?x + w < 4294967296" using assms(6,7,9) by (simp, linarith)
  ultimately obtain e4 s4 where "listen_loop (en_func E) bt_fd key_fd (en_waits E) [] ?s1 = (Some 0, e4, s4)"
    using one_button_ends [of ?s1 "b1\<lparr>b_mode := ECS_LISTEN\<rparr>" ?x 240 w h px py ps "en_func E" bt_fd key_fd ws] assms(11,16-22) B s
    by auto
  then have st: "start_listen E ?s1 = Some (Some 0, e4, s4)" using assms(12-15) by (simp add: start_listen_def)
  show ?thesis
    using b B s l st assms(1)
    by (cases "verdict is") (auto simp: current_main_def get_screen_width_def x set_button_mode_def Let_def)
qed

theorem current_verdict_witness:
  "\<exists>es. current_main flat_graphics \<lparr>en_open = (\<lambda>p. 5), en_devices = Some [], en_epoll_ctl = (\<lambda>_. 0),
      en_waits = [Ready [(5, concat (map report [(10, 10), (100, 250)]) @ [release])]], en_func = (\<lambda>_ _ s. s)\<rparr>
    (Some ''0'') (Some (plain_button 0 0)) (\<lambda>_. map (\<lambda>i. Some (reading i)) [0, -12345, 100, 75, 120000]) (replicate 20 (CHR ''9''))
    (two_buttons\<lparr>button_list := []\<rparr>) = Some (Some 0, es)"
proof -
  have f: "atoi ''0'' \<noteq> 1" by code_simp
  show ?thesis
    using current_verdict [of "\<lambda>_. map (\<lambda>i. Some (reading i)) [0, -12345, 100, 75, 120000]"
      "\<lparr>en_open = (\<lambda>p. 5), en_devices = Some [], en_epoll_ctl = (\<lambda>_. 0),
      en_waits = [Ready [(5, concat (map report [(10, 10), (100, 250)]) @ [release])]], en_func = (\<lambda>_ _ s. s)\<rparr>"
      "[0, -12345, 100, 75, 120000]" flat_graphics 60 40 "two_buttons\<lparr>button_list := []\<rparr>" "''0''" 5 5 "[(10, 10), (100, 250)]" "[]" 100 250
      "plain_button 0 0"] f
    by (simp add: flat_graphics_def open_keyboard_fd_def open_button_fd_def find_dev_path_def verdict_def
        del: list.map concat.simps)
qed

end
