(* ===== verification/Drivers.thy ===== *)
theory Drivers
  imports Buffer CString
begin

text \<open>
  Two tests that question a sensor through its driver: \<^verbatim>\<open>test_heartrate/test_pah8001/test_pah8001.c\<close> (the heart
  rate sensor) and \<^verbatim>\<open>test_frizz/test_frizz.c\<close> (the sensor hub). A driver is a function from a request and
  its own state to what \<open>ioctl\<close> returns, what it stores and its next state. What \<open>getopt_long\<close> returns, with
  \<open>optarg\<close>, is a list; the descriptor that \<open>open\<close> returns is an argument. Messages and delays are left out.
\<close>

unbundle bit_operations_syntax

section \<open>The heart rate sensor\<close>

datatype bank_e = BANK0 | BANK1

record pah8001_reg =
  bank :: bank_e
  reg_addr :: u8
  reg_val :: u8

datatype pah_req = SENSOR_ENABLE_DISABLE int | SENSOR_FACTORY_TEST_START int
  | SENSOR_FACTORY_TEST_GET pah8001_reg | SENSOR_FACTORY_TEST_END

definition FACTORY_TESTING_CHECK_MECHANICAL_ASSEMBLY :: int where "FACTORY_TESTING_CHECK_MECHANICAL_ASSEMBLY = 1"
definition FACTORY_TESTING_CHECK_FRAME_AVERAGE :: int where "FACTORY_TESTING_CHECK_FRAME_AVERAGE = 2"
definition EFAULT :: int where "EFAULT = 14"

text \<open>The driver, which answers with the result and the register's value; its state, with the requests so far.\<close>

type_synonym 'd pah_driver = "pah_req \<Rightarrow> 'd \<Rightarrow> int \<times> u8 \<times> 'd"

type_synonym 'd pah = "pah_req list \<times> 'd"

definition pah_ioctl :: "'d pah_driver \<Rightarrow> pah_req \<Rightarrow> 'd pah \<Rightarrow> int \<times> u8 \<times> 'd pah" where
  "pah_ioctl D req st = (let (err, v, d) = D req (snd st) in (err, v, fst st @ [req], d))"

definition poweron :: "'d pah_driver \<Rightarrow> 'd pah \<Rightarrow> int \<times> 'd pah" where
  "poweron D st = (let (err, _, st) = pah_ioctl D (SENSOR_ENABLE_DISABLE 1) st in (err, st))"

definition poweroff :: "'d pah_driver \<Rightarrow> 'd pah \<Rightarrow> int \<times> 'd pah" where
  "poweroff D st = (let (err, _, st) = pah_ioctl D (SENSOR_ENABLE_DISABLE 0) st in (err, st))"

text \<open>The loop of the first test: an error of the driver, or how often the value was 6.\<close>

function assembly_loop :: "'d pah_driver \<Rightarrow> pah8001_reg \<Rightarrow> int \<Rightarrow> int \<Rightarrow> 'd pah \<Rightarrow> (int + int) \<times> 'd pah" where
  "assembly_loop D reg timeout count st =
     (let (err, v, st) = pah_ioctl D (SENSOR_FACTORY_TEST_GET reg) st in
      if err \<noteq> 0 then (Inl err, st)
      else
        let reg = reg\<lparr>reg_val := v\<rparr>;
            count = (if reg_val reg AND 0x07 = 6 then count + 1 else count)
        in if timeout > 0 then assembly_loop D reg (timeout - 1) count st else (Inr count, st))"
  by pat_completeness auto
termination by (relation "measure (\<lambda>(_, _, timeout, _). nat timeout)") auto

definition check_mechanical_assembly :: "'d pah_driver \<Rightarrow> u8 \<Rightarrow> int \<Rightarrow> 'd pah \<Rightarrow> int \<times> 'd pah" where
  "check_mechanical_assembly D v timeout st =
     (let timeout = signed_take_bit 31 (timeout * 10);
          (err, _, st) = pah_ioctl D (SENSOR_FACTORY_TEST_START FACTORY_TESTING_CHECK_MECHANICAL_ASSEMBLY) st in
      if err \<noteq> 0 then (err, st)
      else
        let reg = \<lparr>bank = BANK0, reg_addr = 0x08, reg_val = v\<rparr>;
            (r, st) = assembly_loop D reg timeout 0 st
        in case r of
             Inl err \<Rightarrow> (err, st)
           | Inr count \<Rightarrow>
               let (err, _, st) = pah_ioctl D SENSOR_FACTORY_TEST_END st in
               if err \<noteq> 0 then (err, st) else (if count > 5 then 0 else - EFAULT, st))"

text \<open>The second test reads as often, and leaves the loop when the driver fails.\<close>

function frame_loop :: "'d pah_driver \<Rightarrow> pah8001_reg \<Rightarrow> int \<Rightarrow> 'd pah \<Rightarrow> 'd pah" where
  "frame_loop D reg timeout st =
     (let (err, v, st) = pah_ioctl D (SENSOR_FACTORY_TEST_GET reg) st in
      if err \<noteq> 0 then st
      else
        let reg = reg\<lparr>reg_val := v\<rparr> in
        if timeout > 0 then frame_loop D reg (timeout - 1) st else st)"
  by pat_completeness auto
termination by (relation "measure (\<lambda>(_, _, timeout, _). nat timeout)") auto

definition check_frame_average :: "'d pah_driver \<Rightarrow> u8 \<Rightarrow> int \<Rightarrow> 'd pah \<Rightarrow> int \<times> 'd pah" where
  "check_frame_average D v timeout st =
     (let timeout = signed_take_bit 31 (timeout * 10);
          (err, _, st) = pah_ioctl D (SENSOR_FACTORY_TEST_START FACTORY_TESTING_CHECK_FRAME_AVERAGE) st in
      if err \<noteq> 0 then (err, st)
      else
        let reg = \<lparr>bank = BANK1, reg_addr = 0x1B, reg_val = v\<rparr>;
            st = frame_loop D reg timeout st;
            (err, _, st) = pah_ioctl D SENSOR_FACTORY_TEST_END st
        in if err \<noteq> 0 then (err, st) else (0, st))"

text \<open>The options: an exit status, or \<open>test\<close> and \<open>time\<close>.\<close>

fun pah_options :: "(int \<times> string) list \<Rightarrow> int \<Rightarrow> int \<Rightarrow> int + int \<times> int" where
  "pah_options [] test time = Inr (test, time)"
| "pah_options ((c, optarg) # cs) test time =
     (if c = 1 then pah_options cs (atoi optarg) time
      else if c = 2 then pah_options cs test (atoi optarg)
      else if c = 3 then Inl 0
      else Inl (-1))"

text \<open>\<open>v\<close> is what is in \<open>reg_val\<close>, which is not initialised.\<close>

definition pah8001_main :: "'d pah_driver \<Rightarrow> u8 \<Rightarrow> (int \<times> string) list \<Rightarrow> int \<Rightarrow> 'd pah \<Rightarrow> int \<times> 'd pah" where
  "pah8001_main D v cs fd st =
     (case pah_options cs (-1) (-1) of
        Inl r \<Rightarrow> (r, st)
      | Inr (test, time) \<Rightarrow>
          if test = -1 \<or> time = -1 then (0, st)
          else if fd < 0 then (-1, st)
          else
            let (_, st) = poweron D st;
                (err, st) = (if test = 1 then check_mechanical_assembly D v time st
                             else if test = 2 then check_frame_average D v time st
                             else (-1, st));
                (_, st) = poweroff D st
            in (err, st))"

section \<open>The sensor hub\<close>

definition MAX_HWFRIZZ_FIFO_SIZE :: nat where "MAX_HWFRIZZ_FIFO_SIZE = 64"
definition ENODEV :: int where "ENODEV = 19"

text \<open>The driver is given the number of a sensor, and answers with a count and the words of \<open>raw_data\<close>.\<close>

type_synonym 'd frizz_driver = "u32 \<Rightarrow> 'd \<Rightarrow> int \<times> u32 list \<times> 'd"

function try_loop :: "'d frizz_driver \<Rightarrow> u32 \<Rightarrow> int \<Rightarrow> int \<Rightarrow> 'd \<Rightarrow> int \<times> u32 list \<times> 'd" where
  "try_loop D sensor_id want try_times d =
     (let (cnt, raw_data, d) = D sensor_id d;
          try_times = try_times - 1
      in if try_times > 0 \<and> cnt \<noteq> want then try_loop D sensor_id want try_times d else (cnt, raw_data, d))"
  by pat_completeness auto
termination by (relation "measure (\<lambda>(_, _, _, try_times, _). nat try_times)") auto

text \<open>What the three tests have in common; they print as many words as the driver counted, from an array of 64.\<close>

definition sensor_test :: "'d frizz_driver \<Rightarrow> u32 \<Rightarrow> int \<Rightarrow> u32 \<Rightarrow> nat list \<Rightarrow> 'd \<Rightarrow> stop + int \<times> 'd" where
  "sensor_test D sensor_id want header data d =
     (let (cnt, raw_data, d) = try_loop D sensor_id want 5 d;
          err = (if raw_data ! 0 = header \<and> list_all (\<lambda>i. raw_data ! i \<noteq> 0) data then 0 else - ENODEV)
      in if cnt > int MAX_HWFRIZZ_FIFO_SIZE then Inl Fault else Inr (err, d))"

definition frizz_gsensor_test :: "'d frizz_driver \<Rightarrow> 'd \<Rightarrow> stop + int \<times> 'd" where
  "frizz_gsensor_test D d = sensor_test D 0x80 5 0xff808004 [1, 2, 3, 4] d"

definition frizz_gyro_test :: "'d frizz_driver \<Rightarrow> 'd \<Rightarrow> stop + int \<times> 'd" where
  "frizz_gyro_test D d = sensor_test D 0x82 6 0xff808205 [1, 2, 3, 4, 5] d"

definition frizz_magent_test :: "'d frizz_driver \<Rightarrow> 'd \<Rightarrow> stop + int \<times> 'd" where
  "frizz_magent_test D d = sensor_test D 0x81 5 0xff808104 [1, 2, 3, 4] d"

fun frizz_options :: "int list \<Rightarrow> bool \<Rightarrow> bool \<Rightarrow> bool \<Rightarrow> int + bool \<times> bool \<times> bool" where
  "frizz_options [] gsensor gyro magnet = Inr (gsensor, gyro, magnet)"
| "frizz_options (c # cs) gsensor gyro magnet =
     (if c = 1 then frizz_options cs True gyro magnet
      else if c = 2 then frizz_options cs gsensor True magnet
      else if c = 3 then frizz_options cs gsensor gyro True
      else if c = 4 then Inl 0
      else Inl (-1))"

definition frizz_main :: "'d frizz_driver \<Rightarrow> int list \<Rightarrow> int \<Rightarrow> 'd \<Rightarrow> stop + int \<times> 'd" where
  "frizz_main D cs fd d =
     (case frizz_options cs False False False of
        Inl r \<Rightarrow> Inr (r, d)
      | Inr (gsensor, gyro, magnet) \<Rightarrow>
          if fd < 0 then Inr (-1, d)
          else
            bindE (if gsensor then frizz_gsensor_test D d else Inr (0, d)) (\<lambda>(err, d).
            bindE (if gyro then frizz_gyro_test D d else Inr (err, d)) (\<lambda>(err, d).
            if magnet then frizz_magent_test D d else Inr (err, d))))"

declare assembly_loop.simps [simp del] frame_loop.simps [simp del] try_loop.simps [simp del]

section \<open>What the heart rate test answers\<close>

text \<open>The driver delivers some values, one for each read, and reports no error.\<close>

fun delivers :: "'d pah_driver \<Rightarrow> pah8001_reg \<Rightarrow> u8 list \<Rightarrow> 'd \<Rightarrow> 'd \<Rightarrow> bool" where
  "delivers D reg [] d d' \<longleftrightarrow> d' = d"
| "delivers D reg (v # vs) d d' \<longleftrightarrow>
     (\<exists>d1. D (SENSOR_FACTORY_TEST_GET reg) d = (0, v, d1) \<and> delivers D (reg\<lparr>reg_val := v\<rparr>) vs d1 d')"

definition sixes :: "u8 list \<Rightarrow> int" where
  "sixes vs = int (length (filter (\<lambda>v. v AND 0x07 = 6) vs))"

lemma assembly_loop_counts:
  assumes "delivers D reg vs d d'" and "length vs = Suc (nat timeout)"
  shows "\<exists>log'. assembly_loop D reg timeout count (log, d) = (Inr (count + sixes vs), log', d')"
  using assms
proof (induction vs arbitrary: reg timeout count log d)
  case (Cons v vs)
  obtain d1 where d1: "D (SENSOR_FACTORY_TEST_GET reg) d = (0, v, d1)" "delivers D (reg\<lparr>reg_val := v\<rparr>) vs d1 d'"
    using Cons.prems(1) by auto
  show ?case
  proof (cases "timeout > 0")
    case True
    then have "length vs = Suc (nat (timeout - 1))" using Cons.prems(2) by simp
    then obtain log' where "assembly_loop D (reg\<lparr>reg_val := v\<rparr>) (timeout - 1) (if v AND 0x07 = 6 then count + 1 else count)
        (log @ [SENSOR_FACTORY_TEST_GET reg], d1) = (Inr ((if v AND 0x07 = 6 then count + 1 else count) + sixes vs), log', d')"
      using Cons.IH [OF d1(2)] by blast
    then show ?thesis using True d1(1) by (subst assembly_loop.simps) (simp add: pah_ioctl_def sixes_def)
  next
    case False
    then have "vs = []" using Cons.prems(2) by simp
    then show ?thesis using False d1 by (subst assembly_loop.simps) (simp add: pah_ioctl_def sixes_def)
  qed
qed simp

text \<open>The first test of the heart rate sensor reads the register ten times a second and once more, and succeeds exactly
  when its low three bits were 6 more than five times; otherwise the status is \<open>-EFAULT\<close>.\<close>

theorem heartrate_verdict:
  assumes "pah_options cs (-1) (-1) = Inr (1, time)" and "0 \<le> time" "time * 10 < 2147483648" and "0 \<le> fd"
    and "D (SENSOR_ENABLE_DISABLE 1) d0 = (e1, v1, d1)"
    and "D (SENSOR_FACTORY_TEST_START 1) d1 = (0, v2, d2)"
    and "delivers D \<lparr>bank = BANK0, reg_addr = 0x08, reg_val = v\<rparr> vs d2 d3" and "length vs = Suc (nat (time * 10))"
    and "D SENSOR_FACTORY_TEST_END d3 = (0, v3, d4)"
  shows "fst (pah8001_main D v cs fd (log, d0)) = (if 5 < sixes vs then 0 else - EFAULT)"
proof -
  have t: "signed_take_bit 31 (time * 10) = time * 10" using assms(2,3) by (intro signed_take_bit_int_eq_self) simp_all
  obtain log' where "assembly_loop D \<lparr>bank = BANK0, reg_addr = 0x08, reg_val = v\<rparr> (time * 10) 0
      (log @ [SENSOR_ENABLE_DISABLE 1] @ [SENSOR_FACTORY_TEST_START 1], d2) = (Inr (0 + sixes vs), log', d3)"
    using assembly_loop_counts [OF assms(7,8)] by blast
  then show ?thesis
    using assms(1-6,9) by (simp add: pah8001_main_def poweron_def poweroff_def pah_ioctl_def check_mechanical_assembly_def t
        FACTORY_TESTING_CHECK_MECHANICAL_ASSEMBLY_def Let_def split: prod.splits)
qed

text \<open>A driver that delivers one value after the other.\<close>

definition tape_driver :: "u8 list pah_driver" where
  "tape_driver req vs = (case req of
       SENSOR_FACTORY_TEST_GET reg \<Rightarrow> (case vs of [] \<Rightarrow> (-1, reg_val reg, []) | v # vs \<Rightarrow> (0, v, vs))
     | _ \<Rightarrow> (0, 0, vs))"

lemma tape_delivers: "delivers tape_driver reg vs (vs @ rest) rest"
  by (induction vs arbitrary: reg) (simp_all add: tape_driver_def)

theorem heartrate_verdict_witness:
  "fst (pah8001_main tape_driver 0 [(1, ''1''), (2, ''1'')] 3 ([], [6, 0x0E, 5, 6, 7, 6, 6, 0, 0xFE, 1, 2])) = 0"
proof -
  have a: "atoi ''1'' = 1" by code_simp
  have s: "sixes [6, 0x0E, 5, 6, 7, 6, 6, 0, 0xFE, 1, 2] = 6" by code_simp
  let ?vs = "[6, 0x0E, 5, 6, 7, 6, 6, 0, 0xFE, 1, 2] :: u8 list"
  have d: "delivers tape_driver \<lparr>bank = BANK0, reg_addr = 0x08, reg_val = 0\<rparr> ?vs ?vs []"
    using tape_delivers [of _ ?vs "[]"] by (simp only: append_Nil2)
  show ?thesis
    using heartrate_verdict [OF _ _ _ _ _ _ d, of "[(1, ''1''), (2, ''1'')]" 1 3 ?vs 0 0 ?vs 0 0 "[]" "[]"]
    by (simp add: a s tape_driver_def)
qed

section \<open>What is asked of the driver\<close>

text \<open>Requests that neither switch the sensor on nor off.\<close>

definition quiet :: "pah_req list \<Rightarrow> bool" where
  "quiet rs \<longleftrightarrow> (\<forall>r \<in> set rs. \<forall>en. r \<noteq> SENSOR_ENABLE_DISABLE en)"

lemma quiet_simps [simp]: "quiet []" "quiet (r # rs) \<longleftrightarrow> (\<forall>en. r \<noteq> SENSOR_ENABLE_DISABLE en) \<and> quiet rs"
  "quiet (rs @ rs') \<longleftrightarrow> quiet rs \<and> quiet rs'"
  by (auto simp: quiet_def)

lemma assembly_loop_log: "\<exists>rs r d'. assembly_loop D reg timeout count (log, d) = (r, log @ rs, d') \<and> quiet rs"
proof (induction "nat timeout" arbitrary: reg timeout count log d)
  case 0
  then show ?case by (subst assembly_loop.simps) (auto simp: pah_ioctl_def Let_def split: prod.splits)
next
  case (Suc n)
  obtain err v d1 where g: "D (SENSOR_FACTORY_TEST_GET reg) d = (err, v, d1)" by (rule prod_cases3)
  have "n = nat (timeout - 1)" using Suc.hyps(2) by simp
  from Suc.hyps(1) [OF this, of "reg\<lparr>reg_val := v\<rparr>" "if v AND 0x07 = 6 then count + 1 else count" "log @ [SENSOR_FACTORY_TEST_GET reg]" d1]
  obtain rs r d' where "assembly_loop D (reg\<lparr>reg_val := v\<rparr>) (timeout - 1) (if v AND 0x07 = 6 then count + 1 else count)
      (log @ [SENSOR_FACTORY_TEST_GET reg], d1) = (r, (log @ [SENSOR_FACTORY_TEST_GET reg]) @ rs, d')" "quiet rs" by blast
  then show ?case using Suc.hyps(2) g by (subst assembly_loop.simps) (auto simp: pah_ioctl_def Let_def)
qed

lemma frame_loop_log: "\<exists>rs d'. frame_loop D reg timeout (log, d) = (log @ rs, d') \<and> quiet rs"
proof (induction "nat timeout" arbitrary: reg timeout log d)
  case 0
  then show ?case by (subst frame_loop.simps) (auto simp: pah_ioctl_def Let_def split: prod.splits)
next
  case (Suc n)
  obtain err v d1 where g: "D (SENSOR_FACTORY_TEST_GET reg) d = (err, v, d1)" by (rule prod_cases3)
  have "n = nat (timeout - 1)" using Suc.hyps(2) by simp
  from Suc.hyps(1) [OF this, of "reg\<lparr>reg_val := v\<rparr>" "log @ [SENSOR_FACTORY_TEST_GET reg]" d1]
  obtain rs d' where "frame_loop D (reg\<lparr>reg_val := v\<rparr>) (timeout - 1) (log @ [SENSOR_FACTORY_TEST_GET reg], d1) =
      ((log @ [SENSOR_FACTORY_TEST_GET reg]) @ rs, d')" "quiet rs" by blast
  then show ?case using Suc.hyps(2) g by (subst frame_loop.simps) (auto simp: pah_ioctl_def Let_def)
qed

lemma check_mechanical_assembly_log:
  "\<exists>rs r d'. check_mechanical_assembly D v time (log, d) = (r, log @ rs, d') \<and> quiet rs"
proof -
  let ?t = "signed_take_bit 31 (time * 10)" and ?r = "\<lparr>bank = BANK0, reg_addr = 0x08, reg_val = v\<rparr>"
  obtain e w d1 where s: "D (SENSOR_FACTORY_TEST_START 1) d = (e, w, d1)" by (rule prod_cases3)
  obtain rs r d2 where l: "assembly_loop D ?r ?t 0 (log @ [SENSOR_FACTORY_TEST_START 1], d1) =
      (r, (log @ [SENSOR_FACTORY_TEST_START 1]) @ rs, d2)" "quiet rs" using assembly_loop_log [of D ?r ?t 0 "log @ [SENSOR_FACTORY_TEST_START 1]" d1] by blast
  show ?thesis using s l
    by (cases r) (auto simp: check_mechanical_assembly_def pah_ioctl_def FACTORY_TESTING_CHECK_MECHANICAL_ASSEMBLY_def Let_def
        split: prod.splits)
qed

lemma check_frame_average_log:
  "\<exists>rs r d'. check_frame_average D v time (log, d) = (r, log @ rs, d') \<and> quiet rs"
proof -
  let ?t = "signed_take_bit 31 (time * 10)" and ?r = "\<lparr>bank = BANK1, reg_addr = 0x1B, reg_val = v\<rparr>"
  obtain e w d1 where s: "D (SENSOR_FACTORY_TEST_START 2) d = (e, w, d1)" by (rule prod_cases3)
  obtain rs d2 where l: "frame_loop D ?r ?t (log @ [SENSOR_FACTORY_TEST_START 2], d1) =
      ((log @ [SENSOR_FACTORY_TEST_START 2]) @ rs, d2)" "quiet rs" using frame_loop_log [of D ?r ?t "log @ [SENSOR_FACTORY_TEST_START 2]" d1] by blast
  show ?thesis using s l
    by (auto simp: check_frame_average_def pah_ioctl_def FACTORY_TESTING_CHECK_FRAME_AVERAGE_def Let_def split: prod.splits)
qed

text \<open>What the program relies on in a test: it neither switches the sensor on nor off, whatever the driver answers.\<close>

locale factory_test =
  fixes test :: "'d pah_driver \<Rightarrow> u8 \<Rightarrow> int \<Rightarrow> 'd pah \<Rightarrow> int \<times> 'd pah"
  assumes test_quiet: "\<exists>rs r d'. test D v time (log, d) = (r, log @ rs, d') \<and> quiet rs"
begin

text \<open>Between the two switches its requests stand alone.\<close>

lemma switched:
  "\<exists>qs r d'. (let (_, st) = poweron D (log, d); (err, st) = test D v time st; (_, st) = poweroff D st in (err, st)) =
    (r, log @ [SENSOR_ENABLE_DISABLE 1] @ qs @ [SENSOR_ENABLE_DISABLE 0], d') \<and> quiet qs"
proof -
  obtain e w d1 where p: "D (SENSOR_ENABLE_DISABLE 1) d = (e, w, d1)" by (rule prod_cases3)
  obtain qs r d2 where q: "test D v time (log @ [SENSOR_ENABLE_DISABLE 1], d1) = (r, (log @ [SENSOR_ENABLE_DISABLE 1]) @ qs, d2)"
    "quiet qs" using test_quiet by blast
  obtain e' w' d3 where "D (SENSOR_ENABLE_DISABLE 0) d2 = (e', w', d3)" by (rule prod_cases3)
  then show ?thesis using p q by (simp add: poweron_def poweroff_def pah_ioctl_def)
qed

end

interpretation asm: factory_test check_mechanical_assembly
  by unfold_locales (rule check_mechanical_assembly_log)

interpretation frm: factory_test check_frame_average
  by unfold_locales (rule check_frame_average_log)

interpretation none: factory_test "\<lambda>_ _ _ st. (-1, st)"
  by unfold_locales simp

text \<open>C34. Whatever the driver answers and whatever the options are, a sensor that the program switches on is switched off
  again by its last request, and not switched in between.\<close>

theorem sensor_switched_off:
  "\<exists>rs r d'. pah8001_main D v cs fd (log, d) = (r, log @ rs, d') \<and>
    (rs = [] \<or> (\<exists>qs. rs = [SENSOR_ENABLE_DISABLE 1] @ qs @ [SENSOR_ENABLE_DISABLE 0] \<and> quiet qs))"
proof (cases "\<exists>test time. pah_options cs (-1) (-1) = Inr (test, time) \<and> test \<noteq> -1 \<and> time \<noteq> -1 \<and> \<not> fd < 0")
  case True
  then obtain test time where t: "pah_options cs (-1) (-1) = Inr (test, time)" "test \<noteq> -1" "time \<noteq> -1" "\<not> fd < 0" by blast
  consider "test = 1" | "test = 2" | "test \<noteq> 1" "test \<noteq> 2" by blast
  then have "\<exists>qs r d'. pah8001_main D v cs fd (log, d) =
      (r, log @ [SENSOR_ENABLE_DISABLE 1] @ qs @ [SENSOR_ENABLE_DISABLE 0], d') \<and> quiet qs"
  proof cases
    case 1
    then show ?thesis using asm.switched [of D log d v time] t by (simp add: pah8001_main_def)
  next
    case 2
    then show ?thesis using frm.switched [of D log d v time] t by (simp add: pah8001_main_def)
  next
    case 3
    then show ?thesis using none.switched [of D log d] t by (simp add: pah8001_main_def)
  qed
  then show ?thesis by blast
next
  case False
  then have "pah8001_main D v cs fd (log, d) = (fst (pah8001_main D v cs fd (log, d)), log @ [], d)"
    by (auto simp: pah8001_main_def split: sum.splits)
  then show ?thesis by blast
qed

text \<open>But when a read fails in the first test, the driver is never told that the test has ended.\<close>

lemma assembly_not_ended:
  assumes "D (SENSOR_FACTORY_TEST_START 1) d = (0, w, d1)"
    and "D (SENSOR_FACTORY_TEST_GET \<lparr>bank = BANK0, reg_addr = 0x08, reg_val = v\<rparr>) d1 = (e, w', d2)" and "e \<noteq> 0"
  shows "check_mechanical_assembly D v time (log, d) = (e, log @ [SENSOR_FACTORY_TEST_START 1,
    SENSOR_FACTORY_TEST_GET \<lparr>bank = BANK0, reg_addr = 0x08, reg_val = v\<rparr>], d2)"
  using assms by (simp add: check_mechanical_assembly_def pah_ioctl_def FACTORY_TESTING_CHECK_MECHANICAL_ASSEMBLY_def
      assembly_loop.simps Let_def)

text \<open>And the second test succeeds whatever the driver delivers, even when every read fails.\<close>

lemma frame_average_blind:
  assumes "\<And>d. fst (D (SENSOR_FACTORY_TEST_START 2) d) = 0" and "\<And>d. fst (D SENSOR_FACTORY_TEST_END d) = 0"
  shows "fst (check_frame_average D v time st) = 0"
proof -
  have "fst (pah_ioctl D (SENSOR_FACTORY_TEST_START 2) st) = 0" "fst (pah_ioctl D SENSOR_FACTORY_TEST_END st') = 0" for st st'
    using assms by (simp_all add: pah_ioctl_def split_def Let_def)
  then show ?thesis
    by (simp add: check_frame_average_def FACTORY_TESTING_CHECK_FRAME_AVERAGE_def Let_def split_def)
qed

section \<open>What the test of the sensor hub answers\<close>

text \<open>The driver's answers one after the other, and the one that counts: the first with the count that is
  wanted, or the fifth.\<close>

fun answers :: "'d frizz_driver \<Rightarrow> u32 \<Rightarrow> (int \<times> u32 list) list \<Rightarrow> 'd \<Rightarrow> 'd \<Rightarrow> bool" where
  "answers D sensor_id [] d d' \<longleftrightarrow> d' = d"
| "answers D sensor_id ((cnt, raw) # as) d d' \<longleftrightarrow> (\<exists>d1. D sensor_id d = (cnt, raw, d1) \<and> answers D sensor_id as d1 d')"

lemma try_loop_answers:
  assumes "answers D sensor_id (as @ [(cnt, raw)]) d d'" and "\<forall>a \<in> set as. fst a \<noteq> want"
    and "int (length as) < tries" and "cnt = want \<or> int (length as) = tries - 1"
  shows "try_loop D sensor_id want tries d = (cnt, raw, d')"
  using assms
proof (induction as arbitrary: tries d)
  case Nil
  then show ?case by (subst try_loop.simps) (auto simp: Let_def)
next
  case (Cons a as)
  obtain c r where a: "a = (c, r)" by fastforce
  obtain d1 where d1: "D sensor_id d = (c, r, d1)" "answers D sensor_id (as @ [(cnt, raw)]) d1 d'"
    using Cons.prems(1) by (auto simp: a)
  have "try_loop D sensor_id want (tries - 1) d1 = (cnt, raw, d')"
    by (rule Cons.IH [OF d1(2)]) (use Cons.prems(2-4) in auto)
  then show ?case using Cons.prems(2,3) d1(1) by (subst try_loop.simps) (simp add: a)
qed

lemma sensor_test_answers:
  assumes "answers D sensor_id (as @ [(cnt, raw)]) d d'" and "\<forall>a \<in> set as. fst a \<noteq> want"
    and "length as < 5" and "cnt = want \<or> length as = 4" and "cnt \<le> 64"
  shows "sensor_test D sensor_id want header data d =
    Inr (if raw ! 0 = header \<and> (\<forall>i \<in> set data. raw ! i \<noteq> 0) then 0 else - ENODEV, d')"
  using try_loop_answers [OF assms(1,2), of 5] assms(3-5)
  by (simp add: sensor_test_def list_all_iff MAX_HWFRIZZ_FIFO_SIZE_def)

text \<open>The status of the test of the sensor hub is that of the last sensor that was asked for: when the
  magnetometer answers as it should, the status is 0 whatever the other two have answered.\<close>

theorem frizz_last_wins:
  assumes "frizz_options cs False False False = Inr (gsensor, gyro, True)" and "0 \<le> fd"
    and "gsensor \<Longrightarrow> \<exists>r. frizz_gsensor_test D d = Inr (r, d1)" and "\<not> gsensor \<Longrightarrow> d1 = d"
    and "gyro \<Longrightarrow> \<exists>r. frizz_gyro_test D d1 = Inr (r, d2)" and "\<not> gyro \<Longrightarrow> d2 = d1"
    and "D 0x81 d2 = (5, raw, d3)" and "raw ! 0 = 0xff808104" and "\<forall>i \<in> {1, 2, 3, 4}. raw ! i \<noteq> 0"
  shows "frizz_main D cs fd d = Inr (0, d3)"
proof -
  have "frizz_magent_test D d2 = Inr (0, d3)"
    using sensor_test_answers [where D = D and as = "[]" and cnt = 5 and raw = raw and d = d2 and d' = d3 and want = 5] assms(7-9)
    by (simp add: frizz_magent_test_def)
  moreover have "\<exists>r. (if gsensor then frizz_gsensor_test D d else Inr (0, d)) = Inr (r, d1)" using assms(3,4) by auto
  moreover have "\<exists>r'. (if gyro then frizz_gyro_test D d1 else Inr (r, d1)) = Inr (r', d2)" for r using assms(5,6) by auto
  ultimately show ?thesis using assms(1,2) by (force simp: frizz_main_def)
qed

text \<open>A hub in which only the magnetometer works.\<close>

definition half_dead_hub :: "unit frizz_driver" where
  "half_dead_hub sensor_id d =
     (if sensor_id = 0x81 then (5, [0xff808104, 1, 2, 3, 4] @ replicate 59 0, d) else (-1, replicate 64 0, d))"

theorem frizz_last_wins_witness:
  "frizz_gsensor_test half_dead_hub () = Inr (- ENODEV, ()) \<and> frizz_main half_dead_hub [1, 2, 3] 3 () = Inr (0, ())"
proof -
  have r: "replicate 64 (0 :: u32) ! 0 = 0" by (rule nth_replicate) simp
  have a: "answers half_dead_hub i (replicate 4 (-1, replicate 64 0) @ [(-1, replicate 64 0)]) () ()" if "i \<noteq> 0x81" for i
    using that by (simp add: half_dead_hub_def numeral_eq_Suc)
  have f: "sensor_test half_dead_hub i want h l () = Inr (- ENODEV, ())" if "i \<noteq> 0x81" "h \<noteq> 0" "0 < want" for i want h l
    using sensor_test_answers [OF a [OF that(1)], where want = want and header = h and data = l] that(2,3) r by simp
  have g: "frizz_gsensor_test half_dead_hub () = Inr (- ENODEV, ())" "frizz_gyro_test half_dead_hub () = Inr (- ENODEV, ())"
    unfolding frizz_gsensor_test_def frizz_gyro_test_def by (rule f; simp)+
  have "frizz_main half_dead_hub [1, 2, 3] 3 () = Inr (0, ())"
    by (rule frizz_last_wins [of _ True True _ _ _ "()" "()" "[0xff808104, 1, 2, 3, 4] @ replicate 59 0"])
      (use g in \<open>simp_all add: half_dead_hub_def\<close>)
  then show ?thesis using g by simp
qed

end
