(* ===== verification/Sensors.thy ===== *)
theory Sensors
  imports Getevent
begin

text \<open>
  The small tests that read a sensor through a file: \<^verbatim>\<open>test_gsensor.c\<close>, \<^verbatim>\<open>test_gyroscope.c\<close> and \<^verbatim>\<open>test_magnet.c\<close>
  (a log of \<^verbatim>\<open>getevent\<close>), \<^verbatim>\<open>test_mic.c\<close>, \<^verbatim>\<open>test_uv.c\<close>, \<^verbatim>\<open>test_barometer.c\<close> and \<^verbatim>\<open>test_gps.c\<close>. What an array
  holds before a \<open>read\<close> fills part of it is an argument. Messages and delays are left out.
\<close>

section \<open>Logs of a sensor\<close>

text \<open>The row in the buffer of 30 characters: an error, or the count of empty reports.\<close>

definition SYN_TEXT :: string where "SYN_TEXT = ''0000 0000 00000000''"

definition sensor_row :: "string list \<Rightarrow> string \<Rightarrow> int \<Rightarrow> int option" where
  "sensor_row keys buf count_0 =
     (if take 10 buf \<notin> set keys then
        (if take 18 buf \<noteq> SYN_TEXT then None else Some (count_0 + 1))
      else Some count_0)"

text \<open>The rows that are left. When there is no line for the last row the buffer is still cleared.\<close>

fun sensor_loop :: "string list \<Rightarrow> nat \<Rightarrow> string \<Rightarrow> int \<Rightarrow> int option" where
  "sensor_loop keys 0 t count_0 = Some count_0"
| "sensor_loop keys (Suc rows) t count_0 =
     (if fgets 30 t = None \<and> rows > 0 then None
      else
        let (line, t, eof) = (case fgets 30 t of None \<Rightarrow> ([], t, True) | Some r \<Rightarrow> r);
            buf = line @ replicate (30 - length line) NUL
        in case sensor_row keys buf count_0 of
             None \<Rightarrow> None
           | Some count_0 \<Rightarrow> if eof then Some count_0 else sensor_loop keys rows t count_0)"

definition sensor_main :: "string list \<Rightarrow> string list \<Rightarrow> (string \<Rightarrow> string option) \<Rightarrow> int" where
  "sensor_main keys args files =
     (case args of
        [name] \<Rightarrow>
          (case files name of
             None \<Rightarrow> -1
           | Some t \<Rightarrow>
               (case sensor_loop keys 8 t 0 of
                  None \<Rightarrow> -1
                | Some count_0 \<Rightarrow> if count_0 > 3 then -1 else 0))
      | _ \<Rightarrow> -1)"

definition gsensor_main :: "string list \<Rightarrow> (string \<Rightarrow> string option) \<Rightarrow> int" where
  "gsensor_main = sensor_main [''0003 0000 '', ''0003 0001 '', ''0003 0002 '']"

definition gyroscope_main :: "string list \<Rightarrow> (string \<Rightarrow> string option) \<Rightarrow> int" where
  "gyroscope_main = sensor_main [''0003 003c '', ''0003 003d '', ''0003 003e '']"

definition magnet_main :: "string list \<Rightarrow> (string \<Rightarrow> string option) \<Rightarrow> int" where
  "magnet_main = sensor_main [''0003 0010 '', ''0003 0011 '', ''0003 000a '']"

section \<open>Devices\<close>

text \<open>What an array holds after a \<open>read\<close> that delivered \<open>b\<close>.\<close>

definition fill :: "'a list \<Rightarrow> 'a list \<Rightarrow> 'a list" where
  "fill arr b = b @ drop (length b) arr"

text \<open>The loop of the microphone test, with the turns that are left: a second byte is only looked at, and passed, when the first
  matches.\<close>

fun mic_loop :: "nat \<Rightarrow> nat \<Rightarrow> bytes \<Rightarrow> int \<Rightarrow> int" where
  "mic_loop 0 j buf continue_num = continue_num"
| "mic_loop (Suc k) j buf continue_num =
     (if buf ! j = 0x73 then
        (if buf ! (j + 1) = 0xfa then mic_loop k (j + 2) buf (continue_num + 1) else mic_loop k (j + 2) buf continue_num)
      else mic_loop k (j + 1) buf continue_num)"

definition mic_main :: "bytes \<Rightarrow> fs \<Rightarrow> int \<times> fs" where
  "mic_main buf s =
     (let (fd, s) = f_open ''/dev/jz-dmic'' O_RDONLY False s in
      if fd < 0 then (-1, s)
      else
        let (r, s) = f_read fd 1024 s in
        case r of
          None \<Rightarrow> (-1, f_close fd s)
        | Some b \<Rightarrow> if mic_loop 9 1 (fill buf b) 0 = 8 then (-1, s) else (0, s))"

definition uv_main :: "bytes \<Rightarrow> fs \<Rightarrow> int \<times> fs" where
  "uv_main buf s =
     (let (fd, s) = f_open ''/sys/si1132/uv_sensor_data'' O_RDONLY False s in
      if fd < 0 then (-1, s)
      else
        let (r, s) = f_read fd 4 s in
        case r of
          None \<Rightarrow> (-1, f_close fd s)
        | Some b \<Rightarrow> let buf = fill buf b in if buf ! 0 \<noteq> 0 \<and> buf ! 0 \<noteq> 48 then (0, s) else (-1, s))"

definition barometer_main :: "fs \<Rightarrow> int \<times> fs" where
  "barometer_main s =
     (let (fd, s) = f_open ''/sys/class/i2c-adapter/i2c-2/2-0077/pressure'' O_RDONLY False s in
      if fd < 0 then
        let (fd1, s) = f_open ''/sys/class/i2c-adapter/i2c-2/2-0044/name'' O_RDONLY False s in
        if fd1 < 0 then (-1, s)
        else
          let (fd2, s) = f_open ''/sys/class/i2c-adapter/i2c-2/2-0044/enable'' O_RDONLY False s in
          if fd2 < 0 then (-1, s)
          else
            let (r, s) = f_read fd1 9 s in
            (case r of
               None \<Rightarrow> (-1, f_close fd1 s)
             | Some b \<Rightarrow> if strncmp_eq (chars_of (fill (replicate 9 0) b)) ''pps210a2'' 8 then (0, s) else (-1, s))
      else
        let (r, s) = f_read fd 6 s in
        (case r of
           None \<Rightarrow> (-1, f_close fd s)
         | Some b \<Rightarrow> if strncmp_eq (chars_of (fill (replicate 6 0) b)) ''74104'' 5 then (0, s) else (-1, s)))"

section \<open>The receiver of positions\<close>

definition RFKILL_STATE :: string where "RFKILL_STATE = ''/sys/class/rfkill/rfkill1/state''"
definition TTYS1 :: string where "TTYS1 = ''/dev/ttyS1''"

text \<open>\<open>write\<close> of a string, and whether all of it was taken.\<close>

definition write_str :: "int \<Rightarrow> string \<Rightarrow> fs \<Rightarrow> bool \<times> fs" where
  "write_str fd t s = (let (r, s) = f_write fd (bytes_of t) s in (r = Some (length t), s))"

definition off_text :: string where "off_text = [CHR ''0'', CHR 0x0A]"
definition on_text :: string where "on_text = [CHR ''1'', CHR 0x0A]"

text \<open>The condition on the four bytes; \<open>None\<close> of \<open>c_string\<close> is a string that does not end in the array.\<close>

definition gps_found :: "string \<Rightarrow> stop + bool" where
  "gps_found buf =
     (case c_string buf of
        None \<Rightarrow> Inl Fault
      | Some t \<Rightarrow>
          Inr (buf ! 0 = NUL \<and> buf ! 1 = CHR ''$'' \<and> buf ! 2 = CHR ''G'' \<and> buf ! 3 = CHR ''P'' \<or>
               buf ! 0 = CHR ''$'' \<and> buf ! 1 = CHR ''G'' \<and> buf ! 2 = CHR ''P'' \<or> strstr t ''$GP'' \<noteq> None))"

definition oh_no :: "int \<Rightarrow> fs \<Rightarrow> int \<times> fs" where
  "oh_no fd1 s = (let (_, s) = write_str fd1 off_text s in (-1, s))"

definition oh_yes :: "int \<Rightarrow> fs \<Rightarrow> int \<times> fs" where
  "oh_yes fd1 s = (let (_, s) = write_str fd1 off_text s in (0, s))"

text \<open>The first \<open>read\<close> is from a descriptor that is only open for writing, so it fails; the condition that follows assigns
  and is always true.\<close>

definition gps_main :: "string \<Rightarrow> fs \<Rightarrow> stop + int \<times> fs" where
  "gps_main buf s =
     (let (fd1, s) = f_open RFKILL_STATE O_WRONLY False s in
      if fd1 < 0 then Inr (oh_no fd1 s)
      else
        let (fd, s) = f_open TTYS1 O_RDONLY False s in
        if fd < 0 then Inr (oh_no fd1 s)
        else
          let (ok, s) = write_str fd1 off_text s in
          if \<not> ok then Inr (oh_no fd1 s)
          else
            let (ok, s) = write_str fd1 on_text s in
            if \<not> ok then Inr (oh_no fd1 s)
            else
              let (r, s) = f_read fd 4 s in
              case r of
                None \<Rightarrow> Inr (oh_no fd1 (f_close fd s))
              | Some b \<Rightarrow> bindE (gps_found (fill buf (chars_of b))) (\<lambda>found.
                  Inr (if found then oh_yes fd1 s else oh_no fd1 s)))"

section \<open>Verdicts on a log\<close>

definition syn_event :: Getevent.input_event where "syn_event = (0, 0, 0)"

definition in_range :: "Getevent.input_event \<Rightarrow> bool" where
  "in_range e \<longleftrightarrow> fst e < 65536 \<and> fst (snd e) < 65536 \<and> snd (snd e) < 4294967296"

definition sensor_key :: "nat \<Rightarrow> string" where
  "sensor_key c = ''0003 '' @ show_hex 4 c @ '' ''"

lemma append_eq_same: "length a = length c \<Longrightarrow> a @ b = c @ d \<longleftrightarrow> a = c \<and> b = d"
  by simp

lemma row_key:
  assumes "in_range e" and "c < 65536"
  shows "take 10 (event_line e @ z) = sensor_key c \<longleftrightarrow> abs_event c e"
proof -
  obtain ty code v where e: "e = (ty, code, v)" by (cases e)
  have b: "ty < 16 ^ 4" "code < 16 ^ 4" "c < 16 ^ 4" using assms by (simp_all add: in_range_def e)
  have "take 10 (event_line e @ z) = show_hex 4 ty @ CHR '' '' # show_hex 4 code @ [CHR '' '']"
    by (simp add: e event_line_def)
  moreover have "sensor_key c = show_hex 4 3 @ CHR '' '' # show_hex 4 c @ [CHR '' '']"
  proof -
    have "show_hex 4 3 = ''0003''" by code_simp
    then show ?thesis by (simp add: sensor_key_def)
  qed
  ultimately show ?thesis
    using show_hex_inj [OF b(1), of 3] show_hex_inj [OF b(2,3)] by (simp add: append_eq_same e abs_event_def)
qed

lemma row_syn:
  assumes "in_range e"
  shows "take 18 (event_line e @ z) = SYN_TEXT \<longleftrightarrow> e = syn_event"
proof -
  obtain ty code v where e: "e = (ty, code, v)" by (cases e)
  have b: "ty < 16 ^ 4" "code < 16 ^ 4" "v < 16 ^ 8" using assms by (simp_all add: in_range_def e)
  have "take 18 (event_line e @ z) = show_hex 4 ty @ CHR '' '' # show_hex 4 code @ CHR '' '' # show_hex 8 v"
    by (simp add: e event_line_def)
  moreover have s: "SYN_TEXT = show_hex 4 0 @ CHR '' '' # show_hex 4 0 @ CHR '' '' # show_hex 8 0" by code_simp
  moreover have "show_hex 4 ty @ CHR '' '' # show_hex 4 code @ CHR '' '' # show_hex 8 v = SYN_TEXT \<longleftrightarrow>
      ty = 0 \<and> code = 0 \<and> v = 0"
    unfolding s using show_hex_inj [OF b(1), of 0] show_hex_inj [OF b(2), of 0] show_hex_inj [OF b(3), of 0]
    by (simp add: append_eq_same)
  ultimately show ?thesis by (simp add: e syn_event_def del: take_append)
qed

text \<open>The effect of one event: an axis of the sensor, an empty report, or something else.\<close>

definition sensor_event :: "nat list \<Rightarrow> Getevent.input_event \<Rightarrow> bool" where
  "sensor_event cs e \<longleftrightarrow> list_ex (\<lambda>c. abs_event c e) cs"

lemma sensor_row_event:
  assumes "in_range e" and "\<forall>c \<in> set cs. c < 65536"
  shows "sensor_row (map sensor_key cs) (event_line e @ z) n =
    (if sensor_event cs e then Some n else if e = syn_event then Some (n + 1) else None)"
proof -
  have "take 10 (event_line e @ z) \<in> set (map sensor_key cs) \<longleftrightarrow> (\<exists>c \<in> set cs. take 10 (event_line e @ z) = sensor_key c)"
    by auto
  also have "\<dots> \<longleftrightarrow> sensor_event cs e" using row_key [OF assms(1)] assms(2) by (auto simp: sensor_event_def list_ex_iff)
  finally show ?thesis by (simp add: sensor_row_def row_syn [OF assms(1)] del: set_map take_append)
qed

text \<open>The events that are looked at are all of the sensor or empty reports.\<close>

lemma sensor_loop_events:
  assumes "\<forall>c \<in> set cs. c < 65536"
  shows "list_all in_range es \<Longrightarrow> sensor_loop (map sensor_key cs) rows (concat (map event_line es)) n =
    (if rows \<le> length es \<and> list_all (\<lambda>e. sensor_event cs e \<or> e = syn_event) (take rows es)
     then Some (n + int (length (filter (\<lambda>e. \<not> sensor_event cs e) (take rows es)))) else None)"
proof (induction rows arbitrary: es n)
  case (Suc rows)
  show ?case
  proof (cases es)
    case Nil
    have "take 10 (replicate 30 NUL) \<notin> set (map sensor_key cs)" "take 18 (replicate 30 NUL) \<noteq> SYN_TEXT"
    proof -
      have z: "set (take n (replicate 30 NUL)) \<subseteq> {NUL}" for n by auto
      have o: "CHR ''0'' \<in> set (sensor_key c)" "CHR ''0'' \<in> set SYN_TEXT" for c by (simp_all add: sensor_key_def SYN_TEXT_def)
      have nul: "CHR ''0'' \<noteq> NUL" by (simp add: NUL_def)
      show "take 10 (replicate 30 NUL) \<notin> set (map sensor_key cs)"
      proof
        assume "take 10 (replicate 30 NUL) \<in> set (map sensor_key cs)"
        then obtain c where "take 10 (replicate 30 NUL) = sensor_key c" by (simp only: set_map) blast
        then show False using z [of 10] o(1) [of c] nul by (metis singletonD subsetD)
      qed
      show "take 18 (replicate 30 NUL) \<noteq> SYN_TEXT" using z [of 18] o(2) nul by (metis singletonD subsetD)
    qed
    then have "sensor_row (map sensor_key cs) (replicate 30 NUL) n = None" by (simp add: sensor_row_def del: set_map)
    then show ?thesis by (simp add: Nil fgets_def)
  next
    case (Cons e es')
    then have e: "in_range e" "list_all in_range es'" using Suc.prems by simp_all
    have f: "fgets 30 (concat (map event_line es)) = Some (event_line e, concat (map event_line es'), False)"
      by (simp add: Cons fgets_event)
    have "sensor_loop (map sensor_key cs) (Suc rows) (concat (map event_line es)) n =
        (if sensor_event cs e then sensor_loop (map sensor_key cs) rows (concat (map event_line es')) n
         else if e = syn_event then sensor_loop (map sensor_key cs) rows (concat (map event_line es')) (n + 1) else None)"
      unfolding sensor_loop.simps(2) f by (simp add: sensor_row_event [OF e(1) assms])
    then show ?thesis unfolding Suc.IH [OF e(2)] by (simp add: Cons)
  qed
qed simp

definition sensor_verdict :: "nat list \<Rightarrow> Getevent.input_event list \<Rightarrow> int" where
  "sensor_verdict cs es =
     (if 8 \<le> length es \<and> list_all (\<lambda>e. sensor_event cs e \<or> e = syn_event) (take 8 es) \<and>
         length (filter (\<lambda>e. \<not> sensor_event cs e) (take 8 es)) \<le> 3 then 0 else -1)"

lemma sensor_main_verdict:
  assumes "list_all in_range es" and "\<forall>c \<in> set cs. c < 65536" and "files name = Some (concat (map event_line es))"
  shows "sensor_main (map sensor_key cs) [name] files = sensor_verdict cs es"
  by (simp add: sensor_main_def assms(3) sensor_loop_events [OF assms(2,1)] sensor_verdict_def)

text \<open>C33. The tests of the accelerometer, the gyroscope and the compass succeed exactly when the log has at least eight
  events, the first eight of them are values of one of the sensor's three axes or empty reports, and at
  most three are empty reports.\<close>

theorem sensor_logs:
  assumes "list_all in_range es" and "files name = Some (concat (map event_line es))"
  shows "gsensor_main [name] files = sensor_verdict [0, 1, 2] es \<and>
    gyroscope_main [name] files = sensor_verdict [0x3c, 0x3d, 0x3e] es \<and>
    magnet_main [name] files = sensor_verdict [0x10, 0x11, 0xa] es"
proof -
  have k: "map sensor_key [0, 1, 2] = [''0003 0000 '', ''0003 0001 '', ''0003 0002 '']"
    "map sensor_key [0x3c, 0x3d, 0x3e] = [''0003 003c '', ''0003 003d '', ''0003 003e '']"
    "map sensor_key [0x10, 0x11, 0xa] = [''0003 0010 '', ''0003 0011 '', ''0003 000a '']" by code_simp+
  have "gsensor_main [name] files = sensor_verdict [0, 1, 2] es"
    using sensor_main_verdict [where files = files and name = name and cs = "[0, 1, 2]", OF assms(1) _ assms(2)] by (simp only: gsensor_main_def k) simp
  moreover have "gyroscope_main [name] files = sensor_verdict [0x3c, 0x3d, 0x3e] es"
    using sensor_main_verdict [where files = files and name = name and cs = "[0x3c, 0x3d, 0x3e]", OF assms(1) _ assms(2)] by (simp only: gyroscope_main_def k) simp
  moreover have "magnet_main [name] files = sensor_verdict [0x10, 0x11, 0xa] es"
    using sensor_main_verdict [where files = files and name = name and cs = "[0x10, 0x11, 0xa]", OF assms(1) _ assms(2)] by (simp only: magnet_main_def k) simp
  ultimately show ?thesis by blast
qed

definition sample_log :: "Getevent.input_event list" where
  "sample_log = [(3, 0, 0xfffffff0), (3, 1, 12), (3, 2, 900), (0, 0, 0), (3, 0, 1), (0, 0, 0), (3, 2, 901), (3, 0, 4), (1, 1, 1)]"

theorem sensor_logs_witness:
  "gsensor_main [''log''] (\<lambda>_. Some (concat (map event_line sample_log))) = 0"
proof -
  have r: "list_all in_range sample_log" by (simp add: sample_log_def in_range_def)
  have v: "sensor_verdict [0, 1, 2] sample_log = 0"
    by (simp add: sample_log_def sensor_verdict_def sensor_event_def abs_event_def syn_event_def)
  have "gsensor_main [''log''] (\<lambda>_. Some (concat (map event_line sample_log))) = sensor_verdict [0, 1, 2] sample_log"
    by (rule sensor_logs [where files = "\<lambda>_. Some (concat (map event_line sample_log))" and name = "''log''", OF r refl, THEN conjunct1])
  then show ?thesis unfolding v .
qed

section \<open>The microphone\<close>

text \<open>The bytes of a microphone that only delivers the pattern \<^verbatim>\<open>73 fa\<close>.\<close>

definition stuck :: "nat \<Rightarrow> bytes" where
  "stuck n = concat (replicate n [0x73, 0xfa])"

lemma stuck_nth: "k < n \<Longrightarrow> (stuck n @ r) ! (2 * k) = 0x73 \<and> (stuck n @ r) ! (2 * k + 1) = 0xfa"
proof (induction n arbitrary: k)
  case (Suc n)
  then show ?case by (cases k) (simp_all add: stuck_def)
qed simp

lemma mic_loop_stuck:
  "(\<And>i. i < k \<Longrightarrow> buf ! (j + 2 * i) = 0x73 \<and> buf ! (j + 2 * i + 1) = 0xfa) \<Longrightarrow> mic_loop k j buf n = n + int k"
proof (induction k arbitrary: j n)
  case (Suc k)
  have "buf ! (j + 2 + 2 * i) = 0x73 \<and> buf ! (j + 2 + 2 * i + 1) = 0xfa" if "i < k" for i
    using Suc.prems [of "Suc i"] that by (simp add: algebra_simps)
  from Suc.IH [OF this, of "n + 1"] show ?case using Suc.prems [of 0] by simp
qed simp

text \<open>A microphone that delivers nothing but the pattern passes the test: the loop has nine turns, so that the count is 9
  and never the 8 that means failure. (The device is read without failures.)\<close>

theorem stuck_mic_passes:
  assumes "fs_nodes s ''/dev/jz-dmic'' = Some (Dev (x # stuck n) o')" and "\<not> fs_denied s ''/dev/jz-dmic''" and "fs_plan s = []"
    and "9 \<le> n" and "n \<le> 500"
  shows "fst (mic_main buf s) = 0"
proof -
  let ?k = "int (fs_next s)"
  define s1 where "s1 = s\<lparr>fs_fds := (fs_fds s)(?k \<mapsto> (''/dev/jz-dmic'', 0)), fs_next := Suc (fs_next s)\<rparr>"
  have o1: "f_open ''/dev/jz-dmic'' O_RDONLY False s = (?k, s1)"
    using assms(1,2) by (simp add: f_open_def s1_def fun_upd_idem)
  have l: "length (stuck n) = 2 * n" by (induction n) (simp_all add: stuck_def)
  have "fst (f_read ?k 1024 s1) = Some (x # stuck n)"
    using assms(1,3,5) l by (simp add: f_read_def next_outcome_def s1_def Let_def)
  then obtain s2 where r: "f_read ?k 1024 s1 = (Some (x # stuck n), s2)" by (metis prod.collapse)
  have f: "fill buf (x # stuck n) = x # (stuck n @ drop (Suc (2 * n)) buf)" by (simp add: fill_def l)
  have "mic_loop 9 1 (x # (stuck n @ drop (Suc (2 * n)) buf)) 0 = 0 + int 9"
  proof (rule mic_loop_stuck)
    fix i :: nat assume "i < 9"
    then show "(x # (stuck n @ drop (Suc (2 * n)) buf)) ! (1 + 2 * i) = 0x73 \<and>
        (x # (stuck n @ drop (Suc (2 * n)) buf)) ! (1 + 2 * i + 1) = 0xfa"
      using stuck_nth [of i n "drop (Suc (2 * n)) buf"] assms(4) by simp
  qed
  then show ?thesis by (simp add: mic_main_def o1 r f)
qed

definition stuck_fs :: fs where
  "stuck_fs = \<lparr>fs_nodes = [''/dev/jz-dmic'' \<mapsto> Dev (0 # stuck 20) []], fs_denied = (\<lambda>_. False), fs_fds = Map.empty, fs_next = 3,
     fs_plan = [], fs_driver = (\<lambda>_ v. Some v), fs_ctl = []\<rparr>"

theorem stuck_mic_passes_witness: "fst (mic_main [] stuck_fs) = 0"
  by (rule stuck_mic_passes [where n = 20]) (simp_all add: stuck_fs_def)

section \<open>The receiver is switched off\<close>

lemma gps_found_four:
  assumes "length b = 4" and "length buf = 128" and "buf ! 4 = NUL"
  shows "gps_found (fill buf b) = Inr (take 3 b = ''$GP'' \<or> drop 1 b = ''$GP'')"
proof -
  obtain b0 b1 b2 b3 where b: "b = [b0, b1, b2, b3]" using four_chars [OF assms(1)] by blast
  have "drop 4 buf = buf ! 4 # drop 5 buf" using Cons_nth_drop_Suc [of 4 buf] assms(2) by simp
  moreover have "fill buf b = b @ drop 4 buf" by (simp add: fill_def assms(1))
  ultimately have f: "fill buf b = b0 # b1 # b2 # b3 # NUL # drop 5 buf" using assms(3) b by simp
  have d: "CHR ''$'' \<noteq> NUL" "CHR ''G'' \<noteq> NUL" "CHR ''P'' \<noteq> NUL" by (simp_all add: NUL_def)
  have n: "strstr [] ''$GP'' = None" by (rule strstr_short) simp
  show ?thesis
    unfolding f using d n by (auto simp: gps_found_def c_string_def b strstr_Cons)
qed

lemma write_str_device:
  fixes s :: fs
  assumes "fs_fds s fd = Some (path, pos)" and "fs_nodes s path = Some (Dev i o')" and "fs_plan s = []"
  shows "write_str fd t s = (True, s\<lparr>fs_nodes := (fs_nodes s)(path \<mapsto> Dev i (o' @ bytes_of t))\<rparr>)"
  using assms by (simp add: write_str_def f_write_def next_outcome_def Let_def)

text \<open>The receiver is switched off, on and off again whether or not the test succeeds, and it succeeds exactly when
  \<^verbatim>\<open>$GP\<close> begins the first four bytes or follows the first of them.
  (Both devices are there and nothing fails; the array has a NUL behind the four bytes, which is not assured.)\<close>

theorem gps_verdict:
  assumes "fs_nodes s RFKILL_STATE = Some (Dev i1 o1')" and "\<not> fs_denied s RFKILL_STATE"
    and "fs_nodes s TTYS1 = Some (Dev i2 o2')" and "\<not> fs_denied s TTYS1" and "fs_plan s = []"
    and "4 \<le> length i2" and "length buf = 128" and "buf ! 4 = NUL"
  shows "\<exists>s'. gps_main buf s = Inr (if take 3 (chars_of (take 4 i2)) = ''$GP'' \<or> drop 1 (chars_of (take 4 i2)) = ''$GP''
      then 0 else -1, s') \<and>
    fs_nodes s' RFKILL_STATE = Some (Dev i1 (o1' @ bytes_of (off_text @ on_text @ off_text)))"
proof -
  let ?k = "fs_next s"
  have ne: "RFKILL_STATE \<noteq> TTYS1" by (simp add: RFKILL_STATE_def TTYS1_def)
  define s1 where "s1 = s\<lparr>fs_fds := (fs_fds s)(int ?k \<mapsto> (RFKILL_STATE, 0)), fs_next := Suc ?k\<rparr>"
  define s2 where "s2 = s1\<lparr>fs_fds := (fs_fds s1)(int (Suc ?k) \<mapsto> (TTYS1, 0)), fs_next := Suc (Suc ?k)\<rparr>"
  define at where "at x (s' :: fs) \<longleftrightarrow> fs_fds s' (int ?k) = Some (RFKILL_STATE, 0) \<and> fs_nodes s' RFKILL_STATE = Some (Dev i1 x) \<and>
    fs_plan s' = []" for x s'
  have o1: "f_open RFKILL_STATE O_WRONLY False s = (int ?k, s1)"
    using assms(1,2) by (simp add: f_open_def s1_def fun_upd_idem)
  have o2: "f_open TTYS1 O_RDONLY False s1 = (int (Suc ?k), s2)"
    using assms(3,4) by (simp add: f_open_def s1_def s2_def fun_upd_idem)
  have w: "\<exists>s''. write_str (int ?k) t s' = (True, s'') \<and> at (x @ bytes_of t) s'' \<and>
      fs_fds s'' = fs_fds s' \<and> fs_nodes s'' TTYS1 = fs_nodes s' TTYS1" if "at x s'" for t x s'
    using that write_str_device [of s' "int ?k" RFKILL_STATE 0 i1 x t] ne by (simp add: at_def)
  have "at o1' s2" using assms(1,5) by (simp add: at_def s2_def s1_def)
  from w [OF this, of off_text] obtain s3 where s3: "write_str (int ?k) off_text s2 = (True, s3)" "at (o1' @ bytes_of off_text) s3"
    "fs_fds s3 = fs_fds s2" "fs_nodes s3 TTYS1 = fs_nodes s2 TTYS1" by blast
  from w [OF s3(2), of on_text] obtain s4 where s4: "write_str (int ?k) on_text s3 = (True, s4)"
    "at ((o1' @ bytes_of off_text) @ bytes_of on_text) s4" "fs_fds s4 = fs_fds s3" "fs_nodes s4 TTYS1 = fs_nodes s3 TTYS1" by blast
  define s5 where "s5 = s4\<lparr>fs_nodes := (fs_nodes s4)(TTYS1 \<mapsto> Dev (drop 4 i2) o2')\<rparr>"
  have n: "fs_nodes s4 TTYS1 = Some (Dev i2 o2')" using s4(4) s3(4) assms(3) by (simp add: s2_def s1_def)
  have r: "f_read (int (Suc ?k)) 4 s4 = (Some (take 4 i2), s5)"
  proof -
    have "fs_fds s4 (int (Suc ?k)) = Some (TTYS1, 0)" using s4(3) s3(3) by (simp add: s2_def)
    then show ?thesis using s4(2) n by (simp add: f_read_def next_outcome_def at_def s5_def)
  qed
  have "at ((o1' @ bytes_of off_text) @ bytes_of on_text) s5" using s4(2) ne by (simp add: at_def s5_def)
  from w [OF this, of off_text] obtain s6 where s6: "write_str (int ?k) off_text s5 = (True, s6)"
    "fs_nodes s6 RFKILL_STATE = Some (Dev i1 (o1' @ bytes_of (off_text @ on_text @ off_text)))"
    by (auto simp: at_def bytes_of_def)
  have "gps_found (fill buf (chars_of (take 4 i2))) =
      Inr (take 3 (chars_of (take 4 i2)) = ''$GP'' \<or> drop 1 (chars_of (take 4 i2)) = ''$GP'')"
    by (rule gps_found_four [OF _ assms(7,8)]) (use assms(6) in simp)
  then have "gps_main buf s = Inr (if take 3 (chars_of (take 4 i2)) = ''$GP'' \<or> drop 1 (chars_of (take 4 i2)) = ''$GP''
      then 0 else -1, s6)"
    using o1 o2 s3(1) s4(1) r s6(1) by (simp add: gps_main_def oh_yes_def oh_no_def)
  then show ?thesis using s6(2) by blast
qed

definition gps_fs :: fs where
  "gps_fs = \<lparr>fs_nodes = [RFKILL_STATE \<mapsto> Dev [] [], TTYS1 \<mapsto> Dev (bytes_of ''$GPGGA'') []], fs_denied = (\<lambda>_. False),
     fs_fds = Map.empty, fs_next = 3, fs_plan = [], fs_driver = (\<lambda>_ v. Some v), fs_ctl = []\<rparr>"

theorem gps_verdict_witness:
  "\<exists>s'. gps_main (replicate 128 NUL) gps_fs = Inr (0, s') \<and>
    fs_nodes s' RFKILL_STATE = Some (Dev [] (bytes_of (off_text @ on_text @ off_text)))"
proof -
  have n: "fs_nodes gps_fs RFKILL_STATE = Some (Dev [] [])" "fs_nodes gps_fs TTYS1 = Some (Dev (bytes_of ''$GPGGA'') [])"
    by (simp_all add: gps_fs_def RFKILL_STATE_def TTYS1_def)
  have t: "take 3 (chars_of (take 4 (bytes_of ''$GPGGA''))) = ''$GP''"
    using chars_bytes [of "''$GPG''"] by (simp add: bytes_of_def)
  show ?thesis
    using gps_verdict [OF n(1) _ n(2), of "replicate 128 NUL"] t by (simp add: gps_fs_def)
qed

end
