(* ===== verification/Spec2Isabelle.thy ===== *)
theory Spec2Isabelle
  imports Netctl DhcpUtils Dhcploop Widget Sndtest Sndduplex Vcom Getevent Motor Firmware Lcd Pages Drivers Sensors
begin

text \<open>
  A verification library for the pretest tools (\<^verbatim>\<open>src/jz_pretest\<close>): the C programs that the factory
  test of a small Android device (32-bit little-endian) runs one after the other. Each program stands
  alone; what they share is the kernel, which here is state that the definitions pass along.

  \<^bold>\<open>Parts and theories.\<close>

  \<^item> \<^verbatim>\<open>Prelude\<close>, \<^verbatim>\<open>Scan\<close>, \<^verbatim>\<open>CString\<close>: machine words, byte order, images of words in memory, C strings,
    \<open>snprintf\<close>, \<open>strtol\<close>, \<open>sscanf\<close>, \<open>strstr\<close>, \<open>fgets\<close>. \<^verbatim>\<open>Buffer\<close>: arrays accessed through pointers, where
    an access outside the array is the value \<open>Fault\<close>. \<^verbatim>\<open>Files\<close>: files, devices and descriptors. \<^verbatim>\<open>Sys\<close>: the
    network side of the kernel as a record of functions over a state of any type.

  \<^item> The network tool \<^verbatim>\<open>test_wifi/netcfg.c\<close> (\<^verbatim>\<open>Netcfg\<close>; its descriptors in \<^verbatim>\<open>Netctl\<close>) calls the library \<^verbatim>\<open>libnetutils\<close>: \<^verbatim>\<open>ifc_utils.c\<close> is in
    \<^verbatim>\<open>Netmask\<close> (masks), \<^verbatim>\<open>Ifc\<close> (sockets, flags, addresses of an interface), \<^verbatim>\<open>Route\<close> (routes, \<open>ifc_configure\<close>)
    and \<^verbatim>\<open>Addr6\<close> (addresses over netlink); \<^verbatim>\<open>packet.c\<close> in \<^verbatim>\<open>Checksum\<close> and \<^verbatim>\<open>Packet\<close>; \<^verbatim>\<open>dhcpmsg.[ch]\<close> in
    \<^verbatim>\<open>Dhcpmsg\<close>; \<^verbatim>\<open>dhcpclient.c\<close> in \<^verbatim>\<open>Dhcpdecode\<close> (decoder, dump, check of replies), \<^verbatim>\<open>Dhcpclient\<close> (the state
    machine, the loop over the system, \<open>do_dhcp\<close>) and \<^verbatim>\<open>Dhcploop\<close> (the loop refines the state machine);
    \<^verbatim>\<open>dhcp_utils.c\<close>, which drives the daemon through system properties, in \<^verbatim>\<open>DhcpUtils\<close>.

  \<^item> The touch screen tests \<^verbatim>\<open>test_keyboard\<close>: \<^verbatim>\<open>list.c\<close> in \<^verbatim>\<open>NodeList\<close> (lists of widgets on a heap of nodes),
    \<^verbatim>\<open>widget.[ch]\<close>, \<^verbatim>\<open>inputevent.c\<close> and the page \<^verbatim>\<open>pah8001_stop.c\<close> in \<^verbatim>\<open>Widget\<close>; two more programs
    over the widgets, \<^verbatim>\<open>test_touchscreen/test_touchbutton.c\<close> and \<^verbatim>\<open>test_current/test_current.c\<close>, in \<^verbatim>\<open>Pages\<close>.

  \<^item> Sound: \<^verbatim>\<open>test_speaker/sndkit_only_replay\<close> is in \<^verbatim>\<open>Wav\<close> (\<^verbatim>\<open>wav.[ch]\<close>), \<^verbatim>\<open>Sndkit\<close> (playing and recording) and
    \<^verbatim>\<open>Sndtool\<close> (conversions, options, \<open>main\<close>); its two threads and the end of \<open>main\<close> are a step relation in \<^verbatim>\<open>Sndthreads\<close>,
    and \<^verbatim>\<open>Sndduplex\<close> shows what every interleaving does to the one device; \<^verbatim>\<open>test_audio/oss_test/sndtest.c\<close> in \<^verbatim>\<open>Sndtest\<close>.

  \<^item> \<^verbatim>\<open>Vcom\<close>: \<^verbatim>\<open>test_write_vcom_vol/vcom.c\<close>, which finds a partition in the table and writes the voltage there.
    \<^verbatim>\<open>Getevent\<close>: the four programs that read a log of \<^verbatim>\<open>getevent\<close>. \<^verbatim>\<open>Motor\<close>: \<^verbatim>\<open>test_vibrator/test_drv2605\<close>.

  \<^item> \<^verbatim>\<open>Bluetooth\<close> and \<^verbatim>\<open>Firmware\<close>: \<^verbatim>\<open>test_bluetooth/test_bluetooth.c\<close>, the dialogue with the chip that \<open>main\<close> holds
    and the routines that \<open>main\<close> no longer calls (the download of the firmware). \<^verbatim>\<open>Lcd\<close>: \<^verbatim>\<open>test_lcd/test_lcd.c\<close>, which
    paints the mapped frame buffer.

  \<^item> \<^verbatim>\<open>Drivers\<close>: \<^verbatim>\<open>test_pah8001.c\<close> and \<^verbatim>\<open>test_frizz.c\<close>, which question a sensor through its driver, a parameter. \<^verbatim>\<open>Sensors\<close>:
    \<^verbatim>\<open>test_gsensor.c\<close>, \<^verbatim>\<open>test_gyroscope.c\<close>, \<^verbatim>\<open>test_magnet.c\<close> (logs of events), \<^verbatim>\<open>test_mic.c\<close>, \<^verbatim>\<open>test_uv.c\<close>,
    \<^verbatim>\<open>test_barometer.c\<close> and \<^verbatim>\<open>test_gps.c\<close> (files and devices).

  \<^bold>\<open>State and operations.\<close> A C structure is a record with the fields of the source, a function a definition of
  the same name (a suffix where the name is taken), a loop a recursive function named after it. A routine that
  uses the kernel is in the state monad over \<open>'k net\<close> (descriptors, \<open>errno\<close>, the kernel's own state \<open>'k\<close>), or
  passes the files explicitly. A failed call, a wrong argument or an early return is a value (an option, or
  the number the code returns); an access outside an array is a value of its own, so that a theorem about a
  result also says that no such access happened. For the DHCP messages this holds of every access (\<open>rd\<close>,
  \<open>wr\<close> of \<^verbatim>\<open>Prelude\<close>): decoder, builders, the copies to the text buffer of the logger, the end marks stored in \<open>sname\<close>
  and \<open>file\<close>. What an uninitialised array holds is an argument or, for the buffer of the logger, a part of the
  client's state (\<open>cl_stack\<close>). Arithmetic of fixed width is on words.

  \<^bold>\<open>What the groups of lemmas show.\<close>

  \<^item> DHCP: a frame built is accepted with the same bytes (\<open>frame_roundtrip\<close>), the checksum loops compute the
    ones' complement sum, the decoder equals a list parser and reads back an encoded lease, the client has an
    invariant (\<open>client_inv\<close>, preserved by every iteration), ends after enough timeouts, takes a lease only from a
    valid acknowledgement. \<open>dhcp_step_memory_safe\<close> says exactly which datagrams make an iteration leave an array: those
    whose UDP length is not that of the packet, and messages with a hardware address of no length
    (\<open>dump_prints_uninitialised\<close>). The loop over any system is a run of this machine, and the system is left as the
    end of the run has it: configured, closed, or neither (\<open>do_dhcp_refines\<close>).
    The locales \<open>byte_order\<close> and \<open>codec\<close> hold the laws of memory images.
  \<^item> Interfaces and routes: requests made of the kernel, results on every path; the control sockets that are open
    after the tool are those that were open before, for every kernel whose \<open>socket\<close> and \<open>close\<close> do what they are
    documented to do (\<open>netcfg_closes_socket\<close>).
  \<^item> Widgets: the list routines refine lists, the button selected is that under the last point, or with fast touch
    the first one touched, which is not what the comment of \<^verbatim>\<open>widget.h\<close> says of a touch that slides (\<open>touch_selects_last\<close>
    says where they differ); the mutex is released on every path.
  \<^item> Sound and files: headers are parsed back, conversions of width and format are undone, playing
    gives the device the bytes of the file however the transfers are cut. A thread stepped alone is its routine
    (\<open>threads_are_routines\<close>); playing and recording at once, in any order of the steps, do not disturb each other
    (\<open>threads_share_device\<close>, from the command line \<open>sndkit_full_duplex\<close>, by rely and guarantee: locales \<open>copy_thread\<close>, \<open>worker\<close>, \<open>two_workers\<close>) and end within a
    bound of steps (\<open>threads_end\<close>); a recorder returns only if the device delivers enough (\<open>record_ends_iff\<close>).
  \<^item> Logs and tables: printing then reading gives back what was printed; results for short input.
  \<^item> Pages: the grid of squares is an invariant of listening, and the program ends with the touch that completes it
    (\<open>touchbutton_ends\<close>); the reading that decides (\<open>current_verdict\<close>).
  \<^item> Screen: painting a rectangle changes exactly its pixels and stays in the memory, so each picture is complete when
    it is shown (\<open>lcd_pictures\<close>); with other pixel sizes the memory is left.
  \<^item> Bluetooth and sensors: exit status and bytes sent as a function of the events of the line or of what the driver
    answers; a sensor or receiver that was switched on is switched off on every path.

  \<^bold>\<open>Fuel and bounds.\<close> \<open>do_dhcp\<close> takes fuel for the turns of its loop, because \<open>poll\<close> may report an error that is
  retried for ever; \<open>do_dhcp_refines\<close> describes its result for every fuel, and by \<open>dhcp_run_ends\<close> no
  run is still going after seven timeouts, so that a system which lets the time pass is served with fuel for its events. The
  loops of \<open>list.c\<close> are partial functions that return \<open>None\<close> on a cyclic list; the refinement lemmas show that
  they return on a list. How much a \<open>read\<close> or a \<open>write\<close> transfers is a plan (a list of outcomes) in the state of the
  files, and the theorems hold for every plan; a loop over it needs no fuel because every outcome either
  transfers something or ends the loop. In \<^verbatim>\<open>Sndtest\<close> the turn in which the alarm comes is an argument. The loops of
  \<^verbatim>\<open>Bluetooth\<close> and \<^verbatim>\<open>Firmware\<close> that wait for the chip are partial functions, too: \<open>None\<close> is waiting for ever. Endless loops
  over events or readings (\<^verbatim>\<open>Widget\<close>, \<^verbatim>\<open>Pages\<close>) run over the list of those of a run, and \<open>None\<close> is a program that is still
  waiting at its end.

  \<^bold>\<open>Not modelled.\<close> Text written to the log or the terminal, except where a program's output is its result
  (the readers of logs, \<open>netcfg\<close>). Drawing is a sequence of effects; the graphics library, the resolver,
  \<open>getopt\<close>, the property service and the drivers are parameters. The steps of \<open>sndkit\<close>'s threads are its system calls,
  which the kernel is taken to serve one at a time. The vendored
  \<^verbatim>\<open>soundcard.h\<close>, and the shell scripts that start the programs. With these every program of the directory is modelled.
\<close>

end
